(* ===== verification/Prelude.thy ===== *)
theory Prelude
  imports Main
begin

text \<open>
  Shared vocabulary of the development: results of fallible Python code as a sum type
  (\<open>Inl\<close> the exception, \<open>Inr\<close> the returned value) with the combinators that thread an
  exception through a sequence of calls, loops that stop at the first exception, the
  association-list reading of Python dictionaries, and the generic lemmas and lemma
  collections the component theories use.
\<close>

section \<open>Lemma collections\<close>

named_theorems result_simps \<open>how results are threaded through a sequence of calls\<close>
named_theorems total_intros \<open>calls that return for every argument\<close>
named_theorems evals \<open>definitions the simplifier unfolds to evaluate a model at a concrete input\<close>
named_theorems guard_simps \<open>unfolding of the guards of a handler\<close>

section \<open>Results and exceptions\<close>

type_synonym ('e, 'a) result = "'e + 'a"

abbreviation Raise :: "'e \<Rightarrow> ('e, 'a) result" where
  "Raise e \<equiv> Inl e"

abbreviation Return :: "'a \<Rightarrow> ('e, 'a) result" where
  "Return x \<equiv> Inr x"

definition bindR :: "('e, 'a) result \<Rightarrow> ('a \<Rightarrow> ('e, 'b) result) \<Rightarrow> ('e, 'b) result" where
  "bindR m f = (case m of Inl e \<Rightarrow> Inl e | Inr x \<Rightarrow> f x)"

definition requireR :: "bool \<Rightarrow> 'e \<Rightarrow> ('e, unit) result" where
  "requireR b e = (if b then Return () else Raise e)"

definition map_errorR :: "('e \<Rightarrow> 'f) \<Rightarrow> ('e, 'a) result \<Rightarrow> ('f, 'a) result" where
  "map_errorR h m = (case m of Inl e \<Rightarrow> Inl (h e) | Inr x \<Rightarrow> Inr x)"

definition returns :: "('e, 'a) result \<Rightarrow> bool" where
  "returns m = (case m of Inl _ \<Rightarrow> False | Inr _ \<Rightarrow> True)"

lemma bindR_simps [simp, result_simps]:
  "bindR (Inl e) f = Inl e"
  "bindR (Inr x) f = f x"
  by (simp_all add: bindR_def)

lemma returns_simps [simp, result_simps]:
  "returns (Inl e) = False"
  "returns (Inr x) = True"
  by (simp_all add: returns_def)

lemma map_errorR_simps [simp, result_simps]:
  "map_errorR h (Inl e) = Inl (h e)"
  "map_errorR h (Inr x) = Inr x"
  by (simp_all add: map_errorR_def)

lemma requireR_Inr_iff [simp, result_simps]: "requireR b e = Inr u \<longleftrightarrow> b"
  by (simp add: requireR_def)

lemma requireR_Inl_iff [simp, result_simps]: "requireR b e = Inl e' \<longleftrightarrow> \<not> b \<and> e' = e"
  by (auto simp add: requireR_def)

lemma requireR_True [simp]: "requireR True e = Inr ()"
  by (simp add: requireR_def)

lemma requireR_False [simp]: "requireR False e = Inl e"
  by (simp add: requireR_def)

lemma bindR_Inr_iff [result_simps]:
  "bindR m f = Inr y \<longleftrightarrow> (\<exists>x. m = Inr x \<and> f x = Inr y)"
  by (cases m) auto

lemma bindR_Inl_iff [result_simps]:
  "bindR m f = Inl e \<longleftrightarrow> m = Inl e \<or> (\<exists>x. m = Inr x \<and> f x = Inl e)"
  by (cases m) auto

lemma map_errorR_Inr_iff [simp, result_simps]: "map_errorR h m = Inr y \<longleftrightarrow> m = Inr y"
  by (cases m) auto

lemma map_errorR_Inl_iff [result_simps]:
  "map_errorR h m = Inl f \<longleftrightarrow> (\<exists>e. m = Inl e \<and> f = h e)"
  by (cases m) auto

lemma returns_iff: "returns m \<longleftrightarrow> (\<exists>x. m = Inr x)"
  by (cases m) auto

lemma returns_bindR [total_intros]:
  "returns m \<Longrightarrow> (\<And>x. m = Inr x \<Longrightarrow> returns (f x)) \<Longrightarrow> returns (bindR m f)"
  by (cases m) auto

lemma returns_bindR_iff:
  "returns (bindR m f) \<longleftrightarrow> (\<exists>x. m = Inr x \<and> returns (f x))"
  by (cases m) auto

lemma returnsE:
  assumes "returns m"
  obtains x where "m = Inr x"
  using assms by (auto simp: returns_iff)

lemma returns_if [total_intros]:
  "(b \<Longrightarrow> returns m) \<Longrightarrow> (\<not> b \<Longrightarrow> returns n) \<Longrightarrow> returns (if b then m else n)"
  by simp

subsection \<open>Loops that stop at the first exception\<close>

text \<open>\<open>[f(x) for x in xs]\<close>, \<open>for x in xs: f(x)\<close>, and the short-circuiting
  \<open>all(f(x) for x in xs)\<close> and \<open>any(f(x) for x in xs)\<close> when \<open>f\<close> may raise.\<close>

fun mapR :: "('a \<Rightarrow> ('e, 'b) result) \<Rightarrow> 'a list \<Rightarrow> ('e, 'b list) result" where
  "mapR f [] = Return []"
| "mapR f (x # xs) = bindR (f x) (\<lambda>y. bindR (mapR f xs) (\<lambda>ys. Return (y # ys)))"

fun eachR :: "('a \<Rightarrow> ('e, unit) result) \<Rightarrow> 'a list \<Rightarrow> ('e, unit) result" where
  "eachR f [] = Return ()"
| "eachR f (x # xs) = bindR (f x) (\<lambda>_. eachR f xs)"

fun allR :: "('a \<Rightarrow> ('e, bool) result) \<Rightarrow> 'a list \<Rightarrow> ('e, bool) result" where
  "allR f [] = Return True"
| "allR f (x # xs) = bindR (f x) (\<lambda>b. if b then allR f xs else Return False)"

fun anyR :: "('a \<Rightarrow> ('e, bool) result) \<Rightarrow> 'a list \<Rightarrow> ('e, bool) result" where
  "anyR f [] = Return False"
| "anyR f (x # xs) = bindR (f x) (\<lambda>b. if b then Return True else anyR f xs)"

lemma returns_mapR [total_intros]:
  "(\<And>x. x \<in> set xs \<Longrightarrow> returns (f x)) \<Longrightarrow> returns (mapR f xs)"
  by (induction xs) (auto intro!: returns_bindR)

lemma returns_allR [total_intros]:
  "(\<And>x. x \<in> set xs \<Longrightarrow> returns (f x)) \<Longrightarrow> returns (allR f xs)"
  by (induction xs) (auto intro!: returns_bindR)

lemma returns_anyR [total_intros]:
  "(\<And>x. x \<in> set xs \<Longrightarrow> returns (f x)) \<Longrightarrow> returns (anyR f xs)"
  by (induction xs) (auto intro!: returns_bindR)

lemma eachR_Inr_iff [result_simps]:
  "eachR f xs = Inr u \<longleftrightarrow> (\<forall>x \<in> set xs. f x = Inr ())"
  by (induction xs) (auto simp: result_simps)

lemma mapR_Inr_iff:
  "mapR f xs = Inr ys \<longleftrightarrow> list_all2 (\<lambda>x y. f x = Inr y) xs ys"
  by (induction xs arbitrary: ys) (auto simp: result_simps list_all2_Cons1)

lemma mapR_length: "mapR f xs = Inr ys \<Longrightarrow> length ys = length xs"
  by (auto simp: mapR_Inr_iff dest: list_all2_lengthD)

lemma mapR_pure: "(\<And>x. x \<in> set xs \<Longrightarrow> f x = Inr (g x)) \<Longrightarrow> mapR f xs = Inr (map g xs)"
  by (induction xs) auto

lemma allR_pure:
  "(\<And>x. x \<in> set xs \<Longrightarrow> f x = Inr (g x)) \<Longrightarrow> allR f xs = Inr (list_all g xs)"
  by (induction xs) auto

lemma anyR_pure:
  "(\<And>x. x \<in> set xs \<Longrightarrow> f x = Inr (g x)) \<Longrightarrow> anyR f xs = Inr (list_ex g xs)"
  by (induction xs) auto

lemma allR_True_iff: "allR f xs = Inr True \<longleftrightarrow> (\<forall>x \<in> set xs. f x = Inr True)"
  by (induction xs) (auto simp: result_simps split: if_splits)

section \<open>Dictionaries as association lists\<close>

text \<open>A Python dictionary keeps its insertion order, which iteration, printing and error
  messages show. It is an association list with distinct keys; \<open>map_of\<close> is \<open>d.get\<close>,
  and \<open>dict_set\<close> is \<open>d[k] = v\<close>: an existing key keeps its position.\<close>

fun dict_set :: "('k \<times> 'v) list \<Rightarrow> 'k \<Rightarrow> 'v \<Rightarrow> ('k \<times> 'v) list" where
  "dict_set [] k v = [(k, v)]"
| "dict_set ((k', v') # d) k v = (if k' = k then (k, v) # d else (k', v') # dict_set d k v)"

definition dict_has :: "('k \<times> 'v) list \<Rightarrow> 'k \<Rightarrow> bool" where
  "dict_has d k = (map_of d k \<noteq> None)"

definition dict_wf :: "('k \<times> 'v) list \<Rightarrow> bool" where
  "dict_wf d = distinct (map fst d)"

lemma map_of_dict_set [simp]: "map_of (dict_set d k v) = (map_of d)(k \<mapsto> v)"
  by (induction d k v rule: dict_set.induct) auto

lemma set_keys_dict_set: "fst ` set (dict_set d k v) = insert k (fst ` set d)"
  by (induction d k v rule: dict_set.induct) auto

lemma dict_wf_set [intro]: "dict_wf d \<Longrightarrow> dict_wf (dict_set d k v)"
  unfolding dict_wf_def
  by (induction d k v rule: dict_set.induct) (auto simp: set_keys_dict_set)

lemma dict_has_iff: "dict_has d k \<longleftrightarrow> k \<in> fst ` set d"
  by (simp add: dict_has_def map_of_eq_None_iff)

lemma dict_has_Cons [simp]: "dict_has ((k', v) # d) k = (k' = k \<or> dict_has d k)"
  by (auto simp: dict_has_def)

lemma dict_has_Nil [simp]: "dict_has [] k = False"
  by (simp add: dict_has_def)

lemma dict_hasE:
  assumes "dict_has d k"
  obtains v where "map_of d k = Some v"
  using assms by (auto simp: dict_has_def)

lemma map_of_in_set: "map_of d k = Some v \<Longrightarrow> (k, v) \<in> set d"
  by (rule map_of_SomeD)

lemma dict_wf_map_of: "dict_wf d \<Longrightarrow> (k, v) \<in> set d \<Longrightarrow> map_of d k = Some v"
  by (simp add: dict_wf_def map_of_eq_Some_iff)

section \<open>Finite sums over maps\<close>

text \<open>The total of a counter dictionary: what \<open>sum(d.values())\<close> is.\<close>

definition map_total :: "('k \<rightharpoonup> int) \<Rightarrow> int" where
  "map_total m = (\<Sum>k \<in> dom m. the (m k))"

definition get_count :: "('k \<rightharpoonup> int) \<Rightarrow> 'k \<Rightarrow> int" where
  "get_count m k = (case m k of None \<Rightarrow> 0 | Some c \<Rightarrow> c)"

definition bump_count :: "('k \<rightharpoonup> int) \<Rightarrow> 'k \<Rightarrow> ('k \<rightharpoonup> int)" where
  "bump_count m k = m(k \<mapsto> get_count m k + 1)"

lemma get_count_bump [simp]:
  "get_count (bump_count m k) j = get_count m j + (if j = k then 1 else 0)"
  by (simp add: get_count_def bump_count_def)

lemma dom_bump_count [simp]: "dom (bump_count m k) = insert k (dom m)"
  by (simp add: bump_count_def)

lemma map_total_empty [simp]: "map_total Map.empty = 0"
  by (simp add: map_total_def)

lemma map_total_bump:
  assumes "finite (dom m)"
  shows "map_total (bump_count m k) = map_total m + 1"
proof -
  have rest: "(\<Sum>j \<in> dom m - {k}. the (bump_count m k j)) = (\<Sum>j \<in> dom m - {k}. the (m j))"
    by (rule sum.cong) (auto simp: bump_count_def)
  have old: "get_count m k + (\<Sum>j \<in> dom m - {k}. the (m j)) = map_total m"
    using assms by (cases "k \<in> dom m")
      (auto simp: map_total_def get_count_def sum.remove [of "dom m" k] split: option.splits)
  have "map_total (bump_count m k)
      = the (bump_count m k k) + (\<Sum>j \<in> dom m - {k}. the (bump_count m k j))"
    using assms by (simp add: map_total_def sum.insert_remove)
  also have "\<dots> = map_total m + 1"
    using old by (simp only: rest) (simp add: bump_count_def)
  finally show ?thesis .
qed

lemma get_count_le_total:
  assumes "finite (dom m)" "\<And>k c. m k = Some c \<Longrightarrow> 0 \<le> c" "0 \<le> map_total m"
  shows "get_count m k \<le> map_total m"
proof (cases "m k")
  case (Some c)
  then have "the (m k) \<le> (\<Sum>j \<in> dom m. the (m j))"
    using assms(1,2) by (intro member_le_sum) auto
  then show ?thesis by (simp add: get_count_def map_total_def Some)
qed (simp add: get_count_def assms(3))

section \<open>Lists\<close>

lemma list_ex_iff_set: "list_ex P xs \<longleftrightarrow> (\<exists>x \<in> set xs. P x)"
  by (simp add: list_ex_iff)

lemma list_all_iff_set: "list_all P xs \<longleftrightarrow> (\<forall>x \<in> set xs. P x)"
  by (simp add: list_all_iff)

lemma takeWhile_append_dropWhile [simp]: "takeWhile P xs @ dropWhile P xs = xs"
  by (rule takeWhile_dropWhile_id)

lemma dropWhile_hd: "dropWhile P xs = y # ys \<Longrightarrow> \<not> P y"
  by (metis hd_dropWhile list.sel(1) list.distinct(1))

end
