(* ===== verification/PyText.thy ===== *)
theory PyText
  imports Prelude "HOL-Library.Char_ord" "HOL-Library.List_Lexorder"
begin

text \<open>
  Python's \<open>str\<close> as the program uses it. A string of the model is a list of code points
  below 256 (Latin-1), each a \<open>char\<close>; the case and white-space tables are Python's tables on
  that range. Two of its letters have an upper case outside it (the micro sign and y with
  diaeresis); they are their own upper case here, which changes no comparison of two
  upper-cased strings of the range, the only use the program makes of \<open>upper\<close>.
\<close>

section \<open>Characters\<close>

abbreviation code :: "char \<Rightarrow> nat" where
  "code c \<equiv> of_char c"

definition is_space :: "char \<Rightarrow> bool" where
  "is_space c = (9 \<le> code c \<and> code c \<le> 13 \<or> 28 \<le> code c \<and> code c \<le> 32 \<or>
     code c = 133 \<or> code c = 160)"

definition is_ascii :: "char \<Rightarrow> bool" where
  "is_ascii c = (code c < 128)"

definition is_digit :: "char \<Rightarrow> bool" where
  "is_digit c = (48 \<le> code c \<and> code c \<le> 57)"

definition is_alpha_ascii :: "char \<Rightarrow> bool" where
  "is_alpha_ascii c = (65 \<le> code c \<and> code c \<le> 90 \<or> 97 \<le> code c \<and> code c \<le> 122)"

definition lower_char :: "char \<Rightarrow> char" where
  "lower_char c =
     (if 65 \<le> code c \<and> code c \<le> 90 \<or> 192 \<le> code c \<and> code c \<le> 222 \<and> code c \<noteq> 215
      then char_of (code c + 32) else c)"

definition upper_char :: "char \<Rightarrow> string" where
  "upper_char c =
     (if 97 \<le> code c \<and> code c \<le> 122 \<or> 224 \<le> code c \<and> code c \<le> 254 \<and> code c \<noteq> 247
      then [char_of (code c - 32)]
      else if code c = 223 then ''SS'' else [c])"

definition lower_ascii_char :: "char \<Rightarrow> char" where
  "lower_ascii_char c = (if 65 \<le> code c \<and> code c \<le> 90 then char_of (code c + 32) else c)"

section \<open>Strings\<close>

definition str_lower :: "string \<Rightarrow> string" where
  "str_lower s = map lower_char s"

definition str_upper :: "string \<Rightarrow> string" where
  "str_upper s = concat (map upper_char s)"

definition str_lstrip :: "(char \<Rightarrow> bool) \<Rightarrow> string \<Rightarrow> string" where
  "str_lstrip P s = dropWhile P s"

definition str_rstrip :: "(char \<Rightarrow> bool) \<Rightarrow> string \<Rightarrow> string" where
  "str_rstrip P s = rev (dropWhile P (rev s))"

definition str_strip :: "string \<Rightarrow> string" where
  "str_strip s = str_rstrip is_space (str_lstrip is_space s)"

fun starts_with :: "string \<Rightarrow> string \<Rightarrow> bool" where
  "starts_with [] s = True"
| "starts_with (p # ps) [] = False"
| "starts_with (p # ps) (c # cs) = (p = c \<and> starts_with ps cs)"

definition ends_with :: "string \<Rightarrow> string \<Rightarrow> bool" where
  "ends_with suf s = starts_with (rev suf) (rev s)"

fun has_sub :: "string \<Rightarrow> string \<Rightarrow> bool" where
  "has_sub p [] = (p = [])"
| "has_sub p (c # cs) = (starts_with p (c # cs) \<or> has_sub p cs)"

text \<open>\<open>s.partition(sep)\<close> and \<open>s.rpartition(sep)\<close> for a one-character separator: the
  part before it, whether it was found, the part after it.\<close>

fun partition_at :: "char \<Rightarrow> string \<Rightarrow> string \<times> bool \<times> string" where
  "partition_at a [] = ([], False, [])"
| "partition_at a (c # cs) =
     (if c = a then ([], True, cs)
      else case partition_at a cs of (x, found, y) \<Rightarrow> (c # x, found, y))"

definition rpartition_at :: "char \<Rightarrow> string \<Rightarrow> string \<times> bool \<times> string" where
  "rpartition_at a s =
     (case partition_at a (rev s) of (x, found, y) \<Rightarrow>
        if found then (rev y, True, rev x) else ([], False, s))"

text \<open>\<open>s.split(sep)\<close> for a one-character separator.\<close>

fun split_on :: "char \<Rightarrow> string \<Rightarrow> string list" where
  "split_on a [] = [[]]"
| "split_on a (c # cs) =
     (if c = a then [] # split_on a cs
      else case split_on a cs of [] \<Rightarrow> [[c]] | w # ws \<Rightarrow> (c # w) # ws)"

fun join_with :: "string \<Rightarrow> string list \<Rightarrow> string" where
  "join_with sep [] = []"
| "join_with sep [w] = w"
| "join_with sep (w # v # ws) = w @ sep @ join_with sep (v # ws)"

text \<open>\<open>s.split(maxsplit=1)[0]\<close> on a string that is not blank: its first word.\<close>

definition first_word :: "string \<Rightarrow> string" where
  "first_word s = takeWhile (\<lambda>c. \<not> is_space c) (dropWhile is_space s)"

definition blank :: "string \<Rightarrow> bool" where
  "blank s = list_all is_space s"

section \<open>Numerals\<close>

definition digit_char :: "nat \<Rightarrow> char" where
  "digit_char d = char_of (48 + d)"

definition digit_val :: "char \<Rightarrow> nat" where
  "digit_val c = code c - 48"

fun nat_text :: "nat \<Rightarrow> string" where
  "nat_text n = (if n < 10 then [digit_char n] else nat_text (n div 10) @ [digit_char (n mod 10)])"

declare nat_text.simps [simp del]

definition int_text :: "int \<Rightarrow> string" where
  "int_text i = (if i < 0 then CHR ''-'' # nat_text (nat (- i)) else nat_text (nat i))"

definition text_nat :: "string \<Rightarrow> nat" where
  "text_nat s = foldl (\<lambda>n c. 10 * n + digit_val c) 0 s"

definition all_digits :: "string \<Rightarrow> bool" where
  "all_digits s = (s \<noteq> [] \<and> list_all is_digit s)"

text \<open>\<open>int(text, base)\<close> for the bases 8, 10 and 16 and text made of digits of the base.\<close>

definition hex_val :: "char \<Rightarrow> nat" where
  "hex_val c =
     (if is_digit c then code c - 48
      else if 97 \<le> code c \<and> code c \<le> 102 then code c - 87
      else if 65 \<le> code c \<and> code c \<le> 70 then code c - 55 else 0)"

definition is_hex :: "char \<Rightarrow> bool" where
  "is_hex c = (is_digit c \<or> 97 \<le> code c \<and> code c \<le> 102 \<or> 65 \<le> code c \<and> code c \<le> 70)"

definition is_octal :: "char \<Rightarrow> bool" where
  "is_octal c = (48 \<le> code c \<and> code c \<le> 55)"

definition text_nat_base :: "nat \<Rightarrow> string \<Rightarrow> nat" where
  "text_nat_base b s = foldl (\<lambda>n c. b * n + hex_val c) 0 s"

section \<open>Evaluation\<close>

text \<open>\<open>nat_text\<close> is unfolded at literals only.\<close>

lemma nat_text_numeral:
  "nat_text (numeral k) =
     (if numeral k < (10::nat) then [digit_char (numeral k)]
      else nat_text (numeral k div 10) @ [digit_char (numeral k mod 10)])"
  "nat_text 0 = ''0''" "nat_text (Suc 0) = ''1''" "nat_text 1 = ''1''"
  by (subst nat_text.simps; simp add: digit_char_def char_of_def bit_Suc_0_iff)+

lemma bit_Suc_0_nat: "bit (Suc 0) n = (n = 0)"
  by (auto simp: bit_Suc_0_iff)

declare char_of_def [evals] bit_Suc_0_nat [evals] is_space_def [evals] is_ascii_def [evals]
  is_digit_def [evals] is_alpha_ascii_def [evals] lower_char_def [evals] upper_char_def [evals]
  lower_ascii_char_def [evals] str_lower_def [evals] str_upper_def [evals]
  str_lstrip_def [evals] str_rstrip_def [evals] str_strip_def [evals] ends_with_def [evals]
  rpartition_at_def [evals] first_word_def [evals] blank_def [evals] digit_char_def [evals]
  digit_val_def [evals] nat_text_numeral [evals] int_text_def [evals] text_nat_def [evals]
  all_digits_def [evals] hex_val_def [evals] is_hex_def [evals] is_octal_def [evals]
  text_nat_base_def [evals]

section \<open>Lemmas\<close>

lemma starts_with_iff: "starts_with p s \<longleftrightarrow> (\<exists>r. s = p @ r)"
  by (induction p s rule: starts_with.induct) auto

lemma starts_with_append [simp]: "starts_with p (p @ r)"
  by (auto simp: starts_with_iff)

lemma starts_with_trans: "starts_with a b \<Longrightarrow> starts_with b c \<Longrightarrow> starts_with a c"
  by (auto simp: starts_with_iff)

lemma starts_with_refl [simp]: "starts_with s s"
  by (auto simp: starts_with_iff)

lemma ends_with_iff: "ends_with p s \<longleftrightarrow> (\<exists>r. s = r @ p)"
proof -
  have "(\<exists>r. rev s = rev p @ r) \<longleftrightarrow> (\<exists>r. s = r @ p)"
    by (metis rev_append rev_rev_ident)
  then show ?thesis by (simp add: ends_with_def starts_with_iff)
qed

lemma has_sub_iff: "has_sub p s \<longleftrightarrow> (\<exists>a b. s = a @ p @ b)"
proof (induction s)
  case Nil
  then show ?case by simp
next
  case (Cons c cs)
  have "(\<exists>a b. c # cs = a @ p @ b) \<longleftrightarrow> (\<exists>b. c # cs = p @ b) \<or> (\<exists>a b. cs = a @ p @ b)"
    by (metis append_Cons append_Nil list.exhaust list.inject)
  then show ?case
    by (simp add: Cons.IH starts_with_iff)
qed

lemma partition_at_cases:
  "partition_at a s =
     (if a \<in> set s then (takeWhile (\<lambda>c. c \<noteq> a) s, True, tl (dropWhile (\<lambda>c. c \<noteq> a) s))
      else (s, False, []))"
  by (induction s) auto

lemma partition_at_found:
  "partition_at a s = (x, True, y) \<longleftrightarrow> s = x @ a # y \<and> a \<notin> set x"
proof
  assume p: "partition_at a s = (x, True, y)"
  then have a: "a \<in> set s" by (auto simp: partition_at_cases split: if_splits)
  obtain u v where s: "s = u @ a # v" "a \<notin> set u"
    using split_list_first [OF a] by blast
  then have "takeWhile (\<lambda>c. c \<noteq> a) s = u" "dropWhile (\<lambda>c. c \<noteq> a) s = a # v"
    by (auto simp: takeWhile_append dropWhile_append)
  with p a s show "s = x @ a # y \<and> a \<notin> set x"
    by (simp add: partition_at_cases)
next
  assume s: "s = x @ a # y \<and> a \<notin> set x"
  then have "takeWhile (\<lambda>c. c \<noteq> a) s = x" "dropWhile (\<lambda>c. c \<noteq> a) s = a # y"
    by (auto simp: takeWhile_append dropWhile_append)
  with s show "partition_at a s = (x, True, y)"
    by (simp add: partition_at_cases)
qed

lemma partition_at_missing:
  "partition_at a s = (x, False, y) \<longleftrightarrow> a \<notin> set s \<and> x = s \<and> y = []"
  by (auto simp: partition_at_cases)

lemma partition_at_length:
  "partition_at a s = (x, True, y) \<Longrightarrow> length y < length s"
  by (auto simp: partition_at_found)

lemma rpartition_at_found:
  "rpartition_at a s = (x, True, y) \<longleftrightarrow> s = x @ a # y \<and> a \<notin> set y"
proof -
  have "rpartition_at a s = (x, True, y) \<longleftrightarrow> partition_at a (rev s) = (rev y, True, rev x)"
    by (auto simp: rpartition_at_def split: prod.splits if_splits)
  also have "\<dots> \<longleftrightarrow> rev s = rev y @ a # rev x \<and> a \<notin> set y"
    by (simp add: partition_at_found)
  also have "rev s = rev y @ a # rev x \<longleftrightarrow> s = x @ a # y"
    by (metis append.assoc append_Cons append_Nil rev.simps(2) rev_append rev_rev_ident)
  finally show ?thesis .
qed

lemma rpartition_at_missing: "a \<notin> set s \<Longrightarrow> rpartition_at a s = ([], False, s)"
  using partition_at_missing [of a "rev s" "rev s" "[]"] by (simp add: rpartition_at_def)

lemma split_on_ne [simp]: "split_on a s \<noteq> []"
  by (induction s) (auto split: list.splits)

lemma split_on_no_sep: "w \<in> set (split_on a s) \<Longrightarrow> a \<notin> set w"
  by (induction s arbitrary: w) (auto split: list.splits if_splits)

lemma split_on_single: "a \<notin> set s \<Longrightarrow> split_on a s = [s]"
  by (induction s) auto

lemma split_on_append:
  "a \<notin> set s \<Longrightarrow> split_on a (s @ a # t) = s # split_on a t"
  by (induction s) auto

lemma split_on_sep: "split_on a (x @ a # y) = split_on a x @ split_on a y"
  by (induction x) (auto split: list.splits)

lemma rstrip_keeps: "\<not> P c \<Longrightarrow> \<exists>z. str_rstrip P (x @ c # y) = x @ c # z"
proof -
  assume c: "\<not> P c"
  have "dropWhile P (rev y @ c # rev x) = dropWhile P (rev y) @ c # rev x"
    using c by (induction "rev y") (auto simp: dropWhile_append)
  then show ?thesis by (simp add: str_rstrip_def)
qed

lemma lstrip_keeps: "\<not> P c \<Longrightarrow> \<exists>z. str_lstrip P (x @ c # y) = z @ c # y"
  by (induction x) (auto simp: str_lstrip_def)

lemma join_split: "join_with [a] (split_on a s) = s"
proof (induction s)
  case Nil
  then show ?case by simp
next
  case (Cons c cs)
  obtain w ws where sp: "split_on a cs = w # ws"
    by (cases "split_on a cs") auto
  show ?case
    using Cons.IH sp by (cases ws) auto
qed

lemma split_join:
  "ws \<noteq> [] \<Longrightarrow> (\<And>w. w \<in> set ws \<Longrightarrow> a \<notin> set w) \<Longrightarrow> split_on a (join_with [a] ws) = ws"
  by (induction "[a]" ws rule: join_with.induct)
     (auto simp: split_on_single split_on_append)

lemma join_with_append:
  "xs \<noteq> [] \<Longrightarrow> ys \<noteq> [] \<Longrightarrow> join_with s (xs @ ys) = join_with s xs @ s @ join_with s ys"
proof (induction s xs rule: join_with.induct)
  case (2 sep w)
  then show ?case by (cases ys) auto
qed auto

subsection \<open>Decimal numerals\<close>

lemma digit_val_char [simp]: "d < 10 \<Longrightarrow> digit_val (digit_char d) = d"
  by (simp add: digit_val_def digit_char_def)

lemma is_digit_char [simp]: "d < 10 \<Longrightarrow> is_digit (digit_char d)"
  by (simp add: is_digit_def digit_char_def)

lemma text_nat_snoc: "text_nat (s @ [c]) = 10 * text_nat s + digit_val c"
  by (simp add: text_nat_def)

lemma text_nat_Nil [simp]: "text_nat [] = 0"
  by (simp add: text_nat_def)

lemma nat_text_ne [simp]: "nat_text n \<noteq> []"
  by (subst nat_text.simps) simp

lemma nat_text_digits: "c \<in> set (nat_text n) \<Longrightarrow> is_digit c"
proof (induction n rule: nat_text.induct)
  case (1 n)
  show ?case
  proof (cases "n < 10")
    case True
    with "1.prems" show ?thesis by (auto simp: nat_text.simps [of n])
  next
    case False
    with 1 show ?thesis by (auto simp: nat_text.simps [of n])
  qed
qed

lemma text_nat_text [simp]: "text_nat (nat_text n) = n"
proof (induction n rule: nat_text.induct)
  case (1 n)
  show ?case
  proof (cases "n < 10")
    case True
    then show ?thesis by (simp add: nat_text.simps [of n] text_nat_def)
  next
    case False
    with 1 show ?thesis by (simp add: nat_text.simps [of n] text_nat_snoc)
  qed
qed

lemma all_digits_nat_text [simp]: "all_digits (nat_text n)"
  by (auto simp: all_digits_def list_all_iff dest: nat_text_digits)

lemma nat_text_inject [simp]: "nat_text a = nat_text b \<longleftrightarrow> a = b"
  by (metis text_nat_text)

lemma text_nat_append: "text_nat (s @ t) = text_nat s * 10 ^ length t + text_nat t"
proof (induction t rule: rev_induct)
  case Nil
  then show ?case by simp
next
  case (snoc c t)
  have "text_nat (s @ t @ [c]) = 10 * text_nat (s @ t) + digit_val c"
    using text_nat_snoc [of "s @ t" c] by simp
  with snoc show ?case by (simp add: text_nat_snoc algebra_simps)
qed

lemma length_nat_text_pos: "0 < length (nat_text n)"
  by simp

lemma nat_text_bounds:
  "n < 10 ^ length (nat_text n) \<and> (0 < n \<longrightarrow> 10 ^ (length (nat_text n) - 1) \<le> n)"
proof (induction n rule: nat_text.induct)
  case (1 n)
  show ?case
  proof (cases "n < 10")
    case True
    then show ?thesis by (simp add: nat_text.simps [of n])
  next
    case False
    let ?k = "length (nat_text (n div 10))"
    have len: "length (nat_text n) = Suc ?k"
      using False by (simp add: nat_text.simps [of n])
    have ih: "n div 10 < 10 ^ ?k" "10 ^ (?k - 1) \<le> n div 10"
      using 1 False by auto
    have "n < 10 * 10 ^ ?k" using ih(1) by linarith
    moreover have "10 * 10 ^ (?k - 1) \<le> n" using ih(2) by linarith
    moreover have "10 * 10 ^ (?k - 1) = (10::nat) ^ ?k"
      using length_nat_text_pos [of "n div 10"] by (cases ?k) auto
    ultimately show ?thesis by (simp add: len)
  qed
qed

lemma length_nat_text_le: "0 < k \<Longrightarrow> n < 10 ^ k \<Longrightarrow> length (nat_text n) \<le> k"
proof (rule ccontr)
  assume k: "0 < k" "n < 10 ^ k" and "\<not> length (nat_text n) \<le> k"
  then have len: "k \<le> length (nat_text n) - 1" by simp
  show False
  proof (cases "n = 0")
    case True
    with k \<open>\<not> length (nat_text n) \<le> k\<close> show ?thesis by (simp add: nat_text.simps [of 0])
  next
    case False
    then have "(10::nat) ^ (length (nat_text n) - 1) \<le> n"
      using nat_text_bounds [of n] by simp
    moreover have "(10::nat) ^ k \<le> 10 ^ (length (nat_text n) - 1)"
      using len by (intro power_increasing) auto
    ultimately show False using k(2) by linarith
  qed
qed

lemma not_digit [simp]:
  "\<not> is_digit (CHR ''-'')" "\<not> is_digit (CHR ''+'')" "\<not> is_digit (CHR ''.'')"
  "\<not> is_digit (CHR ''E'')" "\<not> is_digit (CHR ''e'')" "\<not> is_digit (CHR ''_'')"
  by (simp_all add: is_digit_def)

lemma is_digit_not [simp]:
  "is_digit c \<Longrightarrow> c \<noteq> CHR ''-''" "is_digit c \<Longrightarrow> c \<noteq> CHR ''+''"
  "is_digit c \<Longrightarrow> c \<noteq> CHR ''.''" "is_digit c \<Longrightarrow> c \<noteq> CHR ''E''"
  "is_digit c \<Longrightarrow> c \<noteq> CHR ''e''"
  by auto

end
