(* ===== verification/PyDecimal.thy ===== *)
theory PyDecimal
  imports Complex_Main PyText
begin

text \<open>
  Python's \<open>decimal.Decimal\<close> as the program uses it for costs and numeric matchers: exact
  construction from text, exact comparison, addition rounded to the default context
  (28 digits, half to even, exponents between -999999 and 999999, overflow trapped), and the
  scientific text form that the SQLite store and the audit log write. A finite value keeps its
  sign, coefficient and exponent, as \<open>as_tuple()\<close> shows them; all NaNs are one value.
  The main results: comparison and addition agree with rational arithmetic
  (\<open>dec_less_value\<close>, \<open>dec_add_exact\<close>), and text round-trips (\<open>parse_dec_text\<close>).
\<close>

section \<open>Values and comparison\<close>

datatype decimal = DFin bool nat int | DInf bool | DNaN

datatype dec_error = DecOverflow | DecInvalidOperation

fun dec_finite :: "decimal \<Rightarrow> bool" where
  "dec_finite (DFin s c e) = True"
| "dec_finite _ = False"

definition signed :: "bool \<Rightarrow> nat \<Rightarrow> int" where
  "signed s c = (if s then - int c else int c)"

definition scale_to :: "int \<Rightarrow> bool \<Rightarrow> nat \<Rightarrow> int \<Rightarrow> int" where
  "scale_to e0 s c e = signed s c * 10 ^ nat (e - e0)"

text \<open>\<open>a < b\<close>. The program compares finite values only (it tests \<open>is_finite()\<close> first); a
  comparison with a NaN raises in Python and is False here.\<close>

fun dec_less :: "decimal \<Rightarrow> decimal \<Rightarrow> bool" where
  "dec_less (DFin s1 c1 e1) (DFin s2 c2 e2) =
     (let e = min e1 e2 in scale_to e s1 c1 e1 < scale_to e s2 c2 e2)"
| "dec_less (DFin _ _ _) (DInf s) = (\<not> s)"
| "dec_less (DInf s) (DFin _ _ _) = s"
| "dec_less (DInf s) (DInf t) = (s \<and> \<not> t)"
| "dec_less _ _ = False"

fun dec_eq :: "decimal \<Rightarrow> decimal \<Rightarrow> bool" where
  "dec_eq (DFin s1 c1 e1) (DFin s2 c2 e2) =
     (let e = min e1 e2 in scale_to e s1 c1 e1 = scale_to e s2 c2 e2)"
| "dec_eq (DInf s) (DInf t) = (s = t)"
| "dec_eq _ _ = False"

definition dec_zero :: decimal where
  "dec_zero = DFin False 0 0"

section \<open>Addition in the default context\<close>

definition dec_prec :: nat where "dec_prec = 28"
definition dec_emax :: int where "dec_emax = 999999"
definition dec_etiny :: int where "dec_etiny = - 1000026"
definition dec_etop :: int where "dec_etop = 999972"

definition ndigits :: "nat \<Rightarrow> nat" where
  "ndigits n = length (nat_text n)"

definition div_half_even :: "nat \<Rightarrow> nat \<Rightarrow> nat" where
  "div_half_even c m =
     (let q = c div m; r = c mod m
      in if m < 2 * r \<or> 2 * r = m \<and> odd q then q + 1 else q)"

text \<open>Rounding of an exact result to the context: at most 28 digits, the exponent no less than
  the subnormal limit; an overflow is trapped.\<close>

definition dec_fix :: "bool \<Rightarrow> nat \<Rightarrow> int \<Rightarrow> (dec_error, decimal) result" where
  "dec_fix s c e =
     (if c = 0 then Return (DFin s 0 (min (max e dec_etiny) dec_emax))
      else
        let exp0 = int (ndigits c) + e - int dec_prec;
            exp_min = max exp0 dec_etiny
        in if dec_etop < exp0 then Raise DecOverflow
           else if e < exp_min then
             (let q = div_half_even c (10 ^ nat (exp_min - e))
              in if dec_prec < ndigits q
                 then (if dec_etop < exp_min + 1 then Raise DecOverflow
                       else Return (DFin s (q div 10) (exp_min + 1)))
                 else Return (DFin s q exp_min))
           else Return (DFin s c e))"

fun dec_add :: "decimal \<Rightarrow> decimal \<Rightarrow> (dec_error, decimal) result" where
  "dec_add (DFin s1 c1 e1) (DFin s2 c2 e2) =
     (let e = min e1 e2;
          n = scale_to e s1 c1 e1 + scale_to e s2 c2 e2
      in dec_fix (if n = 0 then s1 \<and> s2 else n < 0) (nat \<bar>n\<bar>) e)"
| "dec_add DNaN _ = Return DNaN"
| "dec_add _ DNaN = Return DNaN"
| "dec_add (DInf s) (DInf t) = (if s = t then Return (DInf s) else Raise DecInvalidOperation)"
| "dec_add (DInf s) (DFin _ _ _) = Return (DInf s)"
| "dec_add (DFin _ _ _) (DInf t) = Return (DInf t)"

section \<open>Text\<close>

definition read_sign :: "string \<Rightarrow> bool \<times> string" where
  "read_sign t =
     (case t of
        [] \<Rightarrow> (False, [])
      | c # u \<Rightarrow> if c = CHR ''-'' then (True, u) else if c = CHR ''+'' then (False, u)
                 else (False, t))"

definition read_exponent :: "string \<Rightarrow> int option" where
  "read_exponent t =
     (case read_sign t of (neg, ds) \<Rightarrow>
        if all_digits ds then Some (if neg then - int (text_nat ds) else int (text_nat ds))
        else None)"

definition read_mantissa :: "string \<Rightarrow> (nat \<times> nat) option" where
  "read_mantissa t =
     (case partition_at (CHR ''.'') t of (ip, _, fp) \<Rightarrow>
        if all_digits (ip @ fp) then Some (text_nat (ip @ fp), length fp) else None)"

definition read_number :: "string \<Rightarrow> (nat \<times> int) option" where
  "read_number t =
     (case partition_at (CHR ''e'') t of (m, has_exp, x) \<Rightarrow>
        (case read_mantissa m of
           None \<Rightarrow> None
         | Some (c, f) \<Rightarrow>
             if has_exp then
               (case read_exponent x of None \<Rightarrow> None | Some k \<Rightarrow> Some (c, k - int f))
             else Some (c, - int f)))"

text \<open>The exponent range of a \<open>Decimal\<close>, independent of the context.\<close>

definition dec_max_adjusted :: int where "dec_max_adjusted = 999999999999999999"
definition dec_min_exponent :: int where "dec_min_exponent = - 1999999999999999997"

definition in_range :: "nat \<Rightarrow> int \<Rightarrow> bool" where
  "in_range c e =
     (e + int (ndigits c) - 1 \<le> dec_max_adjusted \<and> dec_min_exponent \<le> e)"

text \<open>\<open>Decimal(text)\<close>: None is \<open>InvalidOperation\<close>. Surrounding white space and all underscores
  are dropped; letters are read without case.\<close>

definition parse_decimal :: "string \<Rightarrow> decimal option" where
  "parse_decimal s =
     (case read_sign (filter (\<lambda>c. c \<noteq> CHR ''_'') (str_strip s)) of (neg, u) \<Rightarrow>
        let t = map lower_ascii_char u in
        if t = ''inf'' \<or> t = ''infinity'' then Some (DInf neg)
        else if starts_with ''nan'' t \<and> list_all is_digit (drop 3 t) then Some DNaN
        else if starts_with ''snan'' t \<and> list_all is_digit (drop 4 t) then Some DNaN
        else (case read_number t of
                None \<Rightarrow> None
              | Some (c, e) \<Rightarrow> if in_range c e then Some (DFin neg c e) else None))"

text \<open>\<open>str(d)\<close>: the scientific form, with an exponent when the value is below \<open>1E-6\<close> or the
  exponent positive.\<close>

definition exponent_text :: "int \<Rightarrow> string" where
  "exponent_text k = CHR ''E'' # (if k < 0 then CHR ''-'' else CHR ''+'') # nat_text (nat \<bar>k\<bar>)"

definition dotted :: "string \<Rightarrow> string" where
  "dotted f = (if f = [] then [] else CHR ''.'' # f)"

definition sign_text :: "bool \<Rightarrow> string" where
  "sign_text s = (if s then ''-'' else [])"

fun dec_text :: "decimal \<Rightarrow> string" where
  "dec_text (DFin s c e) =
     (let ds = nat_text c; n = int (length ds); left = e + n
      in sign_text s @
         (if e \<le> 0 \<and> - 6 < left then
            (if left \<le> 0 then ''0'' @ dotted (replicate (nat (- left)) (CHR ''0'') @ ds)
             else take (nat left) ds @ dotted (drop (nat left) ds))
          else take 1 ds @ dotted (drop 1 ds) @ exponent_text (left - 1)))"
| "dec_text (DInf s) = sign_text s @ ''Infinity''"
| "dec_text DNaN = ''NaN''"

declare dec_zero_def [evals] dec_prec_def [evals] dec_emax_def [evals] dec_etiny_def [evals]
  dec_etop_def [evals] ndigits_def [evals] div_half_even_def [evals] dec_fix_def [evals]
  signed_def [evals] scale_to_def [evals] read_sign_def [evals] read_exponent_def [evals]
  read_mantissa_def [evals] read_number_def [evals] dec_max_adjusted_def [evals]
  dec_min_exponent_def [evals] in_range_def [evals] parse_decimal_def [evals]
  exponent_text_def [evals] dotted_def [evals] sign_text_def [evals]

section \<open>The value of a finite decimal\<close>

fun dec_value :: "decimal \<Rightarrow> rat" where
  "dec_value (DFin s c e) = of_int (signed s c) * 10 powi e"
| "dec_value _ = 0"

lemma powi_split: "e0 \<le> e \<Longrightarrow> (10::rat) powi e = 10 ^ nat (e - e0) * 10 powi e0"
proof -
  assume "e0 \<le> e"
  then have e: "e = int (nat (e - e0)) + e0" by simp
  have "(10::rat) powi (int (nat (e - e0)) + e0) = 10 powi int (nat (e - e0)) * 10 powi e0"
    by (rule power_int_add) simp
  then show ?thesis using e by (metis power_int_of_nat)
qed

lemma scale_to_value:
  "e0 \<le> e \<Longrightarrow> of_int (scale_to e0 s c e) * 10 powi e0 = dec_value (DFin s c e)"
  by (simp add: scale_to_def powi_split [of e0 e])

lemma powi10_pos [simp]: "0 < (10::rat) powi e"
  by (simp add: zero_less_power_int)

lemma dec_finiteE:
  assumes "dec_finite d"
  obtains s c e where "d = DFin s c e"
  using assms by (cases d) auto

lemma dec_less_value:
  assumes "dec_finite a" "dec_finite b"
  shows "dec_less a b \<longleftrightarrow> dec_value a < dec_value b"
proof -
  obtain s1 c1 e1 s2 c2 e2 where ab: "a = DFin s1 c1 e1" "b = DFin s2 c2 e2"
    using assms by (metis dec_finiteE)
  let ?e = "min e1 e2"
  have "dec_value a < dec_value b \<longleftrightarrow>
      of_int (scale_to ?e s1 c1 e1) * (10::rat) powi ?e
        < of_int (scale_to ?e s2 c2 e2) * 10 powi ?e"
    by (simp only: ab scale_to_value min.cobounded1 min.cobounded2)
  also have "\<dots> \<longleftrightarrow> (of_int (scale_to ?e s1 c1 e1) :: rat) < of_int (scale_to ?e s2 c2 e2)"
    by (rule mult_less_cancel_right_pos) simp
  finally show ?thesis by (simp add: ab Let_def)
qed

lemma dec_eq_value:
  assumes "dec_finite a" "dec_finite b"
  shows "dec_eq a b \<longleftrightarrow> dec_value a = dec_value b"
proof -
  obtain s1 c1 e1 s2 c2 e2 where ab: "a = DFin s1 c1 e1" "b = DFin s2 c2 e2"
    using assms by (metis dec_finiteE)
  let ?e = "min e1 e2"
  have "dec_value a = dec_value b \<longleftrightarrow>
      of_int (scale_to ?e s1 c1 e1) * (10::rat) powi ?e
        = of_int (scale_to ?e s2 c2 e2) * 10 powi ?e"
    by (simp only: ab scale_to_value min.cobounded1 min.cobounded2)
  also have "\<dots> \<longleftrightarrow> scale_to ?e s1 c1 e1 = scale_to ?e s2 c2 e2"
    by simp
  finally show ?thesis by (simp add: ab Let_def)
qed

section \<open>Addition and the rational sum\<close>

lemma signed_cases: "signed (n < 0) (nat \<bar>n\<bar>) = n"
  by (simp add: signed_def)

lemma signed_0 [simp]: "signed s 0 = 0"
  by (simp add: signed_def)

lemma dec_fix_value_small:
  assumes "ndigits c \<le> dec_prec" "dec_etiny \<le> e" "e \<le> dec_etop"
  shows "dec_fix s c e = Inr (DFin s c e)"
  using assms unfolding dec_fix_def dec_prec_def dec_etiny_def dec_etop_def dec_emax_def Let_def
  by auto

lemma dec_add_exact:
  fixes s1 s2 c1 c2 e1 e2
  defines "e \<equiv> min e1 e2"
  defines "n \<equiv> scale_to e s1 c1 e1 + scale_to e s2 c2 e2"
  assumes "ndigits (nat \<bar>n\<bar>) \<le> dec_prec" "dec_etiny \<le> e" "e \<le> dec_etop"
  shows "\<exists>d. dec_add (DFin s1 c1 e1) (DFin s2 c2 e2) = Inr d \<and> dec_finite d \<and>
           dec_value d = dec_value (DFin s1 c1 e1) + dec_value (DFin s2 c2 e2)"
proof -
  let ?s = "if n = 0 then s1 \<and> s2 else n < 0"
  have add: "dec_add (DFin s1 c1 e1) (DFin s2 c2 e2) = Inr (DFin ?s (nat \<bar>n\<bar>) e)"
    using dec_fix_value_small [OF assms(3-5)] by (simp add: e_def n_def Let_def)
  have "signed ?s (nat \<bar>n\<bar>) = n"
    by (cases "n = 0") (simp_all add: signed_cases)
  then have "dec_value (DFin ?s (nat \<bar>n\<bar>) e) = of_int n * 10 powi e" by simp
  also have "\<dots> = of_int (scale_to e s1 c1 e1) * 10 powi e + of_int (scale_to e s2 c2 e2) * 10 powi e"
    by (simp add: n_def algebra_simps)
  also have "\<dots> = dec_value (DFin s1 c1 e1) + dec_value (DFin s2 c2 e2)"
    by (simp only: scale_to_value e_def min.cobounded1 min.cobounded2)
  finally show ?thesis using add by auto
qed

lemma dec_fix_finite: "dec_fix s c e = Inr d \<Longrightarrow> dec_finite d"
  by (auto simp: dec_fix_def Let_def split: if_splits)

lemma dec_add_finite:
  "dec_add a b = Inr d \<Longrightarrow> dec_finite a \<Longrightarrow> dec_finite b \<Longrightarrow> dec_finite d"
  by (auto elim!: dec_finiteE dest: dec_fix_finite simp: Let_def)

section \<open>The text form round-trips\<close>

definition plain :: "string \<Rightarrow> bool" where
  "plain s = (list_all (\<lambda>c. is_digit c \<or> c \<in> {CHR ''.'', CHR ''E'', CHR ''+'', CHR ''-''}) s)"

lemma plain_char:
  assumes "is_digit c \<or> c \<in> {CHR ''.'', CHR ''E'', CHR ''+'', CHR ''-''}"
  shows "\<not> is_space c" "c \<noteq> CHR ''_''"
  using assms by (auto simp: is_space_def is_digit_def)

lemma plain_strip: "plain s \<Longrightarrow> str_strip s = s"
proof -
  have keep: "plain s \<Longrightarrow> dropWhile is_space s = s" for s
    by (cases s) (auto simp: plain_def is_space_def is_digit_def)
  assume "plain s"
  moreover have "plain (rev s)" using \<open>plain s\<close> by (simp add: plain_def)
  ultimately show ?thesis
    by (simp add: str_strip_def str_rstrip_def str_lstrip_def keep)
qed

lemma plain_filter: "plain s \<Longrightarrow> filter (\<lambda>c. c \<noteq> CHR ''_'') s = s"
  by (auto simp: plain_def list_all_iff filter_id_conv)

lemma plain_simps [simp]:
  "plain []" "plain (a @ b) = (plain a \<and> plain b)"
  by (auto simp: plain_def)

lemma plain_digits: "list_all is_digit s \<Longrightarrow> plain s"
  by (auto simp: plain_def list_all_iff)

lemma plain_dotted: "list_all is_digit f \<Longrightarrow> plain (dotted f)"
  by (auto simp: dotted_def plain_def list_all_iff)

lemma digits_nat_text [simp]: "list_all is_digit (nat_text n)"
  by (auto simp: list_all_iff dest: nat_text_digits)

lemma plain_exponent: "plain (exponent_text k)"
  using plain_digits [OF digits_nat_text] by (auto simp: exponent_text_def plain_def)

lemma plain_sign: "plain (sign_text s)"
  by (simp add: sign_text_def plain_def)

lemma lower_digit [simp]: "is_digit c \<Longrightarrow> lower_ascii_char c = c"
  by (auto simp: lower_ascii_char_def is_digit_def)

lemma lower_digits: "list_all is_digit s \<Longrightarrow> map lower_ascii_char s = s"
  by (induction s) auto

lemma lower_marks:
  "lower_ascii_char (CHR ''.'') = CHR ''.''" "lower_ascii_char (CHR ''E'') = CHR ''e''"
  "lower_ascii_char (CHR ''+'') = CHR ''+''" "lower_ascii_char (CHR ''-'') = CHR ''-''"
  by (simp_all add: lower_ascii_char_def char_of_def bit_Suc_0_iff)

lemma digits_not_mark:
  "list_all is_digit s \<Longrightarrow> CHR ''.'' \<notin> set s" "list_all is_digit s \<Longrightarrow> CHR ''e'' \<notin> set s"
  by (auto simp: list_all_iff dest: bspec)

lemma read_mantissa_dotted:
  assumes "list_all is_digit i" "list_all is_digit f" "i \<noteq> []"
  shows "read_mantissa (i @ dotted f) = Some (text_nat (i @ f), length f)"
proof (cases "f = []")
  case True
  then have "partition_at (CHR ''.'') (i @ dotted f) = (i, False, [])"
    using digits_not_mark(1) [OF assms(1)] by (simp add: partition_at_missing dotted_def)
  with True assms show ?thesis by (simp add: read_mantissa_def all_digits_def)
next
  case False
  then have "partition_at (CHR ''.'') (i @ dotted f) = (i, True, f)"
    using digits_not_mark(1) [OF assms(1)] by (simp add: partition_at_found dotted_def)
  with assms show ?thesis by (simp add: read_mantissa_def all_digits_def)
qed

lemma no_e_dotted:
  "list_all is_digit i \<Longrightarrow> list_all is_digit f \<Longrightarrow> CHR ''e'' \<notin> set (i @ dotted f)"
  using digits_not_mark(2) by (auto simp: dotted_def)

lemma read_number_plain:
  assumes "list_all is_digit i" "list_all is_digit f" "i \<noteq> []"
  shows "read_number (i @ dotted f) = Some (text_nat (i @ f), - int (length f))"
proof -
  have "partition_at (CHR ''e'') (i @ dotted f) = (i @ dotted f, False, [])"
    using no_e_dotted [OF assms(1,2)] by (simp add: partition_at_missing)
  then show ?thesis by (simp add: read_number_def read_mantissa_dotted assms)
qed

lemma read_exponent_text:
  "read_exponent ((if k < 0 then CHR ''-'' else CHR ''+'') # nat_text (nat \<bar>k\<bar>)) = Some k"
  by (auto simp: read_exponent_def read_sign_def)

lemma read_number_exp:
  assumes "list_all is_digit i" "list_all is_digit f" "i \<noteq> []"
  shows "read_number (map lower_ascii_char (i @ dotted f @ exponent_text k))
           = Some (text_nat (i @ f), k - int (length f))"
proof -
  let ?x = "(if k < 0 then CHR ''-'' else CHR ''+'') # nat_text (nat \<bar>k\<bar>)"
  have low: "map lower_ascii_char (dotted f) = dotted f"
    using assms(2) by (simp add: dotted_def lower_digits lower_marks)
  have t: "map lower_ascii_char (i @ dotted f @ exponent_text k) = (i @ dotted f) @ CHR ''e'' # ?x"
    using assms(1) by (simp add: lower_digits low exponent_text_def lower_marks)
  have "partition_at (CHR ''e'') ((i @ dotted f) @ CHR ''e'' # ?x) = (i @ dotted f, True, ?x)"
    using no_e_dotted [OF assms(1,2)] by (simp only: partition_at_found) simp
  then show ?thesis
    unfolding t by (simp add: read_number_def read_mantissa_dotted assms read_exponent_text
        del: partition_at.simps)
qed

lemma read_sign_text: "i \<noteq> [] \<Longrightarrow> list_all is_digit i \<Longrightarrow> read_sign (sign_text s @ i @ r) = (s, i @ r)"
  by (cases i) (auto simp: read_sign_def sign_text_def)

lemma parse_digits_first:
  assumes i: "i \<noteq> []" "list_all is_digit i"
    and "plain r"
    and num: "read_number (map lower_ascii_char (i @ r)) = Some (c, e)"
    and "in_range c e"
  shows "parse_decimal (sign_text s @ i @ r) = Some (DFin s c e)"
proof -
  let ?t = "sign_text s @ i @ r"
  have "plain ?t" using assms plain_digits [OF i(2)] plain_sign by simp
  then have clean: "filter (\<lambda>c. c \<noteq> CHR ''_'') (str_strip ?t) = ?t"
    by (simp only: plain_strip plain_filter)
  obtain d u where id: "i = d # u" "is_digit d" using i by (cases i) auto
  have "d \<noteq> CHR ''i''" "d \<noteq> CHR ''n''" "d \<noteq> CHR ''s''"
    using id(2) by (auto simp: is_digit_def)
  then have "map lower_ascii_char (i @ r) \<noteq> ''inf''" "map lower_ascii_char (i @ r) \<noteq> ''infinity''"
    "\<not> starts_with ''nan'' (map lower_ascii_char (i @ r))"
    "\<not> starts_with ''snan'' (map lower_ascii_char (i @ r))"
    using id by auto
  then show ?thesis
    unfolding parse_decimal_def clean read_sign_text [OF i]
    using num assms(5) by (simp add: Let_def)
qed

lemma text_nat_zeros: "text_nat (replicate k (CHR ''0'')) = 0"
  by (induction k) (auto simp: text_nat_def digit_val_def)

lemma digits_zeros [simp]: "list_all is_digit (replicate k (CHR ''0''))"
  by (auto simp: list_all_iff is_digit_def)

theorem parse_dec_text:
  assumes "in_range c e"
  shows "parse_decimal (dec_text (DFin s c e)) = Some (DFin s c e)"
proof -
  let ?ds = "nat_text c"
  let ?left = "e + int (length ?ds)"
  have len: "0 < length ?ds" by simp
  have D: "list_all is_digit ?ds" by simp
  then have TD: "list_all is_digit (take k ?ds)" "list_all is_digit (drop k ?ds)" for k
    by (auto simp: list_all_iff dest: in_set_takeD in_set_dropD)
  consider (sci) "\<not> (e \<le> 0 \<and> - 6 < ?left)" | (small) "e \<le> 0" "- 6 < ?left" "?left \<le> 0"
    | (point) "e \<le> 0" "- 6 < ?left" "0 < ?left" by linarith
  then show ?thesis
  proof cases
    case sci
    have "read_number (map lower_ascii_char (take 1 ?ds @ dotted (drop 1 ?ds) @ exponent_text (?left - 1)))
        = Some (text_nat (take 1 ?ds @ drop 1 ?ds), (?left - 1) - int (length (drop 1 ?ds)))"
      by (rule read_number_exp) (use TD len in auto)
    also have "(?left - 1) - int (length (drop 1 ?ds)) = e"
      using len by (simp add: of_nat_diff Suc_leI)
    finally have "parse_decimal (sign_text s @ take 1 ?ds @ dotted (drop 1 ?ds) @ exponent_text (?left - 1))
        = Some (DFin s c e)"
      using TD plain_dotted plain_exponent assms by (intro parse_digits_first) auto
    with sci show ?thesis by (auto simp: Let_def)
  next
    case small
    let ?z = "replicate (nat (- ?left)) (CHR ''0'')"
    have Z: "list_all is_digit (?z @ ?ds)" by simp
    have "read_number (''0'' @ dotted (?z @ ?ds))
        = Some (text_nat (''0'' @ ?z @ ?ds), - int (length (?z @ ?ds)))"
      using Z by (intro read_number_plain) (auto simp: is_digit_def)
    also have "- int (length (?z @ ?ds)) = e" using small by simp
    also have "text_nat (''0'' @ ?z @ ?ds) = c"
      by (simp only: text_nat_append text_nat_zeros) (simp add: text_nat_append [of "[_]"] text_nat_snoc [of "[]", simplified] digit_val_def)
    finally have n: "read_number (''0'' @ dotted (?z @ ?ds)) = Some (c, e)" .
    moreover have "map lower_ascii_char (''0'' @ dotted (?z @ ?ds)) = ''0'' @ dotted (?z @ ?ds)"
      using lower_digits [OF Z] by (simp add: dotted_def lower_marks lower_ascii_char_def)
    ultimately have "parse_decimal (sign_text s @ ''0'' @ dotted (?z @ ?ds)) = Some (DFin s c e)"
      using assms plain_dotted [OF Z] by (intro parse_digits_first) (auto simp: is_digit_def)
    with small show ?thesis by (auto simp: Let_def)
  next
    case point
    let ?k = "nat ?left"
    have k: "0 < ?k" "int (length (drop ?k ?ds)) = - e"
      using point by auto
    have "read_number (take ?k ?ds @ dotted (drop ?k ?ds))
        = Some (text_nat (take ?k ?ds @ drop ?k ?ds), - int (length (drop ?k ?ds)))"
      by (rule read_number_plain) (use TD k in auto)
    then have n: "read_number (take ?k ?ds @ dotted (drop ?k ?ds)) = Some (c, e)"
      using k(2) by simp
    moreover have "map lower_ascii_char (take ?k ?ds @ dotted (drop ?k ?ds))
        = take ?k ?ds @ dotted (drop ?k ?ds)"
      using TD by (simp add: dotted_def lower_marks lower_digits)
    ultimately have "parse_decimal (sign_text s @ take ?k ?ds @ dotted (drop ?k ?ds)) = Some (DFin s c e)"
      using assms plain_dotted TD k by (intro parse_digits_first) auto
    with point show ?thesis by (auto simp: Let_def)
  qed
qed

section \<open>What an addition returns\<close>

fun dec_in_range :: "decimal \<Rightarrow> bool" where
  "dec_in_range (DFin s c e) = in_range c e"
| "dec_in_range _ = False"

lemma ndigits_le: "0 < k \<Longrightarrow> n < 10 ^ k \<Longrightarrow> ndigits n \<le> k"
  unfolding ndigits_def by (rule length_nat_text_le)

lemma ndigits_upper: "n < 10 ^ ndigits n"
  using nat_text_bounds [of n] by (simp add: ndigits_def)

lemma in_range_context:
  "dec_etiny \<le> e \<Longrightarrow> e \<le> dec_emax \<Longrightarrow> ndigits c \<le> 28 \<Longrightarrow> in_range c e"
  by (simp add: in_range_def dec_max_adjusted_def dec_min_exponent_def dec_etiny_def dec_emax_def)

lemma rounded_quotient:
  assumes "int (ndigits c) - 28 \<le> int k"
  shows "div_half_even c (10 ^ k) \<le> 10 ^ 28"
proof -
  have "c < 10 ^ (k + 28)"
  proof -
    have "(10::nat) ^ ndigits c \<le> 10 ^ (k + 28)"
      using assms by (intro power_increasing) auto
    with ndigits_upper [of c] show ?thesis by linarith
  qed
  then have "c div 10 ^ k < 10 ^ 28" by (simp add: power_add less_mult_imp_div_less mult.commute)
  then show ?thesis by (simp add: div_half_even_def Let_def)
qed

lemma dec_fix_in_range: "dec_fix s c e = Inr d \<Longrightarrow> dec_in_range d"
proof -
  assume fixed: "dec_fix s c e = Inr d"
  let ?x = "int (ndigits c) + e - 28"
  let ?m = "max ?x dec_etiny"
  let ?q = "div_half_even c (10 ^ nat (?m - e))"
  note defs = dec_prec_def dec_etop_def dec_etiny_def dec_emax_def
  consider (zero) "c = 0" "d = DFin s 0 (min (max e dec_etiny) dec_emax)"
    | (keep) "d = DFin s c e" "?m \<le> e" "?x \<le> dec_etop"
    | (round) "d = DFin s ?q ?m" "ndigits ?q \<le> 28" "?x \<le> dec_etop"
    | (carry) "d = DFin s (?q div 10) (?m + 1)" "?x \<le> dec_etop" "?m + 1 \<le> dec_etop" "e < ?m"
    using fixed by (auto simp: dec_fix_def Let_def dec_prec_def not_less split: if_splits)
  then show ?thesis
  proof cases
    case zero
    have "ndigits 0 = 1" by (simp add: ndigits_def nat_text_numeral)
    then show ?thesis using zero by (simp add: in_range_context defs)
  next
    case keep
    have "0 < ndigits c" unfolding ndigits_def by (rule length_nat_text_pos)
    with keep show ?thesis by (simp add: in_range_context defs)
  next
    case round
    then show ?thesis by (simp add: in_range_context defs)
  next
    case carry
    have "?q \<le> 10 ^ 28" by (rule rounded_quotient) (use carry(4) in auto)
    then have "?q div 10 < 10 ^ 28" by (simp add: less_mult_imp_div_less)
    then have "ndigits (?q div 10) \<le> 28" by (intro ndigits_le) auto
    then show ?thesis using carry(1,3) by (simp add: in_range_context defs)
  qed
qed

lemma dec_add_in_range:
  "dec_add a b = Inr d \<Longrightarrow> dec_finite a \<Longrightarrow> dec_finite b \<Longrightarrow> dec_in_range d"
  by (auto elim!: dec_finiteE dest: dec_fix_in_range simp: Let_def)

lemma dec_fix_sign: "dec_fix s c e = Inr d \<Longrightarrow> s = False \<or> c = 0 \<Longrightarrow> 0 \<le> dec_value d"
  by (auto simp: dec_fix_def Let_def signed_def zero_le_mult_iff split: if_splits)

lemma dec_add_nonneg:
  assumes "dec_add a b = Inr d" "dec_finite a" "dec_finite b" "0 \<le> dec_value a" "0 \<le> dec_value b"
  shows "0 \<le> dec_value d"
proof -
  obtain s1 c1 e1 s2 c2 e2 where ab: "a = DFin s1 c1 e1" "b = DFin s2 c2 e2"
    using assms(2,3) by (auto elim!: dec_finiteE)
  let ?e = "min e1 e2"
  have pos: "0 \<le> scale_to e0 s c e" if "0 \<le> dec_value (DFin s c e)" for e0 s c e
  proof -
    have "0 \<le> signed s c"
      using that powi10_pos [of e] by (auto simp: zero_le_mult_iff simp del: powi10_pos)
    then show ?thesis by (simp add: scale_to_def)
  qed
  have "0 \<le> scale_to ?e s1 c1 e1" "0 \<le> scale_to ?e s2 c2 e2"
    using assms(4,5) pos unfolding ab by blast+
  then show ?thesis
    using assms(1) by (auto simp: ab Let_def intro!: dec_fix_sign split: if_splits)
qed

lemma parse_dec_in_range: "dec_in_range d \<Longrightarrow> parse_decimal (dec_text d) = Some d"
  by (cases d) (simp_all only: dec_in_range.simps parse_dec_text)

end
