(* ===== verification/PyValue.thy ===== *)
theory PyValue
  imports PyDecimal
begin

text \<open>
  The Python values the program handles: JSON values, and what a Python caller can pass beside
  them. A float is represented by its \<open>repr\<close>, which determines it; a dictionary is an
  association list in insertion order whose keys are strings; any other object is represented by
  the text \<open>str\<close> and \<open>repr\<close> give for it. The theory defines \<open>repr\<close>, \<open>str\<close>, \<open>==\<close> and
  \<open>json.dumps\<close> on them.
\<close>

section \<open>Values\<close>

datatype pyval =
    PNone
  | PBool bool
  | PInt int
  | PFloat string
  | PStr string
  | PList "pyval list"
  | PTuple "pyval list"
  | PDict "(string \<times> pyval) list"
  | PObj string string

type_synonym pydict = "(string \<times> pyval) list"

text \<open>\<open>d.get(key)\<close> and \<open>d.get(key, default)\<close>: a missing key gives the default.\<close>

definition dict_get :: "pydict \<Rightarrow> string \<Rightarrow> pyval \<Rightarrow> pyval" where
  "dict_get d k dflt = (case map_of d k of None \<Rightarrow> dflt | Some v \<Rightarrow> v)"

section \<open>repr and str\<close>

definition hex_digit :: "nat \<Rightarrow> char" where
  "hex_digit d = (if d < 10 then char_of (48 + d) else char_of (87 + d))"

definition hex2 :: "nat \<Rightarrow> string" where
  "hex2 n = [hex_digit (n div 16), hex_digit (n mod 16)]"

definition backslash :: char where "backslash = char_of (92 :: nat)"
definition dquote :: char where "dquote = char_of (34 :: nat)"
definition squote :: char where "squote = char_of (39 :: nat)"

definition repr_char :: "char \<Rightarrow> char \<Rightarrow> string" where
  "repr_char q c =
     (if c = backslash \<or> c = q then [backslash, c]
      else if code c = 9 then [backslash, CHR ''t'']
      else if code c = 10 then [backslash, CHR ''n'']
      else if code c = 13 then [backslash, CHR ''r'']
      else if code c < 32 \<or> 127 \<le> code c \<and> code c \<le> 160 \<or> code c = 173
        then [backslash, CHR ''x''] @ hex2 (code c)
      else [c])"

definition str_repr :: "string \<Rightarrow> string" where
  "str_repr s =
     (let q = (if squote \<in> set s \<and> dquote \<notin> set s then dquote else squote)
      in [q] @ concat (map (repr_char q) s) @ [q])"

fun py_repr :: "pyval \<Rightarrow> string" and py_reprs :: "pyval list \<Rightarrow> string list"
  and item_reprs :: "pydict \<Rightarrow> string list" where
  "py_repr PNone = ''None''"
| "py_repr (PBool b) = (if b then ''True'' else ''False'')"
| "py_repr (PInt i) = int_text i"
| "py_repr (PFloat r) = r"
| "py_repr (PStr s) = str_repr s"
| "py_repr (PList xs) = ''['' @ join_with '', '' (py_reprs xs) @ '']''"
| "py_repr (PTuple xs) =
     (case py_reprs xs of
        [t] \<Rightarrow> ''('' @ t @ '',)''
      | ts \<Rightarrow> ''('' @ join_with '', '' ts @ '')'')"
| "py_repr (PDict d) = ''{'' @ join_with '', '' (item_reprs d) @ ''}''"
| "py_repr (PObj s r) = r"
| "py_reprs [] = []"
| "py_reprs (x # xs) = py_repr x # py_reprs xs"
| "item_reprs [] = []"
| "item_reprs (kv # d) = (str_repr (fst kv) @ '': '' @ py_repr (snd kv)) # item_reprs d"

definition py_str :: "pyval \<Rightarrow> string" where
  "py_str v = (case v of PStr s \<Rightarrow> s | PObj s r \<Rightarrow> s | _ \<Rightarrow> py_repr v)"

section \<open>Equality\<close>

text \<open>\<open>a == b\<close>: booleans, integers and floats compare by value across their types, containers
  element by element; dictionaries ignore order. Other objects are equal when they are the same
  object, which their texts stand for.\<close>

definition num_value :: "pyval \<Rightarrow> decimal option" where
  "num_value v =
     (case v of
        PBool b \<Rightarrow> Some (DFin False (if b then 1 else 0) 0)
      | PInt i \<Rightarrow> Some (DFin (i < 0) (nat \<bar>i\<bar>) 0)
      | PFloat r \<Rightarrow> parse_decimal r
      | _ \<Rightarrow> None)"

definition num_eq :: "pyval \<Rightarrow> pyval \<Rightarrow> bool" where
  "num_eq a b =
     (case (num_value a, num_value b) of (Some x, Some y) \<Rightarrow> dec_eq x y | _ \<Rightarrow> False)"

fun py_eq :: "pyval \<Rightarrow> pyval \<Rightarrow> bool" and py_eqs :: "pyval list \<Rightarrow> pyval list \<Rightarrow> bool"
  and item_eqs :: "pydict \<Rightarrow> pydict \<Rightarrow> bool" where
  "py_eq (PStr s) b = (b = PStr s)"
| "py_eq PNone b = (b = PNone)"
| "py_eq (PList xs) b = (case b of PList ys \<Rightarrow> py_eqs xs ys | _ \<Rightarrow> False)"
| "py_eq (PTuple xs) b = (case b of PTuple ys \<Rightarrow> py_eqs xs ys | _ \<Rightarrow> False)"
| "py_eq (PDict d) b =
     (case b of PDict d' \<Rightarrow> length d = length d' \<and> item_eqs d d' | _ \<Rightarrow> False)"
| "py_eq (PObj s r) b = (b = PObj s r)"
| "py_eq a b = num_eq a b"
| "py_eqs [] ys = (ys = [])"
| "py_eqs (x # xs) ys = (case ys of [] \<Rightarrow> False | y # ys' \<Rightarrow> py_eq x y \<and> py_eqs xs ys')"
| "item_eqs [] d' = True"
| "item_eqs (kv # d) d' =
     (case map_of d' (fst kv) of None \<Rightarrow> False
      | Some w \<Rightarrow> py_eq (snd kv) w \<and> item_eqs d d')"

section \<open>json.dumps\<close>

record json_style =
  js_ascii :: bool
  js_sort :: bool
  js_item_sep :: string
  js_key_sep :: string
  js_default_str :: bool

definition json_char :: "bool \<Rightarrow> char \<Rightarrow> string" where
  "json_char ascii c =
     (if c = dquote \<or> c = backslash then [backslash, c]
      else if code c = 10 then [backslash, CHR ''n'']
      else if code c = 13 then [backslash, CHR ''r'']
      else if code c = 9 then [backslash, CHR ''t'']
      else if code c = 12 then [backslash, CHR ''f'']
      else if code c = 8 then [backslash, CHR ''b'']
      else if code c < 32 \<or> ascii \<and> 127 \<le> code c then [backslash] @ ''u00'' @ hex2 (code c)
      else [c])"

definition json_string :: "bool \<Rightarrow> string \<Rightarrow> string" where
  "json_string ascii s = [dquote] @ concat (map (json_char ascii) s) @ [dquote]"

definition json_float :: "string \<Rightarrow> string" where
  "json_float r =
     (if r = ''nan'' then ''NaN'' else if r = ''inf'' then ''Infinity''
      else if r = ''-inf'' then ''-Infinity'' else r)"

text \<open>An object JSON cannot express is written as the string its \<open>default\<close> function gives:
  \<open>repr\<close>, or \<open>str\<close> when \<open>js_default_str\<close>.\<close>

fun json_text :: "json_style \<Rightarrow> pyval \<Rightarrow> string"
  and json_texts :: "json_style \<Rightarrow> pyval list \<Rightarrow> string list"
  and json_items :: "json_style \<Rightarrow> pydict \<Rightarrow> (string \<times> string) list" where
  "json_text st PNone = ''null''"
| "json_text st (PBool b) = (if b then ''true'' else ''false'')"
| "json_text st (PInt i) = int_text i"
| "json_text st (PFloat r) = json_float r"
| "json_text st (PStr s) = json_string (js_ascii st) s"
| "json_text st (PList xs) = ''['' @ join_with (js_item_sep st) (json_texts st xs) @ '']''"
| "json_text st (PTuple xs) = ''['' @ join_with (js_item_sep st) (json_texts st xs) @ '']''"
| "json_text st (PDict d) =
     ''{'' @ join_with (js_item_sep st)
       (map (\<lambda>kt. json_string (js_ascii st) (fst kt) @ js_key_sep st @ snd kt)
          (if js_sort st then sort_key fst (json_items st d) else json_items st d)) @ ''}''"
| "json_text st (PObj s r) = json_string (js_ascii st) (if js_default_str st then s else r)"
| "json_texts st [] = []"
| "json_texts st (x # xs) = json_text st x # json_texts st xs"
| "json_items st [] = []"
| "json_items st (kv # d) = (fst kv, json_text st (snd kv)) # json_items st d"

definition compact_style :: "bool \<Rightarrow> bool \<Rightarrow> json_style" where
  "compact_style ascii srt =
     \<lparr>js_ascii = ascii, js_sort = srt, js_item_sep = '','', js_key_sep = '':'',
      js_default_str = False\<rparr>"

text \<open>The UTF-8 encoding of a string of the model: one byte below 128, two above.\<close>

definition utf8 :: "string \<Rightarrow> string" where
  "utf8 s = concat (map (\<lambda>c. if code c < 128 then [c]
      else [char_of (192 + code c div 64), char_of (128 + code c mod 64)]) s)"

declare dict_get_def [evals] hex_digit_def [evals] hex2_def [evals] backslash_def [evals]
  dquote_def [evals] squote_def [evals] repr_char_def [evals] str_repr_def [evals]
  py_str_def [evals] num_value_def [evals] num_eq_def [evals] json_char_def [evals]
  json_string_def [evals] json_float_def [evals] compact_style_def [evals] utf8_def [evals]

section \<open>Lemmas\<close>

lemma dict_get_has: "dict_has d k \<Longrightarrow> map_of d k = Some (dict_get d k dflt)"
  by (auto simp: dict_has_def dict_get_def)

lemma dict_get_missing: "\<not> dict_has d k \<Longrightarrow> dict_get d k dflt = dflt"
  by (auto simp: dict_has_def dict_get_def)

lemma json_items_keys [simp]: "map fst (json_items st d) = map fst d"
  by (induction d) auto

lemma json_items_set: "set (json_items st d) = (\<lambda>kv. (fst kv, json_text st (snd kv))) ` set d"
  by (induction d) auto

end
