(* ===== verification/Models.thy ===== *)
theory Models
  imports PyValue Sha256
begin

text \<open>
  \<open>models.py\<close> and \<open>exceptions.py\<close>: tool calls, decisions, usage counters, the parsing of
  costs, the depth bound on agent-controlled values, and the exceptions of the program. Results
  below: an accepted cost is finite, non-negative and within its limit; a bounded value nests at
  most 65 levels and a shallow value is untouched; recording a call counts it once in every
  counter.
\<close>

section \<open>Decisions and exceptions\<close>

datatype decision_kind = ALLOW | BLOCK | REQUIRE_APPROVAL

fun kind_value :: "decision_kind \<Rightarrow> string" where
  "kind_value ALLOW = ''allow''"
| "kind_value BLOCK = ''block''"
| "kind_value REQUIRE_APPROVAL = ''require_approval''"

datatype audit_mode = AUDIT_NONE | AUDIT_HASH | AUDIT_REDACTED | AUDIT_FULL

fun audit_mode_value :: "audit_mode \<Rightarrow> string" where
  "audit_mode_value AUDIT_NONE = ''none''"
| "audit_mode_value AUDIT_HASH = ''hash''"
| "audit_mode_value AUDIT_REDACTED = ''redacted''"
| "audit_mode_value AUDIT_FULL = ''full''"

record tool_call =
  tc_name :: string
  tc_arguments :: pydict
  tc_cost :: decimal
  tc_id :: string

record decision =
  d_kind :: decision_kind
  d_reason :: string
  d_code :: string
  d_rule_index :: "nat option"

text \<open>The exceptions that can leave an operation. \<open>ToolError\<close> is an exception the guarded tool or
  its approver raised, by its type's name; \<open>AuditWriteError\<close> carries its \<open>after_execution\<close>
  flag.\<close>

datatype exc =
    ValueError string
  | PolicyConfigError string
  | TypeError string
  | AttributeError
  | KeyError string
  | DecimalError dec_error
  | OverflowError
  | OSError
  | SqliteError
  | StorageError string
  | AuditWriteError string bool
  | ToolCallBlocked string tool_call decision
  | ApprovalRequired string tool_call decision
  | ApprovalNotFound string
  | ApprovalConflict string
  | ToolError string

text \<open>Python's class hierarchy, where a handler catches a base class.\<close>

fun is_value_error :: "exc \<Rightarrow> bool" where
  "is_value_error (ValueError m) = True"
| "is_value_error (PolicyConfigError m) = True"
| "is_value_error _ = False"

fun is_storage_error :: "exc \<Rightarrow> bool" where
  "is_storage_error (StorageError m) = True"
| "is_storage_error (AuditWriteError m a) = True"
| "is_storage_error _ = False"

fun is_firewall_error :: "exc \<Rightarrow> bool" where
  "is_firewall_error (ToolCallBlocked m c d) = True"
| "is_firewall_error (ApprovalRequired m c d) = True"
| "is_firewall_error _ = False"

text \<open>\<open>str(exc)\<close>, for the exceptions whose text a handler passes on.\<close>

fun exc_message :: "exc \<Rightarrow> string" where
  "exc_message (ValueError m) = m"
| "exc_message (PolicyConfigError m) = m"
| "exc_message (TypeError m) = m"
| "exc_message (StorageError m) = m"
| "exc_message (AuditWriteError m a) = m"
| "exc_message (ToolCallBlocked m c d) = m"
| "exc_message (ApprovalRequired m c d) = m"
| "exc_message (ApprovalConflict m) = m"
| "exc_message _ = []"

section \<open>Costs\<close>

definition MAX_CALL_COST_USD :: decimal where
  "MAX_CALL_COST_USD = DFin False 1 12"

text \<open>\<open>format(d, 'f')\<close> of a finite value whose exponent is not negative: all its digits.\<close>

fun dec_fixed_text :: "decimal \<Rightarrow> string" where
  "dec_fixed_text (DFin s c e) = sign_text s @ nat_text (c * 10 ^ nat e)"
| "dec_fixed_text d = dec_text d"

definition money :: "pyval \<Rightarrow> decimal option \<Rightarrow> (exc, decimal) result" where
  "money v max_value =
     (case parse_decimal (py_str v) of
        None \<Rightarrow> Raise (ValueError ''cost must be a valid decimal number'')
      | Some amount \<Rightarrow>
          if \<not> dec_finite amount \<or> dec_less amount dec_zero
          then Raise (ValueError ''cost must be finite and non-negative'')
          else (case max_value of
                  None \<Rightarrow> Return amount
                | Some m \<Rightarrow>
                    if dec_less m amount
                    then Raise (ValueError (''cost must not exceed '' @ dec_fixed_text m))
                    else Return amount))"

section \<open>The depth bound\<close>

definition BOUND_DEPTH :: nat where "BOUND_DEPTH = 64"
definition BOUND_PLACEHOLDER :: string where "BOUND_PLACEHOLDER = ''<deep>''"

fun bounded_at :: "pyval \<Rightarrow> nat \<Rightarrow> pyval" and bounded_list :: "pyval list \<Rightarrow> nat \<Rightarrow> pyval list"
  and bounded_items :: "pydict \<Rightarrow> nat \<Rightarrow> pydict" where
  "bounded_at (PDict d) n =
     (if BOUND_DEPTH < n then PStr BOUND_PLACEHOLDER else PDict (bounded_items d (n + 1)))"
| "bounded_at (PList xs) n =
     (if BOUND_DEPTH < n then PStr BOUND_PLACEHOLDER else PList (bounded_list xs (n + 1)))"
| "bounded_at (PTuple xs) n =
     (if BOUND_DEPTH < n then PStr BOUND_PLACEHOLDER else PList (bounded_list xs (n + 1)))"
| "bounded_at v n = (if BOUND_DEPTH < n then PStr BOUND_PLACEHOLDER else v)"
| "bounded_list [] n = []"
| "bounded_list (x # xs) n = bounded_at x n # bounded_list xs n"
| "bounded_items [] n = []"
| "bounded_items (kv # d) n = (fst kv, bounded_at (snd kv) n) # bounded_items d n"

definition bounded :: "pyval \<Rightarrow> pyval" where
  "bounded v = bounded_at v 0"

section \<open>Tool calls\<close>

text \<open>\<open>ToolCall.create\<close>; the fresh id is an argument (\<open>uuid4().hex\<close> in the code).\<close>

definition create_call ::
  "string \<Rightarrow> pyval \<Rightarrow> pydict option \<Rightarrow> pyval \<Rightarrow> (exc, tool_call) result" where
  "create_call new_id nm arguments cost =
     (case nm of
        PStr s \<Rightarrow>
          if blank s then Raise (ValueError ''tool name must be a non-empty string'')
          else if char_of (10 :: nat) \<in> set s \<or> char_of (13 :: nat) \<in> set s
          then Raise (ValueError ''tool name must not contain line breaks'')
          else bindR (money cost (Some MAX_CALL_COST_USD)) (\<lambda>amount.
            Return \<lparr>tc_name = s,
                    tc_arguments = (case arguments of None \<Rightarrow> [] | Some d \<Rightarrow> d),
                    tc_cost = amount, tc_id = new_id\<rparr>)
      | _ \<Rightarrow> Raise (ValueError ''tool name must be a non-empty string''))"

definition fingerprint :: "tool_call \<Rightarrow> string" where
  "fingerprint c = sha256_hex (utf8 (json_text (compact_style False True)
     (PDict [(''tool'', PStr (tc_name c)), (''arguments'', bounded (PDict (tc_arguments c)))])))"

section \<open>Decisions\<close>

definition reserves_usage :: "decision \<Rightarrow> bool \<Rightarrow> bool" where
  "reserves_usage d approved = (if d_kind d = ALLOW then True else approved \<and> d_kind d \<noteq> BLOCK)"

definition decision_dict :: "decision \<Rightarrow> pydict" where
  "decision_dict d =
     [(''decision'', PStr (kind_value (d_kind d))), (''reason'', PStr (d_reason d)),
      (''code'', PStr (d_code d))] @
     (case d_rule_index d of None \<Rightarrow> [] | Some i \<Rightarrow> [(''rule_index'', PInt (int i))])"

section \<open>Usage\<close>

record usage =
  u_tool_calls :: int
  u_cost :: decimal
  u_by_tool :: "string \<rightharpoonup> int"
  u_by_fp :: "string \<rightharpoonup> int"

definition empty_usage :: usage where
  "empty_usage = \<lparr>u_tool_calls = 0, u_cost = dec_zero, u_by_tool = Map.empty, u_by_fp = Map.empty\<rparr>"

text \<open>\<open>Usage.record\<close> updates the object in place. The addition of the cost can raise (an
  overflow), which leaves the call already counted: the result is the state beside the
  outcome.\<close>

definition usage_record :: "usage \<Rightarrow> tool_call \<Rightarrow> (exc, unit) result \<times> usage" where
  "usage_record u c =
     (let u1 = u\<lparr>u_tool_calls := u_tool_calls u + 1\<rparr>
      in case dec_add (u_cost u1) (tc_cost c) of
           Inl e \<Rightarrow> (Raise (DecimalError e), u1)
         | Inr new_cost \<Rightarrow>
             (Return (), u1\<lparr>u_cost := new_cost,
                u_by_tool := bump_count (u_by_tool u1) (tc_name c),
                u_by_fp := bump_count (u_by_fp u1) (fingerprint c)\<rparr>))"

declare MAX_CALL_COST_USD_def [evals] money_def [evals] BOUND_DEPTH_def [evals]
  BOUND_PLACEHOLDER_def [evals] bounded_def [evals] create_call_def [evals]
  reserves_usage_def [evals] decision_dict_def [evals] empty_usage_def [evals]

section \<open>Accepted costs\<close>

definition cost_ok :: "decimal option \<Rightarrow> decimal \<Rightarrow> bool" where
  "cost_ok limit a =
     (dec_finite a \<and> 0 \<le> dec_value a \<and>
      (case limit of None \<Rightarrow> True | Some m \<Rightarrow> dec_value a \<le> dec_value m))"

lemma dec_value_zero [simp]: "dec_value dec_zero = 0" "dec_finite dec_zero"
  by (simp_all add: dec_zero_def)

lemma money_cost_ok:
  assumes "money v limit = Inr a" "\<And>m. limit = Some m \<Longrightarrow> dec_finite m"
  shows "cost_ok limit a"
  using assms unfolding money_def cost_ok_def
  by (auto simp: dec_less_value not_less split: option.splits if_splits)

lemma money_raises_value_error: "money v limit = Inl e \<Longrightarrow> is_value_error e"
  unfolding money_def by (auto split: option.splits if_splits)

lemma MAX_finite [simp]: "dec_finite MAX_CALL_COST_USD"
  by (simp add: MAX_CALL_COST_USD_def)

text \<open>A call that \<open>create\<close> returned.\<close>

definition call_ok :: "tool_call \<Rightarrow> bool" where
  "call_ok c = (\<not> blank (tc_name c) \<and> cost_ok (Some MAX_CALL_COST_USD) (tc_cost c))"

lemma create_call_ok: "create_call i nm args cost = Inr c \<Longrightarrow> call_ok c"
  unfolding create_call_def call_ok_def
  by (auto simp: result_simps split: pyval.splits if_splits dest: money_cost_ok)

lemma create_call_fields:
  "create_call i nm args cost = Inr c \<Longrightarrow>
     nm = PStr (tc_name c) \<and> tc_id c = i \<and>
     tc_arguments c = (case args of None \<Rightarrow> [] | Some d \<Rightarrow> d)"
  unfolding create_call_def by (auto simp: result_simps split: pyval.splits if_splits)

lemma create_call_value_error: "create_call i nm args cost = Inl e \<Longrightarrow> is_value_error e"
  unfolding create_call_def
  by (auto simp: result_simps split: pyval.splits if_splits dest: money_raises_value_error)

section \<open>Bounded values\<close>

text \<open>The nesting depth of a value: 0 for a scalar.\<close>

fun pv_depth :: "pyval \<Rightarrow> nat" and pv_depth_list :: "pyval list \<Rightarrow> nat"
  and pv_depth_items :: "pydict \<Rightarrow> nat" where
  "pv_depth (PDict d) = pv_depth_items d"
| "pv_depth (PList xs) = pv_depth_list xs"
| "pv_depth (PTuple xs) = pv_depth_list xs"
| "pv_depth _ = 0"
| "pv_depth_list [] = 0"
| "pv_depth_list (x # xs) = max (Suc (pv_depth x)) (pv_depth_list xs)"
| "pv_depth_items [] = 0"
| "pv_depth_items (kv # d) = max (Suc (pv_depth (snd kv))) (pv_depth_items d)"

fun no_tuples :: "pyval \<Rightarrow> bool" and no_tuples_list :: "pyval list \<Rightarrow> bool"
  and no_tuples_items :: "pydict \<Rightarrow> bool" where
  "no_tuples (PDict d) = no_tuples_items d"
| "no_tuples (PList xs) = no_tuples_list xs"
| "no_tuples (PTuple xs) = False"
| "no_tuples _ = True"
| "no_tuples_list [] = True"
| "no_tuples_list (x # xs) = (no_tuples x \<and> no_tuples_list xs)"
| "no_tuples_items [] = True"
| "no_tuples_items (kv # d) = (no_tuples (snd kv) \<and> no_tuples_items d)"

lemma bounded_depth_at:
  "n \<le> 65 \<Longrightarrow> pv_depth (bounded_at v n) + n \<le> 65"
  "n \<le> 65 \<Longrightarrow> 0 < n \<Longrightarrow> pv_depth_list (bounded_list xs n) + n \<le> 66"
  "n \<le> 65 \<Longrightarrow> 0 < n \<Longrightarrow> pv_depth_items (bounded_items d n) + n \<le> 66"
  by (induction v n and xs n and d n rule: bounded_at_bounded_list_bounded_items.induct)
     (auto simp: BOUND_DEPTH_def)

lemma bounded_depth: "pv_depth (bounded v) \<le> 65"
  using bounded_depth_at(1) [of 0 v] by (simp add: bounded_def)

lemma bounded_id_at:
  "pv_depth v + n \<le> 64 \<Longrightarrow> no_tuples v \<Longrightarrow> bounded_at v n = v"
  "pv_depth_list xs + n \<le> 65 \<Longrightarrow> n \<le> 64 \<or> xs = [] \<Longrightarrow> no_tuples_list xs \<Longrightarrow> bounded_list xs n = xs"
  "pv_depth_items d + n \<le> 65 \<Longrightarrow> n \<le> 64 \<or> d = [] \<Longrightarrow> no_tuples_items d \<Longrightarrow> bounded_items d n = d"
proof (induction v n and xs n and d n rule: bounded_at_bounded_list_bounded_items.induct)
  case (1 d n)
  then show ?case by (cases d) (auto simp: BOUND_DEPTH_def)
next
  case (2 xs n)
  then show ?case by (cases xs) (auto simp: BOUND_DEPTH_def)
qed (auto simp: BOUND_DEPTH_def)

lemma bounded_shallow: "pv_depth v \<le> 64 \<Longrightarrow> no_tuples v \<Longrightarrow> bounded v = v"
  using bounded_id_at(1) [of v 0] by (simp add: bounded_def)

lemma bounded_no_tuples_at:
  "no_tuples (bounded_at v n)"
  "no_tuples_list (bounded_list xs n)"
  "no_tuples_items (bounded_items d n)"
  by (induction v n and xs n and d n rule: bounded_at_bounded_list_bounded_items.induct) auto

section \<open>Usage counters\<close>

text \<open>The counters agree: every recorded call is counted once under its tool and once under its
  fingerprint.\<close>

definition usage_ok :: "usage \<Rightarrow> bool" where
  "usage_ok u =
     (finite (dom (u_by_tool u)) \<and> finite (dom (u_by_fp u)) \<and>
      map_total (u_by_tool u) = u_tool_calls u \<and> map_total (u_by_fp u) = u_tool_calls u \<and>
      dec_finite (u_cost u))"

lemma empty_usage_ok [simp]: "usage_ok empty_usage"
  by (simp add: usage_ok_def empty_usage_def)

lemma usage_record_ok:
  "usage_record u c = (Inr (), u') \<Longrightarrow> usage_ok u \<Longrightarrow> dec_finite (tc_cost c) \<Longrightarrow> usage_ok u'"
  unfolding usage_record_def usage_ok_def
  by (auto simp: Let_def map_total_bump dest: dec_add_finite split: sum.splits)

lemma usage_record_counts:
  assumes "usage_record u c = (Inr (), u')"
  shows "u_tool_calls u' = u_tool_calls u + 1"
    and "get_count (u_by_tool u') t = get_count (u_by_tool u) t + (if t = tc_name c then 1 else 0)"
    and "get_count (u_by_fp u') f = get_count (u_by_fp u) f + (if f = fingerprint c then 1 else 0)"
    and "dec_add (u_cost u) (tc_cost c) = Inr (u_cost u')"
  using assms by (auto simp: usage_record_def Let_def split: sum.splits)

section \<open>Properties\<close>

text \<open>What is serialised has bounded depth. Whatever an agent sends, the copy \<open>bounded\<close> makes nests
  at most 65 levels, and a JSON value of at most 64 levels is not changed.\<close>

theorem bounded_depth_limit:
  "pv_depth (bounded v) \<le> 65 \<and> (pv_depth v \<le> 64 \<and> no_tuples v \<longrightarrow> bounded v = v)"
  using bounded_depth bounded_shallow by blast

theorem bounded_depth_limit_witness:
  "bounded (PList [PDict [(''k'', PInt 1)]]) = PList [PDict [(''k'', PInt 1)]]"
  using bounded_depth_limit [of "PList [PDict [(''k'', PInt 1)]]"] by simp

text \<open>An accepted call has a usable cost and name. Its cost is finite, at least zero and at most
  the limit of a call, as exact numbers, and its name is not blank; any rejection is a
  \<open>ValueError\<close>.\<close>

theorem created_call_ok:
  "(create_call i nm args cost = Inr c \<longrightarrow>
      \<not> blank (tc_name c) \<and> dec_finite (tc_cost c) \<and> 0 \<le> dec_value (tc_cost c) \<and>
      dec_value (tc_cost c) \<le> dec_value MAX_CALL_COST_USD) \<and>
   (create_call i nm args cost = Inl e \<longrightarrow> is_value_error e)"
  using create_call_ok [of i nm args cost c] create_call_value_error [of i nm args cost e]
  by (auto simp: call_ok_def cost_ok_def)

theorem created_call_ok_witness:
  "create_call ''i'' (PStr ''t'') None (PFloat ''0.25'') =
     Inr \<lparr>tc_name = ''t'', tc_arguments = [], tc_cost = DFin False 25 (- 2), tc_id = ''i''\<rparr> \<and>
   dec_value (DFin False 25 (- 2)) \<le> dec_value MAX_CALL_COST_USD"
proof -
  let ?c = "\<lparr>tc_name = ''t'', tc_arguments = [], tc_cost = DFin False 25 (- 2), tc_id = ''i''\<rparr>"
  have c: "create_call ''i'' (PStr ''t'') None (PFloat ''0.25'') = Inr ?c" by (simp add: evals)
  with created_call_ok [of "''i''" "PStr ''t''" None "PFloat ''0.25''" ?c]
  have "dec_value (tc_cost ?c) \<le> dec_value MAX_CALL_COST_USD" by blast
  with c show ?thesis by (simp only: tool_call.simps simp_thms)
qed

end
