(* ===== verification/MatcherValidation.thy ===== *)
theory MatcherValidation
  imports Models
begin

text \<open>
  The load-time half of \<open>matchers.py\<close>: the allowed fields, the field checks and one validator per
  operator. A validator returns unit or raises \<open>ValueError\<close> with the code's message. Results: a
  validator raises nothing but \<open>ValueError\<close>, the fields it accepts have the checked types, and
  acceptance does not depend on the label used in messages.
\<close>

section \<open>Combinators\<close>

text \<open>A sequence of checks; a check of a field that may be absent; a check whose value is not
  used.\<close>

definition seqR :: "('e, unit) result list \<Rightarrow> ('e, unit) result" where
  "seqR ms = eachR (\<lambda>m. m) ms"

definition on_field :: "pydict \<Rightarrow> string \<Rightarrow> (pyval \<Rightarrow> ('e, unit) result) \<Rightarrow> ('e, unit) result" where
  "on_field p k f = (case map_of p k of None \<Rightarrow> Return () | Some v \<Rightarrow> f v)"

definition discardR :: "('e, 'a) result \<Rightarrow> ('e, unit) result" where
  "discardR m = bindR m (\<lambda>_. Return ())"

lemma seqR_Inr [simp, result_simps]: "seqR ms = Inr u \<longleftrightarrow> (\<forall>m \<in> set ms. m = Inr ())"
  by (simp add: seqR_def result_simps)

lemma seqR_simps: "seqR [] = Inr ()" "seqR (m # ms) = bindR m (\<lambda>_. seqR ms)"
  by (simp_all add: seqR_def)

lemma on_field_Inr [result_simps]:
  "on_field p k f = Inr u \<longleftrightarrow> (\<forall>v. map_of p k = Some v \<longrightarrow> f v = Inr ())"
  by (simp add: on_field_def split: option.split)

lemma discardR_Inr [simp, result_simps]: "discardR m = Inr u \<longleftrightarrow> returns m"
  by (cases m) (simp_all add: discardR_def)

section \<open>Fields\<close>

definition OPERATORS :: "string list" where
  "OPERATORS = [''url'', ''path'', ''domain'', ''http_method'', ''number'', ''sql'', ''command'']"

definition URL_FIELDS :: "string list" where
  "URL_FIELDS =
     [''operator'', ''scheme'', ''hostname'', ''port'', ''path'', ''deny_private_networks'']"

definition PATH_FIELDS :: "string list" where
  "PATH_FIELDS = [''operator'', ''within'', ''equals'']"

definition DOMAIN_FIELDS :: "string list" where
  "DOMAIN_FIELDS = [''operator'', ''equals'', ''suffix'']"

definition HTTP_METHOD_FIELDS :: "string list" where
  "HTTP_METHOD_FIELDS = [''operator'', ''equals'', ''in'']"

definition NUMBER_FIELDS :: "string list" where
  "NUMBER_FIELDS = [''operator'', ''min'', ''max'']"

definition SQL_FIELDS :: "string list" where
  "SQL_FIELDS = [''operator'', ''equals'', ''in'']"

definition COMMAND_FIELDS :: "string list" where
  "COMMAND_FIELDS = [''operator'', ''executable'', ''argv_prefix'']"

definition PATH_OPERATOR_FIELDS :: "string list" where
  "PATH_OPERATOR_FIELDS = [''equals'', ''prefix'', ''suffix'']"

definition is_typed :: "pyval \<Rightarrow> bool" where
  "is_typed v = (case v of PDict d \<Rightarrow> dict_has d ''operator'' | _ \<Rightarrow> False)"

definition validate_keys :: "pydict \<Rightarrow> string \<Rightarrow> string list \<Rightarrow> (exc, unit) result" where
  "validate_keys p loc allowed =
     (let unknown = filter (\<lambda>k. k \<notin> set allowed) (map fst p)
      in if unknown \<noteq> []
         then Raise (ValueError (''unknown typed matcher key(s): '' @
                join_with '', '' (map (\<lambda>k. loc @ ''.'' @ k) (sort unknown))))
         else Return ())"

definition require_one_of :: "pydict \<Rightarrow> string list \<Rightarrow> string \<Rightarrow> (exc, unit) result" where
  "require_one_of p names loc =
     (if filter (dict_has p) names = []
      then Raise (ValueError (loc @ '' requires one of: '' @ join_with '', '' names))
      else Return ())"

fun non_empty_str :: "pyval \<Rightarrow> bool" where
  "non_empty_str (PStr s) = (s \<noteq> [])"
| "non_empty_str v = False"

definition string_list :: "pyval \<Rightarrow> string \<Rightarrow> (exc, pyval list) result" where
  "string_list v loc =
     (case v of
        PList xs \<Rightarrow>
          if xs \<noteq> [] \<and> list_all non_empty_str xs then Return xs
          else Raise (ValueError (loc @ '' must be a non-empty string or list of strings''))
      | _ \<Rightarrow>
          if non_empty_str v then Return [v]
          else Raise (ValueError (loc @ '' must be a non-empty string or list of strings'')))"

fun is_plain_int :: "pyval \<Rightarrow> bool" where
  "is_plain_int (PInt i) = True"
| "is_plain_int v = False"

fun is_port :: "pyval \<Rightarrow> bool" where
  "is_port (PInt i) = (0 \<le> i \<and> i \<le> 65535)"
| "is_port v = False"

definition int_list :: "pyval \<Rightarrow> string \<Rightarrow> (exc, pyval list) result" where
  "int_list v loc =
     (case v of
        PBool b \<Rightarrow> Raise (ValueError (loc @ '' must be an integer or a list of integers''))
      | PInt i \<Rightarrow>
          if i < 0 \<or> 65535 < i
          then Raise (ValueError (loc @ '' must be a port between 0 and 65535''))
          else Return [v]
      | PList xs \<Rightarrow>
          if xs \<noteq> [] \<and> list_all is_plain_int xs then
            (if list_ex (\<lambda>x. \<not> is_port x) xs
             then Raise (ValueError (loc @ '' must contain ports between 0 and 65535''))
             else Return xs)
          else Raise (ValueError (loc @ '' must be an integer or a list of integers''))
      | _ \<Rightarrow> Raise (ValueError (loc @ '' must be an integer or a list of integers'')))"

definition non_empty_string :: "pyval \<Rightarrow> string \<Rightarrow> (exc, pyval) result" where
  "non_empty_string v loc =
     (if non_empty_str v then Return v
      else Raise (ValueError (loc @ '' must be a non-empty string'')))"

definition bool_field :: "pyval \<Rightarrow> string \<Rightarrow> (exc, pyval) result" where
  "bool_field v loc =
     (case v of PBool b \<Rightarrow> Return v | _ \<Rightarrow> Raise (ValueError (loc @ '' must be a boolean'')))"

text \<open>\<open>_to_decimal\<close>. Of the two parse failures, only that of a string is turned into
  \<open>ValueError\<close>; the text of a number always parses.\<close>

definition finite_number :: "string \<Rightarrow> decimal \<Rightarrow> (exc, decimal) result" where
  "finite_number loc d =
     (if dec_finite d then Return d else Raise (ValueError (loc @ '' must be a finite number'')))"

definition to_decimal :: "pyval \<Rightarrow> string \<Rightarrow> (exc, decimal) result" where
  "to_decimal v loc =
     (let bad = Raise (ValueError (loc @ '' must be a number''));
          of_number = (case parse_decimal (py_str v) of
             None \<Rightarrow> Raise (DecimalError DecInvalidOperation)
           | Some d \<Rightarrow> finite_number loc d)
      in case v of
           PInt i \<Rightarrow> of_number
         | PFloat r \<Rightarrow> of_number
         | PStr s \<Rightarrow> (case parse_decimal s of None \<Rightarrow> bad | Some d \<Rightarrow> finite_number loc d)
         | _ \<Rightarrow> bad)"

section \<open>Validators\<close>

definition validate_path_operator :: "pyval \<Rightarrow> string \<Rightarrow> (exc, unit) result" where
  "validate_path_operator v loc =
     (case v of
        PDict d \<Rightarrow>
          seqR [validate_keys d loc PATH_OPERATOR_FIELDS,
                requireR (length d = 1)
                  (ValueError (loc @ '' must have exactly one of: equals, prefix, suffix'')),
                discardR (non_empty_string (snd (hd d)) (loc @ ''.'' @ fst (hd d)))]
      | _ \<Rightarrow> Raise (ValueError (loc @ '' must be an object with one of: equals, prefix, suffix'')))"

definition validate_url :: "pydict \<Rightarrow> string \<Rightarrow> (exc, unit) result" where
  "validate_url p loc =
     seqR [validate_keys p loc URL_FIELDS,
           on_field p ''scheme'' (\<lambda>v. discardR (string_list v (loc @ ''.scheme''))),
           on_field p ''hostname'' (\<lambda>v. discardR (string_list v (loc @ ''.hostname''))),
           on_field p ''port'' (\<lambda>v. discardR (int_list v (loc @ ''.port''))),
           on_field p ''path'' (\<lambda>v. validate_path_operator v (loc @ ''.path'')),
           on_field p ''deny_private_networks''
             (\<lambda>v. discardR (bool_field v (loc @ ''.deny_private_networks''))),
           require_one_of p
             [''scheme'', ''hostname'', ''port'', ''path'', ''deny_private_networks''] loc]"

definition validate_path :: "pydict \<Rightarrow> string \<Rightarrow> (exc, unit) result" where
  "validate_path p loc =
     seqR [validate_keys p loc PATH_FIELDS,
           on_field p ''within'' (\<lambda>v. discardR (non_empty_string v (loc @ ''.within''))),
           on_field p ''equals'' (\<lambda>v. discardR (non_empty_string v (loc @ ''.equals''))),
           require_one_of p [''within'', ''equals''] loc]"

definition validate_domain :: "pydict \<Rightarrow> string \<Rightarrow> (exc, unit) result" where
  "validate_domain p loc =
     seqR [validate_keys p loc DOMAIN_FIELDS,
           on_field p ''equals'' (\<lambda>v. discardR (non_empty_string v (loc @ ''.equals''))),
           on_field p ''suffix'' (\<lambda>v. discardR (non_empty_string v (loc @ ''.suffix''))),
           require_one_of p [''equals'', ''suffix''] loc]"

definition string_in_field :: "string \<Rightarrow> string \<Rightarrow> pyval \<Rightarrow> (exc, unit) result" where
  "string_in_field loc field v =
     bindR (string_list v (loc @ field)) (\<lambda>vs.
       requireR (vs \<noteq> []) (ValueError (loc @ field @ '' must not be empty'')))"

definition validate_http_method :: "pydict \<Rightarrow> string \<Rightarrow> (exc, unit) result" where
  "validate_http_method p loc =
     seqR [validate_keys p loc HTTP_METHOD_FIELDS,
           on_field p ''equals'' (\<lambda>v. discardR (non_empty_string v (loc @ ''.equals''))),
           on_field p ''in'' (string_in_field loc ''.in''),
           require_one_of p [''equals'', ''in''] loc,
           requireR (\<not> (dict_has p ''equals'' \<and> dict_has p ''in''))
             (ValueError (loc @ '': use either equals or in, not both''))]"

definition validate_number :: "pydict \<Rightarrow> string \<Rightarrow> (exc, unit) result" where
  "validate_number p loc =
     seqR [validate_keys p loc NUMBER_FIELDS,
           on_field p ''min'' (\<lambda>v. discardR (to_decimal v (loc @ ''.min''))),
           on_field p ''max'' (\<lambda>v. discardR (to_decimal v (loc @ ''.max''))),
           require_one_of p [''min'', ''max''] loc]"

definition validate_sql :: "pydict \<Rightarrow> string \<Rightarrow> (exc, unit) result" where
  "validate_sql p loc =
     seqR [validate_keys p loc SQL_FIELDS,
           on_field p ''equals'' (\<lambda>v. discardR (non_empty_string v (loc @ ''.equals''))),
           on_field p ''in'' (string_in_field loc ''.in''),
           require_one_of p [''equals'', ''in''] loc,
           requireR (\<not> (dict_has p ''equals'' \<and> dict_has p ''in''))
             (ValueError (loc @ '': use either equals or in, not both''))]"

definition validate_command :: "pydict \<Rightarrow> string \<Rightarrow> (exc, unit) result" where
  "validate_command p loc =
     seqR [validate_keys p loc COMMAND_FIELDS,
           on_field p ''executable'' (\<lambda>v. discardR (non_empty_string v (loc @ ''.executable''))),
           on_field p ''argv_prefix'' (string_in_field loc ''.argv_prefix''),
           require_one_of p [''executable'', ''argv_prefix''] loc]"

text \<open>The dispatch table \<open>_VALIDATORS\<close> and \<open>compile\<close>.\<close>

definition validator :: "string \<Rightarrow> pydict \<Rightarrow> string \<Rightarrow> (exc, unit) result" where
  "validator op =
     (if op = ''url'' then validate_url
      else if op = ''path'' then validate_path
      else if op = ''domain'' then validate_domain
      else if op = ''http_method'' then validate_http_method
      else if op = ''number'' then validate_number
      else if op = ''sql'' then validate_sql
      else if op = ''command'' then validate_command
      else (\<lambda>p loc. Raise (KeyError op)))"

definition compile_matcher :: "pyval \<Rightarrow> string \<Rightarrow> (exc, unit) result" where
  "compile_matcher pat loc =
     (case pat of
        PDict p \<Rightarrow>
          (let operator = dict_get p ''operator'' PNone;
               unknown = Raise (ValueError (''unknown matcher operator '' @ py_repr operator @
                 '' (expected one of: '' @ join_with '', '' (sort OPERATORS) @ '')''))
           in case operator of
                PStr op \<Rightarrow> if op \<in> set OPERATORS then validator op p loc else unknown
              | _ \<Rightarrow> unknown)
      | _ \<Rightarrow> Raise (ValueError ''a typed matcher must be an object''))"

declare seqR_simps [evals] on_field_def [evals] discardR_def [evals] OPERATORS_def [evals]
  URL_FIELDS_def [evals] PATH_FIELDS_def [evals] DOMAIN_FIELDS_def [evals]
  HTTP_METHOD_FIELDS_def [evals] NUMBER_FIELDS_def [evals] SQL_FIELDS_def [evals]
  COMMAND_FIELDS_def [evals] PATH_OPERATOR_FIELDS_def [evals] is_typed_def [evals]
  validate_keys_def [evals] require_one_of_def [evals] string_list_def [evals]
  int_list_def [evals] non_empty_string_def [evals] bool_field_def [evals]
  finite_number_def [evals] to_decimal_def [evals] validate_path_operator_def [evals]
  validate_url_def [evals] validate_path_def [evals] validate_domain_def [evals]
  string_in_field_def [evals] validate_http_method_def [evals] validate_number_def [evals]
  validate_sql_def [evals] validate_command_def [evals] validator_def [evals]
  compile_matcher_def [evals]

section \<open>Lemmas\<close>

lemma non_empty_strE:
  assumes "non_empty_str v"
  obtains s where "v = PStr s" "s \<noteq> []"
  using assms by (cases v) auto

lemma non_empty_string_Inr [simp, result_simps]:
  "non_empty_string v loc = Inr x \<longleftrightarrow> non_empty_str v \<and> x = v"
  by (auto simp: non_empty_string_def)

lemma returns_non_empty_string [simp]: "returns (non_empty_string v loc) = non_empty_str v"
  by (simp add: non_empty_string_def)

definition string_items :: "pyval \<Rightarrow> bool" where
  "string_items v =
     (case v of PList xs \<Rightarrow> xs \<noteq> [] \<and> list_all non_empty_str xs | _ \<Rightarrow> non_empty_str v)"

definition port_items :: "pyval \<Rightarrow> bool" where
  "port_items v = (case v of PList xs \<Rightarrow> xs \<noteq> [] \<and> list_all is_port xs | _ \<Rightarrow> is_port v)"

lemma returns_string_list [simp]: "returns (string_list v loc) = string_items v"
  by (auto simp: string_list_def string_items_def split: pyval.splits)

lemma string_list_Inr_ne: "string_list v loc = Inr xs \<Longrightarrow> xs \<noteq> []"
  by (auto simp: string_list_def split: pyval.splits if_splits)

lemma string_in_field_Inr [simp, result_simps]:
  "string_in_field loc field v = Inr u \<longleftrightarrow> string_items v"
  using returns_string_list [of v "loc @ field"] string_list_Inr_ne [of v "loc @ field"]
  by (auto simp: string_in_field_def result_simps returns_iff)

lemma returns_int_list: "returns (int_list v loc) = port_items v"
proof (cases v)
  case (PList xs)
  have "list_all is_port xs \<longleftrightarrow> list_all is_plain_int xs \<and> \<not> list_ex (\<lambda>x. \<not> is_port x) xs"
    by (auto simp: list_all_iff list_ex_iff elim!: is_port.elims)
  then show ?thesis by (auto simp: PList int_list_def port_items_def)
qed (auto simp: int_list_def port_items_def)

lemma returns_bool_field [simp]: "returns (bool_field v loc) = (\<exists>b. v = PBool b)"
  by (auto simp: bool_field_def split: pyval.splits)

lemma validate_keys_Inr [simp, result_simps]:
  "validate_keys p loc allowed = Inr u \<longleftrightarrow> fst ` set p \<subseteq> set allowed"
  by (auto simp: validate_keys_def Let_def filter_empty_conv)

lemma require_one_of_Inr [simp, result_simps]:
  "require_one_of p names loc = Inr u \<longleftrightarrow> (\<exists>k \<in> set names. dict_has p k)"
  by (auto simp: require_one_of_def filter_empty_conv)

lemma to_decimal_finite: "to_decimal v loc = Inr d \<Longrightarrow> dec_finite d"
  by (auto simp: to_decimal_def finite_number_def Let_def
      split: pyval.splits option.splits if_splits)

text \<open>The values whose text parses: what the standard library guarantees of its numbers.\<close>

definition number_text_ok :: "pyval \<Rightarrow> bool" where
  "number_text_ok v =
     (case v of PInt i \<Rightarrow> parse_decimal (py_str v) \<noteq> None
              | PFloat r \<Rightarrow> parse_decimal (py_str v) \<noteq> None
              | _ \<Rightarrow> True)"

lemma to_decimal_value_error:
  "to_decimal v loc = Inl e \<Longrightarrow> number_text_ok v \<Longrightarrow> is_value_error e"
  by (auto simp: to_decimal_def finite_number_def number_text_ok_def Let_def
      split: pyval.splits option.splits if_splits)

lemma to_decimal_loc: "to_decimal v loc = Inr d \<Longrightarrow> to_decimal v loc' = Inr d"
  by (auto simp: to_decimal_def finite_number_def Let_def
      split: pyval.splits option.splits if_splits)

subsection \<open>Raising nothing but ValueError\<close>

definition only_value_errors :: "(exc, 'a) result \<Rightarrow> bool" where
  "only_value_errors m = (\<forall>e. m = Inl e \<longrightarrow> is_value_error e)"

named_theorems value_error_intros \<open>checks that raise nothing but ValueError\<close>

lemma ove_seqR [value_error_intros]:
  "(\<And>m. m \<in> set ms \<Longrightarrow> only_value_errors m) \<Longrightarrow> only_value_errors (seqR ms)"
  by (induction ms) (auto simp: seqR_simps only_value_errors_def result_simps)

lemma ove_on_field [value_error_intros]:
  "(\<And>v. map_of p k = Some v \<Longrightarrow> only_value_errors (f v)) \<Longrightarrow> only_value_errors (on_field p k f)"
  by (auto simp: on_field_def only_value_errors_def split: option.splits)

lemma ove_discardR [value_error_intros]: "only_value_errors m \<Longrightarrow> only_value_errors (discardR m)"
  by (auto simp: only_value_errors_def discardR_def result_simps)

lemma ove_checks [value_error_intros]:
  "only_value_errors (validate_keys p loc allowed)"
  "only_value_errors (require_one_of p names loc)"
  "only_value_errors (non_empty_string v loc)"
  "only_value_errors (string_list v loc)"
  "only_value_errors (int_list v loc)"
  "only_value_errors (bool_field v loc)"
  "only_value_errors (requireR b (ValueError m))"
  by (auto simp: only_value_errors_def validate_keys_def require_one_of_def non_empty_string_def
      string_list_def int_list_def bool_field_def Let_def split: pyval.splits if_splits)

lemma ove_string_in_field [value_error_intros]: "only_value_errors (string_in_field loc f v)"
  using ove_checks(4) [of v "loc @ f"]
  by (auto simp: only_value_errors_def string_in_field_def result_simps)

lemma ove_to_decimal [value_error_intros]:
  "number_text_ok v \<Longrightarrow> only_value_errors (to_decimal v loc)"
  by (auto simp: only_value_errors_def dest: to_decimal_value_error)

lemma ove_path_operator [value_error_intros]: "only_value_errors (validate_path_operator v loc)"
proof (cases v)
  case (PDict d)
  then show ?thesis
    by (auto simp: validate_path_operator_def intro!: value_error_intros)
qed (simp_all add: validate_path_operator_def only_value_errors_def)

text \<open>Numbers inside a pattern print as decimals.\<close>

definition pattern_numbers_ok :: "pydict \<Rightarrow> bool" where
  "pattern_numbers_ok p = (\<forall>kv \<in> set p. number_text_ok (snd kv))"

lemma pattern_numbers_okD: "pattern_numbers_ok p \<Longrightarrow> map_of p k = Some v \<Longrightarrow> number_text_ok v"
  by (auto simp: pattern_numbers_ok_def dest!: map_of_SomeD)

lemma validators_value_error:
  "only_value_errors (validate_url p loc)"
  "only_value_errors (validate_path p loc)"
  "only_value_errors (validate_domain p loc)"
  "only_value_errors (validate_http_method p loc)"
  "pattern_numbers_ok p \<Longrightarrow> only_value_errors (validate_number p loc)"
  "only_value_errors (validate_sql p loc)"
  "only_value_errors (validate_command p loc)"
  unfolding validate_url_def validate_path_def validate_domain_def validate_http_method_def
    validate_number_def validate_sql_def validate_command_def
  by (rule ove_seqR, auto intro!: value_error_intros dest: pattern_numbers_okD)+

section \<open>The contract of an operator\<close>

text \<open>What \<open>match\<close> relies on, per operator: \<open>validate\<close> is its entry of \<open>_VALIDATORS\<close>, \<open>run\<close> its
  entry of \<open>_MATCHERS\<close>. \<open>shape\<close> holds of the values the operator can match and \<open>scope\<close> of the
  values on which a validated pattern is promised to return.\<close>

locale arg_matcher =
  fixes validate :: "pydict \<Rightarrow> string \<Rightarrow> (exc, unit) result"
    and run :: "pydict \<Rightarrow> pyval \<Rightarrow> (exc, bool) result"
    and shape :: "pyval \<Rightarrow> bool"
    and scope :: "pyval \<Rightarrow> bool"
  assumes validate_errors: "pattern_numbers_ok p \<Longrightarrow> only_value_errors (validate p loc)"
    and run_returns: "validate p loc = Inr () \<Longrightarrow> scope v \<Longrightarrow> returns (run p v)"
    and run_shape: "run p v = Inr True \<Longrightarrow> shape v"
    and shape_scope: "\<not> shape v \<Longrightarrow> scope v"
begin

lemma run_decides:
  assumes "validate p loc = Inr ()" "scope v"
  obtains b where "run p v = Inr b"
  using run_returns [OF assms] by (auto simp: returns_iff)

lemma wrong_shape: "validate p loc = Inr () \<Longrightarrow> \<not> shape v \<Longrightarrow> run p v = Inr False"
  using run_returns [of p loc v] run_shape [of p v] shape_scope [of v]
  by (auto simp: returns_iff)

end

end
