(* ===== verification/InetAddr.thy ===== *)
theory InetAddr
  imports PyText "HOL-Library.Word"
begin

text \<open>
  IP addresses as Python reads them: \<open>ipaddress.ip_address\<close> on text and on integers,
  \<open>is_global\<close> and \<open>is_loopback\<close> with the IANA special-purpose networks, and
  \<open>socket.inet_aton\<close> with the legacy numeric forms of inet(3). IPv4 addresses are 32-bit
  words, IPv6 addresses 128-bit words. The tables are those of CPython 3.11; a host that the C
  library's \<open>inet_aton\<close> accepts may be followed by white space and more text, as in glibc.
\<close>

unbundle bit_operations_syntax

type_synonym ipv4 = "32 word"
type_synonym ipv6 = "128 word"

datatype ip_address = IPv4 ipv4 | IPv6 ipv6

section \<open>Networks\<close>

text \<open>\<open>a in net/len\<close>: the leading \<open>len\<close> bits agree.\<close>

definition in_net :: "'n::len word \<Rightarrow> nat \<Rightarrow> 'n word \<Rightarrow> bool" where
  "in_net net plen a =
     (drop_bit (LENGTH('n) - plen) a = drop_bit (LENGTH('n) - plen) net)"

definition private_nets4 :: "(ipv4 \<times> nat) list" where
  "private_nets4 =
    [(0x00000000, 8), (0x0A000000, 8), (0x7F000000, 8), (0xA9FE0000, 16), (0xAC100000, 12),
     (0xC0000000, 24), (0xC00000AA, 31), (0xC0000200, 24), (0xC0A80000, 16), (0xC6120000, 15),
     (0xC6336400, 24), (0xCB007100, 24), (0xF0000000, 4), (0xFFFFFFFF, 32)]"

definition private_exceptions4 :: "(ipv4 \<times> nat) list" where
  "private_exceptions4 = [(0xC0000009, 32), (0xC000000A, 32)]"

definition private_nets6 :: "(ipv6 \<times> nat) list" where
  "private_nets6 =
    [(1, 128), (0, 128), (0xFFFF00000000, 96),
     (0x64FF9B000100000000000000000000, 48), (0x1000000000000000000000000000000, 64),
     (0x20010000000000000000000000000000, 23), (0x20010DB8000000000000000000000000, 32),
     (0x20020000000000000000000000000000, 16), (0xFC000000000000000000000000000000, 7),
     (0xFE800000000000000000000000000000, 10)]"

definition private_exceptions6 :: "(ipv6 \<times> nat) list" where
  "private_exceptions6 =
    [(0x20010001000000000000000000000001, 128), (0x20010001000000000000000000000002, 128),
     (0x20010003000000000000000000000000, 32), (0x20010004011200000000000000000000, 48),
     (0x20010020000000000000000000000000, 28), (0x20010030000000000000000000000000, 28)]"

definition in_nets :: "('n::len word \<times> nat) list \<Rightarrow> 'n word \<Rightarrow> bool" where
  "in_nets nets a = list_ex (\<lambda>np. in_net (fst np) (snd np) a) nets"

definition is_private4 :: "ipv4 \<Rightarrow> bool" where
  "is_private4 a = (in_nets private_nets4 a \<and> \<not> in_nets private_exceptions4 a)"

definition is_global4 :: "ipv4 \<Rightarrow> bool" where
  "is_global4 a = (\<not> in_net 0x64400000 10 a \<and> \<not> is_private4 a)"

definition ipv4_mapped :: "ipv6 \<Rightarrow> ipv4 option" where
  "ipv4_mapped a = (if drop_bit 32 a = 0xFFFF then Some (ucast a) else None)"

definition is_private6 :: "ipv6 \<Rightarrow> bool" where
  "is_private6 a =
     (case ipv4_mapped a of
        Some b \<Rightarrow> is_private4 b
      | None \<Rightarrow> in_nets private_nets6 a \<and> \<not> in_nets private_exceptions6 a)"

fun is_global :: "ip_address \<Rightarrow> bool" where
  "is_global (IPv4 a) = is_global4 a"
| "is_global (IPv6 a) = (\<not> is_private6 a)"

fun is_loopback_ip :: "ip_address \<Rightarrow> bool" where
  "is_loopback_ip (IPv4 a) = in_net 0x7F000000 8 a"
| "is_loopback_ip (IPv6 a) = (a = 1)"

section \<open>Text\<close>

definition parse_octet :: "string \<Rightarrow> nat option" where
  "parse_octet s =
     (if all_digits s \<and> length s \<le> 3 \<and> (s = ''0'' \<or> hd s \<noteq> CHR ''0'') \<and> text_nat s \<le> 255
      then Some (text_nat s) else None)"

definition parse_ipv4 :: "string \<Rightarrow> ipv4 option" where
  "parse_ipv4 s =
     (case map parse_octet (split_on (CHR ''.'') s) of
        [Some a, Some b, Some c, Some d] \<Rightarrow> Some (of_nat (((a * 256 + b) * 256 + c) * 256 + d))
      | _ \<Rightarrow> None)"

definition parse_hextet :: "string \<Rightarrow> nat option" where
  "parse_hextet s =
     (if s \<noteq> [] \<and> list_all is_hex s \<and> length s \<le> 4 then Some (text_nat_base 16 s) else None)"

fun hextets_value :: "string list \<Rightarrow> ipv6 \<Rightarrow> ipv6 option" where
  "hextets_value [] acc = Some acc"
| "hextets_value (p # ps) acc =
     (case parse_hextet p of
        None \<Rightarrow> None
      | Some h \<Rightarrow> hextets_value ps (push_bit 16 acc OR of_nat h))"

definition nat_hex_char :: "nat \<Rightarrow> char" where
  "nat_hex_char d = (if d < 10 then char_of (48 + d) else char_of (87 + d))"

definition hex4 :: "nat \<Rightarrow> string" where
  "hex4 n = map (\<lambda>i. nat_hex_char (n div 16 ^ (3 - i) mod 16)) [0..<4]"

text \<open>An IPv4-style last part stands for two hextets. The code prints them without leading
  zeros; the four-digit form read back here has the same value.\<close>

definition expand_ipv4_part :: "string list \<Rightarrow> string list option" where
  "expand_ipv4_part ps =
     (if CHR ''.'' \<in> set (last ps) then
        (case parse_ipv4 (last ps) of
           None \<Rightarrow> None
         | Some a \<Rightarrow> Some (butlast ps @ [hex4 (unat a div 65536), hex4 (unat a mod 65536)]))
      else Some ps)"

text \<open>The positions of empty parts that are neither first nor last: a double colon.\<close>

definition skip_positions :: "string list \<Rightarrow> nat list" where
  "skip_positions ps = filter (\<lambda>i. ps ! i = []) [1..<length ps - 1]"

definition ipv6_parts :: "string list \<Rightarrow> ipv6 option" where
  "ipv6_parts ps =
     (case skip_positions ps of
        [] \<Rightarrow>
          if length ps = 8 \<and> hd ps \<noteq> [] \<and> last ps \<noteq> [] then hextets_value ps 0 else None
      | [k] \<Rightarrow>
          let hi = (if hd ps = [] then k - 1 else k);
              lo = (if last ps = [] then length ps - k - 2 else length ps - k - 1)
          in if hd ps = [] \<and> hi \<noteq> 0 \<or> last ps = [] \<and> lo \<noteq> 0 \<or> 8 \<le> hi + lo then None
             else (case hextets_value (take hi ps) 0 of
                     None \<Rightarrow> None
                   | Some v \<Rightarrow>
                       hextets_value (drop (length ps - lo) ps) (push_bit (16 * (8 - (hi + lo))) v))
      | _ \<Rightarrow> None)"

definition parse_ipv6_int :: "string \<Rightarrow> ipv6 option" where
  "parse_ipv6_int s =
     (let ps = split_on (CHR '':'') s
      in if s = [] \<or> length ps < 3 then None
         else (case expand_ipv4_part ps of
                 None \<Rightarrow> None
               | Some qs \<Rightarrow> if 9 < length qs then None else ipv6_parts qs))"

text \<open>\<open>IPv6Address(text)\<close>: a scope id after \<open>%\<close> must not be empty nor hold another \<open>%\<close>.\<close>

definition parse_ipv6 :: "string \<Rightarrow> ipv6 option" where
  "parse_ipv6 s =
     (if CHR ''/'' \<in> set s then None
      else case partition_at (CHR ''%'') s of
             (addr, found, scope) \<Rightarrow>
               if found \<and> (scope = [] \<or> CHR ''%'' \<in> set scope) then None
               else parse_ipv6_int addr)"

text \<open>\<open>ipaddress.ip_address(text)\<close>; None is \<open>ValueError\<close>.\<close>

definition ip_address_of :: "string \<Rightarrow> ip_address option" where
  "ip_address_of s =
     (case parse_ipv4 s of
        Some a \<Rightarrow> Some (IPv4 a)
      | None \<Rightarrow> (case parse_ipv6 s of Some a \<Rightarrow> Some (IPv6 a) | None \<Rightarrow> None))"

section \<open>inet\_aton\<close>

datatype aton_error = AtonOSError | AtonNullCharacter

text \<open>\<open>strtoul(s, &end, 0)\<close> on text that starts with a digit: hexadecimal after \<open>0x\<close> and a hex
  digit, octal after \<open>0\<close>, decimal otherwise; the value and the rest of the text.\<close>

definition strtoul0 :: "string \<Rightarrow> nat \<times> string" where
  "strtoul0 s =
     (case s of
        z # x # h # r \<Rightarrow>
          if z = CHR ''0'' \<and> (x = CHR ''x'' \<or> x = CHR ''X'') \<and> is_hex h
          then (text_nat_base 16 (takeWhile is_hex (h # r)), dropWhile is_hex (h # r))
          else if z = CHR ''0'' then (text_nat_base 8 (takeWhile is_octal s), dropWhile is_octal s)
          else (text_nat (takeWhile is_digit s), dropWhile is_digit s)
      | z # _ \<Rightarrow>
          if z = CHR ''0'' then (text_nat_base 8 (takeWhile is_octal s), dropWhile is_octal s)
          else (text_nat (takeWhile is_digit s), dropWhile is_digit s)
      | [] \<Rightarrow> (0, []))"

definition c_space :: "char \<Rightarrow> bool" where
  "c_space c = (9 \<le> code c \<and> code c \<le> 13 \<or> code c = 32)"

text \<open>\<open>k\<close> more dots may follow; \<open>acc\<close> is the value of the parts read.\<close>

fun aton_parts :: "nat \<Rightarrow> nat \<Rightarrow> string \<Rightarrow> ipv4 option" where
  "aton_parts k acc s =
     (if s = [] \<or> \<not> is_digit (hd s) then None
      else case strtoul0 s of (v, rest) \<Rightarrow>
        if 4294967295 < v then None
        else if rest \<noteq> [] \<and> hd rest = CHR ''.'' then
          (case k of 0 \<Rightarrow> None
           | Suc k' \<Rightarrow> if 255 < v then None else aton_parts k' (acc * 256 + v) (tl rest))
        else if rest \<noteq> [] \<and> \<not> c_space (hd rest) then None
        else if 256 ^ (k + 1) \<le> v then None
        else Some (of_nat (acc * 256 ^ (k + 1) + v)))"

declare aton_parts.simps [simp del]

definition inet_aton :: "string \<Rightarrow> aton_error + ipv4" where
  "inet_aton s =
     (if char_of (0 :: nat) \<in> set s then Inl AtonNullCharacter
      else case aton_parts 3 0 s of None \<Rightarrow> Inl AtonOSError | Some a \<Rightarrow> Inr a)"

declare in_net_def [evals] private_nets4_def [evals] private_exceptions4_def [evals]
  private_nets6_def [evals] private_exceptions6_def [evals] in_nets_def [evals]
  is_private4_def [evals] is_global4_def [evals] ipv4_mapped_def [evals] is_private6_def [evals]
  parse_octet_def [evals] parse_ipv4_def [evals] parse_hextet_def [evals] nat_hex_char_def [evals]
  hex4_def [evals] expand_ipv4_part_def [evals] skip_positions_def [evals] ipv6_parts_def [evals]
  parse_ipv6_int_def [evals] parse_ipv6_def [evals] ip_address_of_def [evals]
  strtoul0_def [evals] c_space_def [evals] aton_parts.simps [evals] inet_aton_def [evals]

section \<open>Dotted quads\<close>

text \<open>The canonical text of an IPv4 address reads back as it.\<close>

definition ipv4_text :: "ipv4 \<Rightarrow> string" where
  "ipv4_text a = join_with ''.''
     (map (\<lambda>i. nat_text (unat a div 256 ^ (3 - i) mod 256)) [0..<4])"

lemma nat_text_hd_nonzero: "0 < n \<Longrightarrow> hd (nat_text n) \<noteq> CHR ''0''"
proof (induction n rule: nat_text.induct)
  case (1 n)
  show ?case
  proof (cases "n < 10")
    case True
    then have n: "nat_text n = [digit_char n]" by (simp add: nat_text.simps [of n])
    have "digit_val (digit_char n) \<noteq> digit_val (CHR ''0'')"
      using True \<open>0 < n\<close> by (simp add: digit_val_def digit_char_def)
    then have "digit_char n \<noteq> CHR ''0''" by metis
    with n show ?thesis by simp
  next
    case False
    with 1 show ?thesis by (simp add: nat_text.simps [of n])
  qed
qed

lemma parse_octet_text: "n \<le> 255 \<Longrightarrow> parse_octet (nat_text n) = Some n"
proof -
  assume n: "n \<le> 255"
  have "length (nat_text n) \<le> 3"
    by (rule length_nat_text_le) (use n in auto)
  moreover have "nat_text n = ''0'' \<or> hd (nat_text n) \<noteq> CHR ''0''"
    by (cases "n = 0") (simp_all add: nat_text_numeral nat_text_hd_nonzero)
  ultimately show ?thesis using n by (simp add: parse_octet_def)
qed

lemma no_dot_nat_text [simp]: "CHR ''.'' \<notin> set (nat_text n)"
  using nat_text_digits [of "CHR ''.''" n] by auto

lemma quad_value:
  fixes n :: nat
  assumes "n < 4294967296"
  shows "((n div 16777216 mod 256 * 256 + n div 65536 mod 256) * 256 + n div 256 mod 256) * 256
      + n mod 256 = n"
proof -
  have q2: "n div 65536 = n div 256 div 256" and q3: "n div 16777216 = n div 256 div 256 div 256"
    by (simp_all add: div_mult2_eq [symmetric])
  have "n div 16777216 mod 256 = n div 16777216" using assms by simp
  then show ?thesis unfolding q2 q3 by (simp only: div_mult_mod_eq)
qed

lemma parse_ipv4_text: "parse_ipv4 (ipv4_text a) = Some a"
proof -
  let ?n = "unat a"
  have lt: "?n < 4294967296" using unsigned_less [of a] by simp
  have "split_on (CHR ''.'') (ipv4_text a)
      = map (\<lambda>i. nat_text (?n div 256 ^ (3 - i) mod 256)) [0..<4]"
    unfolding ipv4_text_def by (rule split_join) auto
  also have "\<dots> = [nat_text (?n div 16777216 mod 256), nat_text (?n div 65536 mod 256),
                 nat_text (?n div 256 mod 256), nat_text (?n mod 256)]"
    by (simp add: upt_rec)
  finally have "parse_ipv4 (ipv4_text a) = Some (of_nat (((?n div 16777216 mod 256 * 256
      + ?n div 65536 mod 256) * 256 + ?n div 256 mod 256) * 256 + ?n mod 256))"
    by (simp add: parse_ipv4_def parse_octet_text less_Suc_eq_le [symmetric])
  then show ?thesis by (simp only: quad_value [OF lt] of_nat_unat ucast_id)
qed

end
