(* ===== verification/UrlParse.thy ===== *)
theory UrlParse
  imports InetAddr
begin

text \<open>
  \<open>urllib.parse.urlsplit\<close> and the \<open>hostname\<close> and \<open>port\<close> attributes of its result, as CPython
  3.11 computes them. None stands for \<open>ValueError\<close>. The NFKC check of the network location
  cannot fail on text of the model's code points, so it has no branch. Results: a user-info
  part never changes the host, and a plain \<open>scheme://host/path\<close> splits as it reads.
\<close>

record url_parts =
  up_scheme :: string
  up_netloc :: string
  up_path :: string

definition c0_or_space :: "char \<Rightarrow> bool" where
  "c0_or_space c = (code c \<le> 32)"

definition unsafe_url_char :: "char \<Rightarrow> bool" where
  "unsafe_url_char c = (code c = 9 \<or> code c = 10 \<or> code c = 13)"

definition scheme_char :: "char \<Rightarrow> bool" where
  "scheme_char c = (is_alpha_ascii c \<or> is_digit c \<or> c = CHR ''+'' \<or> c = CHR ''-'' \<or> c = CHR ''.'')"

definition split_scheme :: "string \<Rightarrow> string \<times> string" where
  "split_scheme url =
     (case partition_at (CHR '':'') url of
        (sch, found, rest) \<Rightarrow>
          if found \<and> sch \<noteq> [] \<and> is_alpha_ascii (hd sch) \<and> list_all scheme_char sch
          then (str_lower sch, rest) else ([], url))"

definition netloc_char :: "char \<Rightarrow> bool" where
  "netloc_char c = (c \<noteq> CHR ''/'' \<and> c \<noteq> CHR ''?'' \<and> c \<noteq> CHR ''#'')"

text \<open>The regular expression \<open>v[a-fA-F0-9]+\..+\<close> on the bracketed host.\<close>

definition ipvfuture_ok :: "string \<Rightarrow> bool" where
  "ipvfuture_ok h =
     (let r = tl h; hs = takeWhile is_hex r; r2 = dropWhile is_hex r
      in hs \<noteq> [] \<and> 2 \<le> length r2 \<and> hd r2 = CHR ''.'')"

definition bracketed_host_ok :: "string \<Rightarrow> bool" where
  "bracketed_host_ok h =
     (if starts_with ''v'' h then ipvfuture_ok h
      else (case ip_address_of h of Some (IPv6 a) \<Rightarrow> True | _ \<Rightarrow> False))"

definition netloc_brackets_ok :: "string \<Rightarrow> bool" where
  "netloc_brackets_ok n =
     (let opening = (CHR ''['' \<in> set n); closing = (CHR '']'' \<in> set n)
      in opening = closing \<and>
         (opening \<longrightarrow>
            bracketed_host_ok (fst (partition_at (CHR '']'') (snd (snd (partition_at (CHR ''['') n)))))))"

definition before_mark :: "char \<Rightarrow> string \<Rightarrow> string" where
  "before_mark a s = fst (partition_at a s)"

definition urlsplit :: "string \<Rightarrow> url_parts option" where
  "urlsplit url0 =
     (let url = filter (\<lambda>c. \<not> unsafe_url_char c) (str_lstrip c0_or_space url0)
      in case split_scheme url of
           (scheme, rest) \<Rightarrow>
             let has_netloc = starts_with ''//'' rest;
                 netloc = (if has_netloc then takeWhile netloc_char (drop 2 rest) else []);
                 tail = (if has_netloc then dropWhile netloc_char (drop 2 rest) else rest)
             in if has_netloc \<and> \<not> netloc_brackets_ok netloc then None
                else Some \<lparr>up_scheme = scheme, up_netloc = netloc,
                           up_path = before_mark (CHR ''?'') (before_mark (CHR ''#'') tail)\<rparr>)"

text \<open>\<open>_hostinfo\<close>: the host text and the port text of a network location.\<close>

definition hostinfo :: "string \<Rightarrow> string \<times> string" where
  "hostinfo netloc =
     (let info = snd (snd (rpartition_at (CHR ''@'') netloc))
      in case partition_at (CHR ''['') info of
           (_, open_br, bracketed) \<Rightarrow>
             if open_br then
               (case partition_at (CHR '']'') bracketed of
                  (host, _, after) \<Rightarrow> (host, snd (snd (partition_at (CHR '':'') after))))
             else (case partition_at (CHR '':'') info of (host, _, port) \<Rightarrow> (host, port)))"

definition url_hostname :: "url_parts \<Rightarrow> string option" where
  "url_hostname u =
     (let h = fst (hostinfo (up_netloc u))
      in if h = [] then None
         else case partition_at (CHR ''%'') h of
                (a, found, zone) \<Rightarrow> Some (if found then str_lower a @ ''%'' @ zone else str_lower a))"

text \<open>The port attribute: the outer None is \<open>ValueError\<close>, the inner one no port.\<close>

definition url_port :: "url_parts \<Rightarrow> nat option option" where
  "url_port u =
     (let p = snd (hostinfo (up_netloc u))
      in if p = [] then Some None
         else if all_digits p \<and> text_nat p \<le> 65535 then Some (Some (text_nat p))
         else None)"

declare c0_or_space_def [evals] unsafe_url_char_def [evals] scheme_char_def [evals]
  split_scheme_def [evals] netloc_char_def [evals] ipvfuture_ok_def [evals]
  bracketed_host_ok_def [evals] netloc_brackets_ok_def [evals] before_mark_def [evals]
  urlsplit_def [evals] hostinfo_def [evals] url_hostname_def [evals] url_port_def [evals]

section \<open>Lemmas\<close>

lemma hostinfo_userinfo:
  "CHR ''@'' \<notin> set h \<Longrightarrow> hostinfo (u @ CHR ''@'' # h) = hostinfo h"
proof -
  assume h: "CHR ''@'' \<notin> set h"
  then have "rpartition_at (CHR ''@'') (u @ CHR ''@'' # h) = (u, True, h)"
    by (simp add: rpartition_at_found)
  with rpartition_at_missing [OF h] show ?thesis unfolding hostinfo_def by simp
qed

text \<open>What a host text needs so that it is read back unchanged.\<close>

definition host_plain :: "string \<Rightarrow> bool" where
  "host_plain h = (h \<noteq> [] \<and> list_all (\<lambda>c. c \<notin> set ''@:[]/?#%'' \<and> 32 < code c) h)"

lemma host_plainD:
  assumes "host_plain h"
  shows "list_all netloc_char h" "filter (\<lambda>c. \<not> unsafe_url_char c) h = h"
    "CHR ''@'' \<notin> set h" "CHR '':'' \<notin> set h" "CHR ''['' \<notin> set h" "CHR '']'' \<notin> set h"
    "CHR ''%'' \<notin> set h" "h \<noteq> []"
proof -
  have P: "c \<notin> set ''@:[]/?#%''" "32 < code c" if "c \<in> set h" for c
    using assms that by (simp_all add: host_plain_def list_all_iff)
  show "list_all netloc_char h" using P(1) by (auto simp: list_all_iff netloc_char_def)
  show "filter (\<lambda>c. \<not> unsafe_url_char c) h = h"
    using P(2) by (intro filter_True) (force simp: unsafe_url_char_def)
  show "CHR ''@'' \<notin> set h" "CHR '':'' \<notin> set h" "CHR ''['' \<notin> set h" "CHR '']'' \<notin> set h"
    "CHR ''%'' \<notin> set h" using P(1) by auto
  show "h \<noteq> []" using assms by (simp add: host_plain_def)
qed

lemma partition_at_none: "a \<notin> set s \<Longrightarrow> partition_at a s = (s, False, [])"
  by (simp add: partition_at_missing)

lemma hostinfo_plain: "host_plain h \<Longrightarrow> hostinfo h = (h, [])"
  by (simp add: hostinfo_def rpartition_at_missing partition_at_none host_plainD(3,4,5))

lemma url_hostname_plain:
  "host_plain h \<Longrightarrow> up_netloc u = h \<Longrightarrow> url_hostname u = Some (str_lower h)"
  by (simp add: url_hostname_def hostinfo_plain partition_at_none host_plainD(7,8))

lemma takeWhile_all_append:
  "list_all P xs \<Longrightarrow> ys = [] \<or> \<not> P (hd ys) \<Longrightarrow> takeWhile P (xs @ ys) = xs \<and> dropWhile P (xs @ ys) = ys"
  by (induction xs) (cases ys; auto)+

lemma urlsplit_http:
  assumes h: "host_plain h"
  shows "urlsplit (''http://'' @ h) = Some \<lparr>up_scheme = ''http'', up_netloc = h, up_path = []\<rparr>"
proof -
  have tw: "takeWhile netloc_char h = h" "dropWhile netloc_char h = []"
    using takeWhile_all_append [OF host_plainD(1) [OF h], of "[]"] by auto
  have br: "netloc_brackets_ok h"
    using host_plainD(5,6) [OF h] by (simp add: netloc_brackets_ok_def)
  have safe: "filter (\<lambda>c. \<not> unsafe_url_char c) h = h" by (rule host_plainD(2) [OF h])
  show ?thesis
    unfolding urlsplit_def
    by (simp add: str_lstrip_def c0_or_space_def unsafe_url_char_def [of "CHR ''h''"]
        unsafe_url_char_def [of "CHR ''t''"] unsafe_url_char_def [of "CHR ''p''"]
        unsafe_url_char_def [of "CHR '':''"] unsafe_url_char_def [of "CHR ''/''"]
        safe split_scheme_def scheme_char_def is_alpha_ascii_def str_lower_def lower_char_def
        tw br before_mark_def)
qed

end
