(* ===== verification/GlobMatch.thy ===== *)
theory GlobMatch
  imports PyText
begin

text \<open>
  Shell-style globs: \<open>fnmatch.translate\<close> and the full match of the regular expression it
  builds, which \<open>matchers.glob_match\<close> and \<open>fnmatchcase\<close> use. A pattern is translated to a
  list of tokens (star, any character, a literal, a character class) in the steps of
  \<open>translate\<close>, the removal of empty ranges included; matching is membership in the language of
  the tokens. Results: what literal patterns, stars and prefixes match, and the splitting law of
  the star.
\<close>

section \<open>Translation\<close>

datatype glob_tok =
    GStar
  | GAny
  | GLit char
  | GSet bool "(char \<times> char) list"

text \<open>The text between the brackets is cut into chunks at the hyphens that can be ranges: a
  hyphen is not one at the start of a chunk or as its second character.\<close>

fun glob_chunks :: "string \<Rightarrow> nat \<Rightarrow> string \<Rightarrow> string list" where
  "glob_chunks cur skip [] = [cur]"
| "glob_chunks cur skip (c # cs) =
     (if skip = 0 \<and> c = CHR ''-'' then cur # glob_chunks [] 2 cs
      else glob_chunks (cur @ [c]) (skip - 1) cs)"

text \<open>A hyphen at the very end leaves an empty last chunk: it is a character of the one
  before.\<close>

definition close_chunks :: "string list \<Rightarrow> string list" where
  "close_chunks ws =
     (if last ws = [] \<and> 1 < length ws
      then butlast (butlast ws) @ [last (butlast ws) @ ''-''] else ws)"

text \<open>Empty ranges are removed from the right.\<close>

fun merge_chunks :: "string list \<Rightarrow> string list" where
  "merge_chunks [] = []"
| "merge_chunks [w] = [w]"
| "merge_chunks (w # v # ws) =
     (case merge_chunks (v # ws) of
        [] \<Rightarrow> [w]
      | d # ds \<Rightarrow> if hd d < last w then (butlast w @ tl d) # ds else w # d # ds)"

text \<open>The class as the regular expression reads it: \<open>Some c\<close> a literal character, \<open>None\<close> the
  hyphen between two chunks.\<close>

fun class_elems :: "string list \<Rightarrow> char option list" where
  "class_elems [] = []"
| "class_elems [w] = map Some w"
| "class_elems (w # v # ws) = map Some w @ None # class_elems (v # ws)"

fun class_ranges :: "char option list \<Rightarrow> (char \<times> char) list" where
  "class_ranges (Some a # None # Some b # r) = (a, b) # class_ranges r"
| "class_ranges (Some a # r) = (a, a) # class_ranges r"
| "class_ranges (None # r) = (CHR ''-'', CHR ''-'') # class_ranges r"
| "class_ranges [] = []"

definition glob_class :: "string \<Rightarrow> glob_tok" where
  "glob_class stuff =
     (let skip = (case stuff of c # _ \<Rightarrow> if c = CHR ''!'' then 2 else 1 | [] \<Rightarrow> 1);
          es = class_elems (merge_chunks (close_chunks (glob_chunks [] skip stuff)))
      in case es of
           [] \<Rightarrow> GSet False []
         | e # r \<Rightarrow>
             if e = Some (CHR ''!'') then (if r = [] then GAny else GSet True (class_ranges r))
             else GSet False (class_ranges es))"

text \<open>The bracket text of a pattern after \<open>[\<close>: a closing bracket directly after \<open>[\<close> or \<open>[!\<close> is
  a character of the class. None when the bracket is never closed.\<close>

definition bracket_text :: "string \<Rightarrow> (string \<times> string) option" where
  "bracket_text s =
     (let (neg, s1) = (case s of c # t \<Rightarrow> if c = CHR ''!'' then ([c], t) else ([], s) | [] \<Rightarrow> ([], s));
          (br, s2) = (case s1 of c # t \<Rightarrow> if c = CHR '']'' then ([c], t) else ([], s1) | [] \<Rightarrow> ([], s1))
      in case partition_at (CHR '']'') s2 of
           (x, found, rest) \<Rightarrow> if found then Some (neg @ br @ x, rest) else None)"

lemma bracket_text_length: "bracket_text s = Some (x, rest) \<Longrightarrow> length rest < length s"
  by (auto simp: bracket_text_def Let_def split: prod.splits list.splits if_splits
      dest!: partition_at_length)

function glob_tokens :: "string \<Rightarrow> glob_tok list" where
  "glob_tokens [] = []"
| "glob_tokens (c # cs) =
     (if c = CHR ''*'' then GStar # glob_tokens (dropWhile (\<lambda>d. d = CHR ''*'') cs)
      else if c = CHR ''?'' then GAny # glob_tokens cs
      else if c = CHR ''['' then
        (case bracket_text cs of
           None \<Rightarrow> GLit c # glob_tokens cs
         | Some (x, rest) \<Rightarrow> glob_class x # glob_tokens rest)
      else GLit c # glob_tokens cs)"
  by pat_completeness auto
termination
  by (relation "measure length")
     (auto simp: less_Suc_eq_le length_dropWhile_le dest: bracket_text_length)

section \<open>Matching\<close>

fun tok_matches :: "glob_tok \<Rightarrow> char \<Rightarrow> bool" where
  "tok_matches GStar c = False"
| "tok_matches GAny c = True"
| "tok_matches (GLit d) c = (d = c)"
| "tok_matches (GSet neg rs) c = (list_ex (\<lambda>r. fst r \<le> c \<and> c \<le> snd r) rs \<noteq> neg)"

fun toks_match :: "glob_tok list \<Rightarrow> string \<Rightarrow> bool" where
  "toks_match [] s = (s = [])"
| "toks_match (GStar # ts) [] = toks_match ts []"
| "toks_match (GStar # ts) (c # cs) = (toks_match ts (c # cs) \<or> toks_match (GStar # ts) cs)"
| "toks_match (t # ts) [] = False"
| "toks_match (t # ts) (c # cs) = (tok_matches t c \<and> toks_match ts cs)"

definition glob_match :: "string \<Rightarrow> string \<Rightarrow> bool" where
  "glob_match pattern v = toks_match (glob_tokens pattern) v"

declare close_chunks_def [evals] glob_class_def [evals] bracket_text_def [evals]
  glob_match_def [evals] less_char_def [evals] less_eq_char_def [evals]

section \<open>The language of a pattern\<close>

lemma toks_match_star: "toks_match (GStar # ts) s \<longleftrightarrow> (\<exists>a b. s = a @ b \<and> toks_match ts b)"
proof (induction s)
  case Nil
  then show ?case by simp
next
  case (Cons c cs)
  have "(\<exists>a b. c # cs = a @ b \<and> toks_match ts b) \<longleftrightarrow>
      toks_match ts (c # cs) \<or> (\<exists>a b. cs = a @ b \<and> toks_match ts b)"
    by (metis append_Cons append_Nil list.exhaust list.inject)
  then show ?case by (simp add: Cons.IH)
qed

lemma toks_match_single:
  "t \<noteq> GStar \<Longrightarrow> toks_match (t # ts) s \<longleftrightarrow> (\<exists>c cs. s = c # cs \<and> tok_matches t c \<and> toks_match ts cs)"
  by (cases t; cases s) auto

lemma toks_match_append:
  "toks_match (ts @ us) s \<longleftrightarrow> (\<exists>a b. s = a @ b \<and> toks_match ts a \<and> toks_match us b)"
proof (induction ts arbitrary: s)
  case Nil
  then show ?case by simp
next
  case (Cons t ts)
  show ?case
  proof (cases "t = GStar")
    case True
    have "toks_match (GStar # (ts @ us)) s \<longleftrightarrow> (\<exists>x y. s = x @ y \<and> toks_match (ts @ us) y)"
      by (rule toks_match_star)
    also have "\<dots> \<longleftrightarrow> (\<exists>x a b. s = x @ a @ b \<and> toks_match ts a \<and> toks_match us b)"
      using Cons.IH by auto
    also have "\<dots> \<longleftrightarrow> (\<exists>a b. s = a @ b \<and> toks_match (GStar # ts) a \<and> toks_match us b)"
      unfolding toks_match_star by (metis append.assoc)
    finally show ?thesis using True by simp
  next
    case False
    then show ?thesis
      using Cons.IH by (auto simp: toks_match_single) (metis append_Cons)+
  qed
qed

lemma toks_match_lits: "toks_match (map GLit p) s \<longleftrightarrow> s = p"
  by (induction p arbitrary: s) (auto simp: toks_match_single)

lemma toks_match_stars [simp]: "toks_match [GStar] s"
  by (simp add: toks_match_star)

text \<open>A plain text has none of the three special characters.\<close>

definition glob_plain :: "string \<Rightarrow> bool" where
  "glob_plain p = (list_all (\<lambda>c. c \<notin> {CHR ''*'', CHR ''?'', CHR ''[''}) p)"

lemma glob_tokens_plain: "glob_plain p \<Longrightarrow> glob_tokens (p @ q) = map GLit p @ glob_tokens q"
  by (induction p) (auto simp: glob_plain_def)

lemma glob_tokens_star: "glob_tokens ''*'' = [GStar]"
  by simp

lemma glob_match_literal: "glob_plain p \<Longrightarrow> glob_match p v \<longleftrightarrow> v = p"
  using glob_tokens_plain [of p "[]"] by (simp add: glob_match_def toks_match_lits)

lemma glob_match_star [simp]: "glob_match ''*'' v"
  by (simp add: glob_match_def)

lemma glob_match_prefix: "glob_plain p \<Longrightarrow> glob_match (p @ ''*'') v \<longleftrightarrow> starts_with p v"
  by (simp add: glob_match_def glob_tokens_plain toks_match_append toks_match_lits starts_with_iff)

lemma glob_match_suffix: "glob_plain p \<Longrightarrow> glob_match (CHR ''*'' # p) v \<longleftrightarrow> ends_with p v"
proof -
  assume p: "glob_plain p"
  have "dropWhile (\<lambda>d. d = CHR ''*'') p = p"
    using p by (cases p) (auto simp: glob_plain_def)
  then show ?thesis
    using glob_tokens_plain [OF p, of "[]"]
    by (simp add: glob_match_def toks_match_star toks_match_lits ends_with_iff)
qed

end
