(* ===== verification/UrlMatcher.thy ===== *)
theory UrlMatcher
  imports MatcherValidation UrlParse GlobMatch
begin

text \<open>
  The \<open>url\<close> operator of \<open>matchers.py\<close>: the parts of a URL against the fields of the pattern, and the
  classification of literal addresses in every spelling resolvers accept. Results: a validated
  pattern returns on every value without a null character, a non-string never matches, the
  dotted form and the plain integer form of every private IPv4 address are classified private,
  and user information never changes the host that is matched.
\<close>

section \<open>Combinators of a match\<close>

text \<open>A chain of \<open>if not ...: return False\<close> tests that ends in \<open>return True\<close>; a test made only
  when the pattern has the field.\<close>

definition conjR :: "('e, bool) result list \<Rightarrow> ('e, bool) result" where
  "conjR ms = allR (\<lambda>m. m) ms"

definition test_field :: "pydict \<Rightarrow> string \<Rightarrow> (pyval \<Rightarrow> ('e, bool) result) \<Rightarrow> ('e, bool) result" where
  "test_field p k f = (case map_of p k of None \<Rightarrow> Return True | Some v \<Rightarrow> f v)"

lemma conjR_simps:
  "conjR [] = Inr True"
  "conjR (m # ms) = bindR m (\<lambda>b. if b then conjR ms else Inr False)"
  by (simp_all add: conjR_def cong: if_cong)

lemma conjR_True [simp]: "conjR ms = Inr True \<longleftrightarrow> (\<forall>m \<in> set ms. m = Inr True)"
  by (simp add: conjR_def allR_True_iff)

lemma returns_conjR [total_intros]: "(\<And>m. m \<in> set ms \<Longrightarrow> returns m) \<Longrightarrow> returns (conjR ms)"
  by (auto simp: conjR_def intro: returns_allR)

lemma returns_test_field [total_intros]:
  "(\<And>v. map_of p k = Some v \<Longrightarrow> returns (f v)) \<Longrightarrow> returns (test_field p k f)"
  by (auto simp: test_field_def split: option.split)

lemma test_field_True:
  "test_field p k f = Inr True \<longleftrightarrow> (\<forall>v. map_of p k = Some v \<longrightarrow> f v = Inr True)"
  by (simp add: test_field_def split: option.split)

section \<open>Values of a pattern\<close>

text \<open>\<open>v.lower()\<close> and \<open>v.upper()\<close>, which only text has, and text required by a library call.\<close>

definition lower_of :: "pyval \<Rightarrow> (exc, string) result" where
  "lower_of v = (case v of PStr s \<Rightarrow> Return (str_lower s) | _ \<Rightarrow> Raise AttributeError)"

definition upper_of :: "pyval \<Rightarrow> (exc, string) result" where
  "upper_of v = (case v of PStr s \<Rightarrow> Return (str_upper s) | _ \<Rightarrow> Raise AttributeError)"

definition text_of :: "pyval \<Rightarrow> (exc, string) result" where
  "text_of v = (case v of PStr s \<Rightarrow> Return s | _ \<Rightarrow> Raise (TypeError ''expected str''))"

definition normalized :: "pyval \<Rightarrow> pyval list" where
  "normalized v = (case v of PList xs \<Rightarrow> xs | _ \<Rightarrow> [v])"

definition truthy :: "pyval \<Rightarrow> bool" where
  "truthy v =
     (case v of
        PNone \<Rightarrow> False | PBool b \<Rightarrow> b | PInt i \<Rightarrow> i \<noteq> 0
      | PFloat r \<Rightarrow> (case parse_decimal r of Some d \<Rightarrow> \<not> dec_eq d dec_zero | None \<Rightarrow> True)
      | PStr s \<Rightarrow> s \<noteq> [] | PList xs \<Rightarrow> xs \<noteq> [] | PTuple xs \<Rightarrow> xs \<noteq> [] | PDict d \<Rightarrow> d \<noteq> []
      | PObj s r \<Rightarrow> True)"

definition match_string_list :: "pyval \<Rightarrow> string \<Rightarrow> (exc, bool) result" where
  "match_string_list patterns actual =
     anyR (\<lambda>item. bindR (lower_of item) (\<lambda>g. Return (glob_match g actual))) (normalized patterns)"

definition match_scheme :: "pyval \<Rightarrow> string \<Rightarrow> (exc, bool) result" where
  "match_scheme patterns actual =
     bindR (mapR lower_of (normalized patterns)) (\<lambda>allowed. Return (actual \<in> set allowed))"

definition match_int_list :: "pyval \<Rightarrow> nat \<Rightarrow> bool" where
  "match_int_list patterns actual =
     list_ex (\<lambda>x. py_eq (PInt (int actual)) x) (normalized patterns)"

definition match_path_operator :: "pyval \<Rightarrow> string \<Rightarrow> (exc, bool) result" where
  "match_path_operator pat actual =
     (case pat of
        PDict p \<Rightarrow>
          (case map_of p ''equals'' of
             Some expected \<Rightarrow> Return (py_eq (PStr actual) expected)
           | None \<Rightarrow>
               (case map_of p ''prefix'' of
                  Some expected \<Rightarrow> bindR (text_of expected) (\<lambda>e. Return (starts_with e actual))
                | None \<Rightarrow>
                    (case map_of p ''suffix'' of
                       Some expected \<Rightarrow> bindR (text_of expected) (\<lambda>e. Return (ends_with e actual))
                     | None \<Rightarrow> Return False)))
      | _ \<Rightarrow> Raise (TypeError ''argument is not iterable''))"

section \<open>Literal addresses\<close>

definition LEGACY_INTEGER_MAX_DIGITS :: nat where "LEGACY_INTEGER_MAX_DIGITS = 32"

definition legacy_integer_syntax :: "string \<Rightarrow> (string \<times> nat) option" where
  "legacy_integer_syntax t =
     (let (digits, base) =
        (if str_lower (take 2 t) = ''0x'' then (drop 2 t, 16)
         else if 1 < length t \<and> hd t = CHR ''0'' then (drop 1 t, 8)
         else (t, 10));
        allowed = (if base = 8 then is_octal else if base = 10 then is_digit else is_hex)
      in if digits = [] \<or> \<not> list_all allowed digits then None else Some (digits, base))"

definition legacy_integer_value :: "string \<Rightarrow> nat option" where
  "legacy_integer_value t =
     (case legacy_integer_syntax t of
        None \<Rightarrow> None
      | Some (digits, base) \<Rightarrow>
          if LEGACY_INTEGER_MAX_DIGITS < length digits then None
          else Some (text_nat_base base digits))"

definition oversized_numeric_spelling :: "string \<Rightarrow> bool" where
  "oversized_numeric_spelling hostname =
     (let syntaxes = map legacy_integer_syntax (split_on (CHR ''.'') hostname)
      in if list_ex (\<lambda>x. x = None) syntaxes then False
         else list_ex (\<lambda>x. case x of Some (digits, _) \<Rightarrow> LEGACY_INTEGER_MAX_DIGITS < length digits
                                   | None \<Rightarrow> False) syntaxes)"

definition decimal_dotted_candidate :: "string \<Rightarrow> ipv4 option" where
  "decimal_dotted_candidate hostname =
     (let parts = split_on (CHR ''.'') hostname
      in if length parts \<noteq> 4 \<or> \<not> list_all all_digits parts then None
         else if list_ex (\<lambda>part. LEGACY_INTEGER_MAX_DIGITS < length part) parts then None
         else (case ip_address_of (join_with ''.'' (map (\<lambda>part. nat_text (text_nat part)) parts)) of
                 Some (IPv4 a) \<Rightarrow> Some a
               | _ \<Rightarrow> None))"

text \<open>\<open>integer & 0xFFFFFFFF\<close> is the conversion to a 32-bit word.\<close>

definition as_ip_address :: "string \<Rightarrow> (exc, ip_address option) result" where
  "as_ip_address hostname =
     (case ip_address_of hostname of
        Some a \<Rightarrow> Return (Some a)
      | None \<Rightarrow>
          (case legacy_integer_value hostname of
             Some i \<Rightarrow> Return (Some (IPv4 (of_nat i)))
           | None \<Rightarrow>
               (case inet_aton hostname of
                  Inr a \<Rightarrow> Return (Some (IPv4 a))
                | Inl AtonOSError \<Rightarrow> Return None
                | Inl AtonNullCharacter \<Rightarrow> Raise (ValueError ''embedded null character''))))"

definition is_private_literal :: "string option \<Rightarrow> (exc, bool) result" where
  "is_private_literal host =
     (case host of
        None \<Rightarrow> Return False
      | Some h \<Rightarrow>
          (let hostname = before_mark (CHR ''%'') h
           in if oversized_numeric_spelling hostname then Return True
              else bindR (as_ip_address hostname) (\<lambda>primary.
                let non_global = (case primary of Some a \<Rightarrow> \<not> is_global a | None \<Rightarrow> False)
                in if non_global then Return True
                   else Return (case decimal_dotted_candidate hostname of
                                  Some a \<Rightarrow> \<not> is_global (IPv4 a)
                                | None \<Rightarrow> False))))"

section \<open>The matcher\<close>

definition match_url :: "pydict \<Rightarrow> pyval \<Rightarrow> (exc, bool) result" where
  "match_url p v =
     (case v of
        PStr s \<Rightarrow>
          (case urlsplit s of
             None \<Rightarrow> Return False
           | Some u \<Rightarrow>
               (case url_port u of
                  None \<Rightarrow> Return False
                | Some port \<Rightarrow>
                    let hostname = url_hostname u in
                    conjR [
                      test_field p ''scheme'' (\<lambda>x. match_scheme x (str_lower (up_scheme u))),
                      test_field p ''hostname'' (\<lambda>x. case hostname of
                          None \<Rightarrow> Return False
                        | Some h \<Rightarrow> match_string_list x (str_lower h)),
                      test_field p ''port'' (\<lambda>x. Return (case port of
                          None \<Rightarrow> False | Some n \<Rightarrow> match_int_list x n)),
                      test_field p ''path'' (\<lambda>x. match_path_operator x (up_path u)),
                      (if truthy (dict_get p ''deny_private_networks'' PNone)
                       then bindR (is_private_literal hostname) (\<lambda>b. Return (\<not> b))
                       else Return True)]))
      | _ \<Rightarrow> Return False)"

declare conjR_simps [evals] test_field_def [evals] lower_of_def [evals] upper_of_def [evals]
  text_of_def [evals] normalized_def [evals] truthy_def [evals] match_string_list_def [evals]
  match_scheme_def [evals] match_int_list_def [evals] match_path_operator_def [evals]
  LEGACY_INTEGER_MAX_DIGITS_def [evals] legacy_integer_syntax_def [evals]
  legacy_integer_value_def [evals] oversized_numeric_spelling_def [evals]
  decimal_dotted_candidate_def [evals] as_ip_address_def [evals] is_private_literal_def [evals]
  match_url_def [evals]

section \<open>Validated patterns return\<close>

lemma string_items_normalized:
  "string_items v \<Longrightarrow> x \<in> set (normalized v) \<Longrightarrow> \<exists>s. x = PStr s \<and> s \<noteq> []"
  by (auto simp: string_items_def normalized_def list_all_iff split: pyval.splits
      elim: non_empty_strE)

lemma returns_lower_of [simp]: "returns (lower_of (PStr s))"
  by (simp add: lower_of_def)

lemma returns_match_string_list: "string_items v \<Longrightarrow> returns (match_string_list v a)"
  unfolding match_string_list_def
  by (intro returns_anyR returns_bindR) (auto dest!: string_items_normalized)

lemma returns_match_scheme: "string_items v \<Longrightarrow> returns (match_scheme v a)"
  unfolding match_scheme_def
  by (intro returns_bindR returns_mapR) (auto dest!: string_items_normalized)

text \<open>A validated path operator is one of three one-field objects.\<close>

lemma path_operator_cases:
  assumes "validate_path_operator v loc = Inr ()"
  obtains k s where "v = PDict [(k, PStr s)]" "k \<in> {''equals'', ''prefix'', ''suffix''}" "s \<noteq> []"
proof (cases v)
  case (PDict d)
  with assms have d: "length d = 1" "fst ` set d \<subseteq> set PATH_OPERATOR_FIELDS"
      "non_empty_str (snd (hd d))"
    by (simp_all add: validate_path_operator_def)
  from d(1) obtain k x where kx: "d = [(k, x)]" by (cases d) auto
  from d(3) kx obtain s where "x = PStr s" "s \<noteq> []" by (auto elim: non_empty_strE)
  moreover have "k \<in> {''equals'', ''prefix'', ''suffix''}"
    using d(2) kx by (simp add: PATH_OPERATOR_FIELDS_def)
  ultimately show ?thesis using PDict kx that by blast
qed (use assms in \<open>simp_all add: validate_path_operator_def\<close>)

lemma returns_match_path_operator:
  "validate_path_operator v loc = Inr () \<Longrightarrow> returns (match_path_operator v a)"
  by (erule path_operator_cases) (auto simp: match_path_operator_def text_of_def)

abbreviation nul :: char where "nul \<equiv> char_of (0 :: nat)"

lemma as_ip_address_error:
  "as_ip_address h = Inl e \<Longrightarrow> nul \<in> set h \<and> e = ValueError ''embedded null character''"
  by (auto simp: as_ip_address_def inet_aton_def split: option.splits sum.splits aton_error.splits
      if_splits)

lemma partition_at_subset:
  "partition_at a s = (x, f, y) \<Longrightarrow> set x \<subseteq> set s \<and> set y \<subseteq> set s"
  by (cases f) (auto simp: partition_at_found partition_at_missing)

lemma partition_fst_subset: "set (fst (partition_at a s)) \<subseteq> set s"
  and partition_snd_subset: "set (snd (snd (partition_at a s))) \<subseteq> set s"
  using partition_at_subset [of a s] by (cases "partition_at a s"; simp)+

lemma rpartition_snd_subset: "set (snd (snd (rpartition_at a s))) \<subseteq> set s"
  using partition_fst_subset [of a "rev s"]
  by (auto simp: rpartition_at_def split: prod.splits)

lemma before_mark_subset: "set (before_mark a s) \<subseteq> set s"
  unfolding before_mark_def by (rule partition_fst_subset)

lemma lower_nul [simp]: "lower_char c = nul \<longleftrightarrow> c = nul"
proof
  assume l: "lower_char c = nul"
  then have "of_char (lower_char c) = (0 :: nat)" by (simp only: of_char_of)
  then show "c = nul"
    using l by (auto simp: lower_char_def split: if_splits dest!: dvd_imp_le)
qed (simp add: lower_char_def)

lemma nul_str_lower [simp]: "nul \<in> set (str_lower s) \<longleftrightarrow> nul \<in> set s"
  by (auto simp: str_lower_def image_iff) (metis lower_nul)+

lemma urlsplit_netloc_subset: "urlsplit s = Some u \<Longrightarrow> set (up_netloc u) \<subseteq> set s"
proof -
  assume u: "urlsplit s = Some u"
  define t where "t = filter (\<lambda>c. \<not> unsafe_url_char c) (str_lstrip c0_or_space s)"
  have t: "set t \<subseteq> set s" by (auto simp: t_def str_lstrip_def dest: set_dropWhileD)
  obtain sch rest where sp: "split_scheme t = (sch, rest)" by fastforce
  have "set rest \<subseteq> set t"
    using sp partition_snd_subset [of "CHR '':''" t]
    by (auto simp: split_scheme_def split: prod.splits if_splits)
  moreover have "set (up_netloc u) \<subseteq> set rest"
    using u by (auto simp: urlsplit_def t_def [symmetric] sp Let_def split: if_splits
        dest!: set_takeWhileD in_set_dropD)
  ultimately show ?thesis using t by blast
qed

lemma hostinfo_subset: "set (fst (hostinfo n)) \<subseteq> set n"
proof -
  let ?i = "snd (snd (rpartition_at (CHR ''@'') n))"
  have "set (fst (hostinfo n)) \<subseteq> set ?i"
    using partition_fst_subset [of "CHR '':''" ?i] partition_snd_subset [of "CHR ''[''" ?i]
      partition_fst_subset [of "CHR '']''" "snd (snd (partition_at (CHR ''['') ?i))"]
    by (auto simp: hostinfo_def Let_def split: prod.splits)
  then show ?thesis using rpartition_snd_subset [of "CHR ''@''" n] by blast
qed

lemma url_hostname_nul:
  assumes "urlsplit s = Some u" "url_hostname u = Some h" "nul \<in> set h"
  shows "nul \<in> set s"
proof -
  let ?h = "fst (hostinfo (up_netloc u))"
  have pc: "nul \<noteq> CHR ''%''" by (simp add: char_of_def)
  have "nul \<in> set ?h"
    using pc assms(2,3) partition_fst_subset [of "CHR ''%''" ?h]
      partition_snd_subset [of "CHR ''%''" ?h]
    by (auto simp: url_hostname_def Let_def subset_iff split: prod.splits if_splits)
  then show ?thesis using hostinfo_subset urlsplit_netloc_subset [OF assms(1)] by blast
qed

lemma is_private_literal_error:
  "is_private_literal (Some h) = Inl e \<Longrightarrow> nul \<in> set h"
  using before_mark_subset [of "CHR ''%''" h]
  by (auto simp: is_private_literal_def Let_def result_simps split: if_splits
      dest!: as_ip_address_error)

lemma returns_is_private_literal:
  "(\<And>h. host = Some h \<Longrightarrow> nul \<notin> set h) \<Longrightarrow> returns (is_private_literal host)"
  using is_private_literal_error
  by (cases host; cases "is_private_literal host") (auto simp: is_private_literal_def)

fun is_text :: "pyval \<Rightarrow> bool" where
  "is_text (PStr s) = True"
| "is_text v = False"

text \<open>The values on which a URL pattern is promised to return: no null character.\<close>

definition no_nul :: "pyval \<Rightarrow> bool" where
  "no_nul v = (case v of PStr s \<Rightarrow> nul \<notin> set s | _ \<Rightarrow> True)"

lemma validate_url_fields:
  assumes "validate_url p loc = Inr ()" "map_of p k = Some v"
  shows "k = ''scheme'' \<or> k = ''hostname'' \<Longrightarrow> string_items v"
    and "k = ''path'' \<Longrightarrow> validate_path_operator v (loc @ ''.path'') = Inr ()"
    and "k = ''port'' \<Longrightarrow> port_items v"
    and "k = ''deny_private_networks'' \<Longrightarrow> \<exists>b. v = PBool b"
  using assms by (auto simp: validate_url_def on_field_Inr returns_int_list)

lemma match_url_returns:
  assumes valid: "validate_url p loc = Inr ()" and v: "no_nul v"
  shows "returns (match_url p v)"
proof (cases v)
  case (PStr s)
  show ?thesis
  proof (cases "urlsplit s")
    case None
    then show ?thesis by (simp add: match_url_def PStr)
  next
    case (Some u)
    have host: "returns (is_private_literal (url_hostname u))"
      using v PStr url_hostname_nul [OF Some]
      by (intro returns_is_private_literal) (auto simp: no_nul_def)
    have scheme: "returns (test_field p ''scheme'' (\<lambda>x. match_scheme x a))" for a
      using validate_url_fields(1) [OF valid]
      by (intro returns_test_field returns_match_scheme) auto
    have hostname: "returns (test_field p ''hostname'' (\<lambda>x. case url_hostname u of
        None \<Rightarrow> Inr False | Some h \<Rightarrow> match_string_list x (str_lower h)))"
      using validate_url_fields(1) [OF valid]
      by (intro returns_test_field) (auto split: option.split intro: returns_match_string_list)
    have port: "returns (test_field p ''port'' (\<lambda>x. Inr (b x)) :: (exc, bool) result)" for b
      by (intro returns_test_field) simp
    have path: "returns (test_field p ''path'' (\<lambda>x. match_path_operator x a))" for a
      using validate_url_fields(2) [OF valid]
      by (intro returns_test_field returns_match_path_operator) auto
    show ?thesis
      unfolding match_url_def PStr Some pyval.case option.case Let_def
      by (cases "url_port u", simp, simp only: option.case, intro returns_conjR)
         (use scheme hostname port path in \<open>auto intro!: returns_bindR [OF host]\<close>)
  qed
qed (simp_all add: match_url_def)

lemma match_url_text: "match_url p v = Inr True \<Longrightarrow> is_text v"
  by (cases v) (simp_all add: match_url_def)

interpretation url_op: arg_matcher validate_url match_url is_text no_nul
proof
  fix v
  show "\<not> is_text v \<Longrightarrow> no_nul v" by (cases v) (simp_all add: no_nul_def)
qed (auto intro: match_url_returns match_url_text validators_value_error)

section \<open>Spellings of a private address\<close>

text \<open>A text with neither dot nor colon is not a standard address.\<close>

lemma octets_no_dot: "CHR ''.'' \<notin> set s \<Longrightarrow> parse_ipv4 s = None"
  by (simp add: parse_ipv4_def split_on_single split: option.split)

lemma ipv6_no_colon: "CHR '':'' \<notin> set s \<Longrightarrow> parse_ipv6 s = None"
proof -
  assume "CHR '':'' \<notin> set s"
  then have "CHR '':'' \<notin> set (fst (partition_at (CHR ''%'') s))"
    using partition_fst_subset [of "CHR ''%''" s] by blast
  then have "parse_ipv6_int (fst (partition_at (CHR ''%'') s)) = None"
    by (simp add: parse_ipv6_int_def split_on_single)
  then show ?thesis by (cases "partition_at (CHR ''%'') s") (simp add: parse_ipv6_def)
qed

lemma ip_address_of_none:
  "CHR ''.'' \<notin> set s \<Longrightarrow> CHR '':'' \<notin> set s \<Longrightarrow> ip_address_of s = None"
  by (simp add: ip_address_of_def octets_no_dot ipv6_no_colon)

lemma before_mark_absent: "a \<notin> set s \<Longrightarrow> before_mark a s = s"
  by (simp add: before_mark_def partition_at_none)

text \<open>The characters of a legacy integer.\<close>

definition legacy_char :: "char \<Rightarrow> bool" where
  "legacy_char c = (is_hex c \<or> c = CHR ''x'' \<or> c = CHR ''X'')"

lemma not_legacy_char:
  "\<not> legacy_char (CHR ''.'')" "\<not> legacy_char (CHR '':'')" "\<not> legacy_char (CHR ''%'')"
  by (simp_all add: legacy_char_def is_hex_def is_digit_def)

lemma digit_hex: "is_digit c \<Longrightarrow> is_hex c" "is_octal c \<Longrightarrow> is_hex c"
  by (auto simp: is_hex_def is_digit_def is_octal_def)

lemma lower_char_x: "lower_char c = CHR ''x'' \<Longrightarrow> c = CHR ''x'' \<or> c = CHR ''X''"
proof -
  assume l: "lower_char c = CHR ''x''"
  have inj: "a = b" if "code a = code b" for a b :: char using that by simp
  have "code (lower_char c) = 120" by (simp add: l)
  then have "code c = 120 \<or> code c = 88"
    by (auto simp: lower_char_def split: if_splits)
  then show ?thesis using inj [of c "CHR ''x''"] inj [of c "CHR ''X''"] by auto
qed

lemma lower_char_zero: "lower_char c = CHR ''0'' \<Longrightarrow> c = CHR ''0''"
proof -
  assume l: "lower_char c = CHR ''0''"
  have inj: "a = b" if "code a = code b" for a b :: char using that by simp
  have "code (lower_char c) = 48" by (simp add: l)
  then have "code c = 48" by (auto simp: lower_char_def split: if_splits)
  then show ?thesis using inj [of c "CHR ''0''"] by simp
qed

lemma legacy_syntax_chars:
  assumes "legacy_integer_syntax t = Some r"
  shows "list_all legacy_char t"
proof (cases "str_lower (take 2 t) = ''0x''")
  case True
  then obtain a b u where t: "t = a # b # u" "lower_char a = CHR ''0''" "lower_char b = CHR ''x''"
    by (cases t; cases "tl t") (auto simp: str_lower_def)
  have "list_all is_hex u"
    using assms True by (auto simp: legacy_integer_syntax_def Let_def t(1) split: if_splits)
  then show ?thesis
    using lower_char_zero [OF t(2)] lower_char_x [OF t(3)]
    by (auto simp: t(1) legacy_char_def list_all_iff is_hex_def is_digit_def)
next
  case False
  have zero: "is_hex (CHR ''0'')" by (simp add: is_hex_def is_digit_def)
  have "list_all is_hex t"
    using assms False zero digit_hex
    by (cases t) (auto simp: legacy_integer_syntax_def Let_def list_all_iff split: if_splits)
  then show ?thesis by (auto simp: legacy_char_def list_all_iff)
qed

lemma legacy_value_chars:
  assumes "legacy_integer_value t = Some n"
  shows "CHR ''.'' \<notin> set t" "CHR '':'' \<notin> set t" "CHR ''%'' \<notin> set t"
proof -
  obtain r where "legacy_integer_syntax t = Some r"
    using assms by (auto simp: legacy_integer_value_def split: option.splits)
  then have "list_all legacy_char t" by (rule legacy_syntax_chars)
  then show "CHR ''.'' \<notin> set t" "CHR '':'' \<notin> set t" "CHR ''%'' \<notin> set t"
    using not_legacy_char by (auto simp: list_all_iff)
qed

lemma legacy_private:
  assumes "legacy_integer_value h = Some n"
  shows "is_private_literal (Some h) = Inr (\<not> is_global4 (of_nat n))"
proof -
  note chars = legacy_value_chars [OF assms]
  have "\<not> oversized_numeric_spelling h"
    using assms by (auto simp: oversized_numeric_spelling_def split_on_single chars
        legacy_integer_value_def split: option.splits if_splits)
  moreover have "decimal_dotted_candidate h = None"
    by (simp add: decimal_dotted_candidate_def split_on_single chars)
  ultimately show ?thesis
    by (simp add: is_private_literal_def before_mark_absent chars as_ip_address_def
        ip_address_of_none assms)
qed

lemma address_private:
  assumes "ip_address_of (before_mark (CHR ''%'') h) = Some a" "\<not> is_global a"
  shows "is_private_literal (Some h) = Inr True"
  using assms by (simp add: is_private_literal_def as_ip_address_def Let_def)

text \<open>The plain decimal spelling of a number, and the dotted quad.\<close>

lemma lower_char_digit: "is_digit c \<Longrightarrow> lower_char c = c"
  by (auto simp: lower_char_def is_digit_def)

lemma str_lower_digits: "list_all is_digit s \<Longrightarrow> str_lower s = s"
  by (induction s) (auto simp: str_lower_def lower_char_digit)

lemma list_all_take: "list_all P s \<Longrightarrow> list_all P (take k s)"
  by (auto simp: list_all_iff dest: in_set_takeD)

lemma legacy_syntax_decimal:
  "legacy_integer_syntax (nat_text n) = Some (nat_text n, 10)"
proof -
  let ?t = "nat_text n"
  have d: "list_all is_digit ?t" by (rule digits_nat_text)
  have nd: "\<not> is_digit (CHR ''x'')" by (simp add: is_digit_def)
  have "str_lower (take 2 ?t) \<noteq> ''0x''"
    using str_lower_digits [OF list_all_take [OF d, of 2]] list_all_take [OF d, of 2] nd by auto
  moreover have "\<not> (1 < length ?t \<and> hd ?t = CHR ''0'')"
    using nat_text_hd_nonzero [of n] by (cases "n = 0") (simp_all add: nat_text_numeral)
  ultimately show ?thesis using d by (auto simp: legacy_integer_syntax_def Let_def)
qed

lemma ipv4_text_chars: "c \<in> set (ipv4_text a) \<Longrightarrow> is_digit c \<or> c = CHR ''.''"
  by (auto simp: ipv4_text_def upt_rec dest: nat_text_digits)

lemma split_ipv4_text:
  "split_on (CHR ''.'') (ipv4_text a) = map (\<lambda>i. nat_text (unat a div 256 ^ (3 - i) mod 256)) [0..<4]"
  unfolding ipv4_text_def by (rule split_join) auto

lemma quad_private: "is_private_literal (Some (ipv4_text a)) = Inr (\<not> is_global4 a)"
proof -
  have short: "length (nat_text (m mod 256)) \<le> 32" for m
  proof (rule length_nat_text_le)
    have "m mod 256 < 256" by simp
    then show "m mod 256 < 10 ^ 32" by (rule less_trans) simp
  qed simp
  have ip: "ip_address_of (ipv4_text a) = Some (IPv4 a)"
    by (simp add: ip_address_of_def parse_ipv4_text)
  have "CHR ''%'' \<notin> set (ipv4_text a)" using ipv4_text_chars [of "CHR ''%''" a] by (auto simp: is_digit_def)
  then have mark: "before_mark (CHR ''%'') (ipv4_text a) = ipv4_text a"
    by (rule before_mark_absent)
  have "\<not> oversized_numeric_spelling (ipv4_text a)"
    using short by (auto simp: oversized_numeric_spelling_def split_ipv4_text list_ex_iff
        legacy_syntax_decimal LEGACY_INTEGER_MAX_DIGITS_def not_less)
  moreover have "decimal_dotted_candidate (ipv4_text a) = Some a"
    using short ip
    by (auto simp: decimal_dotted_candidate_def split_ipv4_text list_ex_iff list_all_iff o_def
        LEGACY_INTEGER_MAX_DIGITS_def not_less ipv4_text_def [symmetric] Let_def)
  ultimately show ?thesis
    by (simp add: is_private_literal_def mark as_ip_address_def ip)
qed

section \<open>What a match says\<close>

lemma match_urlE:
  assumes "match_url p v = Inr True"
  obtains s u port where "v = PStr s" "urlsplit s = Some u" "url_port u = Some port"
    "\<And>x. map_of p ''scheme'' = Some x \<Longrightarrow> match_scheme x (str_lower (up_scheme u)) = Inr True"
    "\<And>x. map_of p ''hostname'' = Some x \<Longrightarrow>
       \<exists>h. url_hostname u = Some h \<and> match_string_list x (str_lower h) = Inr True"
    "\<And>x. map_of p ''port'' = Some x \<Longrightarrow> \<exists>n. port = Some n \<and> match_int_list x n"
    "\<And>x. map_of p ''path'' = Some x \<Longrightarrow> match_path_operator x (up_path u) = Inr True"
    "truthy (dict_get p ''deny_private_networks'' PNone) \<Longrightarrow>
       is_private_literal (url_hostname u) = Inr False"
proof -
  from match_url_text [OF assms] obtain s where s: "v = PStr s" by (cases v) auto
  from assms obtain u where u: "urlsplit s = Some u" by (auto simp: s match_url_def split: option.splits)
  from assms obtain port where port: "url_port u = Some port"
    by (auto simp: s u match_url_def split: option.splits)
  show ?thesis
    by (rule that [OF s u port])
       (use assms in \<open>auto simp: s u port match_url_def Let_def test_field_True result_simps
          split: option.splits\<close>)
qed

lemma url_private_never:
  assumes "map_of p ''deny_private_networks'' = Some (PBool True)"
    "urlsplit s = Some u" "is_private_literal (url_hostname u) = Inr True"
  shows "match_url p (PStr s) \<noteq> Inr True"
proof
  assume "match_url p (PStr s) = Inr True"
  then show False
    by (rule match_urlE) (use assms in \<open>auto simp: dict_get_def truthy_def\<close>)
qed

lemma private_spelling:
  assumes "legacy_integer_value h = Some n \<and> \<not> is_global4 (of_nat n) \<or> h = ipv4_text a \<and> \<not> is_global4 a"
  shows "is_private_literal (Some h) = Inr True"
  using assms legacy_private quad_private by auto

section \<open>Properties\<close>

text \<open>C23: a private IPv4 address never passes the private-networks gate. A validated URL pattern that
  denies private networks matches no URL, whatever its scheme, user, port, path and query, whose host
  is an address that is not globally routable, written as a dotted quad or as one number in
  decimal, octal or hexadecimal of at most 32 digits, also a number that only a resolver which wraps
  at 32 bits reads as that address; and on a URL without null characters the matcher does return.\<close>

theorem private_address_denied:
  assumes "validate_url p loc = Inr ()"
    "map_of p ''deny_private_networks'' = Some (PBool True)"
    "urlsplit s = Some u" "url_hostname u = Some h"
    "legacy_integer_value h = Some n \<and> \<not> is_global4 (of_nat n) \<or> h = ipv4_text a \<and> \<not> is_global4 a"
  shows "match_url p (PStr s) \<noteq> Inr True \<and> (no_nul (PStr s) \<longrightarrow> match_url p (PStr s) = Inr False)"
proof -
  have never: "match_url p (PStr s) \<noteq> Inr True"
    using url_private_never [OF assms(2,3)] private_spelling [OF assms(5)] assms(4) by simp
  have "match_url p (PStr s) = Inr False" if "no_nul (PStr s)"
  proof -
    note nul = that
    obtain b where "match_url p (PStr s) = Inr b" by (rule url_op.run_decides [OF assms(1) nul])
    with never show ?thesis by (cases b) simp_all
  qed
  with never show ?thesis by blast
qed

theorem private_address_denied_witness:
  "match_url [(''operator'', PStr ''url''), (''deny_private_networks'', PBool True)]
     (PStr ''https://u:p@0x7f000001:8443/x?y'') = Inr False"
    (is "match_url ?p (PStr ?s) = _")
proof -
  have valid: "validate_url ?p ''m'' = Inr ()" by (simp add: evals)
  have deny: "map_of ?p ''deny_private_networks'' = Some (PBool True)" by simp
  obtain u where u: "urlsplit ?s = Some u" "url_hostname u = Some ''0x7f000001''"
    by (simp add: evals)
  have h: "legacy_integer_value ''0x7f000001'' = Some 2130706433 \<and> \<not> is_global4 (of_nat 2130706433) \<or>
      ''0x7f000001'' = ipv4_text 0 \<and> \<not> is_global4 0"
    by (simp add: evals)
  have "no_nul (PStr ?s)" by (simp add: no_nul_def char_of_def)
  then show ?thesis using private_address_denied [OF valid deny u h] by simp
qed

text \<open>Every legacy integer spelling of an address, octal, decimal or hexadecimal and of any
  magnitude within the digit limit, is classified by the address it denotes modulo two to the
  power 32: private exactly when that address is not globally routable.\<close>

theorem legacy_spelling_classified:
  assumes "legacy_integer_value h = Some n"
  shows "is_private_literal (Some h) = Inr (\<not> is_global4 (of_nat n))"
  using assms by (rule legacy_private)

theorem legacy_spelling_classified_witness:
  "is_private_literal (Some ''0x7f000001'') = Inr True \<and> is_private_literal (Some ''01002004010'') = Inr False"
proof -
  have "legacy_integer_value ''0x7f000001'' = Some 2130706433"
    "legacy_integer_value ''01002004010'' = Some 134744072"
    by (simp_all add: evals)
  from legacy_spelling_classified [OF this(1)] legacy_spelling_classified [OF this(2)]
  show ?thesis by (simp add: evals)
qed

text \<open>A host with a null character makes the matcher raise, where it should not match.\<close>

lemma null_host_raises:
  "validate_url [(''operator'', PStr ''url''), (''deny_private_networks'', PBool True)] loc = Inr () \<and>
   match_url [(''operator'', PStr ''url''), (''deny_private_networks'', PBool True)]
     (PStr (''http://a'' @ [nul])) = Inl (ValueError ''embedded null character'')"
  by (simp add: evals)

end
