(* ===== verification/PosixPath.thy ===== *)
theory PosixPath
  imports PyText
begin

text \<open>
  \<open>posixpath\<close>: \<open>join\<close> of two paths, \<open>normpath\<close> and \<open>basename\<close>, with POSIX's rule that exactly two
  leading slashes are kept. Results: the components of a normalised absolute path are neither
  empty, \<open>.\<close> nor \<open>..\<close>, and the path is determined by its slashes and its components.
\<close>

definition path_join :: "string \<Rightarrow> string \<Rightarrow> string" where
  "path_join a b =
     (if starts_with ''/'' b then b
      else if a = [] \<or> ends_with ''/'' a then a @ b else a @ ''/'' @ b)"

definition initial_slashes :: "string \<Rightarrow> nat" where
  "initial_slashes p =
     (if \<not> starts_with ''/'' p then 0
      else if starts_with ''//'' p \<and> \<not> starts_with ''///'' p then 2 else 1)"

text \<open>The loop over the components; \<open>acc\<close> holds the new components in reverse.\<close>

fun norm_comps :: "bool \<Rightarrow> string list \<Rightarrow> string list \<Rightarrow> string list" where
  "norm_comps rooted acc [] = rev acc"
| "norm_comps rooted acc (c # cs) =
     (if c = [] \<or> c = ''.'' then norm_comps rooted acc cs
      else if c \<noteq> ''..'' \<or> \<not> rooted \<and> acc = [] \<or> acc \<noteq> [] \<and> hd acc = ''..''
      then norm_comps rooted (c # acc) cs
      else norm_comps rooted (tl acc) cs)"

definition path_comps :: "string \<Rightarrow> string list" where
  "path_comps p = norm_comps (0 < initial_slashes p) [] (split_on (CHR ''/'') p)"

definition normpath :: "string \<Rightarrow> string" where
  "normpath p =
     (let r = replicate (initial_slashes p) (CHR ''/'') @ join_with ''/'' (path_comps p)
      in if p = [] \<or> r = [] then ''.'' else r)"

definition basename :: "string \<Rightarrow> string" where
  "basename p = snd (snd (rpartition_at (CHR ''/'') p))"

lemma replicate_two [evals]: "replicate 2 x = [x, x]"
  by (simp add: numeral_2_eq_2)

declare path_join_def [evals] initial_slashes_def [evals] path_comps_def [evals]
  normpath_def [evals] basename_def [evals]

section \<open>Components\<close>

definition plain_comp :: "string \<Rightarrow> bool" where
  "plain_comp c = (c \<noteq> [] \<and> c \<noteq> ''.'' \<and> c \<noteq> ''..'' \<and> CHR ''/'' \<notin> set c)"

lemma norm_comps_plain:
  assumes "\<forall>c \<in> set acc. plain_comp c" "\<forall>c \<in> set cs. CHR ''/'' \<notin> set c"
  shows "\<forall>c \<in> set (norm_comps True acc cs). plain_comp c"
  using assms
proof (induction cs arbitrary: acc)
  case (Cons c cs)
  have cs: "\<forall>c \<in> set cs. CHR ''/'' \<notin> set c" using Cons.prems by simp
  consider (skip) "c = [] \<or> c = ''.''" | (pop) "c = ''..''" | (push) "plain_comp c"
    using Cons.prems(2) by (auto simp: plain_comp_def)
  then show ?case
  proof cases
    case skip
    then show ?thesis using Cons.IH [OF Cons.prems(1) cs] by auto
  next
    case pop
    have "\<not> (acc \<noteq> [] \<and> hd acc = ''..'')" "\<forall>c \<in> set (tl acc). plain_comp c"
      using Cons.prems(1) by (cases acc; auto simp: plain_comp_def)+
    then show ?thesis using Cons.IH [of "tl acc"] cs pop by auto
  next
    case push
    have acc: "\<forall>d \<in> set (c # acc). plain_comp d" using push Cons.prems(1) by simp
    have "c \<noteq> []" "c \<noteq> ''.''" "c \<noteq> ''..''" using push by (simp_all add: plain_comp_def)
    then have "norm_comps True acc (c # cs) = norm_comps True (c # acc) cs" by simp
    then show ?thesis using Cons.IH [OF acc cs] by (simp only:)
  qed
qed simp

lemma path_comps_plain:
  assumes "starts_with ''/'' p" "c \<in> set (path_comps p)"
  shows "plain_comp c"
proof -
  have "0 < initial_slashes p" using assms(1) by (simp add: initial_slashes_def)
  with assms(2) have "c \<in> set (norm_comps True [] (split_on (CHR ''/'') p))"
    by (simp add: path_comps_def)
  then show ?thesis
    using norm_comps_plain [of "[]" "split_on (CHR ''/'') p"] split_on_no_sep by auto
qed

lemma norm_comps_id: "\<forall>c \<in> set cs. plain_comp c \<Longrightarrow> norm_comps b acc cs = rev acc @ cs"
  by (induction cs arbitrary: acc) (auto simp: plain_comp_def)

text \<open>The text of an absolute path of \<open>n\<close> slashes and plain components.\<close>

definition abs_path :: "nat \<Rightarrow> string list \<Rightarrow> string" where
  "abs_path n cs = replicate n (CHR ''/'') @ join_with ''/'' cs"

lemma normpath_abs:
  assumes "starts_with ''/'' p"
  shows "normpath p = abs_path (initial_slashes p) (path_comps p)"
proof -
  have "p \<noteq> []" "0 < initial_slashes p" using assms by (cases p; simp add: initial_slashes_def)+
  then show ?thesis by (simp add: normpath_def abs_path_def Let_def)
qed

lemma join_comps_hd:
  assumes "\<forall>c \<in> set cs. plain_comp c"
  shows "\<not> starts_with ''/'' (join_with ''/'' cs)"
proof (cases cs)
  case (Cons c r)
  with assms have c: "c \<noteq> []" "CHR ''/'' \<notin> set c" by (auto simp: plain_comp_def)
  then obtain a b where "c = a # b" by (cases c) auto
  with c Cons show ?thesis by (cases r) auto
qed simp

lemma initial_slashes_abs:
  assumes "\<forall>c \<in> set cs. plain_comp c" "n \<in> {1, 2}"
  shows "initial_slashes (abs_path n cs) = n"
  using assms(2) join_comps_hd [OF assms(1)]
  by (cases "join_with ''/'' cs") (auto simp: initial_slashes_def abs_path_def numeral_2_eq_2)

lemma split_abs_path:
  assumes "\<forall>c \<in> set cs. plain_comp c"
  shows "split_on (CHR ''/'') (abs_path n cs) = replicate n [] @ (if cs = [] then [[]] else cs)"
proof (induction n)
  case 0
  then show ?case
    using assms split_join [of cs "CHR ''/''"] by (auto simp: abs_path_def plain_comp_def)
next
  case (Suc n)
  then show ?case by (simp add: abs_path_def)
qed

lemma path_comps_abs:
  assumes "\<forall>c \<in> set cs. plain_comp c" "n \<in> {1, 2}"
  shows "path_comps (abs_path n cs) = cs"
proof -
  have skip: "norm_comps b [] (replicate k [] @ xs) = norm_comps b [] xs" for b k xs
    by (induction k) auto
  show ?thesis
    using assms norm_comps_id [OF assms(1), of _ "[]"]
    by (simp add: path_comps_def split_abs_path skip)
qed

lemma normpath_idem:
  assumes "starts_with ''/'' p"
  shows "normpath (normpath p) = normpath p"
proof -
  let ?n = "initial_slashes p"
  have cs: "\<forall>c \<in> set (path_comps p). plain_comp c" and n: "?n \<in> {1, 2}"
    using assms path_comps_plain by (auto simp: initial_slashes_def)
  have "starts_with ''/'' (normpath p)"
    using n by (auto simp: normpath_abs [OF assms] abs_path_def numeral_2_eq_2)
  then show ?thesis
    using initial_slashes_abs [OF cs n] path_comps_abs [OF cs n]
    by (simp add: normpath_abs [OF assms] normpath_abs)
qed

text \<open>\<open>/a/b\<close> is a string prefix of \<open>/a/b/c\<close> up to a slash exactly when its components are a
  prefix of the other's.\<close>

lemma join_comps_prefix:
  assumes "\<forall>c \<in> set cs. plain_comp c" "\<forall>d \<in> set ds. plain_comp d" "cs \<noteq> []"
  shows "(join_with ''/'' ds = join_with ''/'' cs \<or>
      starts_with (join_with ''/'' cs @ ''/'') (join_with ''/'' ds)) \<longleftrightarrow> (\<exists>es. ds = cs @ es)"
    (is "?L \<longleftrightarrow> ?R")
proof
  have inj: "split_on (CHR ''/'') (join_with ''/'' xs) = xs"
    if "xs \<noteq> []" "\<forall>x \<in> set xs. plain_comp x" for xs
    using that by (intro split_join) (auto simp: plain_comp_def)
  have dsne: "ds \<noteq> []" if "join_with ''/'' ds = join_with ''/'' cs @ t" for t
  proof
    assume "ds = []"
    with that have "join_with ''/'' cs = []" by simp
    with inj [OF assms(3,1)] have "cs = [[]]" by simp
    with assms(1) show False by (simp add: plain_comp_def)
  qed
  assume L: ?L
  then consider (eq) "join_with ''/'' ds = join_with ''/'' cs"
    | (pre) t where "join_with ''/'' ds = join_with ''/'' cs @ CHR ''/'' # t"
    by (auto simp: starts_with_iff)
  then show ?R
  proof cases
    case eq
    then have "ds = cs" using inj [OF assms(3,1)] inj [OF dsne assms(2)] by (metis append_Nil2)
    then show ?thesis by simp
  next
    case (pre t)
    have "ds = split_on (CHR ''/'') (join_with ''/'' ds)"
      using inj [OF dsne [OF pre] assms(2)] by simp
    also have "\<dots> = cs @ split_on (CHR ''/'') t"
      using inj [OF assms(3,1)] by (simp add: pre split_on_sep)
    finally show ?thesis by blast
  qed
next
  assume ?R
  then obtain es where es: "ds = cs @ es" by blast
  show ?L
  proof (cases es)
    case Nil
    then show ?thesis using es by simp
  next
    case (Cons e r)
    then show ?thesis using es assms(3) by (simp add: join_with_append starts_with_iff)
  qed
qed

end
