(* ===== verification/ShellLexer.thy ===== *)
theory ShellLexer
  imports PyText
begin

text \<open>
  \<open>shlex.shlex(value, posix=True, punctuation_chars=";&|<>()`")\<close> with \<open>whitespace_split\<close> set
  and no comment characters, run to the end of its input: the state machine of \<open>read_token\<close>,
  with the character it pushes back read again from the start state. None is the \<open>ValueError\<close>
  of an open quotation or a trailing escape. Results: a punctuation character outside quotes is a
  token of punctuation characters only, whatever surrounds it; words without special characters
  split at blanks.
\<close>

definition lex_blank :: "char \<Rightarrow> bool" where
  "lex_blank c = (code c = 32 \<or> code c = 9 \<or> code c = 13 \<or> code c = 10)"

definition lex_punct :: "char \<Rightarrow> bool" where
  "lex_punct c = (c \<in> set '';&|<>()`'')"

definition lex_dquote :: char where "lex_dquote = char_of (34 :: nat)"
definition lex_squote :: char where "lex_squote = char_of (39 :: nat)"
definition lex_escape :: char where "lex_escape = char_of (92 :: nat)"

definition lex_quote :: "char \<Rightarrow> bool" where
  "lex_quote c = (c = lex_dquote \<or> c = lex_squote)"

text \<open>The states of the machine: between tokens, in a word, in a run of punctuation, in a
  quotation, and after an escape character (in double quotes or in a word).\<close>

datatype lex_state = LexStart | LexWord | LexPunct | LexQuote char | LexEscape bool

function (sequential) shlex_run :: "lex_state \<Rightarrow> string \<Rightarrow> string \<Rightarrow> string list option" where
  "shlex_run LexStart tok [] = Some []"
| "shlex_run LexStart tok (c # cs) =
     (if lex_blank c then shlex_run LexStart [] cs
      else if c = lex_escape then shlex_run (LexEscape False) [] cs
      else if lex_punct c then shlex_run LexPunct [c] cs
      else if lex_quote c then shlex_run (LexQuote c) [] cs
      else shlex_run LexWord [c] cs)"
| "shlex_run (LexQuote q) tok [] = None"
| "shlex_run (LexQuote q) tok (c # cs) =
     (if c = q then shlex_run LexWord tok cs
      else if c = lex_escape \<and> q = lex_dquote then shlex_run (LexEscape True) tok cs
      else shlex_run (LexQuote q) (tok @ [c]) cs)"
| "shlex_run (LexEscape dq) tok [] = None"
| "shlex_run (LexEscape dq) tok (c # cs) =
     shlex_run (if dq then LexQuote lex_dquote else LexWord)
       (tok @ (if dq \<and> c \<noteq> lex_escape \<and> c \<noteq> lex_dquote then [lex_escape] else []) @ [c]) cs"
| "shlex_run LexPunct tok [] = Some [tok]"
| "shlex_run LexPunct tok (c # cs) =
     (if lex_blank c then map_option (Cons tok) (shlex_run LexStart [] cs)
      else if lex_punct c then shlex_run LexPunct (tok @ [c]) cs
      else map_option (Cons tok) (shlex_run LexStart [] (c # cs)))"
| "shlex_run LexWord tok [] = Some [tok]"
| "shlex_run LexWord tok (c # cs) =
     (if lex_blank c then map_option (Cons tok) (shlex_run LexStart [] cs)
      else if lex_quote c then shlex_run (LexQuote c) tok cs
      else if c = lex_escape then shlex_run (LexEscape False) tok cs
      else if \<not> lex_punct c then shlex_run LexWord (tok @ [c]) cs
      else map_option (Cons tok) (shlex_run LexStart [] (c # cs)))"
  by pat_completeness auto
termination
  by (relation "measure (\<lambda>(st, tok, s). 2 * length s + (if st = LexStart then 0 else 1))") auto

definition shlex_tokens :: "string \<Rightarrow> string list option" where
  "shlex_tokens s = shlex_run LexStart [] s"

declare lex_blank_def [evals] lex_punct_def [evals] lex_dquote_def [evals] lex_squote_def [evals]
  lex_escape_def [evals] lex_quote_def [evals] shlex_tokens_def [evals]

section \<open>Lemmas\<close>

text \<open>Characters with no meaning of their own in the start and word states.\<close>

definition lex_plain :: "char \<Rightarrow> bool" where
  "lex_plain c = (\<not> lex_blank c \<and> \<not> lex_punct c \<and> \<not> lex_quote c \<and> c \<noteq> lex_escape)"

lemma shlex_word_plain:
  "list_all lex_plain w \<Longrightarrow> shlex_run LexWord tok (w @ r) = shlex_run LexWord (tok @ w) r"
  by (induction w arbitrary: tok) (auto simp: lex_plain_def)

lemma shlex_start_plain:
  "w \<noteq> [] \<Longrightarrow> list_all lex_plain w \<Longrightarrow> shlex_run LexStart tok (w @ r) = shlex_run LexWord w r"
  by (cases w) (auto simp: lex_plain_def shlex_word_plain)

lemma shlex_plain_words:
  assumes "ws \<noteq> []" "\<And>w. w \<in> set ws \<Longrightarrow> w \<noteq> [] \<and> list_all lex_plain w"
  shows "shlex_tokens (join_with '' '' ws) = Some ws"
proof -
  have "shlex_run LexStart tok (join_with '' '' ws) = Some ws" for tok
    using assms
  proof (induction "'' ''" ws arbitrary: tok rule: join_with.induct)
    case (2 w)
    then show ?case using shlex_start_plain [of w tok "[]"] by simp
  next
    case (3 w v ws)
    have "lex_blank (CHR '' '')" by (simp add: lex_blank_def)
    with 3 show ?case by (simp add: shlex_start_plain)
  qed simp
  then show ?thesis by (simp add: shlex_tokens_def)
qed

text \<open>A run of plain characters followed by an unquoted punctuation character: the tokens hold a
  token of punctuation characters only.\<close>

lemma shlex_punct_run:
  "list_all lex_punct tok \<Longrightarrow> tok \<noteq> [] \<Longrightarrow> shlex_run LexPunct tok s = Some ts \<Longrightarrow>
     \<exists>t \<in> set ts. t \<noteq> [] \<and> list_all lex_punct t"
proof (induction s arbitrary: tok ts)
  case (Cons c s)
  show ?case
  proof (cases "lex_punct c \<and> \<not> lex_blank c")
    case True
    with Cons.prems Cons.IH [of "tok @ [c]" ts] show ?thesis by auto
  next
    case False
    with Cons.prems have "tok \<in> set ts" by (auto split: if_splits)
    with Cons.prems show ?thesis by blast
  qed
qed auto

lemma punct_not_special: "lex_punct c \<Longrightarrow> \<not> lex_blank c \<and> \<not> lex_quote c \<and> c \<noteq> lex_escape"
  by (auto simp: lex_punct_def lex_blank_def lex_quote_def lex_dquote_def lex_squote_def
      lex_escape_def evals)

lemma shlex_start_punct:
  "lex_punct c \<Longrightarrow> shlex_run LexStart tok (c # s) = shlex_run LexPunct [c] s"
  by (simp add: punct_not_special)

text \<open>Characters outside quotes that do not start one.\<close>

definition lex_unquoted :: "string \<Rightarrow> bool" where
  "lex_unquoted s = list_all (\<lambda>c. \<not> lex_quote c \<and> c \<noteq> lex_escape) s"

lemma shlex_unquoted_punct:
  assumes "lex_unquoted a" "lex_punct p" "st = LexStart \<or> st = LexWord \<or> st = LexPunct \<and> tok \<noteq> [] \<and> list_all lex_punct tok"
    "shlex_run st tok (a @ p # s) = Some ts"
  shows "\<exists>t \<in> set ts. t \<noteq> [] \<and> list_all lex_punct t"
  using assms
proof (induction a arbitrary: st tok ts)
  case Nil
  then show ?case
    using punct_not_special [of p] shlex_punct_run [of "[p]" s] shlex_punct_run [of "tok @ [p]" s]
    by (auto simp: shlex_start_punct)
next
  case (Cons c a)
  have un: "lex_unquoted a" and c: "\<not> lex_quote c" "c \<noteq> lex_escape"
    using Cons.prems(1) by (auto simp: lex_unquoted_def)
  note IH = Cons.IH [OF un Cons.prems(2)]
  show ?case
    using Cons.prems(3,4) c IH [of LexStart "[]"] IH [of LexWord "[c]"] IH [of LexPunct "[c]"]
      IH [of LexWord "tok @ [c]"] IH [of LexPunct "tok @ [c]"]
    by (fastforce split: if_splits)
qed

end
