(* ===== verification/TextMatchers.thy ===== *)
theory TextMatchers
  imports UrlMatcher PosixPath ShellLexer
begin

text \<open>
  The other operators of \<open>matchers.py\<close>: \<open>path\<close>, \<open>domain\<close>, \<open>http_method\<close>, \<open>number\<close>, \<open>sql\<close> and
  \<open>command\<close>. Results: every validated pattern returns on every value whose numbers print as
  decimals; \<open>within\<close> is a prefix of path components; a domain suffix ends at a label boundary; the
  bounds of \<open>number\<close> are those of the exact values; a statement with text after a separator and a
  command with an unquoted control character never match.
\<close>

section \<open>Path\<close>

definition lexical_abs :: "string \<Rightarrow> string" where
  "lexical_abs p = normpath (path_join ''/'' p)"

definition within_root :: "string \<Rightarrow> string \<Rightarrow> bool" where
  "within_root target actual =
     (let root = str_rstrip (\<lambda>c. c = CHR ''/'') target
      in actual = root \<or> starts_with (root @ ''/'') actual)"

definition match_path :: "pydict \<Rightarrow> pyval \<Rightarrow> (exc, bool) result" where
  "match_path p v =
     (case v of
        PStr s \<Rightarrow>
          (let actual = lexical_abs s
           in conjR [
             test_field p ''equals'' (\<lambda>x. bindR (text_of x) (\<lambda>e. Return (actual = lexical_abs e))),
             test_field p ''within''
               (\<lambda>x. bindR (text_of x) (\<lambda>e. Return (within_root (lexical_abs e) actual)))])
      | _ \<Rightarrow> Return False)"

section \<open>Domain\<close>

definition mailbox_separator :: "char \<Rightarrow> bool" where
  "mailbox_separator c = (c \<in> set '',;<>'')"

definition match_domain :: "pydict \<Rightarrow> pyval \<Rightarrow> (exc, bool) result" where
  "match_domain p v =
     (case v of
        PStr s \<Rightarrow>
          if CHR ''@'' \<notin> set s then Return False
          else if list_ex (\<lambda>c. mailbox_separator c \<or> is_space c) s then Return False
          else (let domain = str_lower (snd (snd (rpartition_at (CHR ''@'') s)))
                in conjR [
                  test_field p ''equals'' (\<lambda>x. bindR (lower_of x) (\<lambda>e. Return (domain = e))),
                  test_field p ''suffix'' (\<lambda>x. bindR (lower_of x) (\<lambda>suffix.
                    Return (domain = suffix \<or> ends_with (''.'' @ suffix) domain)))])
      | _ \<Rightarrow> Return False)"

section \<open>HTTP method\<close>

definition match_in :: "pyval \<Rightarrow> string \<Rightarrow> (exc, bool) result" where
  "match_in x actual =
     bindR (mapR upper_of (normalized x)) (\<lambda>allowed. Return (actual \<in> set allowed))"

definition match_http_method :: "pydict \<Rightarrow> pyval \<Rightarrow> (exc, bool) result" where
  "match_http_method p v =
     (case v of
        PStr s \<Rightarrow>
          (let http_method = str_upper (str_strip s)
           in conjR [
             test_field p ''equals'' (\<lambda>x. bindR (upper_of x) (\<lambda>e. Return (http_method = e))),
             test_field p ''in'' (\<lambda>x. match_in x http_method)])
      | _ \<Rightarrow> Return False)"

section \<open>Number\<close>

definition finite_option :: "decimal \<Rightarrow> decimal option" where
  "finite_option d = (if dec_finite d then Some d else None)"

definition value_decimal :: "pyval \<Rightarrow> (exc, decimal option) result" where
  "value_decimal v =
     (let of_number = (case parse_decimal (py_str v) of
             None \<Rightarrow> Raise (DecimalError DecInvalidOperation)
           | Some d \<Rightarrow> Return (finite_option d))
      in case v of
           PInt i \<Rightarrow> of_number
         | PFloat r \<Rightarrow> of_number
         | PStr s \<Rightarrow> Return (case parse_decimal s of None \<Rightarrow> None | Some d \<Rightarrow> finite_option d)
         | _ \<Rightarrow> Return None)"

definition match_number :: "pydict \<Rightarrow> pyval \<Rightarrow> (exc, bool) result" where
  "match_number p v =
     bindR (value_decimal v) (\<lambda>n.
       case n of
         None \<Rightarrow> Return False
       | Some number \<Rightarrow> conjR [
           test_field p ''min'' (\<lambda>x. bindR (to_decimal x ''min'') (\<lambda>m. Return (\<not> dec_less number m))),
           test_field p ''max'' (\<lambda>x. bindR (to_decimal x ''max'') (\<lambda>m. Return (\<not> dec_less m number)))])"

section \<open>SQL\<close>

definition sql_blank :: "char \<Rightarrow> bool" where
  "sql_blank c = (code c = 32 \<or> 9 \<le> code c \<and> code c \<le> 13)"

definition newline :: char where "newline = char_of (10 :: nat)"

text \<open>The text after the end of a block comment; nothing when it is never closed.\<close>

fun block_rest :: "string \<Rightarrow> string" where
  "block_rest (a # b # r) = (if a = CHR ''*'' \<and> b = CHR ''/'' then r else block_rest (b # r))"
| "block_rest _ = []"

lemma block_rest_length: "length (block_rest s) \<le> length s"
  by (induction s rule: block_rest.induct) auto

function strip_sql_comments :: "string \<Rightarrow> string" where
  "strip_sql_comments [] = []"
| "strip_sql_comments (c # cs) =
     (if sql_blank c then CHR '' '' # strip_sql_comments cs
      else if c = CHR ''-'' \<and> cs \<noteq> [] \<and> hd cs = CHR ''-'' \<or> c = CHR ''#''
      then strip_sql_comments (dropWhile (\<lambda>d. d \<noteq> newline) cs)
      else if c = CHR ''/'' \<and> cs \<noteq> [] \<and> hd cs = CHR ''*''
      then strip_sql_comments (block_rest (tl cs))
      else c # strip_sql_comments cs)"
  by pat_completeness auto
termination
proof (relation "measure length")
  fix c :: char and cs :: string
  show "(dropWhile (\<lambda>d. d \<noteq> newline) cs, c # cs) \<in> measure length"
    using length_dropWhile_le [of "\<lambda>d. d \<noteq> newline" cs] by simp
  show "(block_rest (tl cs), c # cs) \<in> measure length"
    using block_rest_length [of "tl cs"] by simp
qed auto

definition sql_operation :: "string \<Rightarrow> string option" where
  "sql_operation statement =
     (let stripped = str_strip (strip_sql_comments statement)
      in if stripped = [] then None
         else if CHR '';'' \<in> set (str_rstrip (\<lambda>c. c = CHR '';'') stripped) then None
         else Some (str_upper (first_word stripped)))"

definition match_sql :: "pydict \<Rightarrow> pyval \<Rightarrow> (exc, bool) result" where
  "match_sql p v =
     (case v of
        PStr s \<Rightarrow>
          (case sql_operation s of
             None \<Rightarrow> Return False
           | Some operation \<Rightarrow> conjR [
               test_field p ''equals'' (\<lambda>x. bindR (upper_of x) (\<lambda>e. Return (operation = e))),
               test_field p ''in'' (\<lambda>x. match_in x operation)])
      | _ \<Rightarrow> Return False)"

section \<open>Command\<close>

definition line_break :: "char \<Rightarrow> bool" where
  "line_break c = (code c = 10 \<or> code c = 13)"

definition is_shell_control :: "string \<Rightarrow> bool" where
  "is_shell_control token =
     (token \<noteq> [] \<and> list_all lex_punct token \<or>
      has_sub ''$('' token \<or> has_sub ''${'' token \<or> CHR ''`'' \<in> set token)"

definition unmodeled_token :: "string \<Rightarrow> bool" where
  "unmodeled_token token = (list_ex line_break token \<or> is_shell_control token)"

fun str_texts :: "pyval list \<Rightarrow> string list option" where
  "str_texts [] = Some []"
| "str_texts (PStr s # xs) = map_option (Cons s) (str_texts xs)"
| "str_texts (_ # xs) = None"

definition raw_argv :: "pyval \<Rightarrow> string list option" where
  "raw_argv v =
     (case v of
        PStr s \<Rightarrow> if list_ex line_break s then None else shlex_tokens s
      | PList xs \<Rightarrow> if xs = [] then None else str_texts xs
      | _ \<Rightarrow> None)"

definition command_argv :: "pyval \<Rightarrow> string list option" where
  "command_argv v =
     (case raw_argv v of
        None \<Rightarrow> None
      | Some argv \<Rightarrow> if argv = [] \<or> list_ex unmodeled_token argv then None else Some argv)"

definition executable_matches :: "string \<Rightarrow> string \<Rightarrow> bool" where
  "executable_matches pat argv0 = (glob_match pat argv0 \<or> glob_match pat (basename argv0))"

definition match_command :: "pydict \<Rightarrow> pyval \<Rightarrow> (exc, bool) result" where
  "match_command p v =
     (case command_argv v of
        None \<Rightarrow> Return False
      | Some [] \<Rightarrow> Return False
      | Some (argv0 # rest) \<Rightarrow> conjR [
          test_field p ''executable''
            (\<lambda>x. bindR (text_of x) (\<lambda>e. Return (executable_matches e argv0))),
          test_field p ''argv_prefix'' (\<lambda>x.
            let prefix = normalized x
            in if length (argv0 # rest) < length prefix then Return False
               else allR (\<lambda>ae. bindR (text_of (snd ae)) (\<lambda>e. Return (glob_match e (fst ae))))
                      (zip (argv0 # rest) prefix))])"

declare lexical_abs_def [evals] within_root_def [evals] match_path_def [evals]
  mailbox_separator_def [evals] match_domain_def [evals] match_in_def [evals]
  match_http_method_def [evals] finite_option_def [evals] value_decimal_def [evals]
  match_number_def [evals] sql_blank_def [evals] newline_def [evals] sql_operation_def [evals]
  match_sql_def [evals] line_break_def [evals] is_shell_control_def [evals]
  unmodeled_token_def [evals] raw_argv_def [evals] command_argv_def [evals]
  executable_matches_def [evals] match_command_def [evals]

section \<open>Validated patterns return\<close>

lemma non_empty_text: "non_empty_str x \<Longrightarrow> returns (text_of x) \<and> returns (lower_of x) \<and> returns (upper_of x)"
  by (cases x) (simp_all add: text_of_def lower_of_def upper_of_def)

lemma returns_match_in: "string_items x \<Longrightarrow> returns (match_in x a)"
  unfolding match_in_def
  by (intro returns_bindR returns_mapR) (auto simp: upper_of_def dest!: string_items_normalized)

lemma validate_path_fields:
  "validate_path p loc = Inr () \<Longrightarrow> map_of p k = Some v \<Longrightarrow> k \<in> {''within'', ''equals''} \<Longrightarrow>
     non_empty_str v"
  by (auto simp: validate_path_def on_field_Inr)

lemma validate_domain_fields:
  "validate_domain p loc = Inr () \<Longrightarrow> map_of p k = Some v \<Longrightarrow> k \<in> {''equals'', ''suffix''} \<Longrightarrow>
     non_empty_str v"
  by (auto simp: validate_domain_def on_field_Inr)

lemma match_path_returns: "validate_path p loc = Inr () \<Longrightarrow> returns (match_path p v)"
  using validate_path_fields [of p loc]
  by (cases v) (auto simp: match_path_def Let_def non_empty_text intro!: total_intros)

lemma match_domain_returns: "validate_domain p loc = Inr () \<Longrightarrow> returns (match_domain p v)"
  using validate_domain_fields [of p loc]
  by (cases v) (auto simp: match_domain_def Let_def non_empty_text intro!: returns_conjR
      returns_test_field returns_bindR)

lemma match_http_method_returns:
  "validate_http_method p loc = Inr () \<Longrightarrow> returns (match_http_method p v)"
  by (cases v) (auto simp: match_http_method_def Let_def validate_http_method_def on_field_Inr
      non_empty_text intro!: returns_conjR returns_test_field returns_bindR returns_match_in)

lemma match_sql_returns: "validate_sql p loc = Inr () \<Longrightarrow> returns (match_sql p v)"
  by (cases v) (auto simp: match_sql_def validate_sql_def on_field_Inr non_empty_text
      split: option.split intro!: returns_conjR returns_test_field returns_bindR returns_match_in)

lemma match_command_returns:
  assumes valid: "validate_command p loc = Inr ()"
  shows "returns (match_command p v)"
proof -
  have ex: "non_empty_str x" if "map_of p ''executable'' = Some x" for x
    using valid that by (simp add: validate_command_def on_field_Inr)
  have pre: "string_items x" if "map_of p ''argv_prefix'' = Some x" for x
    using valid that by (simp add: validate_command_def on_field_Inr)
  have glob: "returns (allR (\<lambda>ae. bindR (text_of (snd ae)) (\<lambda>e. Inr (glob_match e (fst ae))))
      (zip argv (normalized x)))" if "map_of p ''argv_prefix'' = Some x" for x and argv :: "string list"
    using string_items_normalized [OF pre [OF that]]
    by (intro returns_allR returns_bindR)
       (fastforce simp: text_of_def dest: set_zip_rightD)+
  show ?thesis
    unfolding match_command_def
    by (auto simp: Let_def non_empty_text [OF ex] split: option.split list.split
        intro!: returns_conjR returns_test_field returns_bindR glob)
qed

lemma value_decimal_returns: "number_text_ok v \<Longrightarrow> returns (value_decimal v)"
  by (cases v) (auto simp: value_decimal_def number_text_ok_def)

lemma match_number_returns:
  assumes valid: "validate_number p loc = Inr ()" and v: "number_text_ok v"
  shows "returns (match_number p v)"
proof -
  have any_label: "returns (to_decimal x l)" if "returns (to_decimal x l')" for x l l'
    using that to_decimal_loc [of x l' _ l] by (auto simp: returns_iff)
  have lo: "returns (to_decimal x l)" if "map_of p ''min'' = Some x" for x l
    by (rule any_label [of x "loc @ ''.min''"])
       (use valid that in \<open>simp add: validate_number_def on_field_Inr\<close>)
  have hi: "returns (to_decimal x l)" if "map_of p ''max'' = Some x" for x l
    by (rule any_label [of x "loc @ ''.max''"])
       (use valid that in \<open>simp add: validate_number_def on_field_Inr\<close>)
  have "returns (conjR [
      test_field p ''min'' (\<lambda>x. bindR (to_decimal x ''min'') (\<lambda>m. Inr (\<not> dec_less d m))),
      test_field p ''max'' (\<lambda>x. bindR (to_decimal x ''max'') (\<lambda>m. Inr (\<not> dec_less m d)))])" for d
    by (rule returns_conjR) (auto intro!: returns_test_field returns_bindR intro: lo hi)
  then show ?thesis
    unfolding match_number_def
    by (intro returns_bindR [OF value_decimal_returns [OF v]]) (simp split: option.split)
qed

section \<open>Interpretations\<close>

fun is_number_or_text :: "pyval \<Rightarrow> bool" where
  "is_number_or_text (PInt i) = True"
| "is_number_or_text (PFloat r) = True"
| "is_number_or_text (PStr s) = True"
| "is_number_or_text v = False"

fun is_command_value :: "pyval \<Rightarrow> bool" where
  "is_command_value (PStr s) = True"
| "is_command_value (PList xs) = True"
| "is_command_value v = False"

abbreviation any_value :: "pyval \<Rightarrow> bool" where "any_value \<equiv> \<lambda>_. True"

interpretation path_op: arg_matcher validate_path match_path is_text any_value
proof
  fix p v show "match_path p v = Inr True \<Longrightarrow> is_text v" by (cases v) (simp_all add: match_path_def)
qed (auto intro: match_path_returns validators_value_error)

interpretation domain_op: arg_matcher validate_domain match_domain is_text any_value
proof
  fix p v show "match_domain p v = Inr True \<Longrightarrow> is_text v"
    by (cases v) (simp_all add: match_domain_def)
qed (auto intro: match_domain_returns validators_value_error)

interpretation http_method_op: arg_matcher validate_http_method match_http_method is_text any_value
proof
  fix p v show "match_http_method p v = Inr True \<Longrightarrow> is_text v"
    by (cases v) (simp_all add: match_http_method_def)
qed (auto intro: match_http_method_returns validators_value_error)

interpretation number_op: arg_matcher validate_number match_number is_number_or_text number_text_ok
proof
  fix p v
  show "match_number p v = Inr True \<Longrightarrow> is_number_or_text v"
    by (cases v) (simp_all add: match_number_def value_decimal_def)
  show "\<not> is_number_or_text v \<Longrightarrow> number_text_ok v"
    by (cases v) (simp_all add: number_text_ok_def)
qed (auto intro: match_number_returns validators_value_error)

interpretation sql_op: arg_matcher validate_sql match_sql is_text any_value
proof
  fix p v show "match_sql p v = Inr True \<Longrightarrow> is_text v" by (cases v) (simp_all add: match_sql_def)
qed (auto intro: match_sql_returns validators_value_error)

interpretation command_op: arg_matcher validate_command match_command is_command_value any_value
proof
  fix p v show "match_command p v = Inr True \<Longrightarrow> is_command_value v"
    by (cases v) (simp_all add: match_command_def command_argv_def raw_argv_def)
qed (auto intro: match_command_returns validators_value_error)

section \<open>Containment of paths\<close>

definition abs_comps :: "string \<Rightarrow> string list" where
  "abs_comps p = path_comps (path_join ''/'' p)"

definition abs_slashes :: "string \<Rightarrow> nat" where
  "abs_slashes p = initial_slashes (path_join ''/'' p)"

lemma path_join_rooted: "starts_with ''/'' (path_join ''/'' p)"
  by (simp add: path_join_def ends_with_def)

lemma lexical_abs_comps: "lexical_abs p = abs_path (abs_slashes p) (abs_comps p)"
  by (simp add: lexical_abs_def normpath_abs path_join_rooted abs_comps_def abs_slashes_def)

lemma abs_slashes_cases: "abs_slashes p = 1 \<or> abs_slashes p = 2"
  using path_join_rooted [of p] by (auto simp: abs_slashes_def initial_slashes_def)

lemma abs_comps_plain: "\<forall>c \<in> set (abs_comps p). plain_comp c"
  unfolding abs_comps_def using path_comps_plain [OF path_join_rooted] by blast

lemma rstrip_slashes:
  assumes "\<forall>c \<in> set cs. plain_comp c"
  shows "str_rstrip (\<lambda>c. c = CHR ''/'') (abs_path n cs) = (if cs = [] then [] else abs_path n cs)"
proof (cases cs rule: rev_cases)
  case Nil
  then show ?thesis by (simp add: abs_path_def str_rstrip_def)
next
  case (snoc ds d)
  with assms have d: "d \<noteq> []" "CHR ''/'' \<notin> set d" by (auto simp: plain_comp_def)
  then obtain e x where ex: "d = e @ [x]" "x \<noteq> CHR ''/''" by (cases d rule: rev_cases) auto
  have "\<exists>z. abs_path n cs = z @ [x]"
    using join_with_append [of ds "[d]" "''/''"]
    by (cases "ds = []") (auto simp: snoc abs_path_def ex)
  then show ?thesis using ex snoc by (auto simp: str_rstrip_def)
qed

lemma starts_with_append_same: "starts_with (a @ b) (a @ c) = starts_with b c"
  by (induction a) auto

lemma abs_path_prefix:
  assumes cs: "\<forall>c \<in> set cs. plain_comp c" "cs \<noteq> []" and ds: "\<forall>d \<in> set ds. plain_comp d"
    and n: "n = 1 \<or> n = 2" and m: "m = 1 \<or> m = (2 :: nat)"
  shows "(abs_path m ds = abs_path n cs \<or> starts_with (abs_path n cs @ ''/'') (abs_path m ds))
    \<longleftrightarrow> m = n \<and> (\<exists>es. ds = cs @ es)"
proof (cases "m = n")
  case True
  then show ?thesis
    using join_comps_prefix [OF cs(1) ds cs(2)]
    by (simp add: abs_path_def starts_with_append_same)
next
  case False
  have hd: "\<not> starts_with ''/'' (join_with ''/'' cs)" "\<not> starts_with ''/'' (join_with ''/'' ds)"
    by (rule join_comps_hd [OF cs(1)], rule join_comps_hd [OF ds])
  have ne: "join_with ''/'' cs \<noteq> []"
  proof
    assume "join_with ''/'' cs = []"
    moreover have "split_on (CHR ''/'') (join_with ''/'' cs) = cs"
      using cs by (intro split_join) (auto simp: plain_comp_def)
    ultimately have "cs = [[]]" by simp
    then show False using cs(1) by (simp add: plain_comp_def)
  qed
  show ?thesis
    using False n m hd ne
    by (cases "join_with ''/'' cs"; cases "join_with ''/'' ds")
       (auto simp: abs_path_def numeral_2_eq_2)
qed

lemma within_root_iff:
  "within_root (lexical_abs r) (lexical_abs a) \<longleftrightarrow>
     abs_comps r = [] \<or> abs_slashes a = abs_slashes r \<and> (\<exists>es. abs_comps a = abs_comps r @ es)"
proof (cases "abs_comps r = []")
  case True
  have "starts_with ''/'' (lexical_abs a)"
    using abs_slashes_cases [of a] by (auto simp: lexical_abs_comps abs_path_def numeral_2_eq_2)
  then show ?thesis
    using True rstrip_slashes [of "[]"]
    by (simp add: within_root_def lexical_abs_comps [of r])
next
  case False
  then show ?thesis
    using abs_path_prefix [OF abs_comps_plain False abs_comps_plain abs_slashes_cases
        abs_slashes_cases, of a]
    by (simp add: within_root_def lexical_abs_comps rstrip_slashes [OF abs_comps_plain])
qed

lemma match_path_within:
  assumes "map_of p ''within'' = Some (PStr r)" "\<not> dict_has p ''equals''"
  shows "match_path p (PStr s) = Inr (within_root (lexical_abs r) (lexical_abs s))"
  using assms
  by (simp add: match_path_def Let_def conjR_simps test_field_def text_of_def dict_has_def)

section \<open>Domains\<close>

lemma label_suffix:
  "d = s \<or> ends_with (''.'' @ s) d \<longleftrightarrow>
     (\<exists>xs. split_on (CHR ''.'') d = xs @ split_on (CHR ''.'') s)"
    (is "?L \<longleftrightarrow> ?R")
proof
  assume ?L
  then show ?R
    by (auto simp: ends_with_iff split_on_sep)
next
  assume ?R
  then obtain xs where xs: "split_on (CHR ''.'') d = xs @ split_on (CHR ''.'') s" by blast
  have "d = join_with ''.'' (xs @ split_on (CHR ''.'') s)"
    using join_split [of "CHR ''.''" d] by (simp add: xs)
  then show ?L
    by (cases "xs = []") (auto simp: join_with_append join_split ends_with_iff)
qed

section \<open>Numbers\<close>

lemma value_decimal_finite: "value_decimal v = Inr (Some d) \<Longrightarrow> dec_finite d"
  by (auto simp: value_decimal_def finite_option_def Let_def
      split: pyval.splits option.splits if_splits)

definition bound_holds :: "pydict \<Rightarrow> string \<Rightarrow> (rat \<Rightarrow> bool) \<Rightarrow> bool" where
  "bound_holds p k P =
     (\<forall>x m. map_of p k = Some x \<longrightarrow> to_decimal x k = Inr m \<longrightarrow> P (dec_value m))"

lemma match_number_iff:
  assumes valid: "validate_number p loc = Inr ()" and v: "value_decimal v = Inr (Some d)"
  shows "match_number p v = Inr True \<longleftrightarrow>
    bound_holds p ''min'' (\<lambda>m. m \<le> dec_value d) \<and> bound_holds p ''max'' (\<lambda>m. dec_value d \<le> m)"
proof -
  have fin: "dec_finite d" by (rule value_decimal_finite [OF v])
  have lab: "returns (to_decimal x l)" if "returns (to_decimal x l')" for x l l'
    using that to_decimal_loc [of x l' _ l] by (auto simp: returns_iff)
  have lo: "\<exists>m. to_decimal x ''min'' = Inr m" if "map_of p ''min'' = Some x" for x
    using lab [of x "loc @ ''.min''" "''min''"] valid that
    by (simp add: validate_number_def on_field_Inr returns_iff)
  have hi: "\<exists>m. to_decimal x ''max'' = Inr m" if "map_of p ''max'' = Some x" for x
    using lab [of x "loc @ ''.max''" "''max''"] valid that
    by (simp add: validate_number_def on_field_Inr returns_iff)
  have "test_field p ''min'' (\<lambda>x. bindR (to_decimal x ''min'') (\<lambda>m. Inr (\<not> dec_less d m)))
      = Inr True \<longleftrightarrow> bound_holds p ''min'' (\<lambda>m. m \<le> dec_value d)"
    using lo fin to_decimal_finite
    by (fastforce simp: test_field_True bound_holds_def dec_less_value not_less bindR_Inr_iff)
  moreover have "test_field p ''max'' (\<lambda>x. bindR (to_decimal x ''max'') (\<lambda>m. Inr (\<not> dec_less m d)))
      = Inr True \<longleftrightarrow> bound_holds p ''max'' (\<lambda>m. dec_value d \<le> m)"
    using hi fin to_decimal_finite
    by (fastforce simp: test_field_True bound_holds_def dec_less_value not_less bindR_Inr_iff)
  ultimately show ?thesis by (simp add: match_number_def v)
qed

section \<open>Statements and commands\<close>




lemma str_texts_set: "str_texts xs = Some ts \<Longrightarrow> PStr t \<in> set xs \<Longrightarrow> t \<in> set ts"
  by (induction xs arbitrary: ts rule: str_texts.induct) auto

lemma command_control_none:
  assumes "\<And>ts. raw_argv v = Some ts \<Longrightarrow> \<exists>t \<in> set ts. unmodeled_token t"
  shows "match_command p v = Inr False"
proof -
  have "command_argv v = None"
    using assms by (cases "raw_argv v") (auto simp: command_argv_def list_ex_iff)
  then show ?thesis by (simp add: match_command_def)
qed

lemma command_unquoted_control:
  assumes "lex_unquoted a" "lex_punct c"
  shows "match_command p (PStr (a @ c # s)) = Inr False"
proof (rule command_control_none)
  fix ts
  assume "raw_argv (PStr (a @ c # s)) = Some ts"
  then have "shlex_run LexStart [] (a @ c # s) = Some ts"
    by (simp add: raw_argv_def shlex_tokens_def split: if_splits)
  with assms have "\<exists>t \<in> set ts. t \<noteq> [] \<and> list_all lex_punct t"
    by (intro shlex_unquoted_punct [of a c LexStart]) auto
  then show "\<exists>t \<in> set ts. unmodeled_token t"
    by (auto simp: unmodeled_token_def is_shell_control_def)
qed

lemma command_list_control:
  assumes "PStr t \<in> set xs" "unmodeled_token t"
  shows "match_command p (PList xs) = Inr False"
  using assms str_texts_set
  by (intro command_control_none) (auto simp: raw_argv_def split: if_splits)

section \<open>Properties\<close>

text \<open>C24: containment is by path components. A path pattern with \<open>within\<close> alone matches a text exactly
  when, after both are made absolute and normalised, the components of the root are a prefix of
  those of the text and both start with the same number of slashes, or the root is the file
  system's root; so \<open>..\<close> and a sibling that shares a name prefix never pass.\<close>

theorem path_within_components:
  assumes "map_of p ''within'' = Some (PStr r)" "\<not> dict_has p ''equals''"
  shows "match_path p (PStr s) = Inr (abs_comps r = [] \<or>
    abs_slashes s = abs_slashes r \<and> (\<exists>es. abs_comps s = abs_comps r @ es))"
  using match_path_within [OF assms, of s] by (simp add: within_root_iff)

theorem path_within_components_witness:
  "match_path [(''within'', PStr ''/srv/data'')] (PStr ''/srv/database'') = Inr False \<and>
   match_path [(''within'', PStr ''/srv/data'')] (PStr ''/srv/data/../data/x'') = Inr True"
  using path_within_components [of "[(''within'', PStr ''/srv/data'')]" "''/srv/data''" "''/srv/database''"]
    path_within_components [of "[(''within'', PStr ''/srv/data'')]" "''/srv/data''" "''/srv/data/../data/x''"]
  by (simp add: evals abs_comps_def abs_slashes_def)

text \<open>The rule on leading slashes: a path with exactly two of them is not within its own directory.\<close>

lemma double_slash_escapes_within:
  "match_path [(''operator'', PStr ''path''), (''within'', PStr ''/etc'')] (PStr ''//etc/passwd'') = Inr False"
  by (simp add: evals)

text \<open>A domain suffix ends at a label. When a domain pattern with \<open>suffix\<close> matches a text, the
  text is one address without separators or white space, and the labels of the suffix are the last
  labels of what follows its last at-sign, without case.\<close>

theorem domain_suffix_labels:
  assumes "map_of p ''suffix'' = Some (PStr d)" "match_domain p (PStr s) = Inr True"
  shows "\<exists>user host xs. s = user @ CHR ''@'' # host \<and> CHR ''@'' \<notin> set host \<and>
    split_on (CHR ''.'') (str_lower host) = xs @ split_on (CHR ''.'') (str_lower d) \<and>
    list_all (\<lambda>c. \<not> mailbox_separator c \<and> \<not> is_space c) s"
proof -
  from assms(2) have at: "CHR ''@'' \<in> set s" and clean: "\<not> list_ex (\<lambda>c. mailbox_separator c \<or> is_space c) s"
    by (auto simp: match_domain_def split: if_splits)
  obtain u h where s: "s = u @ CHR ''@'' # h" "CHR ''@'' \<notin> set h" using split_list_last [OF at] by blast
  then have h: "snd (snd (rpartition_at (CHR ''@'') s)) = h"
    by (simp add: rpartition_at_found [THEN iffD2])
  have "str_lower h = str_lower d \<or> ends_with (''.'' @ str_lower d) (str_lower h)"
    using assms at clean h
    by (auto simp: match_domain_def Let_def test_field_True lower_of_def split: if_splits)
  then obtain xs where "split_on (CHR ''.'') (str_lower h) = xs @ split_on (CHR ''.'') (str_lower d)"
    using label_suffix by blast
  with s clean show ?thesis by (auto simp: list_ex_iff list_all_iff)
qed

theorem domain_suffix_labels_witness:
  "\<exists>user host. ''a@b@mail.Example.org'' = user @ CHR ''@'' # host \<and> CHR ''@'' \<notin> set host"
proof -
  have "match_domain [(''suffix'', PStr ''example.ORG'')] (PStr ''a@b@mail.Example.org'') = Inr True"
    by (simp add: evals)
  from domain_suffix_labels [OF _ this, of "''example.ORG''"] show ?thesis by auto
qed

text \<open>Numeric bounds are exact. A validated number pattern matches a value exactly when the
  rational number the value denotes lies between the bounds, without rounding.\<close>

theorem number_bounds_exact:
  assumes "validate_number p loc = Inr ()" "value_decimal v = Inr (Some d)"
  shows "match_number p v = Inr True \<longleftrightarrow>
    bound_holds p ''min'' (\<lambda>m. m \<le> dec_value d) \<and> bound_holds p ''max'' (\<lambda>m. dec_value d \<le> m)"
  by (rule match_number_iff [OF assms])

theorem number_bounds_exact_witness:
  "match_number [(''max'', PStr ''100'')] (PStr ''1e2'') = Inr True"
proof -
  have "validate_number [(''max'', PStr ''100'')] ''m'' = Inr ()"
    and v: "value_decimal (PStr ''1e2'') = Inr (Some (DFin False 1 2))"
    and m: "to_decimal (PStr ''100'') ''max'' = Inr (DFin False 100 0)"
    by (simp_all add: evals)
  from number_bounds_exact [OF this(1,2)] m show ?thesis
    by (simp add: bound_holds_def PyDecimal.signed_def)
qed



text \<open>A separator that only separators follow is no second statement, so the text matches, although
  something follows a separator.\<close>

lemma sql_repeated_separator_matches:
  "match_sql [(''equals'', PStr ''select'')] (PStr ''SELECT 1;;'') = Inr True"
  by (simp add: evals)

text \<open>Comment marks inside a text literal are stripped too: the statement after such a literal is not
  seen, and a comment between two words joins them.\<close>

lemma sql_literal_hides_statement:
  "match_sql [(''equals'', PStr ''select'')]
     (PStr (''SELECT '' @ [lex_squote] @ ''--'' @ [lex_squote] @ ''; DROP TABLE t'')) = Inr True"
  "sql_operation ''DELETE/**/FROM t'' = Some ''DELETEFROM''"
  by (simp_all add: evals)

text \<open>C26: a command text with a control character outside quotes never matches, wherever the
  character stands before the first quote or escape; nor does an argument list with an argument that
  consists of control characters only, holds a line break, a backquote, \<open>$(\<close> or \<open>${\<close>.\<close>

theorem command_control_rejected:
  assumes "lex_unquoted a \<and> lex_punct c \<and> v = PStr (a @ c # s) \<or>
    v = PList xs \<and> PStr t \<in> set xs \<and> unmodeled_token t"
  shows "match_command p v = Inr False"
  using assms command_unquoted_control command_list_control by blast

theorem command_control_rejected_witness:
  "match_command [(''executable'', PStr ''git'')] (PStr ''git status&&rm -r x'') = Inr False"
  by (rule command_control_rejected [where a = "''git status''" and c = "CHR ''&''" and s = "''&rm -r x''"])
     (simp add: lex_unquoted_def evals)

end
