(* ===== verification/Matchers.thy ===== *)
theory Matchers
  imports TextMatchers
begin

text \<open>
  \<open>matchers.match\<close>: the dispatch on the operator. Results: the dispatch and the validator agree on
  the operator, so a pattern that passed \<open>compile\<close> returns a truth value on every argument value
  whose numbers print as decimals and, for URLs, that holds no null character; and it raises on
  such a character, which the documentation does not say.
\<close>

definition matcher :: "string \<Rightarrow> pydict \<Rightarrow> pyval \<Rightarrow> (exc, bool) result" where
  "matcher op =
     (if op = ''url'' then match_url
      else if op = ''path'' then match_path
      else if op = ''domain'' then match_domain
      else if op = ''http_method'' then match_http_method
      else if op = ''number'' then match_number
      else if op = ''sql'' then match_sql
      else if op = ''command'' then match_command
      else (\<lambda>p v. Raise (KeyError op)))"

text \<open>\<open>match\<close>. An operator that is a list or an object is not hashable, so the membership test
  raises; any other unknown operator is a \<open>ValueError\<close>.\<close>

definition match_typed :: "pyval \<Rightarrow> pyval \<Rightarrow> (exc, bool) result" where
  "match_typed pat v =
     (if \<not> is_typed pat then Raise (ValueError ''match() requires a typed matcher object'')
      else case pat of
        PDict p \<Rightarrow>
          (let operator = dict_get p ''operator'' PNone;
               unknown = Raise (ValueError (''unknown matcher operator '' @ py_repr operator))
           in case operator of
                PStr op \<Rightarrow> if op \<in> set OPERATORS then matcher op p v else unknown
              | PList xs \<Rightarrow> Raise (TypeError ''unhashable type'')
              | PDict d \<Rightarrow> Raise (TypeError ''unhashable type'')
              | _ \<Rightarrow> unknown)
      | _ \<Rightarrow> Raise (ValueError ''match() requires a typed matcher object''))"

declare matcher_def [evals] match_typed_def [evals]

section \<open>A compiled pattern\<close>

text \<open>The values on which every operator is promised to return.\<close>

definition value_ok :: "pyval \<Rightarrow> bool" where
  "value_ok v = (no_nul v \<and> number_text_ok v)"

lemma seven_members:
  assumes "x \<in> set [a, b, c, d, e, f, g]"
  obtains "x = a" | "x = b" | "x = c" | "x = d" | "x = e" | "x = f" | "x = g"
  using assms by auto

lemma validator_matcher:
  assumes "op \<in> set OPERATORS" "validator op p loc = Inr ()" "value_ok v"
  shows "returns (matcher op p v)"
proof -
  have v: "no_nul v" "number_text_ok v" using assms(3) by (simp_all add: value_ok_def)
  from assms(1) show ?thesis
    unfolding OPERATORS_def
    by (cases rule: seven_members) (use assms(2) v in \<open>simp_all add: validator_def matcher_def url_op.run_returns path_op.run_returns
        domain_op.run_returns http_method_op.run_returns number_op.run_returns sql_op.run_returns
        command_op.run_returns\<close>)
qed

lemma compile_matcherE:
  assumes "compile_matcher pat loc = Inr ()"
  obtains p op where "pat = PDict p" "map_of p ''operator'' = Some (PStr op)"
    "op \<in> set OPERATORS" "validator op p loc = Inr ()"
  using assms
  by (auto simp: compile_matcher_def Let_def dict_get_def split: pyval.splits if_splits option.splits)

lemma match_typed_operator:
  assumes "map_of p ''operator'' = Some (PStr op)" "op \<in> set OPERATORS"
  shows "match_typed (PDict p) v = matcher op p v"
  using assms by (simp add: match_typed_def is_typed_def dict_has_def dict_get_def)

lemma compiled_returns:
  "compile_matcher pat loc = Inr () \<Longrightarrow> value_ok v \<Longrightarrow> returns (match_typed pat v)"
  by (elim compile_matcherE) (simp add: match_typed_operator validator_matcher)

lemma compile_matcher_ok_dict: "compile_matcher pat loc = Inr () \<Longrightarrow> is_typed pat"
  by (elim compile_matcherE) (simp add: is_typed_def dict_has_def)

lemma validator_value_error:
  assumes "op \<in> set OPERATORS" "pattern_numbers_ok p"
  shows "only_value_errors (validator op p loc)"
  using assms(1) unfolding OPERATORS_def
  by (cases rule: seven_members)
     (use validators_value_error [of p loc] assms(2) in \<open>simp_all add: validator_def\<close>)

lemma compile_value_error:
  assumes "\<And>p. pat = PDict p \<Longrightarrow> pattern_numbers_ok p"
  shows "only_value_errors (compile_matcher pat loc)"
proof (cases pat)
  case (PDict p)
  then show ?thesis
    using validator_value_error assms
    by (auto simp: compile_matcher_def Let_def only_value_errors_def split: pyval.split)
qed (simp_all add: compile_matcher_def only_value_errors_def)

section \<open>Properties\<close>

text \<open>A compiled matcher returns. A pattern that passed validation gives a truth value on every
  value whose numbers print as decimals and, for texts, without a null character; no operator
  raises on a value of the wrong shape.\<close>

theorem compiled_matcher_returns:
  assumes "compile_matcher pat loc = Inr ()" "value_ok v"
  shows "match_typed pat v = Inr True \<or> match_typed pat v = Inr False"
  using compiled_returns [OF assms] by (auto simp: returns_iff)

theorem compiled_matcher_returns_witness:
  "match_typed (PDict [(''operator'', PStr ''url''), (''port'', PList [PInt 443])]) (PList [PNone])
     = Inr True \<or>
   match_typed (PDict [(''operator'', PStr ''url''), (''port'', PList [PInt 443])]) (PList [PNone])
     = Inr False"
  by (rule compiled_matcher_returns [where loc = "''m''"])
     (simp_all add: evals value_ok_def no_nul_def number_text_ok_def)

end
