(* ===== verification/Policy.thy ===== *)
theory Policy
  imports Matchers
begin

text \<open>
  \<open>policy.py\<close>: the loading of a policy document and the decision for a call. Results: a document
  is accepted only with the types the code documents, and an accepted policy decides every call;
  a budget that is reached blocks before any rule; otherwise the first matching rule decides, and
  the default when none matches; the exact comparison of arguments never confuses two types.
\<close>

section \<open>The policy\<close>

record budget =
  b_max_calls :: "int option"
  b_max_calls_per_tool :: "int option"
  b_max_identical_calls :: "int option"
  b_max_cost_usd :: "decimal option"

record rule =
  r_tool :: string
  r_decision :: decision_kind
  r_reason :: string
  r_arguments :: pydict

record policy =
  p_default :: decision_kind
  p_budget :: budget
  p_rules :: "rule list"
  p_audit_arguments :: audit_mode

section \<open>Loading\<close>

text \<open>\<open>_reject_duplicate_keys\<close> builds the dictionary of one JSON object.\<close>

fun reject_duplicates_from :: "pydict \<Rightarrow> pydict \<Rightarrow> (exc, pydict) result" where
  "reject_duplicates_from result [] = Return result"
| "reject_duplicates_from result ((k, v) # pairs) =
     (if dict_has result k then Raise (ValueError (''duplicate JSON key: '' @ str_repr k))
      else reject_duplicates_from (dict_set result k v) pairs)"

definition reject_duplicate_keys :: "pydict \<Rightarrow> (exc, pydict) result" where
  "reject_duplicate_keys pairs = reject_duplicates_from [] pairs"

definition reject_unknown :: "pydict \<Rightarrow> string list \<Rightarrow> string \<Rightarrow> (exc, unit) result" where
  "reject_unknown raw allowed loc =
     (let unknown = filter (\<lambda>k. k \<notin> set allowed) (map fst raw)
      in if unknown \<noteq> []
         then Raise (PolicyConfigError (''unknown policy key(s): '' @
                join_with '', '' (map (\<lambda>k. loc @ ''.'' @ k) (sort unknown))))
         else Return ())"

definition decision_of :: "pyval \<Rightarrow> string \<Rightarrow> (exc, decision_kind) result" where
  "decision_of v field =
     (let bad = Raise (PolicyConfigError (field @ '' must be one of: '' @
          join_with '', '' (map kind_value [ALLOW, BLOCK, REQUIRE_APPROVAL])))
      in case v of
           PStr s \<Rightarrow>
             (if s = ''allow'' then Return ALLOW
              else if s = ''block'' then Return BLOCK
              else if s = ''require_approval'' then Return REQUIRE_APPROVAL
              else bad)
         | _ \<Rightarrow> bad)"

definition audit_mode_of :: "pyval \<Rightarrow> (exc, audit_mode) result" where
  "audit_mode_of v =
     (let bad = Raise (PolicyConfigError (''audit_arguments must be one of: '' @
          join_with '', '' (map audit_mode_value
            [AUDIT_NONE, AUDIT_HASH, AUDIT_REDACTED, AUDIT_FULL])))
      in case v of
           PStr s \<Rightarrow>
             (if s = ''none'' then Return AUDIT_NONE
              else if s = ''hash'' then Return AUDIT_HASH
              else if s = ''redacted'' then Return AUDIT_REDACTED
              else if s = ''full'' then Return AUDIT_FULL
              else bad)
         | _ \<Rightarrow> bad)"

definition positive_int :: "pyval \<Rightarrow> string \<Rightarrow> (exc, int option) result" where
  "positive_int v field =
     (case v of
        PNone \<Rightarrow> Return None
      | PInt i \<Rightarrow>
          if i < 1 then Raise (PolicyConfigError (field @ '' must be a positive integer''))
          else Return (Some i)
      | _ \<Rightarrow> Raise (PolicyConfigError (field @ '' must be a positive integer'')))"

text \<open>\<open>except ValueError as exc: raise PolicyConfigError(...) from exc\<close>\<close>

definition as_policy_error :: "string \<Rightarrow> (exc, 'a) result \<Rightarrow> (exc, 'a) result" where
  "as_policy_error prefix m =
     map_errorR (\<lambda>e. if is_value_error e then PolicyConfigError (prefix @ exc_message e) else e) m"

definition optional_money :: "pyval \<Rightarrow> string \<Rightarrow> (exc, decimal option) result" where
  "optional_money v field =
     (case v of
        PNone \<Rightarrow> Return None
      | _ \<Rightarrow> as_policy_error (field @ '': '') (bindR (money v None) (\<lambda>d. Return (Some d))))"

definition budget_of :: "pyval \<Rightarrow> (exc, budget) result" where
  "budget_of raw =
     (case raw of
        PDict d \<Rightarrow>
          bindR (reject_unknown d
            [''max_calls'', ''max_calls_per_tool'', ''max_identical_calls'', ''max_cost_usd'']
            ''budget'') (\<lambda>_.
          bindR (positive_int (dict_get d ''max_calls'' PNone) ''budget.max_calls'') (\<lambda>a.
          bindR (positive_int (dict_get d ''max_calls_per_tool'' PNone)
            ''budget.max_calls_per_tool'') (\<lambda>b.
          bindR (positive_int (dict_get d ''max_identical_calls'' PNone)
            ''budget.max_identical_calls'') (\<lambda>c.
          bindR (optional_money (dict_get d ''max_cost_usd'' PNone) ''budget.max_cost_usd'') (\<lambda>m.
          Return \<lparr>b_max_calls = a, b_max_calls_per_tool = b, b_max_identical_calls = c,
                  b_max_cost_usd = m\<rparr>)))))
      | _ \<Rightarrow> Raise (PolicyConfigError ''budget must be an object''))"

definition rule_loc :: "nat \<Rightarrow> string" where
  "rule_loc index = ''rules['' @ nat_text index @ '']''"

text \<open>One iteration of the loop over the rules of the document.\<close>

definition required_text :: "pyval \<Rightarrow> string \<Rightarrow> (exc, string) result" where
  "required_text v loc =
     (case v of
        PStr s \<Rightarrow> if blank s then Raise (PolicyConfigError (loc @ '' must be a non-empty string''))
                  else Return s
      | _ \<Rightarrow> Raise (PolicyConfigError (loc @ '' must be a non-empty string'')))"

definition check_pattern :: "nat \<Rightarrow> string \<times> pyval \<Rightarrow> (exc, unit) result" where
  "check_pattern index kp =
     (if is_typed (snd kp)
      then as_policy_error []
        (compile_matcher (snd kp) (rule_loc index @ ''.arguments.'' @ fst kp))
      else Return ())"

definition rule_of :: "nat \<Rightarrow> pyval \<Rightarrow> (exc, rule) result" where
  "rule_of index item =
     (case item of
        PDict d \<Rightarrow>
          bindR (reject_unknown d [''tool'', ''decision'', ''reason'', ''arguments'']
            (rule_loc index)) (\<lambda>_.
          bindR (required_text (dict_get d ''tool'' PNone) (rule_loc index @ ''.tool'')) (\<lambda>tool.
          bindR (required_text (dict_get d ''reason'' (PStr ''matched policy rule''))
            (rule_loc index @ ''.reason'')) (\<lambda>reason.
          (case dict_get d ''arguments'' (PDict []) of
             PDict arguments \<Rightarrow>
               bindR (eachR (check_pattern index) arguments) (\<lambda>_.
               bindR (decision_of (dict_get d ''decision'' PNone) (rule_loc index @ ''.decision''))
                 (\<lambda>kind.
               Return \<lparr>r_tool = tool, r_decision = kind, r_reason = reason,
                       r_arguments = arguments\<rparr>))
           | _ \<Rightarrow> Raise (PolicyConfigError (rule_loc index @ ''.arguments must be an object''))))))
      | _ \<Rightarrow> Raise (PolicyConfigError (rule_loc index @ '' must be an object'')))"

fun rules_from :: "nat \<Rightarrow> pyval list \<Rightarrow> (exc, rule list) result" where
  "rules_from index [] = Return []"
| "rules_from index (item # items) =
     bindR (rule_of index item) (\<lambda>r.
     bindR (rules_from (index + 1) items) (\<lambda>rs. Return (r # rs)))"

definition policy_from_dict :: "pyval \<Rightarrow> (exc, policy) result" where
  "policy_from_dict raw =
     (case raw of
        PDict d \<Rightarrow>
          bindR (reject_unknown d [''default_decision'', ''budget'', ''rules'', ''audit_arguments'']
            ''policy'') (\<lambda>_.
          bindR (decision_of (dict_get d ''default_decision'' (PStr ''block''))
            ''default_decision'') (\<lambda>dflt.
          bindR (budget_of (dict_get d ''budget'' (PDict []))) (\<lambda>b.
          bindR (audit_mode_of (dict_get d ''audit_arguments'' (PStr ''none''))) (\<lambda>mode.
          (case dict_get d ''rules'' (PList []) of
             PList items \<Rightarrow>
               bindR (rules_from 0 items) (\<lambda>rs.
               Return \<lparr>p_default = dflt, p_budget = b, p_rules = rs, p_audit_arguments = mode\<rparr>)
           | _ \<Rightarrow> Raise (PolicyConfigError ''rules must be a list''))))))
      | _ \<Rightarrow> Raise (PolicyConfigError ''policy must be a JSON object''))"

text \<open>\<open>Policy.load\<close>: reading the file and parsing its JSON text are the library's, so their
  outcomes are arguments; the parser calls \<open>reject_duplicate_keys\<close> for every object. Bytes that are
  not UTF-8 are a \<open>ValueError\<close> of the parsing step.\<close>

datatype json_error =
    JsonSyntax nat nat
  | JsonValueError string
  | JsonTooDeep

definition policy_load ::
  "(string, string) result \<Rightarrow> (string \<Rightarrow> (json_error, pyval) result) \<Rightarrow> (exc, policy) result" where
  "policy_load file parse =
     (case file of
        Inl os_message \<Rightarrow> Raise (PolicyConfigError (''cannot read policy: '' @ os_message))
      | Inr t \<Rightarrow>
          (case parse t of
             Inl (JsonSyntax line col) \<Rightarrow> Raise (PolicyConfigError
               (''invalid JSON at line '' @ nat_text line @ '', column '' @ nat_text col))
           | Inl (JsonValueError m) \<Rightarrow> Raise (PolicyConfigError m)
           | Inl JsonTooDeep \<Rightarrow> Raise (PolicyConfigError ''policy JSON is nested too deeply'')
           | Inr raw \<Rightarrow> policy_from_dict raw))"

section \<open>Deciding\<close>

text \<open>The types \<open>type(x)\<close> distinguishes.\<close>

datatype pytype = TNone | TBool | TInt | TFloat | TStr | TList | TTuple | TDict | TObj

fun type_of_val :: "pyval \<Rightarrow> pytype" where
  "type_of_val PNone = TNone"
| "type_of_val (PBool b) = TBool"
| "type_of_val (PInt i) = TInt"
| "type_of_val (PFloat r) = TFloat"
| "type_of_val (PStr s) = TStr"
| "type_of_val (PList xs) = TList"
| "type_of_val (PTuple xs) = TTuple"
| "type_of_val (PDict d) = TDict"
| "type_of_val (PObj s r) = TObj"

text \<open>\<open>_strict_equal(actual, expected)\<close>, by recursion on the expected value.\<close>

fun strict_equal :: "pyval \<Rightarrow> pyval \<Rightarrow> bool"
  and strict_items :: "pydict \<Rightarrow> pydict \<Rightarrow> bool"
  and strict_elems :: "pyval list \<Rightarrow> pyval list \<Rightarrow> bool" where
  "strict_equal a (PDict e) =
     (case a of PDict d \<Rightarrow> length d = length e \<and> strict_items d e | _ \<Rightarrow> False)"
| "strict_equal a (PList ys) = (case a of PList xs \<Rightarrow> strict_elems xs ys | _ \<Rightarrow> False)"
| "strict_equal a e = (type_of_val a = type_of_val e \<and> py_eq a e)"
| "strict_items d [] = True"
| "strict_items d (kv # e) =
     ((case map_of d (fst kv) of None \<Rightarrow> False | Some x \<Rightarrow> strict_equal x (snd kv)) \<and>
      strict_items d e)"
| "strict_elems xs [] = (xs = [])"
| "strict_elems xs (y # ys) =
     (case xs of [] \<Rightarrow> False | x # xs' \<Rightarrow> strict_equal x y \<and> strict_elems xs' ys)"

text \<open>One iteration of \<open>_arguments_match\<close>, and the loop.\<close>

definition argument_matches :: "pydict \<Rightarrow> string \<times> pyval \<Rightarrow> (exc, bool) result" where
  "argument_matches actual kp =
     (case map_of actual (fst kp) of
        None \<Rightarrow> Return False
      | Some v \<Rightarrow>
          if is_typed (snd kp) then match_typed (snd kp) v
          else (case snd kp of
                  PStr g \<Rightarrow> Return (case v of PStr s \<Rightarrow> glob_match g s | _ \<Rightarrow> False)
                | _ \<Rightarrow> Return (strict_equal v (snd kp))))"

definition arguments_match :: "pydict \<Rightarrow> pydict \<Rightarrow> (exc, bool) result" where
  "arguments_match actual expected = allR (argument_matches actual) expected"

definition rule_tool_matches :: "rule \<Rightarrow> tool_call \<Rightarrow> bool" where
  "rule_tool_matches r c = glob_match (r_tool r) (tc_name c)"

definition rule_arguments_match :: "rule \<Rightarrow> tool_call \<Rightarrow> (exc, bool) result" where
  "rule_arguments_match r c = arguments_match (tc_arguments c) (r_arguments r)"

definition rule_matches :: "rule \<Rightarrow> tool_call \<Rightarrow> (exc, bool) result" where
  "rule_matches r c =
     (if rule_tool_matches r c then rule_arguments_match r c else Return False)"

definition block_decision :: "string \<Rightarrow> string \<Rightarrow> decision" where
  "block_decision reason dcode =
     \<lparr>d_kind = BLOCK, d_reason = reason, d_code = dcode, d_rule_index = None\<rparr>"

definition cost_decision :: "budget \<Rightarrow> tool_call \<Rightarrow> usage \<Rightarrow> (exc, decision option) result" where
  "cost_decision b c u =
     (case b_max_cost_usd b of
        None \<Rightarrow> Return None
      | Some m \<Rightarrow>
          (case dec_add (u_cost u) (tc_cost c) of
             Inl e \<Rightarrow> Raise (DecimalError e)
           | Inr projected \<Rightarrow>
               if dec_less m projected
               then Return (Some (block_decision ''estimated run cost would exceed budget''
                                    ''max_cost_usd''))
               else Return None))"

text \<open>A counter that has a limit and has reached it.\<close>

definition reached :: "int option \<Rightarrow> int \<Rightarrow> bool" where
  "reached limit n = (case limit of None \<Rightarrow> False | Some m \<Rightarrow> m \<le> n)"

definition budget_decision :: "policy \<Rightarrow> tool_call \<Rightarrow> usage \<Rightarrow> (exc, decision option) result" where
  "budget_decision p c u =
     (let b = p_budget p
      in if reached (b_max_calls b) (u_tool_calls u)
         then Return (Some (block_decision ''run tool-call budget exhausted'' ''max_calls''))
         else if reached (b_max_calls_per_tool b) (get_count (u_by_tool u) (tc_name c))
         then Return (Some (block_decision ''per-tool repetition budget exhausted''
                              ''max_calls_per_tool''))
         else if reached (b_max_identical_calls b) (get_count (u_by_fp u) (fingerprint c))
         then Return (Some (block_decision ''identical tool-call budget exhausted''
                              ''max_identical_calls''))
         else cost_decision b c u)"

fun first_rule :: "nat \<Rightarrow> rule list \<Rightarrow> tool_call \<Rightarrow> (exc, (nat \<times> rule) option) result" where
  "first_rule i [] c = Return None"
| "first_rule i (r # rs) c =
     bindR (rule_matches r c) (\<lambda>b. if b then Return (Some (i, r)) else first_rule (i + 1) rs c)"

definition default_decision_of :: "policy \<Rightarrow> decision" where
  "default_decision_of p =
     \<lparr>d_kind = p_default p, d_reason = ''no policy rule matched'', d_code = ''default'',
      d_rule_index = None\<rparr>"

definition rule_decision :: "nat \<Rightarrow> rule \<Rightarrow> decision" where
  "rule_decision i r =
     \<lparr>d_kind = r_decision r, d_reason = r_reason r, d_code = ''rule_match'',
      d_rule_index = Some i\<rparr>"

definition evaluate :: "policy \<Rightarrow> tool_call \<Rightarrow> usage \<Rightarrow> (exc, decision) result" where
  "evaluate p c u =
     bindR (budget_decision p c u) (\<lambda>bd.
       case bd of
         Some d \<Rightarrow> Return d
       | None \<Rightarrow>
           bindR (first_rule 0 (p_rules p) c) (\<lambda>fr.
             case fr of
               Some (i, r) \<Rightarrow> Return (rule_decision i r)
             | None \<Rightarrow> Return (default_decision_of p)))"

declare reject_duplicate_keys_def [evals] reject_unknown_def [evals] decision_of_def [evals]
  audit_mode_of_def [evals] positive_int_def [evals] as_policy_error_def [evals]
  optional_money_def [evals] budget_of_def [evals] rule_loc_def [evals] required_text_def [evals]
  check_pattern_def [evals] rule_of_def [evals] policy_from_dict_def [evals]
  policy_load_def [evals] argument_matches_def [evals] arguments_match_def [evals]
  rule_tool_matches_def [evals] rule_arguments_match_def [evals] rule_matches_def [evals]
  block_decision_def [evals] cost_decision_def [evals] reached_def [evals]
  budget_decision_def [evals] default_decision_of_def [evals] rule_decision_def [evals]
  evaluate_def [evals] map_errorR_def [evals]

section \<open>Duplicate keys\<close>

lemma dict_set_new: "\<not> dict_has d k \<Longrightarrow> dict_set d k v = d @ [(k, v)]"
  by (induction d k v rule: dict_set.induct) auto

lemma reject_duplicates_from_Inr:
  "reject_duplicates_from acc pairs = Inr d \<longleftrightarrow>
     d = acc @ pairs \<and> distinct (map fst pairs) \<and> fst ` set acc \<inter> fst ` set pairs = {}"
proof (induction acc pairs rule: reject_duplicates_from.induct)
  case (2 acc k v pairs)
  show ?case
  proof (cases "dict_has acc k")
    case True
    then show ?thesis by (auto simp: dict_has_iff)
  next
    case False
    then show ?thesis
      using 2 by (auto simp: dict_set_new dict_has_iff)
  qed
qed auto

lemma reject_duplicate_keys_Inr:
  "reject_duplicate_keys pairs = Inr d \<longleftrightarrow> d = pairs \<and> distinct (map fst pairs)"
  by (simp add: reject_duplicate_keys_def reject_duplicates_from_Inr)

section \<open>The first matching rule\<close>

lemma first_rule_Some:
  "first_rule i rs c = Inr (Some (j, r)) \<Longrightarrow>
     \<exists>k < length rs. j = i + k \<and> rs ! k = r \<and> rule_matches r c = Inr True \<and>
       (\<forall>l < k. rule_matches (rs ! l) c = Inr False)"
proof (induction i rs c rule: first_rule.induct)
  case (2 i r' rs c)
  from "2.prems" obtain b where b: "rule_matches r' c = Inr b" by (auto simp: result_simps)
  show ?case
  proof (cases b)
    case True
    with b "2.prems" show ?thesis by (intro exI [of _ 0]) auto
  next
    case False
    with b "2.prems" have "first_rule (i + 1) rs c = Inr (Some (j, r))" by simp
    from "2.IH" [OF False this] obtain k where
      "k < length rs" "j = i + 1 + k" "rs ! k = r" "rule_matches r c = Inr True"
      "\<forall>l < k. rule_matches (rs ! l) c = Inr False" by blast
    then show ?thesis
      using b False by (intro exI [of _ "Suc k"]) (auto simp: less_Suc_eq_0_disj)
  qed
qed simp

lemma first_rule_None:
  "first_rule i rs c = Inr None \<Longrightarrow> \<forall>r \<in> set rs. rule_matches r c = Inr False"
  by (induction i rs c rule: first_rule.induct) (auto simp: result_simps split: if_splits)

lemma returns_first_rule:
  "(\<And>r. r \<in> set rs \<Longrightarrow> returns (rule_matches r c)) \<Longrightarrow> returns (first_rule i rs c)"
  by (induction i rs c rule: first_rule.induct) (auto intro!: returns_bindR)

section \<open>Decisions\<close>

lemma budget_decision_None:
  assumes "budget_decision p c u = Inr None"
  shows "b_max_calls (p_budget p) = Some m \<Longrightarrow> u_tool_calls u < m"
    and "b_max_calls_per_tool (p_budget p) = Some m \<Longrightarrow> get_count (u_by_tool u) (tc_name c) < m"
    and "b_max_identical_calls (p_budget p) = Some m \<Longrightarrow>
           get_count (u_by_fp u) (fingerprint c) < m"
    and "b_max_cost_usd (p_budget p) = Some d \<Longrightarrow>
           \<exists>a. dec_add (u_cost u) (tc_cost c) = Inr a \<and> \<not> dec_less d a"
  using assms
  by (auto simp: budget_decision_def cost_decision_def reached_def Let_def
      split: option.splits if_splits sum.splits)

lemma budget_decision_Some:
  assumes "budget_decision p c u = Inr (Some d)"
  shows "d_kind d = BLOCK" "d_rule_index d = None"
    "d_code d \<in> {''max_calls'', ''max_calls_per_tool'', ''max_identical_calls'', ''max_cost_usd''}"
  using assms
  by (auto simp: budget_decision_def cost_decision_def block_decision_def Let_def
      split: option.splits if_splits sum.splits)

lemma evaluateE:
  assumes "evaluate p c u = Inr d"
  obtains (budget) "budget_decision p c u = Inr (Some d)"
  | (rule) i where "budget_decision p c u = Inr None" "i < length (p_rules p)"
      "d = rule_decision i (p_rules p ! i)" "rule_matches (p_rules p ! i) c = Inr True"
      "\<forall>l < i. rule_matches (p_rules p ! l) c = Inr False"
  | (default) "budget_decision p c u = Inr None" "d = default_decision_of p"
      "\<forall>r \<in> set (p_rules p). rule_matches r c = Inr False"
proof -
  from assms obtain bd where bd: "budget_decision p c u = Inr bd"
    by (auto simp: evaluate_def result_simps)
  show ?thesis
  proof (cases bd)
    case (Some b)
    with bd assms show ?thesis by (intro budget) (simp add: evaluate_def)
  next
    case None
    with bd assms obtain fr where fr: "first_rule 0 (p_rules p) c = Inr fr"
      by (auto simp: evaluate_def result_simps)
    show ?thesis
    proof (cases fr)
      case None
      with bd \<open>bd = None\<close> fr assms show ?thesis
        by (intro default) (auto simp: evaluate_def dest: first_rule_None)
    next
      case (Some ir)
      then obtain i r where ir: "fr = Some (i, r)" by (cases ir) auto
      with bd \<open>bd = None\<close> fr assms have d: "d = rule_decision i r" by (simp add: evaluate_def)
      from first_rule_Some [OF fr [unfolded ir]] d bd \<open>bd = None\<close> show ?thesis
        by (intro rule [of i]) auto
    qed
  qed
qed

lemma evaluate_allowed_budget:
  "evaluate p c u = Inr d \<Longrightarrow> d_kind d \<noteq> BLOCK \<Longrightarrow> budget_decision p c u = Inr None"
  by (erule evaluateE) (auto dest: budget_decision_Some)

section \<open>Accepted policies\<close>

definition limit_ok :: "int option \<Rightarrow> bool" where
  "limit_ok limit = (\<forall>m. limit = Some m \<longrightarrow> 1 \<le> m)"

definition pattern_ok :: "pyval \<Rightarrow> bool" where
  "pattern_ok pat = (is_typed pat \<longrightarrow> (\<exists>loc. compile_matcher pat loc = Inr ()))"

definition rule_ok :: "rule \<Rightarrow> bool" where
  "rule_ok r = (\<not> blank (r_tool r) \<and> \<not> blank (r_reason r) \<and>
     list_all (\<lambda>kp. pattern_ok (snd kp)) (r_arguments r))"

definition policy_ok :: "policy \<Rightarrow> bool" where
  "policy_ok p =
     (limit_ok (b_max_calls (p_budget p)) \<and> limit_ok (b_max_calls_per_tool (p_budget p)) \<and>
      limit_ok (b_max_identical_calls (p_budget p)) \<and>
      (\<forall>m. b_max_cost_usd (p_budget p) = Some m \<longrightarrow> cost_ok None m) \<and>
      list_all rule_ok (p_rules p))"

lemma positive_int_ok: "positive_int v f = Inr limit \<Longrightarrow> limit_ok limit"
  by (auto simp: positive_int_def limit_ok_def split: pyval.splits if_splits)

lemma as_policy_error_Inr [simp]: "as_policy_error pre m = Inr x \<longleftrightarrow> m = Inr x"
  by (simp add: as_policy_error_def)

lemma optional_money_ok:
  assumes "optional_money v f = Inr m" "m = Some d"
  shows "cost_ok None d"
proof -
  from assms have "money v None = Inr d"
    by (cases v) (auto simp: optional_money_def result_simps)
  then show ?thesis by (rule money_cost_ok) simp
qed

lemma required_text_ok: "required_text v loc = Inr s \<Longrightarrow> v = PStr s \<and> \<not> blank s"
  by (auto simp: required_text_def split: pyval.splits if_splits)

lemma check_pattern_ok: "check_pattern i kp = Inr () \<Longrightarrow> pattern_ok (snd kp)"
  by (auto simp: check_pattern_def pattern_ok_def split: if_splits)

lemma rule_of_ok: "rule_of i v = Inr r \<Longrightarrow> rule_ok r"
proof -
  assume r: "rule_of i v = Inr r"
  then obtain d where v: "v = PDict d" by (auto simp: rule_of_def split: pyval.splits)
  with r obtain args where args: "dict_get d ''arguments'' (PDict []) = PDict args"
    by (cases "dict_get d ''arguments'' (PDict [])") (auto simp: rule_of_def bindR_Inr_iff)
  from r have "required_text (dict_get d ''tool'' PNone) (rule_loc i @ ''.tool'') = Inr (r_tool r)"
    and "required_text (dict_get d ''reason'' (PStr ''matched policy rule''))
      (rule_loc i @ ''.reason'') = Inr (r_reason r)"
    and "eachR (check_pattern i) args = Inr ()" "r_arguments r = args"
    by (auto simp: v args rule_of_def bindR_Inr_iff)
  then show ?thesis
    by (auto simp: rule_ok_def list_all_iff eachR_Inr_iff dest: required_text_ok check_pattern_ok)
qed

lemma rules_from_ok: "rules_from i vs = Inr rs \<Longrightarrow> list_all rule_ok rs"
  by (induction i vs arbitrary: rs rule: rules_from.induct)
     (auto simp: result_simps dest: rule_of_ok)

lemma rules_from_length: "rules_from i vs = Inr rs \<Longrightarrow> length rs = length vs"
  by (induction i vs arbitrary: rs rule: rules_from.induct) (auto simp: result_simps)

lemma budget_of_ok:
  assumes "budget_of v = Inr b"
  shows "limit_ok (b_max_calls b)" "limit_ok (b_max_calls_per_tool b)"
    "limit_ok (b_max_identical_calls b)" "b_max_cost_usd b = Some m \<Longrightarrow> cost_ok None m"
  using assms
  by (auto simp: budget_of_def result_simps split: pyval.splits dest: positive_int_ok
      optional_money_ok)

lemma policy_from_dict_ok: "policy_from_dict raw = Inr p \<Longrightarrow> policy_ok p"
proof -
  assume p: "policy_from_dict raw = Inr p"
  then obtain d where raw: "raw = PDict d" by (auto simp: policy_from_dict_def split: pyval.splits)
  with p obtain items where items: "dict_get d ''rules'' (PList []) = PList items"
    by (cases "dict_get d ''rules'' (PList [])") (auto simp: policy_from_dict_def bindR_Inr_iff)
  from p have "budget_of (dict_get d ''budget'' (PDict [])) = Inr (p_budget p)"
    and "rules_from 0 items = Inr (p_rules p)"
    by (auto simp: raw items policy_from_dict_def bindR_Inr_iff)
  then show ?thesis
    by (auto simp: policy_ok_def dest: budget_of_ok rules_from_ok)
qed

section \<open>A rejected policy is a policy error\<close>

text \<open>Every number inside a document prints as a decimal, as those the JSON parser builds do.\<close>

fun numbers_ok :: "pyval \<Rightarrow> bool" and numbers_ok_list :: "pyval list \<Rightarrow> bool"
  and numbers_ok_items :: "pydict \<Rightarrow> bool" where
  "numbers_ok (PDict d) = numbers_ok_items d"
| "numbers_ok (PList xs) = numbers_ok_list xs"
| "numbers_ok (PTuple xs) = numbers_ok_list xs"
| "numbers_ok v = number_text_ok v"
| "numbers_ok_list [] = True"
| "numbers_ok_list (x # xs) = (numbers_ok x \<and> numbers_ok_list xs)"
| "numbers_ok_items [] = True"
| "numbers_ok_items (kv # d) = (numbers_ok (snd kv) \<and> numbers_ok_items d)"

lemma numbers_ok_items_iff: "numbers_ok_items d \<longleftrightarrow> (\<forall>kv \<in> set d. numbers_ok (snd kv))"
  by (induction d) auto

lemma numbers_ok_list_iff: "numbers_ok_list xs \<longleftrightarrow> (\<forall>x \<in> set xs. numbers_ok x)"
  by (induction xs) auto

lemma numbers_ok_text: "numbers_ok v \<Longrightarrow> number_text_ok v"
  by (cases v) (auto simp: number_text_ok_def)

lemma numbers_ok_get:
  "numbers_ok_items d \<Longrightarrow> numbers_ok dflt \<Longrightarrow> numbers_ok (dict_get d k dflt)"
  by (auto simp: dict_get_def numbers_ok_items_iff split: option.split dest!: map_of_SomeD)

definition only_policy_errors :: "(exc, 'a) result \<Rightarrow> bool" where
  "only_policy_errors m = (\<forall>e. m = Inl e \<longrightarrow> (\<exists>t. e = PolicyConfigError t))"

lemma ope_bindR:
  "only_policy_errors m \<Longrightarrow> (\<And>x. m = Inr x \<Longrightarrow> only_policy_errors (f x)) \<Longrightarrow>
     only_policy_errors (bindR m f)"
  by (auto simp: only_policy_errors_def result_simps)

lemma ope_Inr [simp]: "only_policy_errors (Inr x)"
  by (simp add: only_policy_errors_def)

lemma ope_Inl [simp]: "only_policy_errors (Inl (PolicyConfigError t))"
  by (simp add: only_policy_errors_def)

lemma ope_checks [simp]:
  "only_policy_errors (reject_unknown d allowed loc)"
  "only_policy_errors (decision_of v field)"
  "only_policy_errors (audit_mode_of v)"
  "only_policy_errors (positive_int v field)"
  "only_policy_errors (required_text v field)"
  by (auto simp: only_policy_errors_def reject_unknown_def decision_of_def audit_mode_of_def
      positive_int_def required_text_def Let_def split: pyval.splits if_splits)

lemma ope_as_policy_error: "only_value_errors m \<Longrightarrow> only_policy_errors (as_policy_error pre m)"
  by (auto simp: only_policy_errors_def only_value_errors_def as_policy_error_def map_errorR_Inl_iff)

lemma ope_optional_money [simp]: "only_policy_errors (optional_money v field)"
proof -
  have "only_value_errors (bindR (money v None) (\<lambda>d. Inr (Some d)))"
    by (auto simp: only_value_errors_def result_simps dest: money_raises_value_error)
  from ope_as_policy_error [OF this] show ?thesis
    by (cases v) (simp_all add: optional_money_def)
qed

lemma ope_budget_of: "only_policy_errors (budget_of v)"
  by (cases v) (auto simp: budget_of_def intro!: ope_bindR)

lemma ope_check_pattern:
  assumes "numbers_ok (snd kp)"
  shows "only_policy_errors (check_pattern i kp)"
proof -
  have "pattern_numbers_ok p" if "snd kp = PDict p" for p
    using assms that by (auto simp: pattern_numbers_ok_def numbers_ok_items_iff numbers_ok_text)
  then show ?thesis
    by (auto simp: check_pattern_def intro: ope_as_policy_error compile_value_error)
qed

lemma ope_eachR:
  "(\<And>x. x \<in> set xs \<Longrightarrow> only_policy_errors (f x)) \<Longrightarrow> only_policy_errors (eachR f xs)"
  by (induction xs) (auto intro!: ope_bindR)

lemma ope_rule_of: "numbers_ok v \<Longrightarrow> only_policy_errors (rule_of i v)"
proof (cases v)
  case (PDict d)
  assume "numbers_ok v"
  with PDict have d: "numbers_ok_items d" by simp
  show ?thesis
  proof (cases "dict_get d ''arguments'' (PDict [])")
    case (PDict args)
    have "numbers_ok_items args" using numbers_ok_get [OF d, of "PDict []" "''arguments''"] PDict by simp
    then have "only_policy_errors (eachR (check_pattern i) args)"
      by (auto simp: numbers_ok_items_iff intro!: ope_eachR ope_check_pattern)
    then show ?thesis
      by (simp add: \<open>v = PDict d\<close> rule_of_def PDict ope_bindR)
  qed (simp_all add: \<open>v = PDict d\<close> rule_of_def ope_bindR)
qed (simp_all add: rule_of_def)

lemma ope_rules_from: "numbers_ok_list vs \<Longrightarrow> only_policy_errors (rules_from i vs)"
  by (induction i vs rule: rules_from.induct) (auto intro!: ope_bindR ope_rule_of)

lemma ope_policy_from_dict: "numbers_ok raw \<Longrightarrow> only_policy_errors (policy_from_dict raw)"
proof (cases raw)
  case (PDict d)
  assume "numbers_ok raw"
  with PDict have d: "numbers_ok_items d" by simp
  show ?thesis
  proof (cases "dict_get d ''rules'' (PList [])")
    case (PList items)
    have "numbers_ok_list items" using numbers_ok_get [OF d, of "PList []" "''rules''"] PList by simp
    then show ?thesis
      by (simp add: PDict policy_from_dict_def PList ope_bindR ope_budget_of ope_rules_from)
  qed (simp_all add: PDict policy_from_dict_def ope_bindR ope_budget_of)
qed (simp_all add: policy_from_dict_def)

section \<open>An accepted policy decides every call\<close>

definition call_values_ok :: "tool_call \<Rightarrow> bool" where
  "call_values_ok c = (\<forall>kv \<in> set (tc_arguments c). value_ok (snd kv))"

lemma argument_matches_returns:
  assumes "pattern_ok (snd kp)" "\<And>v. map_of actual (fst kp) = Some v \<Longrightarrow> value_ok v"
  shows "returns (argument_matches actual kp)"
  using assms compiled_returns
  by (auto simp: argument_matches_def pattern_ok_def split: option.split pyval.split)

lemma rule_arguments_returns:
  assumes "rule_ok r" "call_values_ok c"
  shows "returns (rule_arguments_match r c)"
proof -
  have "returns (arguments_match (tc_arguments c) (r_arguments r))"
    unfolding arguments_match_def
  proof (rule returns_allR, rule argument_matches_returns)
    fix kp v
    assume "kp \<in> set (r_arguments r)"
    then show "pattern_ok (snd kp)" using assms(1) by (auto simp: rule_ok_def list_all_iff)
    assume "map_of (tc_arguments c) (fst kp) = Some v"
    then show "value_ok v" using assms(2) by (auto simp: call_values_ok_def dest!: map_of_SomeD)
  qed
  then show ?thesis by (simp add: rule_arguments_match_def)
qed

lemma rule_matches_returns:
  "rule_ok r \<Longrightarrow> call_values_ok c \<Longrightarrow> returns (rule_matches r c)"
  by (simp add: rule_matches_def rule_arguments_returns)

lemma budget_decision_returns:
  "returns (dec_add (u_cost u) (tc_cost c)) \<Longrightarrow> returns (budget_decision p c u)"
  by (auto simp: budget_decision_def cost_decision_def Let_def returns_iff split: option.split)

lemma evaluate_returns:
  assumes "policy_ok p" "call_values_ok c" "returns (dec_add (u_cost u) (tc_cost c))"
  shows "returns (evaluate p c u)"
proof -
  have fr: "returns (first_rule 0 (p_rules p) c)"
    using assms(1,2) rule_matches_returns
    by (intro returns_first_rule) (auto simp: policy_ok_def list_all_iff)
  show ?thesis
    unfolding evaluate_def
    by (intro returns_bindR budget_decision_returns assms(3))
       (auto split: option.split intro!: returns_bindR fr)
qed

lemma budget_decision_error: "budget_decision p c u = Inl e \<Longrightarrow> \<exists>x. e = DecimalError x"
  by (auto simp: budget_decision_def cost_decision_def Let_def split: if_splits option.splits sum.splits)

lemma evaluate_error:
  assumes "policy_ok p" "call_values_ok c" "evaluate p c u = Inl e"
  shows "\<exists>x. e = DecimalError x"
proof -
  have fr: "returns (first_rule 0 (p_rules p) c)"
    using assms(1,2) rule_matches_returns
    by (intro returns_first_rule) (auto simp: policy_ok_def list_all_iff)
  then obtain x where x: "first_rule 0 (p_rules p) c = Inr x" by (auto simp: returns_iff)
  show ?thesis
  proof (cases "budget_decision p c u")
    case (Inl e')
    with assms(3) budget_decision_error [OF Inl] show ?thesis by (simp add: evaluate_def)
  next
    case (Inr bd)
    with assms(3) x show ?thesis
      by (auto simp: evaluate_def split: option.splits)
  qed
qed

section \<open>Exact comparison\<close>

text \<open>Values without floats, dictionaries, tuples and foreign objects.\<close>

fun exact_value :: "pyval \<Rightarrow> bool" and exact_values :: "pyval list \<Rightarrow> bool" where
  "exact_value PNone = True"
| "exact_value (PBool b) = True"
| "exact_value (PInt i) = True"
| "exact_value (PStr s) = True"
| "exact_value (PList xs) = exact_values xs"
| "exact_value v = False"
| "exact_values [] = True"
| "exact_values (x # xs) = (exact_value x \<and> exact_values xs)"

lemma num_eq_ints: "num_eq (PInt i) (PInt j) \<longleftrightarrow> i = j"
  by (auto simp: num_eq_def num_value_def scale_to_def PyDecimal.signed_def split: if_splits)

lemma num_eq_bools: "num_eq (PBool a) (PBool b) \<longleftrightarrow> a = b"
  by (cases a; cases b) (simp_all add: num_eq_def num_value_def scale_to_def PyDecimal.signed_def)

lemma type_of_val_eqs:
  "type_of_val a = TNone \<longleftrightarrow> a = PNone" "type_of_val a = TBool \<longleftrightarrow> (\<exists>b. a = PBool b)"
  "type_of_val a = TInt \<longleftrightarrow> (\<exists>i. a = PInt i)" "type_of_val a = TStr \<longleftrightarrow> (\<exists>s. a = PStr s)"
  by (cases a; simp)+

lemma strict_equal_exact:
  "exact_value e \<Longrightarrow> strict_equal a e \<longleftrightarrow> a = e"
  "exact_values ys \<Longrightarrow> strict_elems xs ys \<longleftrightarrow> xs = ys"
proof (induction e and ys arbitrary: a and xs rule: exact_value_exact_values.induct)
  case (5 zs)
  then show ?case by (cases a) auto
next
  case (8 y ys)
  then show ?case by (cases xs) auto
qed (auto simp: type_of_val_eqs num_eq_ints num_eq_bools)

lemma strict_equal_type: "strict_equal a e \<Longrightarrow> type_of_val a = type_of_val e"
  by (cases e) (auto split: pyval.splits)

section \<open>Properties\<close>

text \<open>C12: the first matching rule decides. A decision of \<open>evaluate\<close> is the budget's block, or that of
  the rule at some index which matches while no rule before it does, or, when no rule matches, the
  default; the last two only when no budget blocks.\<close>

theorem evaluate_first_match:
  assumes "evaluate p c u = Inr d"
  shows "budget_decision p c u = Inr (Some d) \<or>
    budget_decision p c u = Inr None \<and>
      ((\<exists>i < length (p_rules p). d = rule_decision i (p_rules p ! i) \<and>
          rule_matches (p_rules p ! i) c = Inr True \<and>
          (\<forall>l < i. rule_matches (p_rules p ! l) c = Inr False)) \<or>
       d = default_decision_of p \<and> (\<forall>r \<in> set (p_rules p). rule_matches r c = Inr False))"
  using assms by (rule evaluateE) blast+

definition glob_policy :: policy where
  "glob_policy =
    \<lparr>p_default = BLOCK,
     p_budget = \<lparr>b_max_calls = Some 1, b_max_calls_per_tool = None, b_max_identical_calls = None,
                 b_max_cost_usd = None\<rparr>,
     p_rules = [\<lparr>r_tool = ''write_*'', r_decision = BLOCK, r_reason = ''no'', r_arguments = []\<rparr>,
                \<lparr>r_tool = ''*'', r_decision = ALLOW, r_reason = ''yes'', r_arguments = []\<rparr>],
     p_audit_arguments = AUDIT_NONE\<rparr>"

definition glob_call :: tool_call where
  "glob_call = \<lparr>tc_name = ''read'', tc_arguments = [], tc_cost = DFin False 0 0, tc_id = ''i''\<rparr>"

theorem evaluate_first_match_witness:
  "\<exists>i < length (p_rules glob_policy). rule_matches (p_rules glob_policy ! i) glob_call = Inr True \<and>
     (\<forall>l < i. rule_matches (p_rules glob_policy ! l) glob_call = Inr False)"
proof -
  have ev: "evaluate glob_policy glob_call empty_usage = Inr (rule_decision 1 (p_rules glob_policy ! 1))"
    and bd: "budget_decision glob_policy glob_call empty_usage = Inr None"
    and m: "\<exists>r \<in> set (p_rules glob_policy). rule_matches r glob_call \<noteq> Inr False"
    by (simp_all add: evals glob_policy_def glob_call_def)
  from evaluate_first_match [OF ev] bd m show ?thesis by auto
qed

text \<open>An exhausted budget blocks whatever the rules say. When the number of calls, the calls of
  the tool or the identical calls have reached a limit, the decision is a block, and rules and
  default are not consulted.\<close>

theorem exhausted_budget_blocks:
  assumes "reached (b_max_calls (p_budget p)) (u_tool_calls u) \<or>
    reached (b_max_calls_per_tool (p_budget p)) (get_count (u_by_tool u) (tc_name c)) \<or>
    reached (b_max_identical_calls (p_budget p)) (get_count (u_by_fp u) (fingerprint c))"
  shows "\<exists>d. evaluate p c u = Inr d \<and> d_kind d = BLOCK \<and> d_rule_index d = None \<and>
    d_code d \<in> {''max_calls'', ''max_calls_per_tool'', ''max_identical_calls''}"
  using assms by (auto simp: evaluate_def budget_decision_def block_decision_def Let_def)

theorem exhausted_budget_blocks_witness:
  "\<exists>d. evaluate glob_policy glob_call (empty_usage\<lparr>u_tool_calls := 1\<rparr>) = Inr d \<and> d_kind d = BLOCK"
proof -
  have "reached (b_max_calls (p_budget glob_policy)) (u_tool_calls (empty_usage\<lparr>u_tool_calls := 1\<rparr>))"
    by (simp add: reached_def glob_policy_def)
  with exhausted_budget_blocks [of glob_policy "empty_usage\<lparr>u_tool_calls := 1\<rparr>" glob_call]
  show ?thesis by blast
qed

text \<open>C14: a call that is not blocked fits every budget, and recording it keeps to the budgets. Before the
  call every count is below its limit; the cost that \<open>Usage.record\<close> then stores is the very sum that the
  budget check compared, and under a cost limit the recording does not fail; and after it the number of
  calls, of calls of this tool and of identical calls and the cost are not above their limits.\<close>

theorem allowed_call_fits:
  assumes "evaluate p c u = Inr d" "d_kind d \<noteq> BLOCK"
  shows "(\<forall>m. b_max_calls (p_budget p) = Some m \<longrightarrow> u_tool_calls u < m) \<and>
    (\<forall>m. b_max_calls_per_tool (p_budget p) = Some m \<longrightarrow> get_count (u_by_tool u) (tc_name c) < m) \<and>
    (\<forall>m. b_max_identical_calls (p_budget p) = Some m \<longrightarrow>
       get_count (u_by_fp u) (fingerprint c) < m) \<and>
    (\<forall>m. b_max_cost_usd (p_budget p) = Some m \<longrightarrow>
       (\<exists>a u'. dec_add (u_cost u) (tc_cost c) = Inr a \<and> \<not> dec_less m a \<and>
          usage_record u c = (Inr (), u') \<and> u_cost u' = a)) \<and>
    (\<forall>u'. usage_record u c = (Inr (), u') \<longrightarrow>
       dec_add (u_cost u) (tc_cost c) = Inr (u_cost u') \<and>
       (\<forall>m. b_max_calls (p_budget p) = Some m \<longrightarrow> u_tool_calls u' \<le> m) \<and>
       (\<forall>m. b_max_calls_per_tool (p_budget p) = Some m \<longrightarrow> get_count (u_by_tool u') (tc_name c) \<le> m) \<and>
       (\<forall>m. b_max_identical_calls (p_budget p) = Some m \<longrightarrow> get_count (u_by_fp u') (fingerprint c) \<le> m) \<and>
       (\<forall>m. b_max_cost_usd (p_budget p) = Some m \<longrightarrow> \<not> dec_less m (u_cost u')))"
proof -
  note fits = budget_decision_None [OF evaluate_allowed_budget [OF assms]]
  have stored: "\<exists>u'. usage_record u c = (Inr (), u') \<and> u_cost u' = a" if "dec_add (u_cost u) (tc_cost c) = Inr a" for a
    using that by (simp add: usage_record_def Let_def)
  have cost: "\<exists>a u'. dec_add (u_cost u) (tc_cost c) = Inr a \<and> \<not> dec_less m a \<and>
      usage_record u c = (Inr (), u') \<and> u_cost u' = a"
    if "b_max_cost_usd (p_budget p) = Some m" for m
    using fits that stored by blast
  have after: "dec_add (u_cost u) (tc_cost c) = Inr (u_cost u') \<and>
       (\<forall>m. b_max_calls (p_budget p) = Some m \<longrightarrow> u_tool_calls u' \<le> m) \<and>
       (\<forall>m. b_max_calls_per_tool (p_budget p) = Some m \<longrightarrow> get_count (u_by_tool u') (tc_name c) \<le> m) \<and>
       (\<forall>m. b_max_identical_calls (p_budget p) = Some m \<longrightarrow> get_count (u_by_fp u') (fingerprint c) \<le> m) \<and>
       (\<forall>m. b_max_cost_usd (p_budget p) = Some m \<longrightarrow> \<not> dec_less m (u_cost u'))"
    if r: "usage_record u c = (Inr (), u')" for u'
  proof -
    note counts = usage_record_counts [OF r]
    have "get_count (u_by_tool u') (tc_name c) = get_count (u_by_tool u) (tc_name c) + 1"
      "get_count (u_by_fp u') (fingerprint c) = get_count (u_by_fp u) (fingerprint c) + 1"
      using counts(2,3) by simp_all
    moreover have "\<not> dec_less m (u_cost u')" if "b_max_cost_usd (p_budget p) = Some m" for m
      using cost [OF that] r by auto
    ultimately show ?thesis using fits counts(1,4) by (simp add: zless_imp_add1_zle)
  qed
  show ?thesis using fits cost after by blast
qed

theorem allowed_call_fits_witness:
  "b_max_calls (p_budget glob_policy) = Some 1 \<and> u_tool_calls empty_usage < 1 \<and>
   u_tool_calls (snd (usage_record empty_usage glob_call)) \<le> 1"
proof -
  have ev: "evaluate glob_policy glob_call empty_usage = Inr (rule_decision 1 (p_rules glob_policy ! 1))"
    and k: "d_kind (rule_decision 1 (p_rules glob_policy ! 1)) \<noteq> BLOCK"
    by (simp_all add: evals glob_policy_def glob_call_def)
  have limit: "b_max_calls (p_budget glob_policy) = Some 1" by (simp add: glob_policy_def)
  have "fst (usage_record empty_usage glob_call) = Inr ()"
    by (simp add: usage_record_def glob_call_def empty_usage_def dec_zero_def dec_fix_def scale_to_def
        PyDecimal.signed_def)
  then have "usage_record empty_usage glob_call = (Inr (), snd (usage_record empty_usage glob_call))"
    by (metis prod.collapse)
  with limit allowed_call_fits [OF ev k] show ?thesis by blast
qed

text \<open>C15: an accepted policy decides every call. For a document that loaded, arguments without null
  characters in texts and with numbers that print as decimals, and a cost that can be added, the
  evaluation returns: no matcher raises.\<close>

theorem loaded_policy_decides:
  assumes "policy_from_dict raw = Inr p" "call_values_ok c"
    "returns (dec_add (u_cost u) (tc_cost c))"
  shows "returns (evaluate p c u)"
  by (rule evaluate_returns [OF policy_from_dict_ok [OF assms(1)] assms(2,3)])

definition url_document :: pyval where
  "url_document = PDict
    [(''rules'', PList [PDict [(''tool'', PStr ''fetch''), (''decision'', PStr ''allow''),
       (''arguments'', PDict [(''url'', PDict [(''operator'', PStr ''url''),
          (''scheme'', PStr ''https''), (''deny_private_networks'', PBool True)])])]])]"

theorem loaded_policy_decides_witness:
  "\<exists>p. policy_from_dict url_document = Inr p \<and>
     returns (evaluate p (glob_call\<lparr>tc_arguments := [(''url'', PStr ''https://x'')]\<rparr>) empty_usage)"
proof -
  have "\<exists>p. policy_from_dict url_document = Inr p" by (simp add: url_document_def evals)
  then obtain p where p: "policy_from_dict url_document = Inr p" by blast
  have "call_values_ok (glob_call\<lparr>tc_arguments := [(''url'', PStr ''https://x'')]\<rparr>)"
    by (simp add: call_values_ok_def value_ok_def no_nul_def number_text_ok_def char_of_def)
  moreover have "returns (dec_add (u_cost empty_usage)
      (tc_cost (glob_call\<lparr>tc_arguments := [(''url'', PStr ''https://x'')]\<rparr>)))"
    by (simp add: glob_call_def empty_usage_def dec_zero_def dec_fix_def scale_to_def
        PyDecimal.signed_def)
  ultimately show ?thesis using loaded_policy_decides [OF p] p by blast
qed

text \<open>C16: a document is rejected with a policy error only, whatever is wrong with it and at
  whatever depth, for documents whose numbers print as decimals.\<close>

theorem rejected_policy_error:
  assumes "policy_from_dict raw = Inl e" "numbers_ok raw"
  shows "\<exists>m. e = PolicyConfigError m"
  using ope_policy_from_dict [OF assms(2)] assms(1) by (simp add: only_policy_errors_def)

theorem rejected_policy_error_witness:
  "\<exists>m. policy_from_dict (PDict [(''rules'', PList [PDict [(''tool'', PStr ''t''),
     (''arguments'', PDict [(''n'', PDict [(''operator'', PStr ''number'')])])]])])
     = Inl (PolicyConfigError m)"
    (is "\<exists>m. policy_from_dict ?raw = _")
proof -
  have "\<exists>e. policy_from_dict ?raw = Inl e" by (simp add: evals)
  then obtain e where e: "policy_from_dict ?raw = Inl e" by blast
  have "numbers_ok ?raw" by (simp add: number_text_ok_def)
  from rejected_policy_error [OF e this] e show ?thesis by blast
qed

text \<open>The exact comparison of arguments is equality of type and value: for an expected value
  of booleans, integers, texts, null and lists of them, only the same value is accepted, so \<open>1\<close> is
  not \<open>true\<close> nor \<open>1.0\<close> at any depth; and for every expected value the types agree.\<close>

theorem strict_equality:
  "(exact_value e \<longrightarrow> strict_equal a e = (a = e)) \<and>
   (strict_equal a e \<longrightarrow> type_of_val a = type_of_val e)"
  using strict_equal_exact(1) strict_equal_type by blast

theorem strict_equality_witness:
  "\<not> strict_equal (PList [PBool True]) (PList [PInt 1]) \<and> \<not> strict_equal (PFloat ''500.0'') (PInt 500)"
proof -
  have "exact_value (PList [PInt 1])" "exact_value (PInt 500)" by simp_all
  with strict_equality [of "PList [PInt 1]" "PList [PBool True]"]
    strict_equality [of "PInt 500" "PFloat ''500.0''"] show ?thesis by simp
qed

text \<open>Duplicate keys of a JSON object are refused, and otherwise the object is kept as it is.\<close>

theorem duplicate_keys_refused:
  "reject_duplicate_keys pairs = Inr d \<longleftrightarrow> d = pairs \<and> distinct (map fst pairs)"
  by (rule reject_duplicate_keys_Inr)

end
