(* ===== verification/Samples.thy ===== *)
theory Samples
  imports Policy
begin

text \<open>
  A policy document, the policy it loads to, and calls, for the concrete instances of the
  properties: reading is allowed inside the workspace, deploying needs a human, everything else
  is blocked, and a run makes at most two calls for at most ten dollars.
\<close>

definition sample_document :: pyval where
  "sample_document = PDict
    [(''default_decision'', PStr ''block''),
     (''budget'', PDict [(''max_calls'', PInt 2), (''max_cost_usd'', PInt 10)]),
     (''rules'', PList
       [PDict [(''tool'', PStr ''read_*''), (''decision'', PStr ''allow''),
               (''arguments'', PDict [(''path'',
                  PDict [(''operator'', PStr ''path''), (''within'', PStr ''/workspace'')])])],
        PDict [(''tool'', PStr ''deploy''), (''decision'', PStr ''require_approval''),
               (''reason'', PStr ''a human signs off'')]])]"

definition sample_policy :: policy where
  "sample_policy =
    \<lparr>p_default = BLOCK,
     p_budget = \<lparr>b_max_calls = Some 2, b_max_calls_per_tool = None, b_max_identical_calls = None,
                 b_max_cost_usd = Some (DFin False 10 0)\<rparr>,
     p_rules =
       [\<lparr>r_tool = ''read_*'', r_decision = ALLOW, r_reason = ''matched policy rule'',
         r_arguments = [(''path'',
           PDict [(''operator'', PStr ''path''), (''within'', PStr ''/workspace'')])]\<rparr>,
        \<lparr>r_tool = ''deploy'', r_decision = REQUIRE_APPROVAL, r_reason = ''a human signs off'',
         r_arguments = []\<rparr>],
     p_audit_arguments = AUDIT_NONE\<rparr>"

lemma sample_policy_loads: "policy_from_dict sample_document = Inr sample_policy"
  by (simp add: sample_document_def sample_policy_def evals)

lemma sample_policy_ok: "policy_ok sample_policy"
  by (rule policy_from_dict_ok [OF sample_policy_loads])

definition read_call :: tool_call where
  "read_call = \<lparr>tc_name = ''read_file'', tc_arguments = [(''path'', PStr ''/workspace/a.txt'')],
     tc_cost = DFin False 1 0, tc_id = ''c1''\<rparr>"

definition deploy_call :: tool_call where
  "deploy_call = \<lparr>tc_name = ''deploy'', tc_arguments = [], tc_cost = DFin False 0 0, tc_id = ''c2''\<rparr>"

definition other_call :: tool_call where
  "other_call = \<lparr>tc_name = ''shell'', tc_arguments = [], tc_cost = DFin False 0 0, tc_id = ''c3''\<rparr>"

lemma sample_calls_ok:
  "call_values_ok read_call" "call_values_ok deploy_call" "call_values_ok other_call"
  "cost_ok None (tc_cost read_call)" "cost_ok None (tc_cost deploy_call)"
  "cost_ok None (tc_cost other_call)"
  by (simp_all add: read_call_def deploy_call_def other_call_def call_values_ok_def value_ok_def
      no_nul_def number_text_ok_def cost_ok_def PyDecimal.signed_def char_of_def)

lemma sample_decisions:
  "evaluate sample_policy read_call empty_usage = Inr (rule_decision 0 (p_rules sample_policy ! 0))"
  "evaluate sample_policy deploy_call empty_usage = Inr (rule_decision 1 (p_rules sample_policy ! 1))"
  "evaluate sample_policy other_call empty_usage = Inr (default_decision_of sample_policy)"
  by (simp_all add: sample_policy_def read_call_def deploy_call_def other_call_def evals
      get_count_def PyDecimal.signed_def scale_to_def dec_zero_def dec_fix_def)

end
