(* ===== verification/StateStore.thy ===== *)
theory StateStore
  imports Samples
begin

text \<open>
  \<open>state.py\<close>: the memory store and the SQLite store of a run's usage. The contract of a store is the
  locale \<open>state_store\<close>: an abstraction to the usage counters, and what one
  \<open>evaluate_and_reserve\<close> does to it. Both stores interpret it, and the locale proves that no
  sequence of requests under one policy takes a counter or the cost over its budget. SQLite and
  \<open>sqlite3\<close> are modelled by their documented behaviour: a table is a map from its primary key, a
  transaction that raises is rolled back, and any statement may fail.
\<close>

section \<open>The memory store\<close>

text \<open>The result of a reservation is the decision and a copy of the usage; the lock makes a call one
  step. An exception leaves the object as it is at that point.\<close>

definition mem_usage :: "usage \<Rightarrow> (exc, usage) result" where
  "mem_usage s = Return s"

definition mem_evaluate_and_reserve ::
  "policy \<Rightarrow> tool_call \<Rightarrow> bool \<Rightarrow> usage \<Rightarrow> (exc, decision \<times> usage) result \<times> usage" where
  "mem_evaluate_and_reserve p c approved s =
     (case evaluate p c s of
        Inl e \<Rightarrow> (Raise e, s)
      | Inr d \<Rightarrow>
          if reserves_usage d approved
          then (case usage_record s c of
                  (Inl e, s') \<Rightarrow> (Raise e, s')
                | (Inr _, s') \<Rightarrow> (Return (d, s'), s'))
          else (Return (d, s), s))"

section \<open>The SQLite store\<close>

text \<open>A cell read back: an integer, a text, or a value of another type.\<close>

datatype cell = IntCell int | TextCell string | OtherCell

record sqlite_db =
  db_run_usage :: "(cell \<times> cell) option"
  db_tool_usage :: "(string \<times> cell) list"
  db_fingerprint_usage :: "(string \<times> cell) list"

definition SQLITE_MAX_INT :: int where
  "SQLITE_MAX_INT = 9223372036854775807"

text \<open>The empty file, and the schema statements of \<open>_initialize\<close>: existing rows stay.\<close>

definition new_db :: sqlite_db where
  "new_db = \<lparr>db_run_usage = None, db_tool_usage = [], db_fingerprint_usage = []\<rparr>"

definition sqlite_initialize :: "sqlite_db \<Rightarrow> sqlite_db" where
  "sqlite_initialize db =
     (case db_run_usage db of
        None \<Rightarrow> db\<lparr>db_run_usage := Some (IntCell 0, TextCell ''0'')\<rparr>
      | Some r \<Rightarrow> db)"

fun cell_int :: "cell \<Rightarrow> int option" where
  "cell_int (IntCell n) = Some n"
| "cell_int _ = None"

text \<open>\<open>Decimal(row[1])\<close> on a cell: text is parsed, an integer converted, anything else refused.\<close>

fun cell_decimal :: "cell \<Rightarrow> decimal option" where
  "cell_decimal (TextCell t) = parse_decimal t"
| "cell_decimal (IntCell n) = Some (DFin (n < 0) (nat \<bar>n\<bar>) 0)"
| "cell_decimal OtherCell = None"

definition good_count :: "cell \<Rightarrow> bool" where
  "good_count x = (case x of IntCell n \<Rightarrow> 0 \<le> n | _ \<Rightarrow> False)"

definition cell_counts :: "(string \<times> cell) list \<Rightarrow> (string \<rightharpoonup> int)" where
  "cell_counts rows = map_of (map (\<lambda>(k, x). (k, the (cell_int x))) rows)"

definition bad_counts :: "(string \<times> cell) list \<Rightarrow> bool" where
  "bad_counts rows = list_ex (\<lambda>kx. \<not> good_count (snd kx)) rows"

definition load_usage :: "sqlite_db \<Rightarrow> (exc, usage) result" where
  "load_usage db =
     (case db_run_usage db of
        None \<Rightarrow> Raise (StorageError ''firewall state is missing or corrupted'')
      | Some (calls, cost) \<Rightarrow>
          (case calls of
             IntCell n \<Rightarrow>
               if n < 0 then Raise (StorageError ''firewall state is missing or corrupted'')
               else (case cell_decimal cost of
                 None \<Rightarrow> Raise (StorageError ''firewall state cost record is corrupted'')
               | Some amount \<Rightarrow>
                   if \<not> dec_finite amount \<or> dec_less amount dec_zero
                   then Raise (StorageError ''firewall state cost record is corrupted'')
                   else if bad_counts (db_tool_usage db) \<or> bad_counts (db_fingerprint_usage db)
                   then Raise (StorageError ''firewall state count record is corrupted'')
                   else Return \<lparr>u_tool_calls = n, u_cost = amount,
                                u_by_tool = cell_counts (db_tool_usage db),
                                u_by_fp = cell_counts (db_fingerprint_usage db)\<rparr>)
           | _ \<Rightarrow> Raise (StorageError ''firewall state is missing or corrupted'')))"

text \<open>\<open>INSERT ... VALUES (?, 1) ON CONFLICT DO UPDATE SET call_count = call_count + 1\<close>. An integer
  that no longer fits becomes a real number.\<close>

definition upsert_count :: "(string \<times> cell) list \<Rightarrow> string \<Rightarrow> (string \<times> cell) list" where
  "upsert_count rows k =
     dict_set rows k
       (case map_of rows k of
          None \<Rightarrow> IntCell 1
        | Some (IntCell n) \<Rightarrow> if n < SQLITE_MAX_INT then IntCell (n + 1) else OtherCell
        | Some x \<Rightarrow> x)"

text \<open>\<open>_record\<close>: the usage object is updated, then the three statements run. A Python integer of more
  than 64 bits cannot be bound to a parameter.\<close>

definition sqlite_record ::
  "usage \<Rightarrow> tool_call \<Rightarrow> sqlite_db \<Rightarrow> (exc, usage \<times> sqlite_db) result" where
  "sqlite_record u c db =
     (case usage_record u c of
        (Inl e, _) \<Rightarrow> Raise e
      | (Inr _, u') \<Rightarrow>
          if SQLITE_MAX_INT < u_tool_calls u' then Raise OverflowError
          else Return (u', db\<lparr>
            db_run_usage := map_option (\<lambda>_. (IntCell (u_tool_calls u'), TextCell (dec_text (u_cost u'))))
              (db_run_usage db),
            db_tool_usage := upsert_count (db_tool_usage db) (tc_name c),
            db_fingerprint_usage := upsert_count (db_fingerprint_usage db) (fingerprint c)\<rparr>))"

text \<open>What the database does during one operation: it works, the connection cannot be opened, or a
  statement of the transaction (the commit included) fails.\<close>

datatype db_outcome = DbOk | DbNoConnection | DbStatementFails

definition sqlite_usage :: "string \<Rightarrow> db_outcome \<Rightarrow> sqlite_db \<Rightarrow> (exc, usage) result" where
  "sqlite_usage path outcome db =
     (case outcome of
        DbOk \<Rightarrow> load_usage db
      | _ \<Rightarrow> Raise (StorageError (''could not read firewall state from '' @ path)))"

definition sqlite_evaluate_and_reserve ::
  "string \<Rightarrow> db_outcome \<Rightarrow> policy \<Rightarrow> tool_call \<Rightarrow> bool \<Rightarrow> sqlite_db \<Rightarrow>
     (exc, decision \<times> usage) result \<times> sqlite_db" where
  "sqlite_evaluate_and_reserve path outcome p c approved db =
     (case outcome of
        DbNoConnection \<Rightarrow> (Raise SqliteError, db)
      | DbStatementFails \<Rightarrow> 
          (Raise (StorageError (''could not update firewall state at '' @ path)), db)
      | DbOk \<Rightarrow>
          (case load_usage db of
             Inl e \<Rightarrow> (Raise e, db)
           | Inr u \<Rightarrow>
               (case evaluate p c u of
                  Inl e \<Rightarrow> (Raise e, db)
                | Inr d \<Rightarrow>
                    if reserves_usage d approved
                    then (case sqlite_record u c db of
                            Inl e \<Rightarrow> (Raise e, db)
                          | Inr (u', db') \<Rightarrow> (Return (d, u'), db'))
                    else (Return (d, u), db))))"

declare mem_usage_def [evals] mem_evaluate_and_reserve_def [evals] SQLITE_MAX_INT_def [evals]
  new_db_def [evals] sqlite_initialize_def [evals] good_count_def [evals] cell_counts_def [evals]
  bad_counts_def [evals]
  load_usage_def [evals] upsert_count_def [evals] sqlite_record_def [evals]
  sqlite_usage_def [evals] sqlite_evaluate_and_reserve_def [evals]

section \<open>Budgets and requests\<close>

definition below :: "int option \<Rightarrow> int \<Rightarrow> bool" where
  "below limit n = (\<forall>m. limit = Some m \<longrightarrow> n \<le> m)"

definition within_budget :: "policy \<Rightarrow> usage \<Rightarrow> bool" where
  "within_budget p u =
     (below (b_max_calls (p_budget p)) (u_tool_calls u) \<and>
      (\<forall>t. below (b_max_calls_per_tool (p_budget p)) (get_count (u_by_tool u) t)) \<and>
      (\<forall>f. below (b_max_identical_calls (p_budget p)) (get_count (u_by_fp u) f)) \<and>
      (\<forall>m. b_max_cost_usd (p_budget p) = Some m \<longrightarrow> dec_value (u_cost u) \<le> dec_value m))"

text \<open>The state after a sequence of requests, each with what its environment does; a request that
  raises is followed by the next one.\<close>

type_synonym ('e, 's) reserve_op =
  "'e \<Rightarrow> policy \<Rightarrow> tool_call \<Rightarrow> bool \<Rightarrow> 's \<Rightarrow> (exc, decision \<times> usage) result \<times> 's"

fun run_requests ::
  "('e, 's) reserve_op \<Rightarrow> policy \<Rightarrow> ('e \<times> tool_call \<times> bool) list \<Rightarrow> 's \<Rightarrow> 's" where
  "run_requests reserve p [] s = s"
| "run_requests reserve p ((env, c, approved) # reqs) s =
     run_requests reserve p reqs (snd (reserve env p c approved s))"

definition requests_ok :: "('e \<times> tool_call \<times> bool) list \<Rightarrow> bool" where
  "requests_ok reqs = list_all (\<lambda>(env, c, approved). cost_ok None (tc_cost c)) reqs"

lemma empty_within_budget: "policy_ok p \<Longrightarrow> within_budget p empty_usage"
  by (auto simp: policy_ok_def within_budget_def below_def limit_ok_def empty_usage_def
      get_count_def cost_ok_def)

lemma usage_record_cases:
  assumes "usage_record u c = (r, u')"
  obtains (counted) "r = Inr ()" "u_tool_calls u' = u_tool_calls u + 1"
      "u_by_tool u' = bump_count (u_by_tool u) (tc_name c)"
      "u_by_fp u' = bump_count (u_by_fp u) (fingerprint c)"
      "dec_add (u_cost u) (tc_cost c) = Inr (u_cost u')"
  | (overflow) e where "r = Inl (DecimalError e)" "u' = u\<lparr>u_tool_calls := u_tool_calls u + 1\<rparr>"
      "dec_add (u_cost u) (tc_cost c) = Inl e"
  using assms by (auto simp: usage_record_def Let_def split: sum.splits)

lemma reserves_not_block: "reserves_usage d a \<Longrightarrow> d_kind d \<noteq> BLOCK"
  by (auto simp: reserves_usage_def split: if_splits)

text \<open>What one recording does to the budgets, on success and on an overflow of the cost.\<close>

lemma record_within_budget:
  assumes within: "within_budget p u" and ev: "evaluate p c u = Inr d" and res: "reserves_usage d a"
    and rec: "usage_record u c = (r, u')" and p: "policy_ok p"
    and fin: "dec_finite (u_cost u)" "dec_finite (tc_cost c)"
  shows "within_budget p u'"
proof -
  note b = budget_decision_None [OF evaluate_allowed_budget [OF ev reserves_not_block [OF res]]]
  have calls: "below (b_max_calls (p_budget p)) (u_tool_calls u + 1)"
    and tool: "below (b_max_calls_per_tool (p_budget p)) (get_count (u_by_tool u) (tc_name c) + 1)"
    and fp: "below (b_max_identical_calls (p_budget p)) (get_count (u_by_fp u) (fingerprint c) + 1)"
    using b(1-3) by (auto simp: below_def)
  from rec show ?thesis
  proof (cases rule: usage_record_cases)
    case counted
    have "dec_value (u_cost u') \<le> dec_value m" if "b_max_cost_usd (p_budget p) = Some m" for m
    proof -
      have "\<not> dec_less m (u_cost u')" using b(4) [OF that] counted(5) by simp
      moreover have "dec_finite m" using p that by (auto simp: policy_ok_def cost_ok_def)
      moreover have "dec_finite (u_cost u')" using dec_add_finite [OF counted(5) fin] .
      ultimately show ?thesis by (simp add: dec_less_value)
    qed
    then show ?thesis
      using within calls tool fp counted by (simp add: within_budget_def)
  next
    case (overflow e)
    then show ?thesis using within calls by (simp add: within_budget_def)
  qed
qed

section \<open>The contract of a store\<close>

text \<open>\<open>inv\<close> is the invariant of the store's state and \<open>abs\<close> the usage it stands for.\<close>

locale state_store =
  fixes reserve :: "('e, 's) reserve_op"
    and usage_of :: "'e \<Rightarrow> 's \<Rightarrow> (exc, usage) result"
    and inv :: "'s \<Rightarrow> bool"
    and abs :: "'s \<Rightarrow> usage"
  assumes usage_abs: "inv s \<Longrightarrow> usage_of env s = Inr u \<Longrightarrow> u = abs s"
    and inv_finite: "inv s \<Longrightarrow> dec_finite (u_cost (abs s))"
    and reserve_ok: "inv s \<Longrightarrow> cost_ok None (tc_cost c) \<Longrightarrow> reserve env p c a s = (Inr (d, u), s') \<Longrightarrow>
      inv s' \<and> evaluate p c (abs s) = Inr d \<and> u = abs s' \<and>
      (if reserves_usage d a then usage_record (abs s) c = (Inr (), abs s') else abs s' = abs s)"
    and reserve_error: "inv s \<Longrightarrow> cost_ok None (tc_cost c) \<Longrightarrow> reserve env p c a s = (Inl e, s') \<Longrightarrow>
      inv s' \<and> (abs s' = abs s \<or> (\<exists>d. evaluate p c (abs s) = Inr d \<and> reserves_usage d a \<and>
        usage_record (abs s) c = (Inl e, abs s')))"
    and reserve_audit_error: "reserve env p c a s = (Inl (AuditWriteError m b), s') \<Longrightarrow>
      \<exists>u. evaluate p c u = Inl (AuditWriteError m b)"
    and usage_audit_error: "usage_of env s \<noteq> Inl (AuditWriteError m b)"
begin

lemma reserve_inv:
  assumes "inv s" "cost_ok None (tc_cost c)"
  shows "inv (snd (reserve env p c a s))"
  using reserve_ok [OF assms, of env p a] reserve_error [OF assms, of env p a]
  by (cases "reserve env p c a s"; cases "fst (reserve env p c a s)") auto

lemma reserve_within:
  assumes s: "inv s" and c: "cost_ok None (tc_cost c)" and p: "policy_ok p"
    and w: "within_budget p (abs s)"
  shows "within_budget p (abs (snd (reserve env p c a s)))"
proof -
  have fin: "dec_finite (u_cost (abs s))" "dec_finite (tc_cost c)"
    using inv_finite [OF s] c by (auto simp: cost_ok_def)
  obtain r s' where rs: "reserve env p c a s = (r, s')" by fastforce
  show ?thesis
  proof (cases r)
    case (Inl e)
    with reserve_error [OF s c, of env p a e s'] rs w fin p show ?thesis
      by (auto intro: record_within_budget)
  next
    case (Inr du)
    then obtain d u where du: "r = Inr (d, u)" by (cases du) auto
    with reserve_ok [OF s c, of env p a d u s'] rs w fin p show ?thesis
      by (auto intro: record_within_budget split: if_splits)
  qed
qed

lemma run_within:
  assumes "inv s" "requests_ok reqs" "policy_ok p" "within_budget p (abs s)"
  shows "inv (run_requests reserve p reqs s) \<and> within_budget p (abs (run_requests reserve p reqs s))"
  using assms
proof (induction reqs arbitrary: s)
  case (Cons req reqs)
  obtain env c a where req: "req = (env, c, a)" by (cases req)
  from Cons.prems have "inv (snd (reserve env p c a s))"
    "within_budget p (abs (snd (reserve env p c a s)))"
    by (auto simp: req requests_ok_def reserve_inv reserve_within)
  with Cons show ?case by (simp add: req requests_ok_def)
qed simp

text \<open>A call that was let through is counted exactly once; one that was not is not counted.\<close>

lemma reserve_counts:
  assumes "inv s" "cost_ok None (tc_cost c)" "reserve env p c a s = (Inr (d, u), s')"
  shows "u_tool_calls (abs s') = u_tool_calls (abs s) + (if reserves_usage d a then 1 else 0)"
  using reserve_ok [OF assms] usage_record_counts(1) [of "abs s" c "abs s'"]
  by (auto split: if_splits)

end

section \<open>The memory store keeps the contract\<close>

definition mem_inv :: "usage \<Rightarrow> bool" where
  "mem_inv u = dec_finite (u_cost u)"

lemma usage_record_finite:
  "usage_record u c = (r, u') \<Longrightarrow> dec_finite (u_cost u) \<Longrightarrow> dec_finite (tc_cost c) \<Longrightarrow>
     dec_finite (u_cost u')"
  by (auto elim!: usage_record_cases dest: dec_add_finite)

lemma usage_record_error: "usage_record u c = (Inl e, u') \<Longrightarrow> \<exists>x. e = DecimalError x"
  by (auto elim!: usage_record_cases)

interpretation mem: state_store "\<lambda>_ :: unit. mem_evaluate_and_reserve" "\<lambda>_. mem_usage" mem_inv "\<lambda>s. s"
  by unfold_locales
     (auto simp: mem_usage_def mem_inv_def mem_evaluate_and_reserve_def cost_ok_def
       split: sum.splits prod.splits if_splits dest: usage_record_finite usage_record_error)

lemma mem_reserve_usage_ok:
  assumes "usage_ok s" "cost_ok None (tc_cost c)"
    "mem_evaluate_and_reserve p c a s = (Inr (d, u), s')"
  shows "usage_ok s'"
proof -
  have inv: "mem_inv s" using assms(1) by (simp add: mem_inv_def usage_ok_def)
  from mem.reserve_ok [OF inv assms(2,3)] assms(1,2) show ?thesis
    by (auto split: if_splits intro: usage_record_ok simp: cost_ok_def)
qed

section \<open>The SQLite store keeps the contract\<close>

lemma cell_counts_get: "cell_counts rows k = map_option (\<lambda>x. the (cell_int x)) (map_of rows k)"
  by (simp add: cell_counts_def map_of_map)

lemma good_countE:
  assumes "good_count x"
  obtains n where "x = IntCell n" "0 \<le> n"
  using assms by (cases x) (auto simp: good_count_def)

lemma bad_countsD: "\<not> bad_counts rows \<Longrightarrow> map_of rows k = Some x \<Longrightarrow> good_count x"
  by (auto simp: bad_counts_def list_ex_iff dest!: map_of_SomeD)

lemma set_dict_set: "set (dict_set d k v) \<subseteq> insert (k, v) (set d)"
  by (induction d k v rule: dict_set.induct) auto

lemma upsert_bump:
  assumes good: "\<not> bad_counts rows" and room: "get_count (cell_counts rows) k < SQLITE_MAX_INT"
  shows "cell_counts (upsert_count rows k) = bump_count (cell_counts rows) k"
    and "\<not> bad_counts (upsert_count rows k)"
proof -
  define n where "n = get_count (cell_counts rows) k"
  have up: "upsert_count rows k = dict_set rows k (IntCell (n + 1))" "0 \<le> n"
    using bad_countsD [OF good, of k] room
    by (auto simp: n_def upsert_count_def get_count_def cell_counts_get split: option.splits
        elim!: good_countE)
  show "cell_counts (upsert_count rows k) = bump_count (cell_counts rows) k"
    by (rule ext) (simp add: up bump_count_def n_def [symmetric] cell_counts_get)
  show "\<not> bad_counts (upsert_count rows k)"
    using good set_dict_set [of rows k "IntCell (n + 1)"] up(2)
    by (auto simp: up(1) bad_counts_def list_ex_iff good_count_def)
qed

lemma cell_counts_nonneg: "\<not> bad_counts rows \<Longrightarrow> cell_counts rows k = Some c \<Longrightarrow> 0 \<le> c"
  by (auto simp: cell_counts_get dest: bad_countsD elim!: good_countE)

lemma finite_cell_counts: "finite (dom (cell_counts rows))"
  by (simp add: cell_counts_def finite_dom_map_of)

lemma load_usageE:
  assumes "load_usage db = Inr u"
  obtains cost where "db_run_usage db = Some (IntCell (u_tool_calls u), cost)"
    "0 \<le> u_tool_calls u" "cell_decimal cost = Some (u_cost u)" "dec_finite (u_cost u)"
    "0 \<le> dec_value (u_cost u)" "\<not> bad_counts (db_tool_usage db)"
    "\<not> bad_counts (db_fingerprint_usage db)" "u_by_tool u = cell_counts (db_tool_usage db)"
    "u_by_fp u = cell_counts (db_fingerprint_usage db)"
  using assms
  by (auto simp: load_usage_def dec_less_value split: option.splits cell.splits if_splits)

lemma sqlite_record_load:
  assumes u: "load_usage db = Inr u" "usage_ok u" and c: "cost_ok None (tc_cost c)"
    and rec: "sqlite_record u c db = Inr (u', db')"
  shows "load_usage db' = Inr u'" "usage_record u c = (Inr (), u')"
    "u_tool_calls u' \<le> SQLITE_MAX_INT"
proof -
  from rec show ur: "usage_record u c = (Inr (), u')" and max: "u_tool_calls u' \<le> SQLITE_MAX_INT"
    by (auto simp: sqlite_record_def split: prod.splits sum.splits if_splits)
  from u(1) obtain cost where l: "db_run_usage db = Some (IntCell (u_tool_calls u), cost)"
    "0 \<le> u_tool_calls u" "dec_finite (u_cost u)" "0 \<le> dec_value (u_cost u)"
    "\<not> bad_counts (db_tool_usage db)" "\<not> bad_counts (db_fingerprint_usage db)"
    "u_by_tool u = cell_counts (db_tool_usage db)"
    "u_by_fp u = cell_counts (db_fingerprint_usage db)"
    by (rule load_usageE)
  from ur have v: "u_tool_calls u' = u_tool_calls u + 1"
    "u_by_tool u' = bump_count (u_by_tool u) (tc_name c)"
    "u_by_fp u' = bump_count (u_by_fp u) (fingerprint c)"
    "dec_add (u_cost u) (tc_cost c) = Inr (u_cost u')"
    by (auto elim!: usage_record_cases)
  have total: "map_total (u_by_tool u) = u_tool_calls u" "map_total (u_by_fp u) = u_tool_calls u"
    using u(2) by (simp_all add: usage_ok_def)
  have "get_count (u_by_tool u) (tc_name c) \<le> u_tool_calls u"
    "get_count (u_by_fp u) (fingerprint c) \<le> u_tool_calls u"
    using get_count_le_total [of "u_by_tool u"] get_count_le_total [of "u_by_fp u"] l total
      cell_counts_nonneg finite_cell_counts by auto
  then have room: "get_count (cell_counts (db_tool_usage db)) (tc_name c) < SQLITE_MAX_INT"
    "get_count (cell_counts (db_fingerprint_usage db)) (fingerprint c) < SQLITE_MAX_INT"
    using l(7,8) v(1) max by simp_all
  have cost: "dec_in_range (u_cost u')" "dec_finite (u_cost u')" "0 \<le> dec_value (u_cost u')"
    using dec_add_in_range [OF v(4) l(3)] dec_add_finite [OF v(4) l(3)]
      dec_add_nonneg [OF v(4) l(3) _ l(4)] c by (simp_all add: cost_ok_def)
  have db': "db' = db\<lparr>
      db_run_usage := Some (IntCell (u_tool_calls u'), TextCell (dec_text (u_cost u'))),
      db_tool_usage := upsert_count (db_tool_usage db) (tc_name c),
      db_fingerprint_usage := upsert_count (db_fingerprint_usage db) (fingerprint c)\<rparr>"
    using rec ur l(1) by (simp add: sqlite_record_def split: if_splits)
  show "load_usage db' = Inr u'"
    using cost v l(2) upsert_bump [OF l(5) room(1)] upsert_bump [OF l(6) room(2)]
    by (simp add: db' load_usage_def parse_dec_in_range dec_less_value l(7,8) [symmetric])
qed

definition sqlite_abs :: "sqlite_db \<Rightarrow> usage" where
  "sqlite_abs db = (case load_usage db of Inl _ \<Rightarrow> empty_usage | Inr u \<Rightarrow> u)"

definition sqlite_inv :: "sqlite_db \<Rightarrow> bool" where
  "sqlite_inv db =
     (case load_usage db of
        Inl _ \<Rightarrow> False
      | Inr u \<Rightarrow> usage_ok u \<and> u_tool_calls u \<le> SQLITE_MAX_INT)"

lemma sqlite_invE:
  assumes "sqlite_inv db"
  obtains "load_usage db = Inr (sqlite_abs db)" "usage_ok (sqlite_abs db)"
    "u_tool_calls (sqlite_abs db) \<le> SQLITE_MAX_INT"
  using assms by (auto simp: sqlite_inv_def sqlite_abs_def split: sum.splits)

lemma sqlite_reserve_ok:
  assumes inv: "sqlite_inv db" and c: "cost_ok None (tc_cost c)"
    and res: "sqlite_evaluate_and_reserve path env p c a db = (Inr (d, u), db')"
  shows "sqlite_inv db' \<and> evaluate p c (sqlite_abs db) = Inr d \<and> u = sqlite_abs db' \<and>
    (if reserves_usage d a then usage_record (sqlite_abs db) c = (Inr (), sqlite_abs db')
     else sqlite_abs db' = sqlite_abs db)"
proof -
  from inv have l: "load_usage db = Inr (sqlite_abs db)" "usage_ok (sqlite_abs db)"
    by (auto elim: sqlite_invE)
  from res have ev: "evaluate p c (sqlite_abs db) = Inr d"
    by (auto simp: sqlite_evaluate_and_reserve_def l split: db_outcome.splits sum.splits if_splits)
  show ?thesis
  proof (cases "reserves_usage d a")
    case True
    with res ev have rec: "sqlite_record (sqlite_abs db) c db = Inr (u, db')"
      by (auto simp: sqlite_evaluate_and_reserve_def l split: db_outcome.splits sum.splits)
    note r = sqlite_record_load [OF l c rec]
    have "usage_ok u" using usage_record_ok [OF r(2) l(2)] c by (simp add: cost_ok_def)
    then show ?thesis using True ev r by (simp add: sqlite_inv_def sqlite_abs_def)
  next
    case False
    with res ev have "u = sqlite_abs db" "db' = db"
      by (auto simp: sqlite_evaluate_and_reserve_def l split: db_outcome.splits)
    then show ?thesis using False ev inv by simp
  qed
qed

lemma sqlite_reserve_error:
  "sqlite_evaluate_and_reserve path env p c a db = (Inl e, db') \<Longrightarrow> db' = db"
  by (auto simp: sqlite_evaluate_and_reserve_def split: db_outcome.splits sum.splits if_splits)

lemma sqlite_usage_abs: "sqlite_usage path env db = Inr u \<Longrightarrow> u = sqlite_abs db"
  by (auto simp: sqlite_usage_def sqlite_abs_def split: db_outcome.splits)

lemma load_usage_error: "load_usage db = Inl e \<Longrightarrow> \<exists>m. e = StorageError m"
  by (auto simp: load_usage_def split: option.splits cell.splits if_splits)

lemma sqlite_record_error:
  "sqlite_record u c db = Inl e \<Longrightarrow> (\<exists>x. e = DecimalError x) \<or> e = OverflowError"
  by (auto simp: sqlite_record_def split: prod.splits sum.splits if_splits dest: usage_record_error)

interpretation sqlite: state_store
  "sqlite_evaluate_and_reserve path" "sqlite_usage path" sqlite_inv sqlite_abs for path
proof
  fix db env u
  show "sqlite_usage path env db = Inr u \<Longrightarrow> u = sqlite_abs db" by (rule sqlite_usage_abs)
  show "sqlite_inv db \<Longrightarrow> dec_finite (u_cost (sqlite_abs db))"
    by (elim sqlite_invE) (simp add: usage_ok_def)
next
  fix env p c a db m b db'
  show "sqlite_evaluate_and_reserve path env p c a db = (Inl (AuditWriteError m b), db') \<Longrightarrow>
      \<exists>u. evaluate p c u = Inl (AuditWriteError m b)"
    by (auto simp: sqlite_evaluate_and_reserve_def split: db_outcome.splits sum.splits if_splits
        dest: load_usage_error sqlite_record_error)
next
  fix env db m b
  show "sqlite_usage path env db \<noteq> Inl (AuditWriteError m b)"
    by (auto simp: sqlite_usage_def split: db_outcome.splits dest: load_usage_error)
qed (use sqlite_reserve_ok sqlite_reserve_error in blast)+

section \<open>SQLite refines memory\<close>

lemma sqlite_new_inv: "sqlite_inv (sqlite_initialize new_db)" "sqlite_abs (sqlite_initialize new_db) = empty_usage"
proof -
  have "load_usage (sqlite_initialize new_db) = Inr empty_usage"
    by (simp add: evals dec_zero_def)
  then show "sqlite_inv (sqlite_initialize new_db)"
    "sqlite_abs (sqlite_initialize new_db) = empty_usage"
    by (simp_all add: sqlite_inv_def sqlite_abs_def SQLITE_MAX_INT_def) (simp add: empty_usage_def)
qed

lemma sqlite_simulates_memory:
  assumes inv: "sqlite_inv db" and c: "cost_ok None (tc_cost c)"
    and room: "u_tool_calls (sqlite_abs db) < SQLITE_MAX_INT"
    and mem: "mem_evaluate_and_reserve p c a (sqlite_abs db) = (Inr r, s')"
  shows "\<exists>db'. sqlite_evaluate_and_reserve path DbOk p c a db = (Inr r, db') \<and>
           sqlite_inv db' \<and> sqlite_abs db' = s'"
proof -
  from inv have l: "load_usage db = Inr (sqlite_abs db)" by (auto elim: sqlite_invE)
  obtain d where ev: "evaluate p c (sqlite_abs db) = Inr d"
    using mem by (auto simp: mem_evaluate_and_reserve_def split: sum.splits)
  have "\<exists>db'. sqlite_evaluate_and_reserve path DbOk p c a db = (Inr r, db')"
    using mem room ev
    by (auto simp: mem_evaluate_and_reserve_def sqlite_evaluate_and_reserve_def l sqlite_record_def
        split: if_splits prod.splits sum.splits elim!: usage_record_cases)
  then obtain db' where sq: "sqlite_evaluate_and_reserve path DbOk p c a db = (Inr r, db')" by blast
  obtain d' u where r: "r = (d', u)" by fastforce
  have "u = s'"
    using mem r by (auto simp: mem_evaluate_and_reserve_def split: sum.splits if_splits prod.splits)
  with sqlite_reserve_ok [OF inv c sq [unfolded r]] sq show ?thesis by blast
qed

section \<open>Properties\<close>

text \<open>C11: the SQLite store refines the memory store. In a file the program wrote, below the 64-bit
  limit of SQLite, a reservation the memory store would complete completes with the same decision
  and the same usage when the database works, and the file then stands for the memory store's new
  usage: what was written reads back as itself, the decimal cost included.\<close>

theorem sqlite_refines_memory:
  assumes "sqlite_inv db" "cost_ok None (tc_cost c)" "u_tool_calls (sqlite_abs db) < SQLITE_MAX_INT"
    "mem_evaluate_and_reserve p c approved (sqlite_abs db) = (Inr r, s')"
  shows "\<exists>db'. sqlite_evaluate_and_reserve path DbOk p c approved db = (Inr r, db') \<and>
           sqlite_inv db' \<and> load_usage db' = Inr s'"
proof -
  from sqlite_simulates_memory [OF assms] obtain db' where
    "sqlite_evaluate_and_reserve path DbOk p c approved db = (Inr r, db')" "sqlite_inv db'"
    "sqlite_abs db' = s'" by blast
  then show ?thesis by (auto elim: sqlite_invE)
qed

theorem sqlite_refines_memory_witness:
  "\<exists>r s' db'. mem_evaluate_and_reserve sample_policy read_call False empty_usage = (Inr r, s') \<and>
     sqlite_evaluate_and_reserve ''s'' DbOk sample_policy read_call False (sqlite_initialize new_db)
       = (Inr r, db') \<and> load_usage db' = Inr s'"
proof -
  have mem: "\<exists>r s'. mem_evaluate_and_reserve sample_policy read_call False empty_usage = (Inr r, s')"
    by (simp add: mem_evaluate_and_reserve_def sample_decisions reserves_usage_def rule_decision_def
        sample_policy_def usage_record_def read_call_def empty_usage_def dec_zero_def dec_fix_def
        scale_to_def PyDecimal.signed_def evals)
  then obtain r s' where m: "mem_evaluate_and_reserve sample_policy read_call False
      (sqlite_abs (sqlite_initialize new_db)) = (Inr r, s')" using sqlite_new_inv(2) by auto
  have "u_tool_calls (sqlite_abs (sqlite_initialize new_db)) < SQLITE_MAX_INT"
    using sqlite_new_inv(2) by (simp add: empty_usage_def SQLITE_MAX_INT_def)
  from sqlite_refines_memory [OF sqlite_new_inv(1) sample_calls_ok(4) this m, of "''s''"] m
  show ?thesis using sqlite_new_inv(2) by auto
qed

text \<open>The counters of a SQLite file agree. After any requests from a fresh file, whatever fails,
  the counts per tool and the counts per fingerprint each sum to the number of calls.\<close>

theorem sqlite_counters_agree:
  assumes "requests_ok reqs" "policy_ok p"
  shows "usage_ok (sqlite_abs (run_requests (sqlite_evaluate_and_reserve path) p reqs
           (sqlite_initialize new_db)))"
proof -
  have "within_budget p (sqlite_abs (sqlite_initialize new_db))"
    using empty_within_budget [OF assms(2)] sqlite_new_inv(2) by simp
  from sqlite.run_within [OF sqlite_new_inv(1) assms this] show ?thesis
    by (blast elim: sqlite_invE)
qed

theorem sqlite_counters_agree_witness:
  "usage_ok (sqlite_abs (run_requests (sqlite_evaluate_and_reserve ''s'') sample_policy
     [(DbOk, read_call, False), (DbStatementFails, read_call, False), (DbOk, deploy_call, True)]
     (sqlite_initialize new_db)))"
  by (rule sqlite_counters_agree) (simp_all add: requests_ok_def sample_calls_ok sample_policy_ok)

end
