(* ===== verification/AuditLog.thy ===== *)
theory AuditLog
  imports Policy
begin

text \<open>
  \<open>audit.py\<close>: the append-only JSONL log. The file is its bytes; every disk access of a record may
  fail, before anything is written or part-way through the line. Results: an accepted record adds
  exactly one complete line and changes nothing before it; a file that ends in an incomplete line
  is never written again; and without the full argument mode the line does not depend on the
  values of the arguments.
\<close>

section \<open>Redaction\<close>

definition REDACTED :: pyval where
  "REDACTED = PStr ''[REDACTED]''"

fun redact :: "pyval \<Rightarrow> pyval" and redact_list :: "pyval list \<Rightarrow> pyval list"
  and redact_items :: "pydict \<Rightarrow> pydict" where
  "redact (PDict d) = PDict (redact_items d)"
| "redact (PList xs) = PList (redact_list xs)"
| "redact (PTuple xs) = PList (redact_list xs)"
| "redact v = REDACTED"
| "redact_list [] = []"
| "redact_list (x # xs) = redact x # redact_list xs"
| "redact_items [] = []"
| "redact_items (kv # d) = (fst kv, redact (snd kv)) # redact_items d"

section \<open>One record\<close>

definition argument_entry :: "tool_call \<Rightarrow> audit_mode \<Rightarrow> pydict" where
  "argument_entry c mode =
     (case mode of
        AUDIT_NONE \<Rightarrow> []
      | AUDIT_HASH \<Rightarrow> [(''call_fingerprint'', PStr (fingerprint c))]
      | AUDIT_REDACTED \<Rightarrow> [(''arguments'', redact (bounded (PDict (tc_arguments c))))]
      | AUDIT_FULL \<Rightarrow> [(''arguments'', bounded (PDict (tc_arguments c)))])"

definition audit_entry ::
  "string \<Rightarrow> string \<Rightarrow> tool_call \<Rightarrow> usage \<Rightarrow> decision option \<Rightarrow> string option \<Rightarrow> audit_mode \<Rightarrow> pydict" where
  "audit_entry timestamp event c u d err mode =
     [(''timestamp'', PStr timestamp), (''event'', PStr event), (''call_id'', PStr (tc_id c)),
      (''tool'', PStr (tc_name c)), (''estimated_cost_usd'', PStr (dec_text (tc_cost c))),
      (''usage'', PDict [(''tool_calls'', PInt (u_tool_calls u)),
                         (''estimated_cost_usd'', PStr (dec_text (u_cost u)))])] @
     (case d of None \<Rightarrow> [] | Some x \<Rightarrow> decision_dict x) @
     (case err of None \<Rightarrow> [] | Some e \<Rightarrow> [(''error'', PStr e)]) @
     argument_entry c mode"

definition audit_line ::
  "string \<Rightarrow> string \<Rightarrow> tool_call \<Rightarrow> usage \<Rightarrow> decision option \<Rightarrow> string option \<Rightarrow> audit_mode \<Rightarrow> string" where
  "audit_line timestamp event c u d err mode =
     json_text (compact_style True True) (PDict (audit_entry timestamp event c u d err mode))"

text \<open>What the disk does: it works; the directory or the file cannot be used; or the write fails
  after some bytes.\<close>

datatype disk_outcome = DiskOk | DiskUnavailable | DiskPartial nat

definition newline_char :: char where "newline_char = char_of (10 :: nat)"

definition incomplete :: "string \<Rightarrow> bool" where
  "incomplete file = (file \<noteq> [] \<and> last file \<noteq> newline_char)"

definition audit_append :: "disk_outcome \<Rightarrow> string \<Rightarrow> string \<Rightarrow> string \<Rightarrow> (exc, unit) result \<times> string" where
  "audit_append outcome path line file =
     (let failed = Raise (AuditWriteError
            (''could not append firewall audit record to '' @ path) False);
          bytes = utf8 (line @ [newline_char])
      in case outcome of
           DiskUnavailable \<Rightarrow> (failed, file)
         | _ \<Rightarrow>
             if incomplete file
             then (Raise (AuditWriteError (''audit log has an incomplete final record at '' @ path @
                     ''; preserve it and configure a new audit path'') False), file)
             else (case outcome of
                     DiskPartial n \<Rightarrow> (failed, file @ take n bytes)
                   | _ \<Rightarrow> (Return (), file @ bytes)))"

definition audit_record ::
  "disk_outcome \<Rightarrow> string \<Rightarrow> string \<Rightarrow> string \<Rightarrow> tool_call \<Rightarrow> usage \<Rightarrow> decision option \<Rightarrow>
     string option \<Rightarrow> audit_mode \<Rightarrow> string \<Rightarrow> (exc, unit) result \<times> string" where
  "audit_record outcome path timestamp event c u d err mode file =
     audit_append outcome path (audit_line timestamp event c u d err mode) file"

declare REDACTED_def [evals] argument_entry_def [evals] audit_entry_def [evals]
  audit_line_def [evals] newline_char_def [evals] incomplete_def [evals] audit_append_def [evals]
  audit_record_def [evals]

section \<open>One line per record\<close>

text \<open>The printable ASCII characters, which is all an ASCII JSON text is made of.\<close>

definition printable :: "char \<Rightarrow> bool" where
  "printable c = (32 \<le> code c \<and> code c < 127)"

text \<open>Floats print printable characters.\<close>

fun floats_printable :: "pyval \<Rightarrow> bool" and floats_printable_list :: "pyval list \<Rightarrow> bool"
  and floats_printable_items :: "pydict \<Rightarrow> bool" where
  "floats_printable (PFloat r) = list_all printable r"
| "floats_printable (PDict d) = floats_printable_items d"
| "floats_printable (PList xs) = floats_printable_list xs"
| "floats_printable (PTuple xs) = floats_printable_list xs"
| "floats_printable v = True"
| "floats_printable_list [] = True"
| "floats_printable_list (x # xs) = (floats_printable x \<and> floats_printable_list xs)"
| "floats_printable_items [] = True"
| "floats_printable_items (kv # d) = (floats_printable (snd kv) \<and> floats_printable_items d)"

lemma code_char_of: "n < 256 \<Longrightarrow> code (char_of n) = n"
  by simp

lemma code_lt: "code c < 256"
proof -
  have "code c = code (char_of (code c))" by simp
  also have "\<dots> < 256" by (simp only: of_char_of)
  finally show ?thesis .
qed

lemma printable_hex: "d < 16 \<Longrightarrow> printable (hex_digit d)"
  by (auto simp: printable_def hex_digit_def)

lemma json_char_printable: "list_all printable (json_char True c)"
proof -
  have p: "printable backslash" "printable dquote" "printable (CHR ''n'')" "printable (CHR ''r'')"
    "printable (CHR ''t'')" "printable (CHR ''f'')" "printable (CHR ''b'')" "printable (CHR ''u'')"
    "printable (CHR ''0'')"
    by (simp_all add: printable_def backslash_def dquote_def)
  have c: "code c < 256" by (rule code_lt)
  then have "code c div 16 < 16" by linarith
  then have "list_all printable (hex2 (code c))"
    by (simp add: hex2_def printable_hex)
  moreover have "printable c" if "\<not> code c < 32" "\<not> 127 \<le> code c"
    using that by (simp add: printable_def)
  ultimately show ?thesis using p by (auto simp: json_char_def)
qed

lemma list_all_concat: "list_all P (concat xss) \<longleftrightarrow> list_all (list_all P) xss"
  by (induction xss) auto

lemma json_string_printable: "list_all printable (json_string True s)"
proof -
  have "list_all (list_all printable) (map (json_char True) s)"
    by (simp add: list_all_iff json_char_printable [unfolded list_all_iff])
  then show ?thesis
    by (simp add: json_string_def list_all_concat printable_def dquote_def)
qed

lemma digits_printable: "list_all printable (nat_text n)"
  unfolding list_all_iff
proof
  fix c
  assume "c \<in> set (nat_text n)"
  then have "is_digit c" by (rule nat_text_digits)
  then show "printable c" by (auto simp: printable_def is_digit_def)
qed

lemma join_printable:
  "list_all printable sep \<Longrightarrow> list_all (list_all printable) ws \<Longrightarrow> list_all printable (join_with sep ws)"
  by (induction sep ws rule: join_with.induct) auto

lemma printable_literal [simp]:
  "printable (Char b0 b1 b2 b3 b4 b5 b6 b7) \<longleftrightarrow>
     \<not> b7 \<and> (b5 \<or> b6) \<and> \<not> (b0 \<and> b1 \<and> b2 \<and> b3 \<and> b4 \<and> b5 \<and> b6)"
  by (cases b0; cases b1; cases b2; cases b3; cases b4; cases b5; cases b6; cases b7)
     (simp_all add: printable_def)

definition ascii_compact :: "json_style \<Rightarrow> bool" where
  "ascii_compact st = (js_ascii st \<and> js_item_sep st = '','' \<and> js_key_sep st = '':'')"

lemma item_texts_printable:
  "list_all (\<lambda>kt. list_all printable (snd kt)) its \<Longrightarrow>
     list_all printable
       (join_with '','' (map (\<lambda>kt. json_string True (fst kt) @ '':'' @ snd kt) its))"
  by (rule join_printable) (simp_all add: json_string_printable list_all_iff
      json_string_printable [unfolded list_all_iff] ball_Un)

lemma json_text_printable:
  "ascii_compact st \<Longrightarrow> floats_printable v \<Longrightarrow> list_all printable (json_text st v)"
  "ascii_compact st \<Longrightarrow> floats_printable_list xs \<Longrightarrow> list_all (list_all printable) (json_texts st xs)"
  "ascii_compact st \<Longrightarrow> floats_printable_items d \<Longrightarrow>
     list_all (\<lambda>kt. list_all printable (snd kt)) (json_items st d)"
proof (induction st v and st xs and st d rule: json_text_json_texts_json_items.induct)
  case (8 st d)
  then have items: "list_all (\<lambda>kt. list_all printable (snd kt)) (json_items st d)"
    and st: "js_ascii st" "js_item_sep st = '',''" "js_key_sep st = '':''"
    by (cases "js_sort st"; simp add: ascii_compact_def)+
  then show ?case
    using item_texts_printable [OF items] item_texts_printable [of "sort_key fst (json_items st d)"]
    by (auto simp: st list_all_iff)
qed (auto simp: ascii_compact_def json_string_printable
    int_text_def digits_printable json_float_def intro!: join_printable)

lemma printable_not_newline: "\<not> printable newline_char"
  by (simp add: printable_def newline_char_def)

lemma printable_utf8: "list_all printable s \<Longrightarrow> utf8 s = s"
  by (induction s) (auto simp: utf8_def printable_def)

lemma floats_printable_append:
  "floats_printable_items (d @ e) \<longleftrightarrow> floats_printable_items d \<and> floats_printable_items e"
  by (induction d) auto

lemma redact_floats:
  "floats_printable (redact v)" "floats_printable_list (redact_list xs)"
  "floats_printable_items (redact_items d)"
  by (induction v and xs and d rule: redact_redact_list_redact_items.induct)
     (auto simp: REDACTED_def)

lemma bounded_floats:
  "floats_printable v \<Longrightarrow> floats_printable (bounded_at v n)"
  "floats_printable_list xs \<Longrightarrow> floats_printable_list (bounded_list xs n)"
  "floats_printable_items d \<Longrightarrow> floats_printable_items (bounded_items d n)"
  by (induction v n and xs n and d n rule: bounded_at_bounded_list_bounded_items.induct) auto

text \<open>The floats a record can hold are those of the call's arguments.\<close>

definition call_floats_ok :: "tool_call \<Rightarrow> bool" where
  "call_floats_ok c = floats_printable_items (tc_arguments c)"

lemma audit_entry_floats:
  "call_floats_ok c \<Longrightarrow> floats_printable_items (audit_entry ts ev c u d err mode)"
  by (auto simp: audit_entry_def argument_entry_def decision_dict_def floats_printable_append
      redact_floats bounded_def call_floats_ok_def intro: bounded_floats
      split: option.split audit_mode.split)

lemma audit_line_printable:
  "call_floats_ok c \<Longrightarrow> list_all printable (audit_line ts ev c u d err mode)"
  unfolding audit_line_def
  by (rule json_text_printable)
     (simp_all add: ascii_compact_def compact_style_def audit_entry_floats)

section \<open>The file\<close>

definition log_lines :: "string \<Rightarrow> nat" where
  "log_lines file = length (filter (\<lambda>c. c = newline_char) file)"

lemma log_lines_append [simp]: "log_lines (a @ b) = log_lines a + log_lines b"
  by (simp add: log_lines_def)

lemma printable_no_lines: "list_all printable s \<Longrightarrow> log_lines s = 0"
  using printable_not_newline by (induction s) (auto simp: log_lines_def)

lemma audit_append_extends: "audit_append o' path line file = (r, file') \<Longrightarrow> \<exists>t. file' = file @ t"
  by (auto simp: audit_append_def Let_def split: disk_outcome.splits if_splits)

lemma audit_append_incomplete:
  "incomplete file \<Longrightarrow> \<exists>m. audit_append o' path line file = (Inl (AuditWriteError m False), file)"
  by (auto simp: audit_append_def Let_def split: disk_outcome.splits)

lemma audit_append_error:
  "audit_append o' path line file = (Inl e, file') \<Longrightarrow> \<exists>m. e = AuditWriteError m False"
  by (auto simp: audit_append_def Let_def split: disk_outcome.splits if_splits)

lemma audit_append_ok:
  assumes "audit_append o' path line file = (Inr (), file')"
  shows "\<not> incomplete file" "file' = file @ utf8 (line @ [newline_char])"
  using assms
  by (auto simp: audit_append_def Let_def split: disk_outcome.splits if_splits)

lemma audit_record_ok:
  assumes rec: "audit_record o' path ts ev c u d err mode file = (Inr (), file')"
    and c: "call_floats_ok c"
  shows "file' = file @ audit_line ts ev c u d err mode @ [newline_char]"
    "log_lines file' = log_lines file + 1" "\<not> incomplete file'"
proof -
  let ?l = "audit_line ts ev c u d err mode"
  have p: "list_all printable ?l" by (rule audit_line_printable [OF c])
  have "utf8 (?l @ [newline_char]) = ?l @ [newline_char]"
    using printable_utf8 [OF p] by (simp add: utf8_def newline_char_def)
  then show file': "file' = file @ ?l @ [newline_char]"
    using audit_append_ok [OF rec [unfolded audit_record_def]] by simp
  show "log_lines file' = log_lines file + 1"
    using printable_no_lines [OF p] by (simp add: file') (simp add: log_lines_def)
  show "\<not> incomplete file'" by (simp add: file' incomplete_def)
qed

section \<open>What a record reveals\<close>

text \<open>Two values of the same shape: the same keys, the same lengths, any leaves.\<close>

fun same_shape :: "pyval \<Rightarrow> pyval \<Rightarrow> bool" and same_shapes :: "pyval list \<Rightarrow> pyval list \<Rightarrow> bool"
  and same_items :: "pydict \<Rightarrow> pydict \<Rightarrow> bool" where
  "same_shape (PDict d) w = (case w of PDict e \<Rightarrow> same_items d e | _ \<Rightarrow> False)"
| "same_shape (PList xs) w =
     (case w of PList ys \<Rightarrow> same_shapes xs ys | PTuple ys \<Rightarrow> same_shapes xs ys | _ \<Rightarrow> False)"
| "same_shape (PTuple xs) w =
     (case w of PList ys \<Rightarrow> same_shapes xs ys | PTuple ys \<Rightarrow> same_shapes xs ys | _ \<Rightarrow> False)"
| "same_shape v w =
     (case w of PDict e \<Rightarrow> False | PList ys \<Rightarrow> False | PTuple ys \<Rightarrow> False | _ \<Rightarrow> True)"
| "same_shapes [] ys = (ys = [])"
| "same_shapes (x # xs) ys =
     (case ys of [] \<Rightarrow> False | y # ys' \<Rightarrow> same_shape x y \<and> same_shapes xs ys')"
| "same_items [] e = (e = [])"
| "same_items (kv # d) e =
     (case e of [] \<Rightarrow> False
      | kw # e' \<Rightarrow> fst kv = fst kw \<and> same_shape (snd kv) (snd kw) \<and> same_items d e')"

lemma redact_same_shape:
  "same_shape v w \<Longrightarrow> redact (bounded_at v n) = redact (bounded_at w n)"
  "same_shapes xs ys \<Longrightarrow> redact_list (bounded_list xs n) = redact_list (bounded_list ys n)"
  "same_items d e \<Longrightarrow> redact_items (bounded_items d n) = redact_items (bounded_items e n)"
  by (induction v w and xs ys and d e arbitrary: n and n and n
        rule: same_shape_same_shapes_same_items.induct)
     (auto simp: REDACTED_def BOUND_PLACEHOLDER_def split: pyval.splits list.splits)

lemma redacted_entry_same:
  assumes "same_items (tc_arguments c) args" "mode = AUDIT_NONE \<or> mode = AUDIT_REDACTED"
  shows "audit_line ts ev (c\<lparr>tc_arguments := args\<rparr>) u d err mode = audit_line ts ev c u d err mode"
  using assms redact_same_shape(1) [of "PDict (tc_arguments c)" "PDict args" 0]
  by (auto simp: audit_line_def audit_entry_def argument_entry_def bounded_def)

section \<open>Properties\<close>

definition demo_read :: tool_call where
  "demo_read = \<lparr>tc_name = ''read'', tc_arguments = [(''path'', PStr ''/etc/shadow'')],
     tc_cost = DFin False 0 0, tc_id = ''i''\<rparr>"

text \<open>An accepted audit record is one complete line. It is appended to what the file held, which
  was complete before and is complete after, and the number of lines grows by one.\<close>

theorem audit_one_line:
  assumes "audit_record disk path ts ev c u d err mode file = (Inr (), file')" "call_floats_ok c"
  shows "file' = file @ audit_line ts ev c u d err mode @ [newline_char] \<and>
    log_lines file' = log_lines file + 1 \<and> \<not> incomplete file \<and> \<not> incomplete file'"
  using audit_record_ok [OF assms] audit_append_ok(1) [OF assms(1) [unfolded audit_record_def]]
  by blast

theorem audit_one_line_witness:
  "log_lines (snd (audit_record DiskOk ''a'' ''t'' ''allowed'' demo_read empty_usage None None AUDIT_FULL []))
     = log_lines [] + 1"
proof -
  have "fst (audit_record DiskOk ''a'' ''t'' ''allowed'' demo_read empty_usage None None AUDIT_FULL [])
      = Inr ()"
    by (simp add: audit_record_def audit_append_def incomplete_def)
  then have "audit_record DiskOk ''a'' ''t'' ''allowed'' demo_read empty_usage None None AUDIT_FULL []
    = (Inr (), snd (audit_record DiskOk ''a'' ''t'' ''allowed'' demo_read empty_usage None None AUDIT_FULL []))"
    by (metis prod.collapse)
  moreover have "call_floats_ok demo_read" by (simp add: call_floats_ok_def demo_read_def)
  ultimately show ?thesis using audit_one_line by blast
qed

text \<open>C29: the log fails closed. A record never removes or changes what the file held; and once the
  file ends in an incomplete line, every further record is refused and leaves it untouched.\<close>

theorem audit_fails_closed:
  "(\<exists>t. snd (audit_record disk path ts ev c u d err mode file) = file @ t) \<and>
   (incomplete file \<longrightarrow>
     (\<exists>m. audit_record disk path ts ev c u d err mode file = (Inl (AuditWriteError m False), file)))"
proof
  show "\<exists>t. snd (audit_record disk path ts ev c u d err mode file) = file @ t"
    using audit_append_extends [OF surjective_pairing] by (simp add: audit_record_def)
  show "incomplete file \<longrightarrow>
     (\<exists>m. audit_record disk path ts ev c u d err mode file = (Inl (AuditWriteError m False), file))"
    using audit_append_incomplete by (simp add: audit_record_def)
qed

theorem audit_fails_closed_witness:
  "\<exists>m. audit_record DiskOk ''a'' ''t'' ''allowed'' demo_read empty_usage None None AUDIT_NONE ''half''
     = (Inl (AuditWriteError m False), ''half'')"
proof -
  have "incomplete ''half''" by (simp add: incomplete_def newline_char_def char_of_def)
  with audit_fails_closed show ?thesis by blast
qed

text \<open>C30: nothing leaks. With arguments unrecorded or redacted, two calls whose arguments have the
  same keys and shape write the same line, whatever the values are.\<close>

theorem audit_line_hides_values:
  assumes "same_items (tc_arguments c) args" "mode = AUDIT_NONE \<or> mode = AUDIT_REDACTED"
  shows "audit_line ts ev (c\<lparr>tc_arguments := args\<rparr>) u d err mode = audit_line ts ev c u d err mode"
  by (rule redacted_entry_same [OF assms])

theorem audit_line_hides_values_witness:
  "audit_line ''t'' ''allowed'' (demo_read\<lparr>tc_arguments := [(''path'', PInt 5)]\<rparr>) empty_usage None None
     AUDIT_REDACTED = audit_line ''t'' ''allowed'' demo_read empty_usage None None AUDIT_REDACTED"
  by (rule audit_line_hides_values) (simp_all add: demo_read_def)

end
