(* ===== verification/FirewallCore.thy ===== *)
theory FirewallCore
  imports StateStore AuditLog Samples
begin

text \<open>
  \<open>firewall.py\<close>: the authorization of a call, the approval step and the guarded execution. A step
  takes the world (the store, the audit file, and the list of effects so far, which only the
  statements below read) and returns an outcome and the world it leaves, also when it raises. Each
  access of a step to the database or the disk has its own outcome, and other calls of the process
  may reserve usage and write audit lines while the approver decides and while the tool runs.
  Results: a tool runs only after a reservation under a decision that is not a block, after the
  approver's consent when the policy asks for it, and after the audit line when there is a log; the
  flag \<open>after_execution\<close> says exactly whether it ran; budgets hold across any interleaving.
\<close>

section \<open>Steps\<close>

datatype effect =
    EReserved bool decision
  | EAudited string
  | EApproverAsked
  | EToolRan

record 's world =
  w_store :: 's
  w_log :: string
  w_effects :: "effect list"

type_synonym ('s, 'a) step = "'s world \<Rightarrow> (exc, 'a) result \<times> 's world"

definition bindS :: "('s, 'a) step \<Rightarrow> ('a \<Rightarrow> ('s, 'b) step) \<Rightarrow> ('s, 'b) step" where
  "bindS m f w = (case m w of (Inl e, w') \<Rightarrow> (Inl e, w') | (Inr x, w') \<Rightarrow> f x w')"

definition returnS :: "'a \<Rightarrow> ('s, 'a) step" where
  "returnS x w = (Inr x, w)"

definition raiseS :: "exc \<Rightarrow> ('s, 'a) step" where
  "raiseS e w = (Inl e, w)"

definition liftS :: "(exc, 'a) result \<Rightarrow> ('s, 'a) step" where
  "liftS r w = (r, w)"

definition log_effect :: "effect \<Rightarrow> 's world \<Rightarrow> 's world" where
  "log_effect x w = w\<lparr>w_effects := w_effects w @ [x]\<rparr>"

section \<open>The firewall and its environment\<close>

record ('e, 's) firewall =
  f_policy :: policy
  f_reserve :: "('e, 's) reserve_op"
  f_usage :: "'e \<Rightarrow> 's \<Rightarrow> (exc, usage) result"
  f_audit_path :: "string option"

text \<open>\<open>Firewall.__init__\<close> without a state store, and with the SQLite store \<open>from_policy_file\<close> makes of a
  state path.\<close>

definition memory_firewall :: "policy \<Rightarrow> string option \<Rightarrow> (unit, usage) firewall" where
  "memory_firewall p audit_path =
     \<lparr>f_policy = p, f_reserve = (\<lambda>_. mem_evaluate_and_reserve), f_usage = (\<lambda>_. mem_usage),
      f_audit_path = audit_path\<rparr>"

definition sqlite_firewall ::
  "policy \<Rightarrow> string \<Rightarrow> string option \<Rightarrow> (db_outcome, sqlite_db) firewall" where
  "sqlite_firewall p state_path audit_path =
     \<lparr>f_policy = p, f_reserve = sqlite_evaluate_and_reserve state_path,
      f_usage = sqlite_usage state_path, f_audit_path = audit_path\<rparr>"

text \<open>One access: what the database and the disk do, and the time a record is stamped with.\<close>

record 'e access =
  ac_db :: 'e
  ac_disk :: disk_outcome
  ac_time :: string

text \<open>What other calls do meanwhile: their reservations, and the bytes they append to the log.\<close>

record 'e meanwhile =
  mw_requests :: "('e \<times> tool_call \<times> bool) list"
  mw_log :: string

datatype approver_reply =
    ReplyBool bool
  | ReplyAwaitable "string + bool"
  | ReplyRaises string

datatype 'r outcome =
    OpReturns 'r
  | OpAwaitable "string + 'r"
  | OpRaises string

text \<open>The environment of one call. \<open>ce_approver\<close> is None when no approver is configured; \<open>ce_async\<close>
  tells \<open>acall\<close> from \<open>call\<close>. An awaitable is \<open>Inl\<close> when awaiting it raises.\<close>

record ('e, 'r) call_env =
  ce_async :: bool
  ce_authorize :: "'e access"
  ce_approver :: "approver_reply option"
  ce_while_approver :: "'e meanwhile"
  ce_approval :: "'e access"
  ce_operation :: "'r outcome"
  ce_while_tool :: "'e meanwhile"
  ce_terminal :: "'e access"

definition others :: "('e, 's) firewall \<Rightarrow> 'e meanwhile \<Rightarrow> 's world \<Rightarrow> 's world" where
  "others f mw w =
     w\<lparr>w_store := run_requests (f_reserve f) (f_policy f) (mw_requests mw) (w_store w),
       w_log := w_log w @ mw_log mw\<rparr>"

section \<open>The operations\<close>

definition reserve_step ::
  "('e, 's) firewall \<Rightarrow> 'e access \<Rightarrow> tool_call \<Rightarrow> bool \<Rightarrow> ('s, decision \<times> usage) step" where
  "reserve_step f ac c approved w =
     (case f_reserve f (ac_db ac) (f_policy f) c approved (w_store w) of
        (Inl e, s') \<Rightarrow> (Inl e, w\<lparr>w_store := s'\<rparr>)
      | (Inr (d, u), s') \<Rightarrow> (Inr (d, u), log_effect (EReserved approved d) (w\<lparr>w_store := s'\<rparr>)))"

definition audit_step ::
  "('e, 's) firewall \<Rightarrow> 'e access \<Rightarrow> string \<Rightarrow> tool_call \<Rightarrow> decision \<Rightarrow> string option \<Rightarrow>
     usage option \<Rightarrow> ('s, unit) step" where
  "audit_step f ac event c d err u w =
     (case f_audit_path f of
        None \<Rightarrow> (Return (), w)
      | Some path \<Rightarrow>
          (case (case u of Some x \<Rightarrow> Return x | None \<Rightarrow> f_usage f (ac_db ac) (w_store w)) of
             Inl e \<Rightarrow> (Inl e, w)
           | Inr us \<Rightarrow>
               (case audit_record (ac_disk ac) path (ac_time ac) event c us (Some d) err
                       (p_audit_arguments (f_policy f)) (w_log w) of
                  (Inl e, file) \<Rightarrow> (Inl e, w\<lparr>w_log := file\<rparr>)
                | (Inr _, file) \<Rightarrow> (Return (), log_effect (EAudited event) (w\<lparr>w_log := file\<rparr>)))))"

definition authorize :: "('e, 's) firewall \<Rightarrow> 'e access \<Rightarrow> tool_call \<Rightarrow> ('s, decision) step" where
  "authorize f ac c =
     bindS (reserve_step f ac c False) (\<lambda>(d, u).
       if d_kind d = BLOCK
       then bindS (audit_step f ac ''blocked'' c d None (Some u))
              (\<lambda>_. raiseS (ToolCallBlocked (d_reason d) c d))
       else if d_kind d = REQUIRE_APPROVAL
       then bindS (audit_step f ac ''approval_requested'' c d None (Some u)) (\<lambda>_. returnS d)
       else bindS (audit_step f ac ''allowed'' c d None (Some u)) (\<lambda>_. returnS d))"

definition finish_approval ::
  "('e, 's) firewall \<Rightarrow> 'e access \<Rightarrow> tool_call \<Rightarrow> decision \<Rightarrow> bool \<Rightarrow> ('s, unit) step" where
  "finish_approval f ac c d approved =
     (if \<not> approved then
        (let denied = \<lparr>d_kind = BLOCK, d_reason = ''human approval denied'',
                       d_code = ''approval_denied'', d_rule_index = d_rule_index d\<rparr>
         in bindS (audit_step f ac ''approval_denied'' c denied None None)
              (\<lambda>_. raiseS (ToolCallBlocked (d_reason denied) c denied)))
      else bindS (reserve_step f ac c True) (\<lambda>(current, u).
        if d_kind current = BLOCK
        then bindS (audit_step f ac ''blocked'' c current None (Some u))
               (\<lambda>_. raiseS (ToolCallBlocked (d_reason current) c current))
        else audit_step f ac ''approval_granted'' c d None (Some u)))"

text \<open>\<open>_approve_sync\<close> and \<open>_approve_async\<close> differ in an awaitable reply only.\<close>

definition ask_approver :: "('e, 's) firewall \<Rightarrow> 'e meanwhile \<Rightarrow> ('s, unit) step" where
  "ask_approver f mw w = (Return (), others f mw (log_effect EApproverAsked w))"

definition approve ::
  "('e, 's) firewall \<Rightarrow> ('e, 'r) call_env \<Rightarrow> tool_call \<Rightarrow> decision \<Rightarrow> ('s, unit) step" where
  "approve f ce c d =
     (case ce_approver ce of
        None \<Rightarrow> raiseS (ApprovalRequired (d_reason d) c d)
      | Some reply \<Rightarrow>
          bindS (ask_approver f (ce_while_approver ce)) (\<lambda>_.
            case reply of
              ReplyRaises n \<Rightarrow> raiseS (ToolError n)
            | ReplyBool b \<Rightarrow> finish_approval f (ce_approval ce) c d b
            | ReplyAwaitable ans \<Rightarrow>
                if \<not> ce_async ce then raiseS (TypeError ''async approver requires Firewall.acall'')
                else (case ans of
                        Inl n \<Rightarrow> raiseS (ToolError n)
                      | Inr b \<Rightarrow> finish_approval f (ce_approval ce) c d b)))"

text \<open>\<open>_audit_terminal\<close>: a storage error becomes one that says the call was attempted.\<close>

definition audit_terminal ::
  "('e, 's) firewall \<Rightarrow> 'e access \<Rightarrow> string \<Rightarrow> tool_call \<Rightarrow> decision \<Rightarrow> string option \<Rightarrow> ('s, unit) step" where
  "audit_terminal f ac event c d err w =
     (case audit_step f ac event c d err None w of
        (Inl e, w') \<Rightarrow>
          (if is_storage_error e then (Inl (AuditWriteError (exc_message e) True), w') else (Inl e, w'))
      | (Inr _, w') \<Rightarrow> (Return (), w'))"

definition run_tool :: "('e, 's) firewall \<Rightarrow> 'e meanwhile \<Rightarrow> ('s, unit) step" where
  "run_tool f mw w = (Return (), others f mw (log_effect EToolRan w))"

text \<open>The outcome of the operation as the \<open>try\<close> block sees it: the exception it raises with the name
  of its type, or the result.\<close>

definition operation_result :: "bool \<Rightarrow> 'r outcome \<Rightarrow> (exc \<times> string, 'r) result" where
  "operation_result async out =
     (case out of
        OpReturns r \<Rightarrow> Return r
      | OpRaises n \<Rightarrow> Raise (ToolError n, n)
      | OpAwaitable ans \<Rightarrow>
          if \<not> async then Raise (TypeError ''async operation requires Firewall.acall'', ''TypeError'')
          else (case ans of Inl n \<Rightarrow> Raise (ToolError n, n) | Inr r \<Rightarrow> Return r))"

definition run_operation ::
  "('e, 's) firewall \<Rightarrow> ('e, 'r) call_env \<Rightarrow> tool_call \<Rightarrow> decision \<Rightarrow> ('s, 'r) step" where
  "run_operation f ce c d =
     bindS (run_tool f (ce_while_tool ce)) (\<lambda>_.
       case operation_result (ce_async ce) (ce_operation ce) of
         Inl (e, n) \<Rightarrow> bindS (audit_terminal f (ce_terminal ce) ''failed'' c d (Some n)) (\<lambda>_. raiseS e)
       | Inr r \<Rightarrow> bindS (audit_terminal f (ce_terminal ce) ''executed'' c d None) (\<lambda>_. returnS r))"

definition execute :: "('e, 's) firewall \<Rightarrow> ('e, 'r) call_env \<Rightarrow> tool_call \<Rightarrow> ('s, 'r) step" where
  "execute f ce c =
     bindS (authorize f (ce_authorize ce) c) (\<lambda>d.
     bindS (if d_kind d = REQUIRE_APPROVAL then approve f ce c d else returnS ()) (\<lambda>_.
     run_operation f ce c d))"

text \<open>The public entry points: \<open>check\<close>, and the calls with explicit arguments.\<close>

definition check_call ::
  "('e, 's) firewall \<Rightarrow> 'e \<Rightarrow> string \<Rightarrow> pyval \<Rightarrow> pydict option \<Rightarrow> pyval \<Rightarrow> 's \<Rightarrow> (exc, decision) result" where
  "check_call f env new_id nm arguments cost s =
     bindR (create_call new_id nm arguments cost) (\<lambda>c.
     bindR (f_usage f env s) (\<lambda>u. evaluate (f_policy f) c u))"

definition call_with_arguments ::
  "('e, 's) firewall \<Rightarrow> ('e, 'r) call_env \<Rightarrow> string \<Rightarrow> pyval \<Rightarrow> pydict \<Rightarrow> pyval \<Rightarrow> ('s, 'r) step" where
  "call_with_arguments f ce new_id nm arguments cost =
     bindS (liftS (create_call new_id nm (Some arguments) cost)) (\<lambda>c. execute f ce c)"

text \<open>A run: calls one after another, each in its environment.\<close>

fun run_calls :: "('e, 's) firewall \<Rightarrow> (('e, 'r) call_env \<times> tool_call) list \<Rightarrow> 's world \<Rightarrow> 's world" where
  "run_calls f [] w = w"
| "run_calls f ((ce, c) # calls) w = run_calls f calls (snd (execute f ce c w))"

definition start_world :: "'s \<Rightarrow> 's world" where
  "start_world s = \<lparr>w_store = s, w_log = [], w_effects = []\<rparr>"

lemmas step_defs = bindS_def returnS_def raiseS_def liftS_def log_effect_def others_def

declare bindS_def [evals] returnS_def [evals] raiseS_def [evals] liftS_def [evals]
  log_effect_def [evals] others_def [evals] reserve_step_def [evals] audit_step_def [evals]
  authorize_def [evals] finish_approval_def [evals] ask_approver_def [evals] approve_def [evals]
  audit_terminal_def [evals] run_tool_def [evals] operation_result_def [evals]
  run_operation_def [evals] execute_def [evals] check_call_def [evals]
  call_with_arguments_def [evals] memory_firewall_def [evals] sqlite_firewall_def [evals]
  start_world_def [evals]

section \<open>The protocol of one call\<close>

text \<open>What the effects of one call may be, as a machine over them. Without an audit log the phases
  that wait for a line are passed silently.\<close>

datatype phase =
    PhStart
  | PhDecided decision
  | PhWaiting decision
  | PhAsked decision
  | PhRefused
  | PhConsented
  | PhCleared
  | PhRan
  | PhStopped
  | PhDone

definition after_decision :: "decision \<Rightarrow> phase" where
  "after_decision d =
     (case d_kind d of BLOCK \<Rightarrow> PhStopped | ALLOW \<Rightarrow> PhCleared | REQUIRE_APPROVAL \<Rightarrow> PhWaiting d)"

definition announcement :: "decision \<Rightarrow> string" where
  "announcement d =
     (case d_kind d of BLOCK \<Rightarrow> ''blocked'' | ALLOW \<Rightarrow> ''allowed''
      | REQUIRE_APPROVAL \<Rightarrow> ''approval_requested'')"

fun settle :: "bool \<Rightarrow> phase \<Rightarrow> phase" where
  "settle audited (PhDecided d) = (if audited then PhDecided d else after_decision d)"
| "settle audited PhRefused = (if audited then PhRefused else PhStopped)"
| "settle audited PhConsented = (if audited then PhConsented else PhCleared)"
| "settle audited ph = ph"

fun next_phase :: "phase \<Rightarrow> effect \<Rightarrow> phase option" where
  "next_phase PhStart (EReserved approved d) = (if approved then None else Some (PhDecided d))"
| "next_phase (PhDecided d) (EAudited ev) =
     (if ev = announcement d then Some (after_decision d) else None)"
| "next_phase (PhWaiting d) EApproverAsked = Some (PhAsked d)"
| "next_phase (PhAsked d) (EAudited ev) = (if ev = ''approval_denied'' then Some PhStopped else None)"
| "next_phase (PhAsked d) (EReserved approved d') =
     (if \<not> approved then None else if d_kind d' = BLOCK then Some PhRefused else Some PhConsented)"
| "next_phase PhRefused (EAudited ev) = (if ev = ''blocked'' then Some PhStopped else None)"
| "next_phase PhConsented (EAudited ev) = (if ev = ''approval_granted'' then Some PhCleared else None)"
| "next_phase PhCleared EToolRan = Some PhRan"
| "next_phase PhRan (EAudited ev) =
     (if ev = ''executed'' \<or> ev = ''failed'' then Some PhDone else None)"
| "next_phase _ _ = None"

fun accepts :: "bool \<Rightarrow> phase \<Rightarrow> effect list \<Rightarrow> phase option" where
  "accepts audited ph [] = Some ph"
| "accepts audited ph (x # xs) =
     (case next_phase ph x of
        None \<Rightarrow> None
      | Some ph' \<Rightarrow> accepts audited (settle audited ph') xs)"

definition ran :: "phase \<Rightarrow> bool" where
  "ran ph = (ph = PhRan \<or> ph = PhDone)"

declare after_decision_def [evals] announcement_def [evals] ran_def [evals] settle.simps [simp del]
  settle.simps [evals]

lemma settle_True [simp]: "settle True ph = ph"
  by (cases ph) (simp_all add: settle.simps)

lemma settle_False [simp]:
  "settle False (PhDecided d) = after_decision d" "settle False PhRefused = PhStopped"
  "settle False PhConsented = PhCleared"
  by (simp_all add: settle.simps)

lemma settle_fixed [simp]:
  "settle au PhStart = PhStart" "settle au (PhWaiting d) = PhWaiting d"
  "settle au (PhAsked d) = PhAsked d" "settle au PhCleared = PhCleared" "settle au PhRan = PhRan"
  "settle au PhStopped = PhStopped" "settle au PhDone = PhDone"
  by (simp_all add: settle.simps)

lemma settle_after [simp]: "settle au (after_decision d) = after_decision d"
  by (auto simp: after_decision_def split: decision_kind.split)

lemma accepts_append:
  "accepts au ph (xs @ ys) = (case accepts au ph xs of None \<Rightarrow> None | Some ph' \<Rightarrow> accepts au ph' ys)"
  by (induction xs arbitrary: ph) (auto split: option.split)

text \<open>The world \<open>w\<close> was reached from \<open>w0\<close> by effects that lead to the phase \<open>ph\<close>.\<close>

definition at_phase :: "bool \<Rightarrow> phase \<Rightarrow> 's world \<Rightarrow> 's world \<Rightarrow> bool" where
  "at_phase au ph w0 w =
     (\<exists>t. w_effects w = w_effects w0 @ t \<and> accepts au PhStart t = Some ph)"

lemma at_phase_start: "at_phase au PhStart w w"
  by (simp add: at_phase_def)

lemma at_phase_same: "at_phase au ph w0 w \<Longrightarrow> w_effects w' = w_effects w \<Longrightarrow> at_phase au ph w0 w'"
  by (simp add: at_phase_def)

lemma at_phase_step:
  assumes "at_phase au ph w0 w" "next_phase ph x = Some ph'" "w_effects w' = w_effects w @ [x]"
  shows "at_phase au (settle au ph') w0 w'"
proof -
  obtain t where t: "w_effects w = w_effects w0 @ t" "accepts au PhStart t = Some ph"
    using assms(1) by (auto simp: at_phase_def)
  show ?thesis
    unfolding at_phase_def
    by (rule exI [of _ "t @ [x]"]) (simp add: t assms(2,3) accepts_append)
qed

definition audited :: "('e, 's) firewall \<Rightarrow> bool" where
  "audited f = (f_audit_path f \<noteq> None)"

subsection \<open>Triples\<close>

text \<open>From the phase \<open>ph\<close>, a step that returns \<open>x\<close> ends in a phase with \<open>Q x\<close>, and one that raises
  \<open>e\<close> in a phase with \<open>E e\<close>.\<close>

definition moves ::
  "bool \<Rightarrow> phase \<Rightarrow> ('s, 'a) step \<Rightarrow> ('a \<Rightarrow> phase \<Rightarrow> bool) \<Rightarrow> (exc \<Rightarrow> phase \<Rightarrow> bool) \<Rightarrow> bool" where
  "moves au ph m Q E =
     (\<forall>w0 w r w'. at_phase au ph w0 w \<longrightarrow> m w = (r, w') \<longrightarrow>
        (\<exists>ph'. at_phase au ph' w0 w' \<and> (case r of Inl e \<Rightarrow> E e ph' | Inr x \<Rightarrow> Q x ph')))"

lemma movesI:
  assumes "\<And>w0 w r w'. at_phase au ph w0 w \<Longrightarrow> m w = (r, w') \<Longrightarrow>
    \<exists>ph'. at_phase au ph' w0 w' \<and> (case r of Inl e \<Rightarrow> E e ph' | Inr x \<Rightarrow> Q x ph')"
  shows "moves au ph m Q E"
  using assms by (simp add: moves_def)

lemma movesD:
  assumes "moves au ph m Q E" "at_phase au ph w0 w" "m w = (r, w')"
  obtains ph' where "at_phase au ph' w0 w'" "\<And>e. r = Inl e \<Longrightarrow> E e ph'" "\<And>x. r = Inr x \<Longrightarrow> Q x ph'"
proof -
  from assms obtain ph' where "at_phase au ph' w0 w'" "case r of Inl e \<Rightarrow> E e ph' | Inr x \<Rightarrow> Q x ph'"
    unfolding moves_def by blast
  then show ?thesis by (intro that [of ph']) (auto split: sum.splits)
qed

lemma moves_bind:
  assumes "moves au ph m R E" "\<And>x ph'. R x ph' \<Longrightarrow> moves au ph' (g x) Q E"
  shows "moves au ph (bindS m g) Q E"
proof (rule movesI)
  fix w0 w r w'
  assume at: "at_phase au ph w0 w" and run: "bindS m g w = (r, w')"
  obtain q w1 where q: "m w = (q, w1)" by fastforce
  obtain ph' where ph': "at_phase au ph' w0 w1" "\<And>e. q = Inl e \<Longrightarrow> E e ph'" "\<And>x. q = Inr x \<Longrightarrow> R x ph'"
    using movesD [OF assms(1) at q] by blast
  show "\<exists>ph'. at_phase au ph' w0 w' \<and> (case r of Inl e \<Rightarrow> E e ph' | Inr x \<Rightarrow> Q x ph')"
  proof (cases q)
    case (Inl e)
    then have "r = Inl e" "w' = w1" using run q by (auto simp: bindS_def)
    with ph' Inl show ?thesis by auto
  next
    case (Inr x)
    then have "g x w1 = (r, w')" using run q by (simp add: bindS_def)
    with assms(2) [OF ph'(3) [OF Inr]] ph'(1) show ?thesis unfolding moves_def by blast
  qed
qed

lemma moves_raise: "E e ph \<Longrightarrow> moves au ph (raiseS e) Q E"
  by (auto simp: moves_def raiseS_def)

lemma moves_return: "Q x ph \<Longrightarrow> moves au ph (returnS x) Q E"
  by (auto simp: moves_def returnS_def)

lemma moves_if:
  "(b \<Longrightarrow> moves au ph m Q E) \<Longrightarrow> (\<not> b \<Longrightarrow> moves au ph n Q E) \<Longrightarrow>
     moves au ph (if b then m else n) Q E"
  by simp

subsection \<open>The steps\<close>

lemma audit_step_effects:
  assumes "audit_step f ac ev c d err u w = (r, w')"
  shows "w_store w' = w_store w"
    and "r = Inr () \<Longrightarrow> w_effects w' = w_effects w @ (if audited f then [EAudited ev] else [])"
    and "r = Inl e \<Longrightarrow> w_effects w' = w_effects w"
  using assms
  by (auto simp: audit_step_def audited_def log_effect_def split: option.splits sum.splits prod.splits)

lemma reserve_step_effects:
  assumes "reserve_step f ac c a w = (r, w')"
  shows "r = Inr (d, u) \<Longrightarrow> w_effects w' = w_effects w @ [EReserved a d]"
    and "r = Inl e \<Longrightarrow> w_effects w' = w_effects w"
  using assms by (auto simp: reserve_step_def log_effect_def split: sum.splits prod.splits)

lemma others_effects [simp]: "w_effects (others f mw w) = w_effects w"
  by (simp add: others_def)

text \<open>Exceptions that do not claim the tool was attempted, and stores that raise only such.\<close>

definition early :: "exc \<Rightarrow> bool" where
  "early e = (\<forall>m. e \<noteq> AuditWriteError m True)"

definition quiet :: "('e, 's) firewall \<Rightarrow> tool_call \<Rightarrow> bool" where
  "quiet f c =
     ((\<forall>env a s e s'. f_reserve f env (f_policy f) c a s = (Inl e, s') \<longrightarrow>
         (\<forall>m b. e \<noteq> AuditWriteError m b)) \<and>
      (\<forall>env s e. f_usage f env s = Inl e \<longrightarrow> (\<forall>m b. e \<noteq> AuditWriteError m b)))"

text \<open>Where an exception leaves the machine, and, of a firewall known to be quiet, what it says.\<close>

definition before_run :: "bool \<Rightarrow> exc \<Rightarrow> phase \<Rightarrow> bool" where
  "before_run qt e ph = (\<not> ran ph \<and> (qt \<longrightarrow> (\<forall>m. e \<noteq> AuditWriteError m True)))"

definition after_run :: "bool \<Rightarrow> exc \<Rightarrow> phase \<Rightarrow> bool" where
  "after_run qt e ph = (ran ph \<and> (qt \<longrightarrow> (\<forall>m. e \<noteq> AuditWriteError m False)))"

lemma audit_step_error:
  assumes "audit_step f ac ev c d err u w = (Inl e, w')" "quiet f c"
  shows "\<forall>m. e \<noteq> AuditWriteError m True"
  using assms
  by (auto simp: audit_step_def quiet_def audit_record_def split: option.splits sum.splits prod.splits
      dest!: audit_append_error)

lemma moves_reserve:
  assumes "qt \<Longrightarrow> quiet f c" "\<not> ran ph" "\<And>d. next_phase ph (EReserved a d) = Some (nx d)"
    "\<And>d. settle (audited f) (nx d) = after d"
  shows "moves (audited f) ph (reserve_step f ac c a) (\<lambda>du ph'. ph' = after (fst du)) (before_run qt)"
proof (rule movesI)
  fix w0 w r w'
  assume at: "at_phase (audited f) ph w0 w" and run: "reserve_step f ac c a w = (r, w')"
  show "\<exists>ph'. at_phase (audited f) ph' w0 w' \<and>
      (case r of Inl e \<Rightarrow> before_run qt e ph' | Inr x \<Rightarrow> ph' = after (fst x))"
  proof (cases r)
    case (Inl e)
    then obtain s' where "f_reserve f (ac_db ac) (f_policy f) c a (w_store w) = (Inl e, s')"
      using run by (auto simp: reserve_step_def split: prod.splits sum.splits)
    then have "before_run qt e ph"
      using assms(1,2) unfolding quiet_def before_run_def by blast
    with at_phase_same [OF at reserve_step_effects(2) [OF run Inl]] Inl show ?thesis by auto
  next
    case (Inr du)
    then obtain d u where du: "r = Inr (d, u)" by (cases du) auto
    from at_phase_step [OF at assms(3) reserve_step_effects(1) [OF run du]] assms(4) du
    show ?thesis by auto
  qed
qed

text \<open>A phase that is left by an audit line or, without a log, was left before.\<close>

lemma moves_audit:
  assumes "qt \<Longrightarrow> quiet f c" "\<not> ran (settle (audited f) ph)"
    "next_phase ph (EAudited ev) = Some ph'" "settle False ph = ph'" "settle True ph = ph"
    "settle (audited f) ph' = ph'"
  shows "moves (audited f) (settle (audited f) ph) (audit_step f ac ev c d err u) (\<lambda>_ q. q = ph') (before_run qt)"
proof (rule movesI)
  fix w0 w r w'
  assume at: "at_phase (audited f) (settle (audited f) ph) w0 w"
    and run: "audit_step f ac ev c d err u w = (r, w')"
  show "\<exists>q. at_phase (audited f) q w0 w' \<and> (case r of Inl e \<Rightarrow> before_run qt e q | Inr x \<Rightarrow> q = ph')"
  proof (cases r)
    case (Inl e)
    have "before_run qt e (settle (audited f) ph)"
      using audit_step_error [OF run [unfolded Inl] assms(1)] assms(2) by (simp add: before_run_def)
    with at_phase_same [OF at audit_step_effects(3) [OF run Inl]] Inl show ?thesis by auto
  next
    case (Inr x)
    then have "w_effects w' = w_effects w @ (if audited f then [EAudited ev] else [])"
      using audit_step_effects(2) [OF run] by simp
    then have "at_phase (audited f) ph' w0 w'"
      using at assms at_phase_step [of "audited f" ph w0 w "EAudited ev" ph' w']
        at_phase_same [of False ph' w0 w w']
      by (cases "audited f") auto
    with Inr show ?thesis by auto
  qed
qed

lemma not_ran_settled:
  "\<not> ran (after_decision d)" "\<not> ran (settle au (PhDecided d))" "\<not> ran (settle au PhRefused)"
  "\<not> ran (settle au PhConsented)"
  by (cases au; cases "d_kind d"; simp add: ran_def after_decision_def)+

lemma moves_announce:
  "(qt \<Longrightarrow> quiet f c) \<Longrightarrow> ev = announcement d \<Longrightarrow>
     moves (audited f) (settle (audited f) (PhDecided d)) (audit_step f ac ev c d' err u)
       (\<lambda>_ q. q = after_decision d) (before_run qt)"
  by (rule moves_audit) (simp_all add: not_ran_settled)

lemma authorize_moves:
  assumes "qt \<Longrightarrow> quiet f c"
  shows "moves (audited f) PhStart (authorize f ac c)
    (\<lambda>d ph. d_kind d \<noteq> BLOCK \<and> ph = after_decision d) (before_run qt)"
  unfolding authorize_def
proof (rule moves_bind)
  show "moves (audited f) PhStart (reserve_step f ac c False)
      (\<lambda>du ph'. ph' = settle (audited f) (PhDecided (fst du))) (before_run qt)"
    using assms by (intro moves_reserve [where nx = PhDecided]) (auto simp: ran_def)
next
  fix du :: "decision \<times> usage" and ph'
  assume ph: "ph' = settle (audited f) (PhDecided (fst du))"
  obtain d u where du: "du = (d, u)" by fastforce
  note announce = moves_announce [OF assms, where ac = ac and d = d and d' = d and err = None and u = "Some u"]
  have stop: "moves (audited f) q (raiseS e) Q (before_run qt)"
    if "q = after_decision d" "d_kind d = BLOCK" "e = ToolCallBlocked a b d" for q e Q a b
    using that by (intro moves_raise) (auto simp: before_run_def after_decision_def ran_def)
  show "moves (audited f) ph' (case du of (d, u) \<Rightarrow>
      if d_kind d = BLOCK
      then bindS (audit_step f ac ''blocked'' c d None (Some u))
             (\<lambda>_. raiseS (ToolCallBlocked (d_reason d) c d))
      else if d_kind d = REQUIRE_APPROVAL
      then bindS (audit_step f ac ''approval_requested'' c d None (Some u)) (\<lambda>_. returnS d)
      else bindS (audit_step f ac ''allowed'' c d None (Some u)) (\<lambda>_. returnS d))
    (\<lambda>d ph. d_kind d \<noteq> BLOCK \<and> ph = after_decision d) (before_run qt)"
    unfolding ph du prod.case fst_conv
    by (intro moves_if; rule moves_bind [OF announce])
       (auto simp: announcement_def intro: stop moves_return split: decision_kind.split)
qed

lemma finish_approval_moves:
  assumes "qt \<Longrightarrow> quiet f c"
  shows "moves (audited f) (PhAsked d) (finish_approval f ac c d approved)
    (\<lambda>_ ph. ph = PhCleared) (before_run qt)"
proof (cases approved)
  case False
  let ?d = "\<lparr>d_kind = BLOCK, d_reason = ''human approval denied'', d_code = ''approval_denied'',
    d_rule_index = d_rule_index d\<rparr>"
  have asked: "\<exists>q. at_phase (audited f) q w0 w' \<and>
      (case r of Inl e \<Rightarrow> before_run qt e q | Inr x \<Rightarrow> \<not> ran q)"
    if "at_phase (audited f) (PhAsked d) w0 w"
      "audit_step f ac ''approval_denied'' c ?d None None w = (r, w')" for w0 w r w'
  proof (cases r)
    case (Inl e)
    have "before_run qt e (PhAsked d)"
      using audit_step_error [OF that(2) [unfolded Inl] assms] by (simp add: before_run_def ran_def)
    with at_phase_same [OF that(1) audit_step_effects(3) [OF that(2) Inl]] Inl show ?thesis by auto
  next
    case (Inr x)
    then have eff: "w_effects w' = w_effects w @ (if audited f then [EAudited ''approval_denied''] else [])"
      using audit_step_effects(2) [OF that(2)] by simp
    show ?thesis
    proof (cases "audited f")
      case True
      then show ?thesis
        using at_phase_step [OF that(1), of "EAudited ''approval_denied''" PhStopped w'] eff Inr
        by (auto simp: ran_def)
    next
      case False
      then show ?thesis using at_phase_same [OF that(1), of w'] eff Inr by (auto simp: ran_def)
    qed
  qed
  have "moves (audited f) (PhAsked d) (audit_step f ac ''approval_denied'' c ?d None None)
      (\<lambda>_ q. \<not> ran q) (before_run qt)"
    by (rule movesI) (rule asked)
  then show ?thesis
    using False unfolding finish_approval_def Let_def
    by (simp, intro moves_bind moves_raise) (auto simp: before_run_def)
next
  case True
  have reserve: "moves (audited f) (PhAsked d) (reserve_step f ac c True)
      (\<lambda>du ph'. ph' = settle (audited f) (if d_kind (fst du) = BLOCK then PhRefused else PhConsented))
      (before_run qt)"
    using assms by (intro moves_reserve [where nx = "\<lambda>d'. if d_kind d' = BLOCK then PhRefused else PhConsented"])
      (auto simp: ran_def)
  have refused: "moves (audited f) (settle (audited f) PhRefused)
      (audit_step f ac ''blocked'' c d' None (Some u)) (\<lambda>_ q. q = PhStopped) (before_run qt)" for d' u
    using assms by (intro moves_audit) (simp_all add: not_ran_settled)
  have granted: "moves (audited f) (settle (audited f) PhConsented)
      (audit_step f ac ''approval_granted'' c d' None (Some u)) (\<lambda>_ q. q = PhCleared) (before_run qt)" for d' u
    using assms by (intro moves_audit) (simp_all add: not_ran_settled)
  show ?thesis
    unfolding finish_approval_def
    using True
    by (simp, intro moves_bind [OF reserve])
       (auto intro!: moves_bind [OF refused] moves_raise granted simp: before_run_def ran_def
         split: prod.split)
qed

lemma ask_approver_moves:
  "moves (audited f) (PhWaiting d) (ask_approver f mw) (\<lambda>_ ph. ph = PhAsked d) E"
proof (rule movesI)
  fix w0 w r w'
  assume "at_phase (audited f) (PhWaiting d) w0 w" "ask_approver f mw w = (r, w')"
  then show "\<exists>ph'. at_phase (audited f) ph' w0 w' \<and>
      (case r of Inl e \<Rightarrow> E e ph' | Inr x \<Rightarrow> ph' = PhAsked d)"
    using at_phase_step [of "audited f" "PhWaiting d" w0 w EApproverAsked "PhAsked d" w']
    by (auto simp: ask_approver_def log_effect_def)
qed

lemma approve_moves:
  assumes "qt \<Longrightarrow> quiet f c"
  shows "moves (audited f) (PhWaiting d) (approve f ce c d) (\<lambda>_ ph. ph = PhCleared) (before_run qt)"
proof (cases "ce_approver ce")
  case None
  then show ?thesis by (auto simp: approve_def intro!: moves_raise simp: before_run_def ran_def)
next
  case (Some reply)
  have raise: "moves (audited f) (PhAsked d) (raiseS e) Q (before_run qt)"
    if "\<forall>m. e \<noteq> AuditWriteError m True" for e Q
    using that by (intro moves_raise) (simp add: before_run_def ran_def)
  show ?thesis
    unfolding approve_def Some option.case
    by (rule moves_bind [OF ask_approver_moves])
       (auto split: approver_reply.split sum.split
         intro: finish_approval_moves [OF assms] raise)
qed

lemma run_tool_moves:
  "moves (audited f) PhCleared (run_tool f mw) (\<lambda>_ ph. ph = PhRan) E"
proof (rule movesI)
  fix w0 w r w'
  assume "at_phase (audited f) PhCleared w0 w" "run_tool f mw w = (r, w')"
  then show "\<exists>ph'. at_phase (audited f) ph' w0 w' \<and> (case r of Inl e \<Rightarrow> E e ph' | Inr x \<Rightarrow> ph' = PhRan)"
    using at_phase_step [of "audited f" PhCleared w0 w EToolRan PhRan w']
    by (auto simp: run_tool_def log_effect_def)
qed

text \<open>The phase in which a call with a result ends.\<close>

definition final_phase :: "bool \<Rightarrow> phase" where
  "final_phase au = (if au then PhDone else PhRan)"

lemma audit_terminal_moves:
  assumes "qt \<Longrightarrow> quiet f c" "ev = ''executed'' \<or> ev = ''failed''"
  shows "moves (audited f) PhRan (audit_terminal f ac ev c d err)
    (\<lambda>_ ph. ph = final_phase (audited f)) (after_run qt)"
proof (rule movesI)
  fix w0 w r w'
  assume at: "at_phase (audited f) PhRan w0 w" and run: "audit_terminal f ac ev c d err w = (r, w')"
  obtain q where q: "audit_step f ac ev c d err None w = (q, w')"
    using run by (auto simp: audit_terminal_def split: prod.splits sum.splits if_splits)
  show "\<exists>ph'. at_phase (audited f) ph' w0 w' \<and>
      (case r of Inl e \<Rightarrow> after_run qt e ph' | Inr x \<Rightarrow> ph' = final_phase (audited f))"
  proof (cases q)
    case (Inl e)
    then obtain e' where r: "r = Inl e'" "\<forall>m. e' \<noteq> AuditWriteError m False"
      using run q by (auto simp: audit_terminal_def split: if_splits) (metis is_storage_error.simps(2))
    moreover have "after_run qt e' PhRan" using r by (simp add: after_run_def ran_def)
    ultimately show ?thesis
      using at_phase_same [OF at audit_step_effects(3) [OF q Inl]] by auto
  next
    case (Inr x)
    then have r: "r = Inr ()" using run q by (simp add: audit_terminal_def)
    have "w_effects w' = w_effects w @ (if audited f then [EAudited ev] else [])"
      using audit_step_effects(2) [OF q] Inr by simp
    then have "at_phase (audited f) (final_phase (audited f)) w0 w'"
      using at assms(2) at_phase_step [OF at, of "EAudited ev" PhDone w'] at_phase_same [OF at, of w']
      by (auto simp: final_phase_def)
    with r show ?thesis by auto
  qed
qed

lemma run_operation_moves:
  assumes "qt \<Longrightarrow> quiet f c"
  shows "moves (audited f) PhCleared (run_operation f ce c d)
    (\<lambda>_ ph. ph = final_phase (audited f)) (after_run qt)"
proof -
  have raise: "moves (audited f) (final_phase (audited f)) (raiseS e) Q (after_run qt)"
    if "\<forall>m. e \<noteq> AuditWriteError m False" for e Q
    using that by (intro moves_raise) (simp add: after_run_def ran_def final_phase_def)
  have e: "\<forall>m. e \<noteq> AuditWriteError m False"
    if "operation_result (ce_async ce) (ce_operation ce) = Inl (e, n)" for e n
    using that by (auto simp: operation_result_def split: outcome.splits sum.splits if_splits)
  show ?thesis
    unfolding run_operation_def
    by (rule moves_bind [OF run_tool_moves])
       (auto split: sum.split intro!: moves_bind [OF audit_terminal_moves [OF assms]] moves_return
         intro: raise dest: e)
qed

text \<open>The whole call: where it can end, and what its exception says.\<close>

lemma execute_moves:
  assumes "qt \<Longrightarrow> quiet f c"
  shows "moves (audited f) PhStart (execute f ce c) (\<lambda>_ ph. ph = final_phase (audited f))
    (\<lambda>e ph. before_run qt e ph \<or> after_run qt e ph)"
proof -
  have weaken: "moves au ph m Q (\<lambda>e ph. before_run qt e ph \<or> after_run qt e ph)"
    if "moves au ph m Q E" "E = (before_run qt) \<or> E = (after_run qt)" for au ph Q E and m :: "('b, 'x) step"
    using that unfolding moves_def by (fastforce split: sum.splits)
  have cleared: "moves (audited f) (after_decision d)
      (if d_kind d = REQUIRE_APPROVAL then approve f ce c d else returnS ())
      (\<lambda>_ ph. ph = PhCleared) (before_run qt)" if "d_kind d \<noteq> BLOCK" for d
    using that approve_moves [OF assms, where d = d and ce = ce]
    by (cases "d_kind d") (auto simp: after_decision_def intro: moves_return)
  show ?thesis
    unfolding execute_def
  proof (rule moves_bind [OF weaken [OF authorize_moves [OF assms] disjI1 [OF refl]]])
    fix d ph
    assume d: "d_kind d \<noteq> BLOCK \<and> ph = after_decision d"
    let ?go = "if d_kind d = REQUIRE_APPROVAL then approve f ce c d else returnS ()"
    have go: "moves (audited f) ph ?go (\<lambda>_ ph. ph = PhCleared)
        (\<lambda>e ph. before_run qt e ph \<or> after_run qt e ph)"
      using weaken [OF cleared [of d]] d by blast
    show "moves (audited f) ph (bindS ?go (\<lambda>_. run_operation f ce c d))
        (\<lambda>_ ph. ph = final_phase (audited f)) (\<lambda>e ph. before_run qt e ph \<or> after_run qt e ph)"
      by (rule moves_bind [OF go]) (simp add: weaken [OF run_operation_moves [OF assms]])
  qed
qed

subsection \<open>Accepted effects\<close>

text \<open>The line a phase waits for, which is absent without a log.\<close>

definition line :: "bool \<Rightarrow> string \<Rightarrow> effect list" where
  "line au ev = (if au then [EAudited ev] else [])"

lemma accepts_ran_stays:
  "accepts au ph t = Some ph' \<Longrightarrow> ran ph \<Longrightarrow> ran ph' \<and> EToolRan \<notin> set t"
proof (induction au ph t rule: accepts.induct)
  case (2 au ph x xs)
  then show ?case
    by (cases ph; cases x) (auto simp: ran_def split: if_splits)
qed simp

lemma accepts_cleared:
  assumes "accepts au PhCleared t = Some ph" "ran ph"
  obtains rest where "t = EToolRan # rest" "EToolRan \<notin> set rest"
proof (cases t)
  case Nil
  with assms show ?thesis by (auto simp: ran_def)
next
  case (Cons x rest)
  with assms have "x = EToolRan" "accepts au PhRan rest = Some ph"
    by (cases x; simp)+
  with Cons accepts_ran_stays [of au PhRan rest ph] that show ?thesis by (simp add: ran_def)
qed

lemma accepts_stopped: "accepts au PhStopped t = Some ph \<Longrightarrow> ph = PhStopped \<and> t = []"
  by (cases t) (auto split: option.splits)

lemma accepts_refused: "accepts au (settle au PhRefused) t = Some ph \<Longrightarrow> \<not> ran ph"
proof (cases au)
  case True
  assume "accepts au (settle au PhRefused) t = Some ph"
  with True show ?thesis
    by (cases t; cases "hd t") (auto simp: ran_def split: if_splits dest: accepts_stopped)
next
  case False
  assume "accepts au (settle au PhRefused) t = Some ph"
  with False show ?thesis by (auto simp: ran_def dest: accepts_stopped)
qed

lemma accepts_consented:
  assumes "accepts au (settle au PhConsented) t = Some ph" "ran ph"
  obtains rest where "t = line au ''approval_granted'' @ EToolRan # rest" "EToolRan \<notin> set rest"
proof (cases au)
  case False
  with assms accepts_cleared [of au t ph] that show ?thesis by (auto simp: line_def)
next
  case True
  then obtain x xs where t: "t = x # xs" using assms by (cases t) (auto simp: ran_def)
  with assms True have x: "x = EAudited ''approval_granted''" "accepts au PhCleared xs = Some ph"
    by (cases x; simp split: if_splits)+
  from accepts_cleared [OF x(2) assms(2)] show ?thesis
    using t x(1) True that by (auto simp: line_def)
qed

lemma accepts_asked:
  assumes "accepts au (PhAsked d) t = Some ph" "ran ph"
  obtains d' rest where "d_kind d' \<noteq> BLOCK" "EToolRan \<notin> set rest"
    "t = EReserved True d' # line au ''approval_granted'' @ EToolRan # rest"
proof -
  obtain x xs where t: "t = x # xs" using assms by (cases t) (auto simp: ran_def)
  obtain d' where x: "x = EReserved True d'" "d_kind d' \<noteq> BLOCK"
    "accepts au (settle au PhConsented) xs = Some ph"
    using assms accepts_stopped [of au xs ph] accepts_refused [of au xs ph]
    by (cases x) (auto simp: t ran_def split: if_splits)
  from accepts_consented [OF x(3) assms(2)] show ?thesis
    using t x that by blast
qed

text \<open>The two ways to a tool run.\<close>

definition run_trace :: "bool \<Rightarrow> effect list \<Rightarrow> bool" where
  "run_trace au t =
     (\<exists>d rest. EToolRan \<notin> set rest \<and>
       (d_kind d = ALLOW \<and> t = EReserved False d # line au ''allowed'' @ EToolRan # rest \<or>
        (\<exists>d'. d_kind d = REQUIRE_APPROVAL \<and> d_kind d' \<noteq> BLOCK \<and>
           t = EReserved False d # line au ''approval_requested'' @ EApproverAsked #
               EReserved True d' # line au ''approval_granted'' @ EToolRan # rest)))"

lemma accepts_decided:
  assumes "accepts au (after_decision d) t = Some ph" "ran ph"
  shows "run_trace au (EReserved False d # line au (announcement d) @ t)"
proof (cases "d_kind d")
  case ALLOW
  with assms obtain rest where "t = EToolRan # rest" "EToolRan \<notin> set rest"
    using accepts_cleared [of au t ph] by (auto simp: after_decision_def)
  with ALLOW show ?thesis by (auto simp: run_trace_def announcement_def)
next
  case BLOCK
  with assms show ?thesis by (auto simp: after_decision_def ran_def dest: accepts_stopped)
next
  case REQUIRE_APPROVAL
  with assms have t: "accepts au (PhWaiting d) t = Some ph" by (simp add: after_decision_def)
  then obtain xs where xs: "t = EApproverAsked # xs" "accepts au (PhAsked d) xs = Some ph"
    using assms(2) by (cases t; cases "hd t") (auto simp: ran_def)
  obtain d' rest where "d_kind d' \<noteq> BLOCK" "EToolRan \<notin> set rest"
    "xs = EReserved True d' # line au ''approval_granted'' @ EToolRan # rest"
    using accepts_asked [OF xs(2) assms(2)] by blast
  with xs(1) REQUIRE_APPROVAL show ?thesis by (auto simp: run_trace_def announcement_def)
qed

lemma accepts_run_trace:
  assumes "accepts au PhStart t = Some ph" "ran ph"
  shows "run_trace au t"
proof -
  obtain x xs where t: "t = x # xs" using assms by (cases t) (auto simp: ran_def)
  obtain d where x: "x = EReserved False d" "accepts au (settle au (PhDecided d)) xs = Some ph"
    using assms by (cases x) (auto simp: t split: if_splits)
  show ?thesis
  proof (cases au)
    case False
    with x accepts_decided [of au d xs ph] assms(2) show ?thesis by (simp add: t line_def)
  next
    case True
    then obtain y ys where ys: "xs = y # ys" "y = EAudited (announcement d)"
        "accepts au (after_decision d) ys = Some ph"
      using x(2) assms(2) by (cases xs; cases "hd xs") (auto simp: ran_def split: if_splits)
    from accepts_decided [OF ys(3) assms(2)] True show ?thesis by (simp add: t x(1) ys line_def)
  qed
qed

lemma run_trace_ran: "run_trace au t \<Longrightarrow> EToolRan \<in> set t"
  by (auto simp: run_trace_def)

lemma accepts_not_ran: "accepts au ph t = Some ph' \<Longrightarrow> \<not> ran ph' \<Longrightarrow> EToolRan \<notin> set t"
proof (induction au ph t rule: accepts.induct)
  case (2 au ph x xs)
  show ?case
  proof (cases "x = EToolRan")
    case True
    with "2.prems" have "ph = PhCleared" "accepts au PhRan xs = Some ph'"
      by (cases ph; simp)+
    with accepts_ran_stays [of au PhRan xs ph'] "2.prems"(2) show ?thesis by (simp add: ran_def)
  next
    case False
    with 2 show ?thesis by (auto split: option.splits)
  qed
qed simp

section \<open>Calls\<close>

text \<open>The effects a step added.\<close>

definition new_effects :: "'s world \<Rightarrow> 's world \<Rightarrow> effect list" where
  "new_effects w w' = drop (length (w_effects w)) (w_effects w')"

lemma execute_effects:
  assumes "quiet f c" "execute f ce c w = (r, w')"
  obtains ph where "accepts (audited f) PhStart (new_effects w w') = Some ph"
    "\<And>x. r = Inr x \<Longrightarrow> ph = final_phase (audited f)"
    "\<And>e. r = Inl e \<Longrightarrow> before_run True e ph \<or> after_run True e ph"
proof -
  obtain ph where ph: "at_phase (audited f) ph w w'"
    "\<And>e. r = Inl e \<Longrightarrow> before_run True e ph \<or> after_run True e ph"
    "\<And>x. r = Inr x \<Longrightarrow> ph = final_phase (audited f)"
    using movesD [OF execute_moves [OF assms(1)] at_phase_start assms(2)] by blast
  then have "accepts (audited f) PhStart (new_effects w w') = Some ph"
    by (auto simp: at_phase_def new_effects_def)
  with ph that show ?thesis by blast
qed

lemma execute_accepted:
  assumes "execute f ce c w = (r, w')"
  obtains ph where "accepts (audited f) PhStart (new_effects w w') = Some ph"
proof -
  have "False \<Longrightarrow> quiet f c" by simp
  then obtain ph where "at_phase (audited f) ph w w'"
    using movesD [OF execute_moves at_phase_start assms] by blast
  then have "accepts (audited f) PhStart (new_effects w w') = Some ph"
    by (auto simp: at_phase_def new_effects_def)
  with that show ?thesis by blast
qed

lemma execute_tool_ran:
  assumes "quiet f c" "execute f ce c w = (r, w')"
  shows "EToolRan \<in> set (new_effects w w') \<Longrightarrow> run_trace (audited f) (new_effects w w')"
    and "r = Inr x \<Longrightarrow> run_trace (audited f) (new_effects w w')"
    and "r = Inl (AuditWriteError m b) \<Longrightarrow> b \<longleftrightarrow> EToolRan \<in> set (new_effects w w')"
proof -
  obtain ph where ph: "accepts (audited f) PhStart (new_effects w w') = Some ph"
    "\<And>x. r = Inr x \<Longrightarrow> ph = final_phase (audited f)"
    "\<And>e. r = Inl e \<Longrightarrow> before_run True e ph \<or> after_run True e ph"
    using execute_effects [OF assms] by blast
  have iff: "ran ph \<longleftrightarrow> EToolRan \<in> set (new_effects w w')"
    using accepts_not_ran [OF ph(1)] accepts_run_trace [OF ph(1)] run_trace_ran by blast
  show "EToolRan \<in> set (new_effects w w') \<Longrightarrow> run_trace (audited f) (new_effects w w')"
    using iff accepts_run_trace [OF ph(1)] by blast
  show "r = Inr x \<Longrightarrow> run_trace (audited f) (new_effects w w')"
    using ph(2) accepts_run_trace [OF ph(1)] by (auto simp: final_phase_def ran_def split: if_splits)
  show "r = Inl (AuditWriteError m b) \<Longrightarrow> b \<longleftrightarrow> EToolRan \<in> set (new_effects w w')"
    using ph(3) iff by (cases b) (auto simp: before_run_def after_run_def)
qed

section \<open>Budgets and counts\<close>

text \<open>A step keeps a property of the world, whether it returns or raises.\<close>

definition keeps :: "('s world \<Rightarrow> bool) \<Rightarrow> ('s, 'a) step \<Rightarrow> bool" where
  "keeps P m = (\<forall>w. P w \<longrightarrow> P (snd (m w)))"

lemma keeps_bind: "keeps P m \<Longrightarrow> (\<And>x. keeps P (g x)) \<Longrightarrow> keeps P (bindS m g)"
  by (auto simp: keeps_def bindS_def split: prod.split sum.split)

lemma keeps_pure [simp]: "keeps P (returnS x)" "keeps P (raiseS e)" "keeps P (liftS r)"
  by (simp_all add: keeps_def returnS_def raiseS_def liftS_def)

lemma keeps_if: "keeps P m \<Longrightarrow> keeps P n \<Longrightarrow> keeps P (if b then m else n)"
  by simp

text \<open>The reservations among the effects.\<close>

fun reserving :: "effect \<Rightarrow> bool" where
  "reserving (EReserved approved d) = reserves_usage d approved"
| "reserving _ = False"

definition reservations :: "effect list \<Rightarrow> int" where
  "reservations es = int (length (filter reserving es))"

definition env_requests_ok :: "('e, 'r) call_env \<Rightarrow> bool" where
  "env_requests_ok ce =
     (requests_ok (mw_requests (ce_while_approver ce)) \<and> requests_ok (mw_requests (ce_while_tool ce)))"

text \<open>What a step may assume of a property to keep it: it depends on the store and the reservations
  only, and reservations and other calls keep it.\<close>

definition stable :: "('e, 's) firewall \<Rightarrow> tool_call \<Rightarrow> ('s world \<Rightarrow> bool) \<Rightarrow> bool" where
  "stable f c P =
     ((\<forall>w w'. P w \<longrightarrow> w_store w' = w_store w \<longrightarrow>
         reservations (w_effects w') = reservations (w_effects w) \<longrightarrow> P w') \<and>
      (\<forall>ac a. keeps P (reserve_step f ac c a)) \<and>
      (\<forall>mw w. requests_ok (mw_requests mw) \<longrightarrow> P w \<longrightarrow> P (others f mw w)))"

lemma reservations_snoc: "reservations (es @ [x]) = reservations es + (if reserving x then 1 else 0)"
  by (simp add: reservations_def)

lemma audit_step_keeps: "stable f c P \<Longrightarrow> keeps P (audit_step f ac ev c d err u)"
proof -
  assume st: "stable f c P"
  show ?thesis
    unfolding keeps_def
  proof (intro allI impI)
    fix w
    assume P: "P w"
    obtain r w' where run: "audit_step f ac ev c d err u w = (r, w')" by fastforce
    have "reservations (w_effects w') = reservations (w_effects w)"
      using audit_step_effects(2,3) [OF run] by (cases r) (auto simp: reservations_def)
    with audit_step_effects(1) [OF run] st P run show "P (snd (audit_step f ac ev c d err u w))"
      unfolding stable_def by (metis snd_conv)
  qed
qed

lemma log_effect_stable:
  "stable f c P \<Longrightarrow> P w \<Longrightarrow> \<not> reserving x \<Longrightarrow> P (log_effect x w)"
  unfolding stable_def log_effect_def by (auto simp: reservations_def)

lemma execute_keeps:
  assumes st: "stable f c P" and env: "env_requests_ok ce"
  shows "keeps P (execute f ce c)"
proof -
  have reserve: "keeps P (reserve_step f ac c a)" for ac a using st by (simp add: stable_def)
  note audit = audit_step_keeps [OF st]
  have other: "P (others f mw w)" if "requests_ok (mw_requests mw)" "P w" for mw w
    using st that by (simp add: stable_def)
  have ask: "keeps P (ask_approver f (ce_while_approver ce))"
    using env other log_effect_stable [OF st, of _ EApproverAsked]
    by (simp add: keeps_def ask_approver_def env_requests_ok_def)
  have tool: "keeps P (run_tool f (ce_while_tool ce))"
    using env other log_effect_stable [OF st, of _ EToolRan]
    by (simp add: keeps_def run_tool_def env_requests_ok_def)
  have terminal: "keeps P (audit_terminal f ac ev c d err)" for ac ev d err
    using audit [of ac ev d err None]
    by (auto simp: keeps_def audit_terminal_def split: prod.split sum.split)
  have auth: "keeps P (authorize f ac c)" for ac
    unfolding authorize_def
    by (intro keeps_bind reserve) (auto split: prod.split intro: keeps_bind audit)
  have finish: "keeps P (finish_approval f ac c d b)" for ac d b
    unfolding finish_approval_def Let_def
    by (intro keeps_if keeps_bind reserve audit) (auto split: prod.split intro: keeps_bind audit)
  have approval: "keeps P (approve f ce c d)" for d
    unfolding approve_def
    by (auto split: option.split approver_reply.split sum.split intro!: keeps_bind ask finish)
  have op: "keeps P (run_operation f ce c d)" for d
    unfolding run_operation_def
    by (auto split: sum.split intro!: keeps_bind tool terminal)
  show ?thesis
    unfolding execute_def
    by (intro keeps_bind keeps_if auth approval op) simp
qed

text \<open>The firewall works on a given store.\<close>

definition on_store ::
  "('e, 's) firewall \<Rightarrow> ('e, 's) reserve_op \<Rightarrow> ('e \<Rightarrow> 's \<Rightarrow> (exc, usage) result) \<Rightarrow> bool" where
  "on_store f rs us = (f_reserve f = rs \<and> f_usage f = us)"

text \<open>The approver consents.\<close>

definition consents :: "('e, 'r) call_env \<Rightarrow> bool" where
  "consents ce =
     (ce_approver ce = Some (ReplyBool True) \<or>
      ce_async ce \<and> ce_approver ce = Some (ReplyAwaitable (Inr True)))"

lemma finish_approval_denied: "finish_approval f ac c d False w \<noteq> (Inr (), w')"
  by (auto simp: finish_approval_def bindS_def raiseS_def Let_def split: prod.splits sum.splits)

lemma approve_consents: "approve f ce c d w = (Inr (), w') \<Longrightarrow> consents ce"
  by (auto simp: approve_def consents_def bindS_def raiseS_def ask_approver_def finish_approval_denied
      split: option.splits approver_reply.splits sum.splits if_splits)
     (metis finish_approval_denied)+

context state_store begin

lemma reserve_mono:
  assumes "inv s" "cost_ok None (tc_cost c)"
  shows "u_tool_calls (abs s) \<le> u_tool_calls (abs (snd (reserve env p c a s)))"
  using reserve_ok [OF assms, of env p a] reserve_error [OF assms, of env p a]
  by (cases "reserve env p c a s"; cases "fst (reserve env p c a s)")
     (fastforce elim!: usage_record_cases split: if_splits)+

lemma run_mono:
  "inv s \<Longrightarrow> requests_ok reqs \<Longrightarrow>
     inv (run_requests reserve p reqs s) \<and>
     u_tool_calls (abs s) \<le> u_tool_calls (abs (run_requests reserve p reqs s))"
proof (induction reqs arbitrary: s)
  case (Cons req reqs)
  obtain env c a where req: "req = (env, c, a)" by (cases req)
  with Cons.prems have c: "cost_ok None (tc_cost c)" "requests_ok reqs"
    by (simp_all add: requests_ok_def)
  from Cons.IH [OF reserve_inv [OF Cons.prems(1) c(1)] c(2), of env p a]
    reserve_mono [OF Cons.prems(1) c(1), of env p a] req
  show ?case by simp
qed simp

text \<open>The firewall on this store keeps its budgets, and counts every reservation.\<close>

lemma within_stable:
  assumes f: "on_store f reserve usage_of" and p: "policy_ok (f_policy f)" and c: "cost_ok None (tc_cost c)"
  shows "stable f c (\<lambda>w. inv (w_store w) \<and> within_budget (f_policy f) (abs (w_store w)))"
proof -
  have run: "inv (snd (reserve env (f_policy f) c a s)) \<and>
      within_budget (f_policy f) (abs (snd (reserve env (f_policy f) c a s)))"
    if "inv s" "within_budget (f_policy f) (abs s)" for env a s
    using reserve_inv [OF that(1) c] reserve_within [OF that(1) c p that(2)] by blast
  show ?thesis
    unfolding stable_def
    using f run run_within p
    by (auto simp: keeps_def reserve_step_def on_store_def others_def log_effect_def
        split: prod.split sum.split) (metis snd_conv)+
qed

lemma count_stable:
  assumes f: "on_store f reserve usage_of" and c: "cost_ok None (tc_cost c)"
  shows "stable f c (\<lambda>w. inv (w_store w) \<and>
    k + reservations (w_effects w) \<le> u_tool_calls (abs (w_store w)))"
proof -
  let ?P = "\<lambda>w :: 's world. inv (w_store w) \<and> k + reservations (w_effects w) \<le> u_tool_calls (abs (w_store w))"
  have "keeps ?P (reserve_step f ac c a)" for ac a
    unfolding keeps_def
  proof (intro allI impI)
    fix w
    assume P: "?P w"
    let ?s = "w_store w"
    obtain r s' where rs: "reserve (ac_db ac) (f_policy f) c a ?s = (r, s')" by fastforce
    have inv': "inv s'" and mono: "u_tool_calls (abs ?s) \<le> u_tool_calls (abs s')"
      using reserve_inv [of ?s c "ac_db ac" "f_policy f" a] reserve_mono [of ?s c "ac_db ac" "f_policy f" a]
        P c rs by auto
    show "?P (snd (reserve_step f ac c a w))"
    proof (cases r)
      case (Inl e)
      then show ?thesis using P inv' mono rs f by (simp add: reserve_step_def on_store_def)
    next
      case (Inr du)
      then obtain d u where du: "r = Inr (d, u)" by (cases du) auto
      have "u_tool_calls (abs s') = u_tool_calls (abs ?s) + (if reserves_usage d a then 1 else 0)"
        using reserve_counts [of ?s c "ac_db ac" "f_policy f" a d u s'] P c rs du by simp
      then show ?thesis
        using P inv' rs f du
        by (simp add: reserve_step_def on_store_def log_effect_def reservations_snoc)
    qed
  qed
  moreover have "?P (others f mw w)" if "requests_ok (mw_requests mw)" "?P w" for mw w
    using run_mono [of "w_store w" "mw_requests mw" "f_policy f"] that f
    by (auto simp: others_def on_store_def)
  ultimately show ?thesis by (auto simp: stable_def)
qed

lemma execute_within:
  assumes "on_store f reserve usage_of" "policy_ok (f_policy f)" "cost_ok None (tc_cost c)" "env_requests_ok ce"
    "inv (w_store w)" "within_budget (f_policy f) (abs (w_store w))" "execute f ce c w = (r, w')"
  shows "inv (w_store w')" "within_budget (f_policy f) (abs (w_store w'))"
  using execute_keeps [OF within_stable [OF assms(1,2,3)] assms(4)] assms(5,6,7)
  unfolding keeps_def by (metis snd_conv)+

lemma execute_counts:
  assumes "on_store f reserve usage_of" "cost_ok None (tc_cost c)" "env_requests_ok ce" "inv (w_store w)"
    "execute f ce c w = (r, w')"
  shows "u_tool_calls (abs (w_store w)) + reservations (w_effects w') - reservations (w_effects w)
    \<le> u_tool_calls (abs (w_store w'))"
proof -
  let ?k = "u_tool_calls (abs (w_store w)) - reservations (w_effects w)"
  from execute_keeps [OF count_stable [OF assms(1,2), of ?k] assms(3)] assms(4,5)
  have "?k + reservations (w_effects w') \<le> u_tool_calls (abs (w_store w'))"
    unfolding keeps_def by (metis (no_types, lifting) add_diff_cancel diff_add_cancel order_refl snd_conv)
  then show ?thesis by linarith
qed

text \<open>A call the policy blocks: nothing runs and nothing is counted.\<close>

lemma execute_blocked:
  assumes f: "on_store f reserve usage_of" and s: "inv (w_store w)" and c: "cost_ok None (tc_cost c)"
    and block: "evaluate (f_policy f) c (abs (w_store w)) = Inr d" "d_kind d = BLOCK"
    and run: "execute f ce c w = (r, w')"
  shows "abs (w_store w') = abs (w_store w)" "EToolRan \<notin> set (new_effects w w')"
    "r = Inl (ToolCallBlocked (d_reason d) c d) \<or>
       (\<exists>e. r = Inl e \<and> (is_storage_error e \<or> new_effects w w' = []))"
proof -
  let ?ac = "ce_authorize ce"
  have res: "\<not> reserves_usage d False" using block(2) by (simp add: reserves_usage_def)
  obtain q s' where q: "reserve (ac_db ?ac) (f_policy f) c False (w_store w) = (q, s')" by fastforce
  have "abs (w_store w') = abs (w_store w) \<and> EToolRan \<notin> set (new_effects w w') \<and>
    (r = Inl (ToolCallBlocked (d_reason d) c d) \<or>
       (\<exists>e. r = Inl e \<and> (is_storage_error e \<or> new_effects w w' = [])))"
  proof (cases q)
    case (Inl e)
    have "abs s' = abs (w_store w)"
      using reserve_error [OF s c q [unfolded Inl]] block(1) res by auto
    with run q Inl f show ?thesis
      by (auto simp: execute_def authorize_def reserve_step_def on_store_def bindS_def new_effects_def)
  next
    case (Inr du)
    then obtain d' u where du: "q = Inr (d', u)" by (cases du) auto
    from reserve_ok [OF s c q [unfolded du]] block(1) res
    have d': "d' = d" "abs s' = abs (w_store w)" by auto
    let ?w1 = "log_effect (EReserved False d) (w\<lparr>w_store := s'\<rparr>)"
    obtain a w2 where a: "audit_step f ?ac ''blocked'' c d None (Some u) ?w1 = (a, w2)" by fastforce
    note eff = audit_step_effects [OF a]
    have r: "w' = w2" "r = (case a of Inl e \<Rightarrow> Inl e | Inr _ \<Rightarrow> Inl (ToolCallBlocked (d_reason d) c d))"
      using run q du f d' a block(2)
      by (auto simp: execute_def authorize_def reserve_step_def on_store_def bindS_def raiseS_def
          split: sum.splits)
    have err: "is_storage_error e" if "a = Inl e" for e
      using a that by (auto simp: audit_step_def audit_record_def split: option.splits sum.splits prod.splits
          dest!: audit_append_error)
    have "w_store w' = s'" using eff(1) r(1) by (simp add: log_effect_def)
    moreover have "EToolRan \<notin> set (new_effects w w')"
      using eff(2,3) r(1) by (cases a) (auto simp: new_effects_def log_effect_def)
    ultimately show ?thesis
      using d'(2) r(2) err by (cases a) auto
  qed
  then show "abs (w_store w') = abs (w_store w)" "EToolRan \<notin> set (new_effects w w')"
    "r = Inl (ToolCallBlocked (d_reason d) c d) \<or>
       (\<exists>e. r = Inl e \<and> (is_storage_error e \<or> new_effects w w' = []))" by blast+
qed

lemma run_calls_within:
  assumes "on_store f reserve usage_of" "policy_ok (f_policy f)"
    "list_all (\<lambda>(ce, c). env_requests_ok ce \<and> cost_ok None (tc_cost c)) calls"
    "inv (w_store w)" "within_budget (f_policy f) (abs (w_store w))"
  shows "inv (w_store (run_calls f calls w)) \<and>
    within_budget (f_policy f) (abs (w_store (run_calls f calls w)))"
  using assms(3-5)
proof (induction calls arbitrary: w)
  case (Cons x calls)
  obtain ce c where x: "x = (ce, c)" by fastforce
  obtain r w' where run: "execute f ce c w = (r, w')" by fastforce
  from Cons.prems x have c: "cost_ok None (tc_cost c)" "env_requests_ok ce" by simp_all
  from execute_within [OF assms(1,2) c Cons.prems(2,3) run] Cons.IH [of w'] Cons.prems(1) x run
  show ?case by simp
qed simp

text \<open>A call the policy refers to a human runs only with consent.\<close>

lemma execute_consent:
  assumes f: "on_store f reserve usage_of" and q: "quiet f c" and s: "inv (w_store w)"
    and c: "cost_ok None (tc_cost c)"
    and ev: "evaluate (f_policy f) c (abs (w_store w)) = Inr d" "d_kind d = REQUIRE_APPROVAL"
    and run: "execute f ce c w = (r, w')" and ran: "EToolRan \<in> set (new_effects w w')"
  shows "consents ce"
proof (rule ccontr)
  assume no: "\<not> consents ce"
  obtain a w1 where a: "authorize f (ce_authorize ce) c w = (a, w1)" by fastforce
  obtain ph1 where ph1: "at_phase (audited f) ph1 w w1" "\<And>e. a = Inl e \<Longrightarrow> before_run True e ph1"
      "\<And>x. a = Inr x \<Longrightarrow> d_kind x \<noteq> BLOCK \<and> ph1 = after_decision x"
    using movesD [OF authorize_moves [OF q] at_phase_start a] by blast
  have stop: "\<not> ran ph" if "at_phase (audited f) ph w w'" "before_run True e ph" for ph e
    using that(2) by (simp add: before_run_def)
  have False if "at_phase (audited f) ph w w'" "\<not> ran ph" for ph
  proof -
    from that(1) have "accepts (audited f) PhStart (new_effects w w') = Some ph"
      by (auto simp: at_phase_def new_effects_def)
    from accepts_not_ran [OF this that(2)] ran show False by simp
  qed
  note no_run = this
  show False
  proof (cases a)
    case (Inl e)
    then have "w' = w1" using run a by (auto simp: execute_def bindS_def)
    then show ?thesis using no_run [of ph1] ph1 stop Inl by blast
  next
    case (Inr x)
    obtain u s' where res: "reserve (ac_db (ce_authorize ce)) (f_policy f) c False (w_store w)
        = (Inr (x, u), s')"
      using a Inr f by (auto simp: authorize_def bindS_def reserve_step_def on_store_def returnS_def
          raiseS_def split: prod.splits sum.splits if_splits)
    have x: "x = d" using reserve_ok [OF s c res] ev(1) by simp
    obtain b w2 where b: "approve f ce c d w1 = (b, w2)" by fastforce
    have "\<exists>e. b = Inl e" using approve_consents [of f ce c d w1 w2] b no by (cases b) auto
    then obtain e where e: "b = Inl e" by blast
    have w': "w' = w2" using run a Inr x b e ev(2) by (auto simp: execute_def bindS_def)
    have waiting: "at_phase (audited f) (PhWaiting d) w w1"
      using ph1(1) ph1(3) [OF Inr] x ev(2) by (simp add: after_decision_def)
    obtain ph2 where ph2: "at_phase (audited f) ph2 w w2" "\<And>e. b = Inl e \<Longrightarrow> before_run True e ph2"
      by (rule movesD [OF approve_moves [OF q] waiting b]) blast
    from ph2(1) ph2(2) [OF e] show ?thesis using no_run [of ph2] stop [of ph2 e] w' by simp
  qed
qed

lemma store_quiet:
  assumes "on_store f reserve usage_of" "policy_ok (f_policy f)" "call_values_ok c"
  shows "quiet f c"
  using assms reserve_audit_error usage_audit_error
  unfolding quiet_def on_store_def by (metis evaluate_error exc.distinct)

end

section \<open>Both stores\<close>

lemma memory_on_store:
  "on_store (memory_firewall p audit) (\<lambda>_. mem_evaluate_and_reserve) (\<lambda>_. mem_usage)"
  by (simp add: on_store_def memory_firewall_def)

lemma sqlite_on_store:
  "on_store (sqlite_firewall p path audit) (sqlite_evaluate_and_reserve path) (sqlite_usage path)"
  by (simp add: on_store_def sqlite_firewall_def)

lemma firewall_fields [simp]:
  "f_policy (memory_firewall p audit) = p" "f_policy (sqlite_firewall p path audit) = p"
  "audited (memory_firewall p audit) = (audit \<noteq> None)"
  "audited (sqlite_firewall p path audit) = (audit \<noteq> None)"
  by (simp_all add: memory_firewall_def sqlite_firewall_def audited_def)

lemma memory_quiet: "policy_ok p \<Longrightarrow> call_values_ok c \<Longrightarrow> quiet (memory_firewall p audit) c"
  by (rule mem.store_quiet [OF memory_on_store]) simp_all

lemma sqlite_quiet: "policy_ok p \<Longrightarrow> call_values_ok c \<Longrightarrow> quiet (sqlite_firewall p path audit) c"
  by (rule sqlite.store_quiet [OF sqlite_on_store]) simp_all

lemma run_trace_reservations: "run_trace au t \<Longrightarrow> 1 \<le> reservations t"
  by (auto simp: run_trace_def reservations_def line_def reserves_usage_def)

lemma new_effects_reservations:
  "quiet f c \<Longrightarrow> execute f ce c w = (r, w') \<Longrightarrow>
     reservations (w_effects w') = reservations (w_effects w) + reservations (new_effects w w')"
proof -
  assume "quiet f c" "execute f ce c w = (r, w')"
  then obtain ph where "at_phase (audited f) ph w w'"
    using movesD [OF execute_moves at_phase_start] by blast
  then obtain t where "w_effects w' = w_effects w @ t" by (auto simp: at_phase_def)
  then show ?thesis by (simp add: new_effects_def reservations_def)
qed

section \<open>Properties\<close>

text \<open>Environments of the instances: everything works and the tool returns 7.\<close>

definition calm :: "'e \<Rightarrow> 'e access" where
  "calm env = \<lparr>ac_db = env, ac_disk = DiskOk, ac_time = ''t''\<rparr>"

definition alone :: "'e meanwhile" where
  "alone = \<lparr>mw_requests = [], mw_log = []\<rparr>"

definition calm_env :: "'e \<Rightarrow> approver_reply option \<Rightarrow> ('e, nat) call_env" where
  "calm_env env reply =
     \<lparr>ce_async = False, ce_authorize = calm env, ce_approver = reply, ce_while_approver = alone,
      ce_approval = calm env, ce_operation = OpReturns 7, ce_while_tool = alone,
      ce_terminal = calm env\<rparr>"

lemma calm_env_ok: "env_requests_ok (calm_env env reply)"
  by (simp add: env_requests_ok_def calm_env_def alone_def requests_ok_def)

lemmas run_simps = new_effects_def calm_env_def calm_def alone_def usage_record_def get_count_def
  dec_fix_def scale_to_def PyDecimal.signed_def dec_zero_def sample_policy_def read_call_def
  deploy_call_def other_call_def

text \<open>C1: complete mediation. When a call of any firewall runs the tool, whatever
  the state store, the disk, the approver, the tool and concurrent calls do, then before the run the
  policy's decision was reserved and was an allow, or it was a require-approval, the approver was
  asked, and a second evaluation that did not block reserved the usage; with an audit log the
  matching lines were written before the run; and the tool ran once.\<close>

theorem tool_run_mediated:
  assumes "execute f ce c w = (r, w')" "EToolRan \<in> set (new_effects w w')"
  shows "run_trace (audited f) (new_effects w w')"
proof -
  obtain ph where "accepts (audited f) PhStart (new_effects w w') = Some ph"
    using execute_accepted [OF assms(1)] .
  then show ?thesis
    using accepts_not_ran accepts_run_trace assms(2) by blast
qed

theorem tool_run_mediated_witness:
  "run_trace False (new_effects (start_world (sqlite_initialize new_db))
     (snd (execute (sqlite_firewall sample_policy ''s'' None) (calm_env DbOk (Some (ReplyBool True)))
        deploy_call (start_world (sqlite_initialize new_db)))))"
proof -
  let ?w = "start_world (sqlite_initialize new_db)"
  let ?run = "execute (sqlite_firewall sample_policy ''s'' None)
    (calm_env DbOk (Some (ReplyBool True))) deploy_call ?w"
  have "EToolRan \<in> set (new_effects ?w (snd ?run))"
    by (simp add: evals run_simps)
  from tool_run_mediated [OF surjective_pairing this]
  show ?thesis by simp
qed

text \<open>The flag of an audit failure is exact. When a call of a firewall raises an
  \<open>AuditWriteError\<close>, its \<open>after_execution\<close> flag is true exactly when the tool was run, whatever
  failed and whoever else used the store and the log.\<close>

theorem audit_error_flag_exact:
  assumes "policy_from_dict raw = Inr p" "call_values_ok c"
    "execute (memory_firewall p audit) ce c w = (Inl (AuditWriteError m after), w')"
  shows "after \<longleftrightarrow> EToolRan \<in> set (new_effects w w')"
  using execute_tool_ran(3) [OF memory_quiet [OF policy_from_dict_ok [OF assms(1)] assms(2)] assms(3)]
  by simp

definition failing_end :: "(unit, nat) call_env" where
  "failing_end = (calm_env () None)\<lparr>ce_terminal := \<lparr>ac_db = (), ac_disk = DiskUnavailable, ac_time = ''t''\<rparr>\<rparr>"

theorem audit_error_flag_exact_witness:
  "EToolRan \<in> set (new_effects (start_world empty_usage)
     (snd (execute (memory_firewall sample_policy (Some ''a'')) failing_end read_call
       (start_world empty_usage))))"
proof -
  let ?run = "execute (memory_firewall sample_policy (Some ''a'')) failing_end read_call
    (start_world empty_usage)"
  have r: "fst ?run = Inl (AuditWriteError ''could not append firewall audit record to a'' True)"
    by (simp add: evals run_simps failing_end_def)
  then have "?run = (Inl (AuditWriteError ''could not append firewall audit record to a'' True), snd ?run)"
    by (metis prod.collapse)
  from audit_error_flag_exact [OF sample_policy_loads sample_calls_ok(1) this] show ?thesis by simp
qed

text \<open>C3: budgets hold. From a fresh SQLite file, after any sequence of calls of the firewall with
  an accepted policy, each under any behaviour of the database, the disk, the approver, the tool
  and concurrent calls, no counter exceeds its limit and the cost does not exceed the cost budget.\<close>

theorem sqlite_budgets_hold:
  assumes "policy_from_dict raw = Inr p"
    "list_all (\<lambda>(ce, c). env_requests_ok ce \<and> cost_ok None (tc_cost c)) calls"
  shows "within_budget p (sqlite_abs (w_store
    (run_calls (sqlite_firewall p path audit) calls (start_world (sqlite_initialize new_db)))))"
proof -
  have ok: "policy_ok p" by (rule policy_from_dict_ok [OF assms(1)])
  show ?thesis
    using sqlite.run_calls_within [OF sqlite_on_store, of p path audit calls
        "start_world (sqlite_initialize new_db)"] ok assms(2) sqlite_new_inv
      empty_within_budget [OF ok]
    by (simp add: start_world_def)
qed

theorem sqlite_budgets_hold_witness:
  "within_budget sample_policy (sqlite_abs (w_store
    (run_calls (sqlite_firewall sample_policy ''s'' None)
      [(calm_env DbOk None, read_call), (calm_env DbOk None, read_call), (calm_env DbOk None, read_call)]
      (start_world (sqlite_initialize new_db)))))"
  by (rule sqlite_budgets_hold [OF sample_policy_loads]) (simp add: calm_env_ok sample_calls_ok)

text \<open>The same for a firewall with the memory store.\<close>

theorem memory_budgets_hold:
  assumes "policy_from_dict raw = Inr p"
    "list_all (\<lambda>(ce, c). env_requests_ok ce \<and> cost_ok None (tc_cost c)) calls"
  shows "within_budget p (w_store
    (run_calls (memory_firewall p audit) calls (start_world empty_usage)))"
proof -
  have ok: "policy_ok p" by (rule policy_from_dict_ok [OF assms(1)])
  show ?thesis
    using mem.run_calls_within [OF memory_on_store, of p audit calls "start_world empty_usage"]
      ok assms(2) empty_within_budget [OF ok]
    by (simp add: start_world_def mem_inv_def empty_usage_def)
qed

theorem memory_budgets_hold_witness:
  "within_budget sample_policy (w_store
    (run_calls (memory_firewall sample_policy None)
      [(calm_env () None, read_call), (calm_env () None, deploy_call)] (start_world empty_usage)))"
  by (rule memory_budgets_hold [OF sample_policy_loads]) (simp add: calm_env_ok sample_calls_ok)

text \<open>C9: a call the policy blocks has no effect. The stored usage stays as it is, the tool does not
  run, and the call raises \<open>ToolCallBlocked\<close> with the decision's reason, or a storage error, or the
  store's own exception before anything happened.\<close>

theorem blocked_call_no_effect:
  assumes "sqlite_inv (w_store w)" "cost_ok None (tc_cost c)"
    "evaluate p c (sqlite_abs (w_store w)) = Inr d" "d_kind d = BLOCK"
    "execute (sqlite_firewall p path audit) ce c w = (r, w')"
  shows "sqlite_abs (w_store w') = sqlite_abs (w_store w) \<and> EToolRan \<notin> set (new_effects w w') \<and>
    (r = Inl (ToolCallBlocked (d_reason d) c d) \<or>
     (\<exists>e. r = Inl e \<and> (is_storage_error e \<or> new_effects w w' = [])))"
  using sqlite.execute_blocked [OF sqlite_on_store assms(1,2) _ assms(4,5)] assms(3) by simp

theorem blocked_call_no_effect_witness:
  "EToolRan \<notin> set (new_effects (start_world (sqlite_initialize new_db))
     (snd (execute (sqlite_firewall sample_policy ''s'' (Some ''a'')) (calm_env DbOk None) other_call
       (start_world (sqlite_initialize new_db)))))"
proof -
  let ?w = "start_world (sqlite_initialize new_db) :: sqlite_db world"
  have "sqlite_inv (w_store ?w)" "sqlite_abs (w_store ?w) = empty_usage"
    using sqlite_new_inv by (simp_all add: start_world_def)
  moreover have "d_kind (default_decision_of sample_policy) = BLOCK"
    by (simp add: default_decision_of_def sample_policy_def)
  ultimately show ?thesis
    using blocked_call_no_effect [of ?w other_call sample_policy "default_decision_of sample_policy"
        "''s''" "Some ''a''" "calm_env DbOk None"] sample_decisions(3) sample_calls_ok(6)
    by (metis prod.collapse)
qed

text \<open>A tool that ran was counted. Whatever else happened, the number of calls in the store grew
  by at least one; in particular a call that is run under an approval is charged at the moment of
  the approval.\<close>

theorem tool_run_counted:
  assumes "policy_from_dict raw = Inr p" "call_values_ok c" "cost_ok None (tc_cost c)"
    "env_requests_ok ce" "mem_inv (w_store w)"
    "execute (memory_firewall p audit) ce c w = (r, w')" "EToolRan \<in> set (new_effects w w')"
  shows "u_tool_calls (w_store w) + 1 \<le> u_tool_calls (w_store w')"
proof -
  have q: "quiet (memory_firewall p audit) c"
    by (rule memory_quiet [OF policy_from_dict_ok [OF assms(1)] assms(2)])
  have "1 \<le> reservations (new_effects w w')"
    by (rule run_trace_reservations [OF execute_tool_ran(1) [OF q assms(6,7)]])
  then show ?thesis
    using mem.execute_counts [OF memory_on_store assms(3,4,5,6)] new_effects_reservations [OF q assms(6)]
    by linarith
qed

theorem tool_run_counted_witness:
  "u_tool_calls empty_usage + 1 \<le> u_tool_calls (w_store (snd
     (execute (memory_firewall sample_policy None) (calm_env () None) read_call
       (start_world empty_usage))))"
proof -
  let ?w = "start_world empty_usage :: usage world"
  let ?run = "execute (memory_firewall sample_policy None) (calm_env () None) read_call ?w"
  have ran: "EToolRan \<in> set (new_effects ?w (snd ?run))" by (simp add: evals run_simps)
  have inv: "mem_inv (w_store ?w)" by (simp add: start_world_def mem_inv_def empty_usage_def)
  from tool_run_counted [OF sample_policy_loads sample_calls_ok(1,4) calm_env_ok inv
      surjective_pairing ran]
  show ?thesis by (simp add: start_world_def)
qed

text \<open>C10: no consent, no run. When the policy refers a call to a human, the tool runs only if the
  approver answered yes: no approver, a denial, an exception of the approver and an answer of the
  wrong kind all prevent it.\<close>

theorem run_needs_consent:
  assumes "policy_from_dict raw = Inr p" "call_values_ok c" "cost_ok None (tc_cost c)"
    "sqlite_inv (w_store w)" "evaluate p c (sqlite_abs (w_store w)) = Inr d"
    "d_kind d = REQUIRE_APPROVAL"
    "execute (sqlite_firewall p path audit) ce c w = (r, w')" "EToolRan \<in> set (new_effects w w')"
  shows "consents ce"
  using sqlite.execute_consent [OF sqlite_on_store sqlite_quiet [OF policy_from_dict_ok [OF assms(1)]
      assms(2)] assms(4,3) _ assms(6,7,8)] assms(5) by simp

theorem run_needs_consent_witness:
  "consents (calm_env DbOk (Some (ReplyBool True)) :: (db_outcome, nat) call_env)"
proof -
  let ?w = "start_world (sqlite_initialize new_db) :: sqlite_db world"
  let ?d = "rule_decision 1 (p_rules sample_policy ! 1)"
  let ?run = "execute (sqlite_firewall sample_policy ''s'' None)
    (calm_env DbOk (Some (ReplyBool True))) deploy_call ?w"
  have w: "sqlite_inv (w_store ?w)" "sqlite_abs (w_store ?w) = empty_usage"
    using sqlite_new_inv by (simp_all add: start_world_def)
  have ev: "evaluate sample_policy deploy_call (sqlite_abs (w_store ?w)) = Inr ?d"
    using sample_decisions(2) w(2) by simp
  have kind: "d_kind ?d = REQUIRE_APPROVAL" by (simp add: sample_policy_def rule_decision_def)
  have "EToolRan \<in> set (new_effects ?w (snd ?run))" by (simp add: evals run_simps)
  from run_needs_consent [OF sample_policy_loads sample_calls_ok(2,5) w(1) ev kind
      surjective_pairing this]
  show ?thesis .
qed

end
