(* ===== verification/CallBinding.thy ===== *)
theory CallBinding
  imports FirewallCore
begin

text \<open>
  \<open>firewall.py\<close>, the entry points that take a Python callable: \<open>_call_arguments\<close> resolves a call's
  positional and keyword arguments to parameter names before the policy sees them, \<open>call\<close> and
  \<open>acall\<close> build the tool call from them, and \<open>wrap\<close> makes the guarded callable. The signature of a
  tool is its list of parameters, as \<open>inspect.signature\<close> gives it; binding follows
  \<open>Signature.bind_partial\<close> and \<open>BoundArguments.apply_defaults\<close> of the standard library.
  Result: for every call Python accepts, the policy sees each parameter under its name with the value
  the tool receives, unless a keyword collected by \<open>**kwargs\<close> has the name of a positional-only
  parameter or one of the names is \<open>_args\<close>.
\<close>

section \<open>Signatures and callables\<close>

datatype param_kind =
    POSITIONAL_ONLY
  | POSITIONAL_OR_KEYWORD
  | VAR_POSITIONAL
  | KEYWORD_ONLY
  | VAR_KEYWORD

record param =
  pa_name :: string
  pa_kind :: param_kind
  pa_default :: "pyval option"

text \<open>\<open>Tool None\<close> is a callable without an inspectable signature; \<open>Partial\<close> is \<open>functools.partial\<close>
  with the arguments and keywords it binds.\<close>

datatype callable =
    Tool "param list option"
  | Partial callable "pyval list" pydict

definition positional :: "param \<Rightarrow> bool" where
  "positional p = (pa_kind p = POSITIONAL_ONLY \<or> pa_kind p = POSITIONAL_OR_KEYWORD)"

definition by_keyword :: "param \<Rightarrow> bool" where
  "by_keyword p = (pa_kind p = POSITIONAL_OR_KEYWORD \<or> pa_kind p = KEYWORD_ONLY)"

definition named :: "param \<Rightarrow> bool" where
  "named p = (pa_kind p \<noteq> VAR_POSITIONAL \<and> pa_kind p \<noteq> VAR_KEYWORD)"

text \<open>\<open>{**d, **e}\<close> and \<open>d.update(e)\<close>.\<close>

definition dict_update :: "('k \<times> 'v) list \<Rightarrow> ('k \<times> 'v) list \<Rightarrow> ('k \<times> 'v) list" where
  "dict_update d e = foldl (\<lambda>d' (k, v). dict_set d' k v) d e"

section \<open>Signature.bind_partial and apply\_defaults\<close>

text \<open>The positional phase: the arguments bound so far, and the parameters left for the keyword
  phase. The last three branches of the library for a parameter without a positional argument (it
  has a default, it collects keywords, or the binding is partial) are one.\<close>

fun bind_positional ::
  "param list \<Rightarrow> pyval list \<Rightarrow> pydict \<Rightarrow> pydict \<Rightarrow> (exc, pydict \<times> param list) result" where
  "bind_positional [] [] kw acc = Return (acc, [])"
| "bind_positional (p # ps) [] kw acc =
     (if pa_kind p = VAR_POSITIONAL then Return (acc, ps)
      else if dict_has kw (pa_name p) \<and> pa_kind p = POSITIONAL_ONLY
      then Raise (TypeError ''parameter is positional only, but was passed as a keyword'')
      else Return (acc, p # ps))"
| "bind_positional [] (v # vs) kw acc = Raise (TypeError ''too many positional arguments'')"
| "bind_positional (p # ps) (v # vs) kw acc =
     (if pa_kind p = VAR_KEYWORD \<or> pa_kind p = KEYWORD_ONLY
      then Raise (TypeError ''too many positional arguments'')
      else if pa_kind p = VAR_POSITIONAL then Return (dict_set acc (pa_name p) (PTuple (v # vs)), ps)
      else if dict_has kw (pa_name p) \<and> pa_kind p \<noteq> POSITIONAL_ONLY
      then Raise (TypeError ''multiple values for argument'')
      else bind_positional ps vs kw (dict_set acc (pa_name p) v))"

definition dict_pop :: "('k \<times> 'v) list \<Rightarrow> 'k \<Rightarrow> ('k \<times> 'v) list" where
  "dict_pop d k = filter (\<lambda>(k', v). k' \<noteq> k) d"

text \<open>The keyword phase: the keywords nobody has taken yet, the parameter that collects them, and
  the arguments bound so far.\<close>

fun bind_keywords ::
  "param list \<Rightarrow> pydict \<Rightarrow> string option \<Rightarrow> pydict \<Rightarrow> (exc, pydict) result" where
  "bind_keywords [] kw collector acc =
     (if kw = [] then Return acc
      else case collector of
             None \<Rightarrow> Raise (TypeError ''got an unexpected keyword argument'')
           | Some n \<Rightarrow> Return (dict_set acc n (PDict kw)))"
| "bind_keywords (p # ps) kw collector acc =
     (if pa_kind p = VAR_KEYWORD then bind_keywords ps kw (Some (pa_name p)) acc
      else if pa_kind p = VAR_POSITIONAL then bind_keywords ps kw collector acc
      else case map_of kw (pa_name p) of
             None \<Rightarrow> bind_keywords ps kw collector acc
           | Some v \<Rightarrow>
               if pa_kind p = POSITIONAL_ONLY
               then Raise (TypeError ''parameter is positional only, but was passed as a keyword'')
               else bind_keywords ps (dict_pop kw (pa_name p)) collector
                      (dict_set acc (pa_name p) v))"

definition bind_partial :: "param list \<Rightarrow> pyval list \<Rightarrow> pydict \<Rightarrow> (exc, pydict) result" where
  "bind_partial ps args kw =
     bindR (bind_positional ps args kw []) (\<lambda>(acc, rest). bind_keywords rest kw None acc)"

definition applied_default :: "pydict \<Rightarrow> param \<Rightarrow> pydict" where
  "applied_default d p =
     (case map_of d (pa_name p) of
        Some v \<Rightarrow> [(pa_name p, v)]
      | None \<Rightarrow>
          (case pa_default p of
             Some v \<Rightarrow> [(pa_name p, v)]
           | None \<Rightarrow>
               if pa_kind p = VAR_POSITIONAL then [(pa_name p, PTuple [])]
               else if pa_kind p = VAR_KEYWORD then [(pa_name p, PDict [])]
               else []))"

definition apply_defaults :: "param list \<Rightarrow> pydict \<Rightarrow> pydict" where
  "apply_defaults ps d = concat (map (applied_default d) ps)"

section \<open>\_call\_arguments\<close>

text \<open>One round of the last loop, over a bound argument with its parameter's kind.\<close>

definition merge_argument :: "param list \<Rightarrow> pydict \<Rightarrow> string \<times> pyval \<Rightarrow> pydict" where
  "merge_argument ps arguments nv =
     (case nv of (n, v) \<Rightarrow>
        (case map_option pa_kind (find (\<lambda>p. pa_name p = n) ps) of
           Some VAR_POSITIONAL \<Rightarrow>
             (case v of
                PTuple vs \<Rightarrow> if vs = [] then arguments else dict_set arguments ''_args'' (PList vs)
              | _ \<Rightarrow> arguments)
         | Some VAR_KEYWORD \<Rightarrow>
             (case v of PDict d \<Rightarrow> dict_update arguments d | _ \<Rightarrow> arguments)
         | _ \<Rightarrow> dict_set arguments n v))"

fun call_arguments :: "callable \<Rightarrow> pyval list \<Rightarrow> pydict \<Rightarrow> pydict" where
  "call_arguments (Partial f fargs fkw) args kw =
     call_arguments f (fargs @ args) (dict_update fkw kw)"
| "call_arguments (Tool sig) args kw =
     (case (case sig of None \<Rightarrow> Raise (ValueError ''no signature found'') | Some ps \<Rightarrow>
              bindR (bind_partial ps args kw) (\<lambda>d. Return (ps, apply_defaults ps d))) of
        Inl _ \<Rightarrow> if args \<noteq> [] then dict_set kw ''_args'' (PList args) else kw
      | Inr (ps, d) \<Rightarrow> foldl (merge_argument ps) [] d)"

section \<open>The entry points\<close>

text \<open>\<open>tool(*args, **kwargs)\<close> is the parameter \<open>apply\<close>: what calling the tool does.\<close>

definition firewall_call ::
  "('e, 's) firewall \<Rightarrow> ('e, 'r) call_env \<Rightarrow> string \<Rightarrow> pyval \<Rightarrow> callable \<Rightarrow>
     (pyval list \<Rightarrow> pydict \<Rightarrow> 'r outcome) \<Rightarrow> pyval list \<Rightarrow> pydict \<Rightarrow> pyval \<Rightarrow> ('s, 'r) step" where
  "firewall_call f ce new_id nm tool apply args kw cost =
     bindS (liftS (create_call new_id nm (Some (call_arguments tool args kw)) cost))
       (\<lambda>c. execute f (ce\<lparr>ce_operation := apply args kw\<rparr>) c)"

text \<open>The callable \<open>wrap\<close> returns. It passes its keywords on beside its own, so a keyword with the
  name of a parameter of \<open>call\<close> is a \<open>TypeError\<close> of the call expression.\<close>

definition call_parameters :: "string list" where
  "call_parameters = [''self'', ''tool_name'', ''tool'', ''estimated_cost_usd'']"

definition wrap ::
  "('e, 's) firewall \<Rightarrow> bool \<Rightarrow> string \<Rightarrow> pyval \<Rightarrow> callable \<Rightarrow>
     (pyval list \<Rightarrow> pydict \<Rightarrow> 'r outcome) \<Rightarrow> pyval \<Rightarrow>
     ('e, 'r) call_env \<Rightarrow> pyval list \<Rightarrow> pydict \<Rightarrow> ('s, 'r) step" where
  "wrap f coroutine new_id nm tool apply cost ce args kw =
     (if list_ex (dict_has kw) call_parameters
      then raiseS (TypeError ''got multiple values for keyword argument'')
      else firewall_call f (ce\<lparr>ce_async := coroutine\<rparr>) new_id nm tool apply args kw cost)"

section \<open>What Python's own call does\<close>

text \<open>The reference: the value the tool receives for its parameter number \<open>i\<close>, and which calls it
  accepts. Parameters come in the order of their kinds, with distinct names.\<close>

fun kind_rank :: "param_kind \<Rightarrow> nat" where
  "kind_rank POSITIONAL_ONLY = 0"
| "kind_rank POSITIONAL_OR_KEYWORD = 1"
| "kind_rank VAR_POSITIONAL = 2"
| "kind_rank KEYWORD_ONLY = 3"
| "kind_rank VAR_KEYWORD = 4"

definition signature_ok :: "param list \<Rightarrow> bool" where
  "signature_ok ps =
     (distinct (map pa_name ps) \<and> sorted (map (kind_rank \<circ> pa_kind) ps) \<and>
      length (filter (\<lambda>p. pa_kind p = VAR_POSITIONAL) ps) \<le> 1 \<and>
      length (filter (\<lambda>p. pa_kind p = VAR_KEYWORD) ps) \<le> 1 \<and>
      list_all (\<lambda>p. named p \<or> pa_default p = None) ps)"

definition received :: "pyval list \<Rightarrow> pydict \<Rightarrow> nat \<Rightarrow> param \<Rightarrow> pyval option" where
  "received args kw i p =
     (if positional p \<and> i < length args then Some (args ! i)
      else if by_keyword p \<and> dict_has kw (pa_name p) then map_of kw (pa_name p)
      else pa_default p)"

definition collects :: "param_kind \<Rightarrow> param list \<Rightarrow> bool" where
  "collects k ps = list_ex (\<lambda>p. pa_kind p = k) ps"

definition accepts_call :: "param list \<Rightarrow> pyval list \<Rightarrow> pydict \<Rightarrow> bool" where
  "accepts_call ps args kw =
     ((length args \<le> length (filter positional ps) \<or> collects VAR_POSITIONAL ps) \<and>
      list_all (\<lambda>i. by_keyword (ps ! i) \<and> positional (ps ! i) \<and> i < length args \<longrightarrow>
          \<not> dict_has kw (pa_name (ps ! i))) [0..<length ps] \<and>
      list_all (\<lambda>(k, v). collects VAR_KEYWORD ps \<or> list_ex (\<lambda>p. by_keyword p \<and> pa_name p = k) ps) kw \<and>
      list_all (\<lambda>i. named (ps ! i) \<longrightarrow> received args kw i (ps ! i) \<noteq> None) [0..<length ps])"

text \<open>No name has two uses: no keyword is called like a positional-only parameter, and nothing is
  called \<open>_args\<close>.\<close>

definition unmasked :: "param list \<Rightarrow> pydict \<Rightarrow> bool" where
  "unmasked ps kw =
     (list_all (\<lambda>p. pa_kind p = POSITIONAL_ONLY \<longrightarrow> \<not> dict_has kw (pa_name p)) ps \<and>
      \<not> dict_has kw ''_args'' \<and> list_all (\<lambda>p. pa_name p \<noteq> ''_args'') ps)"

section \<open>Dictionaries\<close>

lemma map_of_eqI:
  assumes "\<And>k v. (k, v) \<in> set e \<Longrightarrow> m k = Some v" "\<And>k v. m k = Some v \<Longrightarrow> k \<in> fst ` set e"
  shows "map_of e = m"
proof
  fix k
  show "map_of e k = m k"
  proof (cases "map_of e k")
    case None
    then show ?thesis using assms(2) by (metis map_of_eq_None_iff not_None_eq)
  next
    case (Some v)
    then show ?thesis using assms(1) map_of_SomeD by fastforce
  qed
qed

lemma dict_update_Nil [simp]: "dict_update d [] = d"
  by (simp add: dict_update_def)

lemma dict_update_Cons [simp]: "dict_update d ((k, v) # e) = dict_update (dict_set d k v) e"
  by (simp add: dict_update_def)

lemma dict_update_append: "dict_update d (e @ e') = dict_update (dict_update d e) e'"
  by (simp add: dict_update_def)

lemma map_of_dict_update: "map_of (dict_update d e) = map_of d ++ map_of (rev e)"
proof (induction e arbitrary: d)
  case (Cons kv e)
  then show ?case by (cases kv) (auto simp: map_add_def fun_eq_iff split: option.splits)
qed simp

lemma dict_wf_update: "dict_wf d \<Longrightarrow> dict_wf (dict_update d e)"
  by (induction e arbitrary: d) (auto simp: dict_wf_set)

lemma foldl_update:
  "(\<And>d x. x \<in> set xs \<Longrightarrow> step d x = dict_update d (g x)) \<Longrightarrow>
     foldl step d xs = dict_update d (concat (map g xs))"
  by (induction xs arbitrary: d) (auto simp: dict_update_append)

section \<open>The two phases\<close>

lemma positional_phase:
  assumes "\<forall>p \<in> set A. positional p"
    and "\<And>i. i < length A \<Longrightarrow> i < length vs \<Longrightarrow> by_keyword (A ! i) \<Longrightarrow> \<not> dict_has kw (pa_name (A ! i))"
  shows "bind_positional (A @ B) vs kw acc =
      bind_positional (drop (length vs) A @ B) (drop (length A) vs) kw
        (dict_update acc (zip (map pa_name A) vs))"
  using assms
proof (induction A arbitrary: vs acc)
  case (Cons p A)
  show ?case
  proof (cases vs)
    case (Cons v vs')
    have tail: "\<And>i. i < length A \<Longrightarrow> i < length vs' \<Longrightarrow> by_keyword (A ! i) \<Longrightarrow> \<not> dict_has kw (pa_name (A ! i))"
      using Cons.prems(2) [of "Suc _"] by (simp add: Cons)
    have here: "pa_kind p \<noteq> POSITIONAL_ONLY \<Longrightarrow> \<not> dict_has kw (pa_name p)"
      using Cons.prems(1) Cons.prems(2) [of 0] by (auto simp: Cons positional_def by_keyword_def)
    have "positional p" using Cons.prems(1) by simp
    then show ?thesis
      using Cons.IH [OF _ tail] Cons.prems(1) here by (auto simp: Cons positional_def)
  qed simp
qed simp

lemma positional_phase_ends:
  assumes "\<And>p. p \<in> set R \<Longrightarrow> pa_kind p = POSITIONAL_ONLY \<Longrightarrow> \<not> dict_has kw (pa_name p)"
  shows "bindR (bind_positional R [] kw acc) (\<lambda>(acc', rest). bind_keywords rest kw None acc') =
      bind_keywords R kw None acc"
  using assms by (cases R) auto

definition taken_names :: "param list \<Rightarrow> string set" where
  "taken_names R = pa_name ` set (filter by_keyword R)"

definition leftover :: "param list \<Rightarrow> pydict \<Rightarrow> pydict" where
  "leftover R kw = filter (\<lambda>(k, v). k \<notin> taken_names R) kw"

definition collector_of :: "param list \<Rightarrow> string option \<Rightarrow> string option" where
  "collector_of R c = foldl (\<lambda>c p. if pa_kind p = VAR_KEYWORD then Some (pa_name p) else c) c R"

lemma leftover_Cons:
  "leftover (p # R) kw = (if by_keyword p then leftover R (dict_pop kw (pa_name p)) else leftover R kw)"
  by (auto simp: leftover_def dict_pop_def taken_names_def intro!: filter_cong)

lemma taken_Cons:
  "taken_names (p # R) = (if by_keyword p then insert (pa_name p) (taken_names R) else taken_names R)"
  by (auto simp: taken_names_def)

lemma dict_pop_absent: "map_of kw k = None \<Longrightarrow> dict_pop kw k = kw"
  by (auto simp: dict_pop_def map_of_eq_None_iff filter_id_conv image_iff split_beta)

lemma map_of_dict_pop: "map_of (dict_pop kw k) j = (if j = k then None else map_of kw j)"
  by (induction kw) (auto simp: dict_pop_def)

lemma keyword_phase:
  assumes "distinct (map pa_name R)"
    and "\<And>p. p \<in> set R \<Longrightarrow> pa_kind p = POSITIONAL_ONLY \<Longrightarrow> map_of kw (pa_name p) = None"
    and "leftover R kw \<noteq> [] \<Longrightarrow> collector_of R c \<noteq> None"
    and "\<And>n. collector_of R c = Some n \<Longrightarrow> n \<notin> taken_names R"
  shows "\<exists>d. bind_keywords R kw c acc = Return d \<and>
      (\<forall>k. map_of d k =
         (if leftover R kw \<noteq> [] \<and> collector_of R c = Some k then Some (PDict (leftover R kw))
          else if k \<in> taken_names R \<and> map_of kw k \<noteq> None then map_of kw k
          else map_of acc k))"
  using assms
proof (induction R arbitrary: kw c acc)
  case Nil
  then show ?case by (auto simp: leftover_def collector_of_def taken_names_def)
next
  case (Cons p R)
  have col: "collector_of (p # R) c =
      collector_of R (if pa_kind p = VAR_KEYWORD then Some (pa_name p) else c)"
    by (simp add: collector_of_def)
  have fresh: "pa_name p \<notin> taken_names R" using Cons.prems(1) by (auto simp: taken_names_def)
  consider (keyword) "pa_kind p = VAR_KEYWORD"
    | (other) "pa_kind p = VAR_POSITIONAL \<or> pa_kind p = POSITIONAL_ONLY" | (by_kw) "by_keyword p"
    by (cases "pa_kind p") (auto simp: by_keyword_def)
  then show ?case
  proof cases
    case keyword
    then have skip: "bind_keywords (p # R) kw c acc = bind_keywords R kw (Some (pa_name p)) acc"
      "leftover (p # R) kw = leftover R kw" "taken_names (p # R) = taken_names R"
      "collector_of (p # R) c = collector_of R (Some (pa_name p))"
      by (simp_all add: by_keyword_def leftover_Cons taken_Cons col)
    show ?thesis
      using Cons.prems unfolding skip by (intro Cons.IH) auto
  next
    case other
    then have skip: "bind_keywords (p # R) kw c acc = bind_keywords R kw c acc"
      "leftover (p # R) kw = leftover R kw" "taken_names (p # R) = taken_names R"
      "collector_of (p # R) c = collector_of R c"
      using Cons.prems(2) [of p] by (auto simp: by_keyword_def leftover_Cons taken_Cons col)
    show ?thesis
      using Cons.prems unfolding skip by (intro Cons.IH) auto
  next
  case by_kw
    then have kinds: "pa_kind p \<noteq> VAR_KEYWORD" "pa_kind p \<noteq> VAR_POSITIONAL" "pa_kind p \<noteq> POSITIONAL_ONLY"
      by (auto simp: by_keyword_def)
    show ?thesis
    proof (cases "map_of kw (pa_name p)")
      case None
      then have skip: "bind_keywords (p # R) kw c acc = bind_keywords R kw c acc"
        "leftover (p # R) kw = leftover R kw" "collector_of (p # R) c = collector_of R c"
        using by_kw kinds by (auto simp: leftover_Cons col dict_pop_absent)
      obtain d where d: "bind_keywords R kw c acc = Return d"
        "\<forall>k. map_of d k =
          (if leftover R kw \<noteq> [] \<and> collector_of R c = Some k then Some (PDict (leftover R kw))
           else if k \<in> taken_names R \<and> map_of kw k \<noteq> None then map_of kw k else map_of acc k)"
        using Cons.IH [of kw c acc] Cons.prems by_kw unfolding skip by (auto simp: taken_Cons)
      show ?thesis unfolding skip using d None by_kw by (auto simp: taken_Cons)
    next
      case (Some v)
      have pop: "\<And>q. q \<in> set R \<Longrightarrow> pa_kind q = POSITIONAL_ONLY \<Longrightarrow> map_of (dict_pop kw (pa_name p)) (pa_name q) = None"
        using Cons.prems(2) by (auto simp: map_of_dict_pop)
      obtain d where d: "bind_keywords R (dict_pop kw (pa_name p)) c (dict_set acc (pa_name p) v) = Return d"
        "\<forall>k. map_of d k =
          (if leftover R (dict_pop kw (pa_name p)) \<noteq> [] \<and> collector_of R c = Some k
           then Some (PDict (leftover R (dict_pop kw (pa_name p))))
           else if k \<in> taken_names R \<and> map_of (dict_pop kw (pa_name p)) k \<noteq> None
           then map_of (dict_pop kw (pa_name p)) k
           else map_of (dict_set acc (pa_name p) v) k)"
        using Cons.IH [of "dict_pop kw (pa_name p)" c "dict_set acc (pa_name p) v"] Cons.prems by_kw kinds pop
        by (auto simp: col leftover_Cons taken_Cons)
      have nc: "collector_of R c \<noteq> Some (pa_name p)"
        using Cons.prems(4) by_kw kinds by (auto simp: col taken_Cons)
      show ?thesis
        using d fresh by_kw kinds Some nc
        by (auto simp: col leftover_Cons taken_Cons map_of_dict_pop)
    qed
  qed
qed


section \<open>What the policy sees is what the tool receives\<close>

definition extra_positional :: "param list \<Rightarrow> pyval list \<Rightarrow> pyval list" where
  "extra_positional ps args = drop (length (filter positional ps)) args"

definition tool_view :: "param list \<Rightarrow> pyval list \<Rightarrow> pydict \<Rightarrow> string \<Rightarrow> pyval option" where
  "tool_view ps args kw k =
     (if k = ''_args'' then
        (if extra_positional ps args = [] then None else Some (PList (extra_positional ps args)))
      else case find (\<lambda>i. named (ps ! i) \<and> pa_name (ps ! i) = k) [0..<length ps] of
             Some i \<Rightarrow> received args kw i (ps ! i)
           | None \<Rightarrow> map_of kw k)"

lemma positional_prefix:
  assumes "sorted (map (kind_rank \<circ> pa_kind) ps)"
  shows "ps = filter positional ps @ filter (\<lambda>p. \<not> positional p) ps"
  using assms
proof (induction ps)
  case (Cons p ps)
  show ?case
  proof (cases "positional p")
    case False
    have "\<not> positional q" if "q \<in> set ps" for q
      using Cons.prems False that
      by (cases "pa_kind p"; cases "pa_kind q") (force simp: positional_def)+
    then show ?thesis using False by (simp add: filter_id_conv [THEN iffD2] filter_empty_conv [THEN iffD2])
  qed (use Cons in simp)
qed simp

lemma var_positional_first:
  assumes "sorted (map (kind_rank \<circ> pa_kind) B)" "\<forall>p \<in> set B. \<not> positional p" "collects VAR_POSITIONAL B"
  obtains V B' where "B = V # B'" "pa_kind V = VAR_POSITIONAL"
proof (cases B)
  case (Cons V B')
  obtain q where q: "q \<in> set B" "pa_kind q = VAR_POSITIONAL"
    using assms(3) by (auto simp: collects_def list_ex_iff)
  have "kind_rank (pa_kind V) \<le> 2" using assms(1) q by (auto simp: Cons)
  moreover have "\<not> positional V" using assms(2) by (simp add: Cons)
  ultimately have "pa_kind V = VAR_POSITIONAL" by (cases "pa_kind V") (auto simp: positional_def)
  then show thesis using that Cons by blast
qed (use assms(3) in \<open>simp add: collects_def\<close>)

lemma accepts_callD:
  assumes "accepts_call ps args kw"
  shows "length args \<le> length (filter positional ps) \<or> collects VAR_POSITIONAL ps"
    and "\<And>i. i < length ps \<Longrightarrow> by_keyword (ps ! i) \<Longrightarrow> positional (ps ! i) \<Longrightarrow> i < length args \<Longrightarrow>
           \<not> dict_has kw (pa_name (ps ! i))"
    and "\<And>k v. (k, v) \<in> set kw \<Longrightarrow> collects VAR_KEYWORD ps \<or> k \<in> taken_names ps"
    and "\<And>i. i < length ps \<Longrightarrow> named (ps ! i) \<Longrightarrow> received args kw i (ps ! i) \<noteq> None"
  using assms by (auto simp: accepts_call_def list_all_iff list_ex_iff taken_names_def)

lemma signature_okD:
  assumes "signature_ok ps"
  shows "distinct (map pa_name ps)" "sorted (map (kind_rank \<circ> pa_kind) ps)"
    "\<And>i j. i < length ps \<Longrightarrow> j < length ps \<Longrightarrow> pa_name (ps ! i) = pa_name (ps ! j) \<Longrightarrow> i = j"
    "\<And>i. i < length ps \<Longrightarrow> \<not> named (ps ! i) \<Longrightarrow> pa_default (ps ! i) = None"
  using assms by (auto simp: signature_ok_def list_all_iff distinct_conv_nth)

text \<open>The arguments after the positional phase, and the parameters the keyword phase still fills.\<close>

definition positional_result :: "param list \<Rightarrow> pyval list \<Rightarrow> pydict" where
  "positional_result ps args =
     zip (map pa_name (filter positional ps)) args @
     (case find (\<lambda>p. pa_kind p = VAR_POSITIONAL) ps of
        None \<Rightarrow> []
      | Some V \<Rightarrow> if extra_positional ps args = [] then [] else [(pa_name V, PTuple (extra_positional ps args))])"

definition open_params :: "param list \<Rightarrow> pyval list \<Rightarrow> param list" where
  "open_params ps args =
     drop (length args) (filter positional ps) @ filter (\<lambda>p. \<not> positional p) ps"


lemma dict_set_absent: "map_of d k = None \<Longrightarrow> dict_set d k v = d @ [(k, v)]"
  by (induction d k v rule: dict_set.induct) (auto split: if_splits)

lemma dict_update_distinct:
  "distinct (map fst (d @ e)) \<Longrightarrow> dict_update d e = d @ e"
proof (induction e arbitrary: d)
  case (Cons kv e)
  obtain k v where kv: "kv = (k, v)" by (cases kv)
  have "map_of d k = None" using Cons.prems by (auto simp: kv map_of_eq_None_iff)
  then show ?case using Cons.IH [of "d @ [(k, v)]"] Cons.prems by (simp add: kv dict_set_absent)
qed simp

lemma unmaskedD:
  assumes "unmasked ps kw"
  shows "\<And>p. p \<in> set ps \<Longrightarrow> pa_kind p = POSITIONAL_ONLY \<Longrightarrow> map_of kw (pa_name p) = None"
    "map_of kw ''_args'' = None" "\<And>p. p \<in> set ps \<Longrightarrow> pa_name p \<noteq> ''_args''"
  using assms by (auto simp: unmasked_def list_all_iff dict_has_def)

lemma signature_parts:
  assumes "signature_ok ps"
  obtains A B where "ps = A @ B" "filter positional ps = A" "filter (\<lambda>p. \<not> positional p) ps = B"
    "\<forall>p \<in> set A. positional p" "\<forall>p \<in> set B. \<not> positional p"
proof
  show "ps = filter positional ps @ filter (\<lambda>p. \<not> positional p) ps"
    using assms by (intro positional_prefix) (simp add: signature_ok_def)
qed auto

lemma positional_nth:
  assumes "signature_ok ps" "i < length (filter positional ps)"
  shows "filter positional ps ! i = ps ! i" "i < length ps"
proof -
  obtain A B where "ps = A @ B" "filter positional ps = A" using signature_parts [OF assms(1)] .
  then show "filter positional ps ! i = ps ! i" "i < length ps"
    using assms(2) by (auto simp: nth_append)
qed

lemma find_after: "find P xs = None \<Longrightarrow> find P (xs @ ys) = find P ys"
  by (induction xs) (auto split: if_splits)

lemma fst_zip_names:
  "k \<notin> set ks \<Longrightarrow> map_of (zip ks vs) k = None"
  by (auto simp: map_of_eq_None_iff dest: set_zip_leftD)

lemma bind_partial_open:
  assumes sig: "signature_ok ps" and acc: "accepts_call ps args kw" and um: "unmasked ps kw"
  shows "bind_partial ps args kw = bind_keywords (open_params ps args) kw None (positional_result ps args)"
proof -
  obtain A B where ps: "ps = A @ B" "filter positional ps = A" "filter (\<lambda>p. \<not> positional p) ps = B"
    "\<forall>p \<in> set A. positional p" "\<forall>p \<in> set B. \<not> positional p"
    using signature_parts [OF sig] .
  let ?acc = "zip (map pa_name A) args"
  have dist: "distinct (map pa_name A)"
    using sig by (simp add: signature_ok_def ps(1))
  have zip: "dict_update [] ?acc = ?acc"
    using dist dict_update_distinct [of "[]" ?acc] by (simp add: map_fst_zip_take distinct_take)
  have single: "\<not> dict_has kw (pa_name (A ! i))"
    if "i < length A" "i < length args" "by_keyword (A ! i)" for i
    using accepts_callD(2) [OF acc, of i] ps(4) that by (simp add: ps(1) nth_append)
  have phase: "bind_positional ps args kw [] =
      bind_positional (drop (length args) A @ B) (drop (length A) args) kw ?acc"
    using positional_phase [OF ps(4) single] by (simp add: zip ps(1))
  have fin: "bindR (bind_positional (drop (length args) A @ B) [] kw ?acc)
      (\<lambda>(a, rest). bind_keywords rest kw None a) = bind_keywords (drop (length args) A @ B) kw None ?acc"
    by (rule positional_phase_ends)
      (use unmaskedD(1) [OF um] ps(1) in \<open>auto simp: dict_has_def dest: in_set_dropD\<close>)
  show ?thesis
  proof (cases "drop (length A) args")
    case Nil
    have "positional_result ps args = ?acc"
      by (auto simp: positional_result_def ps(2) extra_positional_def Nil split: option.splits)
    then show ?thesis using Nil fin phase by (simp add: bind_partial_def open_params_def ps(2,3))
  next
    case (Cons v vs)
    then have more: "length A < length args" by (metis drop_eq_Nil leI list.distinct(1))
    then have "collects VAR_POSITIONAL ps" using accepts_callD(1) [OF acc] ps(2) by simp
    then have "collects VAR_POSITIONAL B" using ps(4) by (auto simp: ps(1) collects_def list_ex_iff positional_def)
    moreover have "sorted (map (kind_rank \<circ> pa_kind) B)"
      using sig by (simp add: signature_ok_def ps(1) sorted_append)
    ultimately obtain V B' where V: "B = V # B'" "pa_kind V = VAR_POSITIONAL"
      using var_positional_first ps(5) by blast
    have "pa_name V \<notin> set (map pa_name A)" using sig by (auto simp: signature_ok_def ps(1) V)
    then have "map_of ?acc (pa_name V) = None" by (rule fst_zip_names)
    moreover have "find (\<lambda>p. pa_kind p = VAR_POSITIONAL) A = None"
      using ps(4) by (auto simp: find_None_iff positional_def)
    then have "find (\<lambda>p. pa_kind p = VAR_POSITIONAL) ps = Some V"
      using V by (simp add: ps(1) find_after)
    ultimately show ?thesis
      using Cons more V phase
      by (simp add: bind_partial_def extra_positional_def positional_result_def open_params_def dict_set_absent ps(2,3))
  qed
qed


lemma open_params_subset: "set (open_params ps args) \<subseteq> set ps"
  by (auto simp: open_params_def dest: in_set_dropD)

lemma taken_open_subset: "taken_names (open_params ps args) \<subseteq> taken_names ps"
  using open_params_subset by (fastforce simp: taken_names_def)

lemma taken_not_open:
  assumes "signature_ok ps" "accepts_call ps args kw" "k \<in> taken_names ps" "k \<notin> taken_names (open_params ps args)"
  shows "map_of kw k = None"
proof -
  obtain A B where ps: "ps = A @ B" "filter positional ps = A" "filter (\<lambda>p. \<not> positional p) ps = B"
    "\<forall>p \<in> set A. positional p" "\<forall>p \<in> set B. \<not> positional p"
    using signature_parts [OF assms(1)] .
  obtain p where p: "p \<in> set ps" "by_keyword p" "k = pa_name p" using assms(3) by (auto simp: taken_names_def)
  have "p \<notin> set (drop (length args) A) \<union> set B"
    using assms(4) p by (auto simp: taken_names_def open_params_def ps(2,3))
  then have "p \<in> set (take (length args) A)"
    using p(1) ps(1) by (metis Un_iff append_take_drop_id set_append)
  then obtain i where i: "i < length A" "i < length args" "p = A ! i"
    by (auto simp: in_set_conv_nth)
  have "\<not> dict_has kw (pa_name (ps ! i))"
    by (rule accepts_callD(2) [OF assms(2)]) (use i p ps in \<open>auto simp: nth_append\<close>)
  then show ?thesis using i p by (simp add: ps(1) nth_append dict_has_def)
qed

lemma leftover_open:
  assumes "signature_ok ps" "accepts_call ps args kw"
  shows "leftover (open_params ps args) kw = leftover ps kw"
proof -
  have "k \<in> taken_names (open_params ps args)" if "(k, v) \<in> set kw" "k \<in> taken_names ps" for k v
    using taken_not_open [OF assms that(2)] that(1) by (force simp: map_of_eq_None_iff)
  then show ?thesis using taken_open_subset [of ps args] by (auto simp: leftover_def intro!: filter_cong)
qed

lemma collector_of_Some: "collector_of R c = Some n \<Longrightarrow>
    (\<exists>p \<in> set R. pa_kind p = VAR_KEYWORD \<and> pa_name p = n) \<or> c = Some n"
  unfolding collector_of_def
  by (induction R arbitrary: c) (force split: if_splits)+

lemma collector_of_not_None: "p \<in> set R \<Longrightarrow> pa_kind p = VAR_KEYWORD \<Longrightarrow> collector_of R c \<noteq> None"
proof -
  have "collector_of R (Some n) \<noteq> None" for n R
    unfolding collector_of_def by (induction R arbitrary: n) auto
  then show "p \<in> set R \<Longrightarrow> pa_kind p = VAR_KEYWORD \<Longrightarrow> collector_of R c \<noteq> None"
    unfolding collector_of_def by (induction R arbitrary: c) auto
qed

lemma unique_kind:
  assumes "length (filter P ps) \<le> 1" "p \<in> set ps" "P p" "q \<in> set ps" "P q"
  shows "p = q"
proof -
  have "p \<in> set (filter P ps)" "q \<in> set (filter P ps)" using assms by auto
  then show ?thesis using assms(1) by (cases "filter P ps") auto
qed

text \<open>What \<open>inspect\<close> binds to a parameter after \<open>apply_defaults\<close>.\<close>

definition bound_value :: "param list \<Rightarrow> pyval list \<Rightarrow> pydict \<Rightarrow> nat \<Rightarrow> pyval" where
  "bound_value ps args kw i =
     (if named (ps ! i) then the (received args kw i (ps ! i))
      else if pa_kind (ps ! i) = VAR_POSITIONAL then PTuple (extra_positional ps args)
      else PDict (leftover ps kw))"


lemma positional_iff:
  assumes "signature_ok ps" "i < length ps"
  shows "positional (ps ! i) \<longleftrightarrow> i < length (filter positional ps)"
proof -
  obtain A B where ps: "ps = A @ B" "filter positional ps = A"
    "\<forall>p \<in> set A. positional p" "\<forall>p \<in> set B. \<not> positional p"
    using signature_parts [OF assms(1)] .
  show ?thesis unfolding ps(2) using assms(2) ps(3,4) by (auto simp: ps(1) nth_append)
qed

lemma map_of_zip_nth_names:
  assumes "distinct ks" "i < length ks" "i < length vs"
  shows "map_of (zip ks vs) (ks ! i) = Some (vs ! i)"
  using assms by (intro map_of_is_SomeI) (auto simp: map_fst_zip_take in_set_zip intro: distinct_take)

lemma zip_names_value:
  assumes "signature_ok ps" "i < length ps"
  shows "map_of (zip (map pa_name (filter positional ps)) args) (pa_name (ps ! i)) =
      (if positional (ps ! i) \<and> i < length args then Some (args ! i) else None)"
proof -
  let ?A = "filter positional ps"
  have dist: "distinct (map pa_name ?A)" using assms(1) by (simp add: signature_ok_def distinct_map_filter)
  have found: "i < length ?A \<and> i < length args"
    if hit: "map_of (zip (map pa_name ?A) args) (pa_name (ps ! i)) \<noteq> None"
  proof -
    obtain v where "map_of (zip (map pa_name ?A) args) (pa_name (ps ! i)) = Some v"
      using hit by blast
    then have "(pa_name (ps ! i), v) \<in> set (zip (map pa_name ?A) args)" by (rule map_of_SomeD)
    then obtain j where j: "j < length ?A" "j < length args" "pa_name (?A ! j) = pa_name (ps ! i)"
      by (auto simp: in_set_zip)
    then have "pa_name (ps ! j) = pa_name (ps ! i)" "j < length ps"
      using positional_nth [OF assms(1) j(1)] by auto
    then have "j = i" by (intro signature_okD(3) [OF assms(1)]) (use assms(2) in auto)
    then show ?thesis using j by simp
  qed
  show ?thesis
  proof (cases "i < length ?A \<and> i < length args")
    case True
    then have "map_of (zip (map pa_name ?A) args) (map pa_name ?A ! i) = Some (args ! i)"
      using dist by (intro map_of_zip_nth_names) auto
    then show ?thesis using True positional_nth [OF assms(1)] positional_iff [OF assms] by simp
  next
    case False
    then have "map_of (zip (map pa_name ?A) args) (pa_name (ps ! i)) = None" using found by blast
    then show ?thesis using False positional_iff [OF assms] by auto
  qed
qed

lemma positional_result_value:
  assumes "signature_ok ps" "i < length ps"
  shows "map_of (positional_result ps args) (pa_name (ps ! i)) =
      (if positional (ps ! i) \<and> i < length args then Some (args ! i)
       else if pa_kind (ps ! i) = VAR_POSITIONAL \<and> extra_positional ps args \<noteq> []
       then Some (PTuple (extra_positional ps args)) else None)"
proof -
  have var: "find (\<lambda>p. pa_kind p = VAR_POSITIONAL) ps = Some V \<Longrightarrow>
      pa_name (ps ! i) = pa_name V \<longleftrightarrow> pa_kind (ps ! i) = VAR_POSITIONAL" for V
  proof -
    assume V: "find (\<lambda>p. pa_kind p = VAR_POSITIONAL) ps = Some V"
    then obtain j where j: "j < length ps" "V = ps ! j" "pa_kind V = VAR_POSITIONAL"
      by (auto simp: find_Some_iff)
    have "pa_kind (ps ! i) = VAR_POSITIONAL \<Longrightarrow> ps ! i = V"
      using assms j by (intro unique_kind [where P = "\<lambda>p. pa_kind p = VAR_POSITIONAL" and ps = ps])
        (auto simp: signature_ok_def)
    moreover have "pa_name (ps ! i) = pa_name V \<Longrightarrow> i = j"
      using signature_okD(3) [OF assms(1,2) j(1)] j(2) by simp
    ultimately show ?thesis using j by auto
  qed
  have none: "find (\<lambda>p. pa_kind p = VAR_POSITIONAL) ps = None \<Longrightarrow> pa_kind (ps ! i) \<noteq> VAR_POSITIONAL"
    using assms(2) by (auto simp: find_None_iff)
  have pos: "pa_kind (ps ! i) = VAR_POSITIONAL \<Longrightarrow> \<not> positional (ps ! i)" by (simp add: positional_def)
  show ?thesis
    using var none pos
    by (auto simp: positional_result_def map_add_def zip_names_value [OF assms] split: option.splits)
qed


lemma nth_taken_iff:
  assumes "signature_ok ps" "i < length ps"
  shows "pa_name (ps ! i) \<in> taken_names ps \<longleftrightarrow> by_keyword (ps ! i)"
proof
  assume "pa_name (ps ! i) \<in> taken_names ps"
  then obtain j where "j < length ps" "by_keyword (ps ! j)" "pa_name (ps ! j) = pa_name (ps ! i)"
    by (auto simp: taken_names_def in_set_conv_nth)
  then show "by_keyword (ps ! i)" using signature_okD(3) [OF assms(1)] assms(2) by metis
next
  assume "by_keyword (ps ! i)"
  then show "pa_name (ps ! i) \<in> taken_names ps" using assms(2) by (auto simp: taken_names_def)
qed

lemma collector_iff:
  assumes "signature_ok ps" "i < length ps"
  shows "collector_of (open_params ps args) None = Some (pa_name (ps ! i)) \<longleftrightarrow>
      pa_kind (ps ! i) = VAR_KEYWORD"
proof -
  have some: "\<exists>j < length ps. pa_kind (ps ! j) = VAR_KEYWORD \<and> pa_name (ps ! j) = n"
    if "collector_of (open_params ps args) None = Some n" for n
    using collector_of_Some [OF that] open_params_subset by (fastforce simp: in_set_conv_nth)
  show ?thesis
  proof
    assume "collector_of (open_params ps args) None = Some (pa_name (ps ! i))"
    then show "pa_kind (ps ! i) = VAR_KEYWORD"
      using some signature_okD(3) [OF assms(1)] assms(2) by metis
  next
    assume k: "pa_kind (ps ! i) = VAR_KEYWORD"
    then have "ps ! i \<in> set (open_params ps args)"
      using assms(2) by (auto simp: open_params_def positional_def)
    then obtain n where n: "collector_of (open_params ps args) None = Some n"
      using collector_of_not_None k by blast
    then obtain j where j: "j < length ps" "pa_kind (ps ! j) = VAR_KEYWORD" "pa_name (ps ! j) = n"
      using some by blast
    have "ps ! j = ps ! i"
      using assms j k by (intro unique_kind [where P = "\<lambda>p. pa_kind p = VAR_KEYWORD" and ps = ps])
        (auto simp: signature_ok_def)
    then show "collector_of (open_params ps args) None = Some (pa_name (ps ! i))" using n j by simp
  qed
qed

lemma distinct_open:
  assumes "signature_ok ps"
  shows "distinct (map pa_name (open_params ps args))"
proof -
  obtain A B where ps: "ps = A @ B" "filter positional ps = A" "filter (\<lambda>p. \<not> positional p) ps = B"
    using signature_parts [OF assms] .
  show ?thesis
    using signature_okD(1) [OF assms]
    unfolding open_params_def ps(2,3) unfolding ps(1) by (auto simp: drop_map [symmetric] dest!: in_set_dropD)
qed

lemma bound_arguments:
  assumes sig: "signature_ok ps" and acc: "accepts_call ps args kw" and um: "unmasked ps kw"
  shows "\<exists>d. bind_partial ps args kw = Return d \<and>
      (\<forall>i < length ps. applied_default d (ps ! i) = [(pa_name (ps ! i), bound_value ps args kw i)])"
proof -
  let ?R = "open_params ps args"
  have some: "collector_of ?R None \<noteq> None" if left: "leftover ?R kw \<noteq> []"
  proof -
    obtain k v where kv: "(k, v) \<in> set kw" "k \<notin> taken_names ps"
      using left unfolding leftover_open [OF sig acc] by (auto simp: leftover_def filter_empty_conv)
    then obtain i where "i < length ps" "pa_kind (ps ! i) = VAR_KEYWORD"
      using accepts_callD(3) [OF acc kv(1)] by (auto simp: collects_def list_ex_iff in_set_conv_nth)
    then show ?thesis using collector_iff [OF sig] by fastforce
  qed
  have outside: "n \<notin> taken_names ?R" if col: "collector_of ?R None = Some n" for n
  proof -
    obtain p where "p \<in> set ps" "pa_kind p = VAR_KEYWORD" "pa_name p = n"
      using collector_of_Some [OF col] open_params_subset by auto
    then obtain i where "i < length ps" "pa_kind (ps ! i) = VAR_KEYWORD" "n = pa_name (ps ! i)"
      by (metis in_set_conv_nth)
    then have "n \<notin> taken_names ps" using nth_taken_iff [OF sig] by (simp add: by_keyword_def)
    then show ?thesis using taken_open_subset by blast
  qed
  obtain d where d: "bind_keywords ?R kw None (positional_result ps args) = Return d"
    "\<forall>k. map_of d k =
       (if leftover ?R kw \<noteq> [] \<and> collector_of ?R None = Some k then Some (PDict (leftover ?R kw))
        else if k \<in> taken_names ?R \<and> map_of kw k \<noteq> None then map_of kw k
        else map_of (positional_result ps args) k)"
    using keyword_phase [OF distinct_open [OF sig], of args kw None "positional_result ps args"]
      unmaskedD(1) [OF um] open_params_subset some outside by blast
  have "applied_default d (ps ! i) = [(pa_name (ps ! i), bound_value ps args kw i)]" if i: "i < length ps" for i
  proof -
    let ?p = "ps ! i"
    have open_kw: "by_keyword ?p \<Longrightarrow> map_of kw (pa_name ?p) \<noteq> None \<Longrightarrow> pa_name ?p \<in> taken_names ?R"
      using taken_not_open [OF sig acc, of "pa_name ?p"] nth_taken_iff [OF sig i] by fastforce
    have sub: "pa_name ?p \<in> taken_names ?R \<Longrightarrow> by_keyword ?p"
      using nth_taken_iff [OF sig i] taken_open_subset [of ps args] by blast
    have single: "by_keyword ?p \<Longrightarrow> positional ?p \<Longrightarrow> i < length args \<Longrightarrow> map_of kw (pa_name ?p) = None"
      using accepts_callD(2) [OF acc i] by (simp add: dict_has_def)
    have def: "\<not> named ?p \<Longrightarrow> pa_default ?p = None" using signature_okD(4) [OF sig i] .
    have rec: "named ?p \<Longrightarrow> received args kw i ?p \<noteq> None" using accepts_callD(4) [OF acc i] .
    have val: "map_of d (pa_name ?p) =
       (if leftover ps kw \<noteq> [] \<and> pa_kind ?p = VAR_KEYWORD then Some (PDict (leftover ps kw))
        else if by_keyword ?p \<and> map_of kw (pa_name ?p) \<noteq> None then map_of kw (pa_name ?p)
        else map_of (positional_result ps args) (pa_name ?p))"
      using d(2) open_kw sub by (auto simp: leftover_open [OF sig acc] collector_iff [OF sig i])
    show ?thesis
    proof (cases "pa_kind ?p")
      case VAR_POSITIONAL
      then show ?thesis
        using def by (auto simp: applied_default_def val positional_result_value [OF sig i] bound_value_def
            named_def by_keyword_def positional_def)
    next
      case VAR_KEYWORD
      then show ?thesis
        using def by (auto simp: applied_default_def val positional_result_value [OF sig i] bound_value_def
            named_def by_keyword_def positional_def)
    next
      case POSITIONAL_ONLY
      then show ?thesis
        using rec by (auto simp: applied_default_def val positional_result_value [OF sig i] bound_value_def
            named_def by_keyword_def positional_def received_def)
    next
      case POSITIONAL_OR_KEYWORD
      then show ?thesis
        using rec single by (auto simp: applied_default_def val positional_result_value [OF sig i] bound_value_def
            named_def by_keyword_def positional_def received_def dict_has_def)
    next
      case KEYWORD_ONLY
      then show ?thesis
        using rec by (auto simp: applied_default_def val positional_result_value [OF sig i] bound_value_def
            named_def by_keyword_def positional_def received_def dict_has_def)
    qed
  qed
  then show ?thesis using d(1) bind_partial_open [OF sig acc um] by auto
qed


text \<open>What the last loop of \<open>_call_arguments\<close> adds for one parameter.\<close>

definition merged :: "param list \<Rightarrow> pyval list \<Rightarrow> pydict \<Rightarrow> nat \<Rightarrow> pydict" where
  "merged ps args kw i =
     (if named (ps ! i) then [(pa_name (ps ! i), the (received args kw i (ps ! i)))]
      else if pa_kind (ps ! i) = VAR_POSITIONAL
      then (if extra_positional ps args = [] then [] else [(''_args'', PList (extra_positional ps args))])
      else leftover ps kw)"

lemma find_param:
  assumes "signature_ok ps" "i < length ps"
  shows "find (\<lambda>p. pa_name p = pa_name (ps ! i)) ps = Some (ps ! i)"
proof -
  have "pa_name (ps ! j) \<noteq> pa_name (ps ! i)" if "j < i" for j
    using signature_okD(3) [OF assms(1), of j i] assms(2) that by auto
  then show ?thesis using assms(2) by (auto simp: find_Some_iff)
qed

lemma merge_bound:
  assumes "signature_ok ps" "i < length ps"
  shows "merge_argument ps d (pa_name (ps ! i), bound_value ps args kw i) = dict_update d (merged ps args kw i)"
  by (cases "pa_kind (ps ! i)")
    (auto simp: merge_argument_def find_param [OF assms] bound_value_def merged_def named_def)

lemma call_arguments_merged:
  assumes "signature_ok ps" "accepts_call ps args kw" "unmasked ps kw"
  shows "call_arguments (Tool (Some ps)) args kw =
      dict_update [] (concat (map (merged ps args kw) [0..<length ps]))"
proof -
  obtain d where d: "bind_partial ps args kw = Return d"
    "\<forall>i < length ps. applied_default d (ps ! i) = [(pa_name (ps ! i), bound_value ps args kw i)]"
    using bound_arguments [OF assms] by blast
  have "map (applied_default d) ps =
      map (\<lambda>i. [(pa_name (ps ! i), bound_value ps args kw i)]) [0..<length ps]"
    using d(2) by (intro nth_equalityI) auto
  then have "apply_defaults ps d = map (\<lambda>i. (pa_name (ps ! i), bound_value ps args kw i)) [0..<length ps]"
    by (simp add: apply_defaults_def concat_map_singleton)
  then have "call_arguments (Tool (Some ps)) args kw =
      foldl (\<lambda>e i. merge_argument ps e (pa_name (ps ! i), bound_value ps args kw i)) [] [0..<length ps]"
    by (simp add: d(1) foldl_map)
  also have "\<dots> = dict_update [] (concat (map (merged ps args kw) [0..<length ps]))"
    by (rule foldl_update) (use merge_bound [OF assms(1)] in auto)
  finally show ?thesis .
qed

lemma find_index_Some:
  assumes "signature_ok ps" "i < length ps" "named (ps ! i)"
  shows "find (\<lambda>j. named (ps ! j) \<and> pa_name (ps ! j) = pa_name (ps ! i)) [0..<length ps] = Some i"
proof -
  have "pa_name (ps ! j) \<noteq> pa_name (ps ! i)" if "j < i" for j
    using signature_okD(3) [OF assms(1), of j i] assms(2) that by auto
  then show ?thesis using assms(2,3) by (auto simp: find_Some_iff intro!: exI [of _ i])
qed

lemma tool_view_extra:
  assumes "accepts_call ps args kw" "k \<noteq> ''_args''" "k \<notin> taken_names ps" "map_of kw k \<noteq> None" "unmasked ps kw"
  shows "tool_view ps args kw k = map_of kw k"
proof -
  have "\<not> (named p \<and> pa_name p = k)" if "p \<in> set ps" for p
    using assms(3-4) unmaskedD(1) [OF assms(5) that] that
    by (cases "pa_kind p") (auto simp: taken_names_def named_def by_keyword_def)
  then have "find (\<lambda>i. named (ps ! i) \<and> pa_name (ps ! i) = k) [0..<length ps] = None"
    by (auto simp: find_None_iff)
  then show ?thesis using assms(2) by (simp add: tool_view_def)
qed

lemma arguments_seen:
  assumes sig: "signature_ok ps" and acc: "accepts_call ps args kw" and um: "unmasked ps kw"
    and wf: "dict_wf kw"
  shows "map_of (call_arguments (Tool (Some ps)) args kw) = tool_view ps args kw"
proof -
  let ?e = "concat (map (merged ps args kw) [0..<length ps])"
  have "map_of (rev ?e) = tool_view ps args kw"
  proof (rule map_of_eqI)
    fix k v assume "(k, v) \<in> set (rev ?e)"
    then obtain i where i: "i < length ps" "(k, v) \<in> set (merged ps args kw i)" by auto
    show "tool_view ps args kw k = Some v"
    proof (cases "named (ps ! i)")
      case True
      then have "k = pa_name (ps ! i)" "received args kw i (ps ! i) = Some v"
        using i accepts_callD(4) [OF acc i(1)] by (auto simp: merged_def)
      then show ?thesis
        using find_index_Some [OF sig i(1) True] unmaskedD(3) [OF um] i(1) by (simp add: tool_view_def)
    next
      case False
      show ?thesis
      proof (cases "pa_kind (ps ! i) = VAR_POSITIONAL")
        case True
        then show ?thesis using i False by (auto simp: merged_def tool_view_def split: if_splits)
      next
        case neq: False
        then have left: "(k, v) \<in> set kw" "k \<notin> taken_names ps"
          using i False by (auto simp: merged_def leftover_def)
        then have kw: "map_of kw k = Some v" using wf by (simp add: dict_wf_map_of)
        moreover have "k \<noteq> ''_args''" using kw unmaskedD(2) [OF um] by auto
        ultimately show ?thesis using tool_view_extra [OF acc _ left(2) _ um] by simp
      qed
    qed
  next
    fix k v assume seen: "tool_view ps args kw k = Some v"
    have "\<exists>i < length ps. k \<in> fst ` set (merged ps args kw i)"
    proof (cases "k = ''_args''")
      case True
      then have extra: "extra_positional ps args \<noteq> []" using seen by (auto simp: tool_view_def)
      then have "\<not> length args \<le> length (filter positional ps)" by (simp add: extra_positional_def)
      then obtain i where "i < length ps" "pa_kind (ps ! i) = VAR_POSITIONAL"
        using accepts_callD(1) [OF acc] by (auto simp: collects_def list_ex_iff in_set_conv_nth)
      then show ?thesis using extra True by (auto simp: merged_def named_def)
    next
      case args: False
      show ?thesis
      proof (cases "find (\<lambda>i. named (ps ! i) \<and> pa_name (ps ! i) = k) [0..<length ps]")
        case (Some i)
        then have "i < length ps" "named (ps ! i)" "pa_name (ps ! i) = k" by (auto simp: find_Some_iff)
        then show ?thesis by (auto simp: merged_def)
      next
        case None
        then have kw: "(k, v) \<in> set kw" using seen args by (auto simp: tool_view_def dest: map_of_SomeD)
        have "\<not> (named (ps ! i) \<and> pa_name (ps ! i) = k)" if "i < length ps" for i
          using None that by (auto simp: find_None_iff)
        then have "\<not> (named p \<and> pa_name p = k)" if "p \<in> set ps" for p
          using that by (metis in_set_conv_nth)
        then have free: "k \<notin> taken_names ps"
          by (force simp: taken_names_def named_def by_keyword_def)
        then obtain i where "i < length ps" "pa_kind (ps ! i) = VAR_KEYWORD"
          using accepts_callD(3) [OF acc kw] by (auto simp: collects_def list_ex_iff in_set_conv_nth)
        then show ?thesis using kw free by (force simp: merged_def named_def leftover_def)
      qed
    qed
    then show "k \<in> fst ` set (rev ?e)" by (auto simp: image_iff)
  qed
  then show ?thesis unfolding call_arguments_merged [OF sig acc um] by (simp add: map_of_dict_update)
qed


section \<open>Partial applications\<close>

text \<open>What calling a partial does: it calls the callable it wraps with its own arguments before the
  caller's, and its own keywords unless the caller gives them. \<open>innermost\<close> is the function that runs
  in the end and what it is called with.\<close>

fun innermost :: "callable \<Rightarrow> pyval list \<Rightarrow> pydict \<Rightarrow> param list option \<times> pyval list \<times> pydict" where
  "innermost (Partial f fargs fkw) args kw = innermost f (fargs @ args) (dict_update fkw kw)"
| "innermost (Tool sig) args kw = (sig, args, kw)"

fun partial_wf :: "callable \<Rightarrow> bool" where
  "partial_wf (Partial f fargs fkw) = (dict_wf fkw \<and> partial_wf f)"
| "partial_wf (Tool sig) = True"

lemma call_arguments_innermost:
  "innermost f args kw = (sig, args', kw') \<Longrightarrow> call_arguments f args kw = call_arguments (Tool sig) args' kw'"
  by (induction f arbitrary: args kw) auto

lemma innermost_wf:
  "innermost f args kw = (sig, args', kw') \<Longrightarrow> partial_wf f \<Longrightarrow> dict_wf kw \<Longrightarrow> dict_wf kw'"
  by (induction f arbitrary: args kw) (auto intro: dict_wf_update)

lemma uninspectable_arguments:
  "call_arguments (Tool None) args kw = (if args = [] then kw else dict_set kw ''_args'' (PList args))"
  by simp

declare dict_update_def [evals] positional_def [evals] by_keyword_def [evals] named_def [evals]
  dict_pop_def [evals] bind_partial_def [evals] applied_default_def [evals] apply_defaults_def [evals]
  merge_argument_def [evals] firewall_call_def [evals] wrap_def [evals] call_parameters_def [evals]
  signature_ok_def [evals] received_def [evals] collects_def [evals] accepts_call_def [evals]
  unmasked_def [evals] extra_positional_def [evals] tool_view_def [evals]

section \<open>Properties\<close>

text \<open>C8: For every call that Python accepts on a tool with an inspectable signature, or on partial
  applications of it, the arguments
  the policy is shown are, key by key, the tool's parameters with the values it receives (positional,
  by keyword or by default), the keywords its \<open>**kwargs\<close> collects, and under \<open>_args\<close> the positional
  arguments its \<open>*args\<close> collects. The hypothesis \<open>unmasked\<close> says that no name has two uses.\<close>

theorem policy_sees_received:
  assumes "innermost f args kw = (Some ps, args', kw')" "partial_wf f" "dict_wf kw"
    and "signature_ok ps" "accepts_call ps args' kw'" "unmasked ps kw'"
  shows "map_of (call_arguments f args kw) = tool_view ps args' kw'"
  using arguments_seen [OF assms(4-6)] innermost_wf [OF assms(1-3)] call_arguments_innermost [OF assms(1)]
  by simp

definition send_mail :: "param list" where
  "send_mail =
     [\<lparr>pa_name = ''to'', pa_kind = POSITIONAL_OR_KEYWORD, pa_default = None\<rparr>,
      \<lparr>pa_name = ''subject'', pa_kind = POSITIONAL_OR_KEYWORD, pa_default = Some (PStr ''none'')\<rparr>,
      \<lparr>pa_name = ''rest'', pa_kind = VAR_POSITIONAL, pa_default = None\<rparr>,
      \<lparr>pa_name = ''urgent'', pa_kind = KEYWORD_ONLY, pa_default = Some (PBool False)\<rparr>,
      \<lparr>pa_name = ''headers'', pa_kind = VAR_KEYWORD, pa_default = None\<rparr>]"

theorem policy_sees_received_witness:
  "map_of (call_arguments (Partial (Tool (Some send_mail)) [PStr ''a@b''] [(''x'', PInt 1)])
      [PStr ''hi'', PInt 7] [(''y'', PInt 2)]) =
    tool_view send_mail [PStr ''a@b'', PStr ''hi'', PInt 7] [(''x'', PInt 1), (''y'', PInt 2)] \<and>
   tool_view send_mail [PStr ''a@b'', PStr ''hi'', PInt 7] [(''x'', PInt 1), (''y'', PInt 2)] ''to'' =
     Some (PStr ''a@b'')"
proof
  show "map_of (call_arguments (Partial (Tool (Some send_mail)) [PStr ''a@b''] [(''x'', PInt 1)])
      [PStr ''hi'', PInt 7] [(''y'', PInt 2)]) =
    tool_view send_mail [PStr ''a@b'', PStr ''hi'', PInt 7] [(''x'', PInt 1), (''y'', PInt 2)]"
    by (rule policy_sees_received)
      (simp_all add: evals send_mail_def dict_wf_def positional_def by_keyword_def named_def upt_rec)
qed (simp add: evals send_mail_def upt_rec)

text \<open>The hypothesis is needed: for \<open>def run(command, /, **env)\<close> the call \<open>run('rm', command='ls')\<close>
  shows the policy \<open>ls\<close>, while the tool receives \<open>rm\<close>.\<close>

definition run_tool_signature :: "param list" where
  "run_tool_signature =
     [\<lparr>pa_name = ''command'', pa_kind = POSITIONAL_ONLY, pa_default = None\<rparr>,
      \<lparr>pa_name = ''env'', pa_kind = VAR_KEYWORD, pa_default = None\<rparr>]"

theorem positional_only_masked:
  "accepts_call run_tool_signature [PStr ''rm''] [(''command'', PStr ''ls'')] \<and>
   received [PStr ''rm''] [(''command'', PStr ''ls'')] 0 (run_tool_signature ! 0) = Some (PStr ''rm'') \<and>
   call_arguments (Tool (Some run_tool_signature)) [PStr ''rm''] [(''command'', PStr ''ls'')] =
     [(''command'', PStr ''ls'')]"
  by (simp add: evals run_tool_signature_def upt_rec)

end
