(* ===== verification/Explain.thy ===== *)
theory Explain
  imports Samples
begin

text \<open>
  \<open>explain.py\<close>: the explanation of a decision, its budget checks and rule by rule, and its text.
  Results: an explanation reports the decision \<open>evaluate\<close> makes, a budget check is triggered
  exactly when a budget blocks, the selected rule is the first that matches, and every call of an
  accepted policy can be explained.
\<close>

section \<open>Data\<close>

record budget_check =
  bc_name :: string
  bc_current :: string
  bc_limit :: "string option"
  bc_triggered :: bool

record budget_explanation =
  be_checks :: "budget_check list"
  be_triggered :: bool
  be_message :: "string option"

record rule_explanation =
  re_index :: nat
  re_tool :: string
  re_decision :: string
  re_reason :: string
  re_arguments :: pydict
  re_tool_matched :: bool
  re_arguments_matched :: bool
  re_matched :: bool
  re_selected :: bool

record call_explanation =
  cx_call :: tool_call
  cx_budget :: budget_explanation
  cx_rules :: "rule_explanation list"
  cx_decision :: decision

fun opt_str :: "string option \<Rightarrow> pyval" where
  "opt_str None = PNone"
| "opt_str (Some s) = PStr s"

definition check_dict :: "budget_check \<Rightarrow> pyval" where
  "check_dict b = PDict
     [(''name'', PStr (bc_name b)), (''current'', PStr (bc_current b)),
      (''limit'', opt_str (bc_limit b)), (''triggered'', PBool (bc_triggered b))]"

definition budget_dict :: "budget_explanation \<Rightarrow> pyval" where
  "budget_dict b = PDict
     [(''checks'', PList (map check_dict (be_checks b))), (''triggered'', PBool (be_triggered b)),
      (''message'', opt_str (be_message b))]"

definition rule_dict :: "rule_explanation \<Rightarrow> pyval" where
  "rule_dict r = PDict
     [(''index'', PInt (int (re_index r))), (''tool'', PStr (re_tool r)),
      (''decision'', PStr (re_decision r)), (''reason'', PStr (re_reason r)),
      (''arguments'', PDict (re_arguments r)), (''tool_matched'', PBool (re_tool_matched r)),
      (''arguments_matched'', PBool (re_arguments_matched r)), (''matched'', PBool (re_matched r)),
      (''selected'', PBool (re_selected r))]"

definition explanation_dict :: "call_explanation \<Rightarrow> pyval" where
  "explanation_dict x = PDict
     [(''tool'', PStr (tc_name (cx_call x))), (''arguments'', PDict (tc_arguments (cx_call x))),
      (''estimated_cost_usd'', PStr (dec_text (tc_cost (cx_call x)))),
      (''budget'', budget_dict (cx_budget x)), (''rules'', PList (map rule_dict (cx_rules x))),
      (''decision'', PDict (decision_dict (cx_decision x)))]"

section \<open>The explanation\<close>

text \<open>\<open>_budget_check\<close> on two texts, and the check of an integer limit, when there is one.\<close>

definition make_check :: "string \<Rightarrow> string \<Rightarrow> string \<Rightarrow> bool \<Rightarrow> budget_check" where
  "make_check nm current limit triggered =
     \<lparr>bc_name = nm, bc_current = current, bc_limit = Some limit, bc_triggered = triggered\<rparr>"

definition count_check :: "string \<Rightarrow> int option \<Rightarrow> int \<Rightarrow> budget_check list" where
  "count_check nm limit current =
     (case limit of
        None \<Rightarrow> []
      | Some m \<Rightarrow> [make_check nm (int_text current) (int_text m) (m \<le> current)])"

definition cost_check :: "budget \<Rightarrow> tool_call \<Rightarrow> usage \<Rightarrow> (exc, budget_check list) result" where
  "cost_check b c u =
     (case b_max_cost_usd b of
        None \<Rightarrow> Return []
      | Some m \<Rightarrow>
          (case dec_add (u_cost u) (tc_cost c) of
             Inl e \<Rightarrow> Raise (DecimalError e)
           | Inr projected \<Rightarrow>
               Return [make_check ''max_cost_usd'' (dec_text projected) (dec_text m)
                         (dec_less m projected)]))"

definition explain_budget ::
  "policy \<Rightarrow> tool_call \<Rightarrow> usage \<Rightarrow> decision option \<Rightarrow> (exc, budget_explanation) result" where
  "explain_budget p c u bd =
     (let b = p_budget p
      in bindR (cost_check b c u) (\<lambda>cost.
           Return \<lparr>be_checks =
               count_check ''max_calls'' (b_max_calls b) (u_tool_calls u) @
               count_check ''max_calls_per_tool'' (b_max_calls_per_tool b)
                 (get_count (u_by_tool u) (tc_name c)) @
               count_check ''max_identical_calls'' (b_max_identical_calls b)
                 (get_count (u_by_fp u) (fingerprint c)) @ cost,
             be_triggered = (bd \<noteq> None), be_message = map_option d_reason bd\<rparr>))"

definition explain_rule ::
  "tool_call \<Rightarrow> decision option \<Rightarrow> decision \<Rightarrow> nat \<times> rule \<Rightarrow> (exc, rule_explanation) result" where
  "explain_rule c bd d ir =
     (case ir of (i, r) \<Rightarrow>
        (let tool_matched = rule_tool_matches r c
         in bindR (rule_arguments_match r c) (\<lambda>arguments_matched.
              Return \<lparr>re_index = i, re_tool = r_tool r, re_decision = kind_value (r_decision r),
                re_reason = r_reason r, re_arguments = r_arguments r,
                re_tool_matched = tool_matched, re_arguments_matched = arguments_matched,
                re_matched = (tool_matched \<and> arguments_matched),
                re_selected = (bd = None \<and> d_rule_index d = Some i)\<rparr>)))"

definition explain_call :: "policy \<Rightarrow> tool_call \<Rightarrow> usage \<Rightarrow> (exc, call_explanation) result" where
  "explain_call p c u =
     bindR (budget_decision p c u) (\<lambda>bd.
     bindR (explain_budget p c u bd) (\<lambda>b.
     bindR (evaluate p c u) (\<lambda>d.
     bindR (mapR (explain_rule c bd d) (enumerate 0 (p_rules p))) (\<lambda>rules.
       Return \<lparr>cx_call = c, cx_budget = b, cx_rules = rules, cx_decision = d\<rparr>))))"

section \<open>The text\<close>

definition str_style :: json_style where
  "str_style = \<lparr>js_ascii = True, js_sort = True, js_item_sep = '','', js_key_sep = '':'',
     js_default_str = True\<rparr>"

definition yes_no :: "bool \<Rightarrow> string" where
  "yes_no b = (if b then ''yes'' else ''no'')"

definition arguments_text :: "pydict \<Rightarrow> string" where
  "arguments_text d = (if d = [] then ''(none)'' else json_text str_style (PDict d))"

definition argument_match_text :: "rule_explanation \<Rightarrow> string" where
  "argument_match_text r =
     (if re_arguments r = [] then ''n/a'' else yes_no (re_arguments_matched r))"

definition check_line :: "budget_check \<Rightarrow> string" where
  "check_line b =
     ''  '' @ bc_name b @ '': '' @ bc_current b @ '' of '' @
     (case bc_limit b of None \<Rightarrow> ''unlimited'' | Some t \<Rightarrow> t) @ '' '' @
     (if bc_triggered b then ''EXHAUSTED'' else ''ok'')"

definition rule_line :: "rule_explanation \<Rightarrow> string" where
  "rule_line r =
     ''  '' @ nat_text (re_index r) @ '': '' @ re_decision r @ '' tool='' @ re_tool r @
     '' arguments='' @ arguments_text (re_arguments r) @
     '' tool_match='' @ yes_no (re_tool_matched r) @
     '' argument_match='' @ argument_match_text r @
     '' matched='' @ yes_no (re_matched r) @ '' selected='' @ yes_no (re_selected r)"

text \<open>The assertion that a triggered budget has a message holds of every explanation, since both
  come from the same decision.\<close>

definition explain_text :: "call_explanation \<Rightarrow> string" where
  "explain_text x =
     (let c = cx_call x; b = cx_budget x; d = cx_decision x
      in join_with [char_of (10 :: nat)]
        ([''policy explain: '' @ tc_name c,
          ''arguments: '' @ json_text str_style (PDict (tc_arguments c)),
          ''estimated cost: '' @ dec_text (tc_cost c), [], ''budget:''] @
         (if be_checks b = [] then [''  no limits configured''] else []) @
         map check_line (be_checks b) @
         [if be_triggered b then ''budget decision: '' @ the (be_message b)
          else ''budget decision: none (all budgets within limits)'', [], ''rules:''] @
         (if cx_rules x = [] then [''  (no rules)''] else []) @
         map rule_line (cx_rules x) @
         [[], (case d_rule_index d of
                 Some i \<Rightarrow> ''decision: '' @ kind_value (d_kind d) @ '' (rule '' @ nat_text i @ '')''
               | None \<Rightarrow> ''decision: '' @ kind_value (d_kind d)),
          ''  '' @ d_reason d]))"

declare make_check_def [evals] count_check_def [evals] cost_check_def [evals]
  explain_budget_def [evals] explain_rule_def [evals] explain_call_def [evals]

section \<open>Lemmas\<close>

lemma count_check_triggered: "list_ex bc_triggered (count_check nm limit n) = reached limit n"
  by (simp add: count_check_def make_check_def reached_def split: option.split)

lemma cost_check_triggered:
  assumes "cost_check b c u = Inr checks"
  shows "cost_decision b c u = Inr None \<longleftrightarrow> \<not> list_ex bc_triggered checks"
    and "cost_decision b c u = Inr (Some d) \<Longrightarrow> list_ex bc_triggered checks"
  using assms
  by (auto simp: cost_check_def cost_decision_def make_check_def split: option.splits sum.splits if_splits)

lemma explain_budget_triggered:
  assumes "budget_decision p c u = Inr bd" "explain_budget p c u bd = Inr b"
  shows "be_triggered b = (bd \<noteq> None)" "be_triggered b = list_ex bc_triggered (be_checks b)"
    "be_message b = map_option d_reason bd"
proof -
  let ?b = "p_budget p"
  obtain cost where cost: "cost_check ?b c u = Inr cost"
    and b: "be_triggered b = (bd \<noteq> None)" "be_message b = map_option d_reason bd"
    and ex: "list_ex bc_triggered (be_checks b) =
      (reached (b_max_calls ?b) (u_tool_calls u) \<or>
       reached (b_max_calls_per_tool ?b) (get_count (u_by_tool u) (tc_name c)) \<or>
       reached (b_max_identical_calls ?b) (get_count (u_by_fp u) (fingerprint c)) \<or>
       list_ex bc_triggered cost)"
    using assms(2)
    by (auto simp: explain_budget_def Let_def result_simps count_check_triggered)
  show "be_triggered b = (bd \<noteq> None)" "be_message b = map_option d_reason bd" by (rule b)+
  show "be_triggered b = list_ex bc_triggered (be_checks b)"
    using assms(1) cost_check_triggered [OF cost]
    unfolding b(1) ex budget_decision_def Let_def
    by (cases bd) (auto split: if_splits)
qed

lemma explain_call_Inr:
  assumes "explain_call p c u = Inr x"
  obtains bd where "budget_decision p c u = Inr bd" "explain_budget p c u bd = Inr (cx_budget x)"
    "evaluate p c u = Inr (cx_decision x)" "cx_call x = c"
    "length (cx_rules x) = length (p_rules p)"
    "\<And>i. i < length (p_rules p) \<Longrightarrow>
       explain_rule c bd (cx_decision x) (i, p_rules p ! i) = Inr (cx_rules x ! i)"
proof -
  from assms obtain bd b d rs where *: "budget_decision p c u = Inr bd"
    "explain_budget p c u bd = Inr b" "evaluate p c u = Inr d"
    "mapR (explain_rule c bd d) (enumerate 0 (p_rules p)) = Inr rs"
    "x = \<lparr>cx_call = c, cx_budget = b, cx_rules = rs, cx_decision = d\<rparr>"
    by (auto simp: explain_call_def result_simps)
  have all: "list_all2 (\<lambda>ir y. explain_rule c bd d ir = Inr y) (enumerate 0 (p_rules p)) rs"
    using *(4) by (simp add: mapR_Inr_iff)
  then have len: "length rs = length (p_rules p)"
    by (auto dest: list_all2_lengthD)
  have "explain_rule c bd d (i, p_rules p ! i) = Inr (rs ! i)" if "i < length (p_rules p)" for i
    using list_all2_nthD [OF all, of i] that by (simp add: nth_enumerate_eq)
  with * len that [of bd] show ?thesis by simp
qed

lemma explain_rule_Inr:
  assumes "explain_rule c bd d (i, r) = Inr e"
  shows "re_index e = i" "rule_matches r c = Inr (re_matched e)"
    "re_selected e = (bd = None \<and> d_rule_index d = Some i)"
  using assms by (auto simp: explain_rule_def rule_matches_def Let_def result_simps)

lemma evaluate_selects:
  assumes "evaluate p c u = Inr d" "budget_decision p c u = Inr bd"
  shows "(bd = None \<and> d_rule_index d = Some i) \<longleftrightarrow>
    bd = None \<and> i < length (p_rules p) \<and> rule_matches (p_rules p ! i) c = Inr True \<and>
    (\<forall>l < i. rule_matches (p_rules p ! l) c = Inr False)"
  using assms(1)
proof (cases rule: evaluateE)
  case budget
  then show ?thesis using assms(2) by simp
next
  case (rule j)
  have "j = i" if "rule_matches (p_rules p ! i) c = Inr True"
    "\<forall>l < i. rule_matches (p_rules p ! l) c = Inr False"
    using that rule(4,5) by (metis Inr_inject linorder_neqE_nat)
  then show ?thesis using rule by (auto simp: rule_decision_def)
next
  case default
  then have "rule_matches (p_rules p ! i) c = Inr False" if "i < length (p_rules p)"
    using that by simp
  then show ?thesis using default by (auto simp: default_decision_of_def)
qed

lemma cost_check_returns: "returns (dec_add (u_cost u) (tc_cost c)) \<Longrightarrow> returns (cost_check b c u)"
  by (auto simp: cost_check_def returns_iff split: option.split)

lemma explain_rule_returns:
  assumes "rule_ok r" "call_values_ok c"
  shows "returns (explain_rule c bd d (i, r))"
proof -
  have "returns (rule_arguments_match r c)"
    using assms rule_arguments_returns by blast
  then show ?thesis by (auto simp: explain_rule_def Let_def returns_iff)
qed

section \<open>Properties\<close>

text \<open>C21: an explanation is the decision. It reports the decision \<open>evaluate\<close> makes; some budget check
  is triggered exactly when a budget blocks, and then the message is that of the decision; a rule
  is reported as matched exactly when it matches, and selected exactly when no budget blocks and it
  is the first that matches.\<close>

theorem explanation_faithful:
  assumes "explain_call p c u = Inr x"
  shows "evaluate p c u = Inr (cx_decision x) \<and>
    list_ex bc_triggered (be_checks (cx_budget x)) = be_triggered (cx_budget x) \<and>
    (be_triggered (cx_budget x) \<longrightarrow> be_message (cx_budget x) = Some (d_reason (cx_decision x))) \<and>
    (\<forall>i < length (p_rules p).
       rule_matches (p_rules p ! i) c = Inr (re_matched (cx_rules x ! i)) \<and>
       (re_selected (cx_rules x ! i) \<longleftrightarrow> \<not> be_triggered (cx_budget x) \<and>
          re_matched (cx_rules x ! i) \<and> (\<forall>l < i. \<not> re_matched (cx_rules x ! l))))"
proof -
  from assms obtain bd where bd: "budget_decision p c u = Inr bd"
    and b: "explain_budget p c u bd = Inr (cx_budget x)"
    and d: "evaluate p c u = Inr (cx_decision x)"
    and r: "\<And>i. i < length (p_rules p) \<Longrightarrow>
      explain_rule c bd (cx_decision x) (i, p_rules p ! i) = Inr (cx_rules x ! i)"
    by (rule explain_call_Inr) blast
  note t = explain_budget_triggered [OF bd b]
  note rr = explain_rule_Inr [OF r]
  have "d_reason (cx_decision x) = d_reason (the bd)" if "bd \<noteq> None"
    using d bd that by (auto simp: evaluate_def)
  then have message: "be_triggered (cx_budget x) \<longrightarrow>
      be_message (cx_budget x) = Some (d_reason (cx_decision x))"
    using t by auto
  have "re_selected (cx_rules x ! i) \<longleftrightarrow> \<not> be_triggered (cx_budget x) \<and>
      re_matched (cx_rules x ! i) \<and> (\<forall>l < i. \<not> re_matched (cx_rules x ! l))"
    if i: "i < length (p_rules p)" for i
  proof -
    have "(\<forall>l < i. rule_matches (p_rules p ! l) c = Inr False) =
        (\<forall>l < i. \<not> re_matched (cx_rules x ! l))"
    proof (intro all_cong1 imp_cong refl)
      fix l assume "l < i"
      then have "l < length (p_rules p)" using i by simp
      from rr(2) [OF this] show "(rule_matches (p_rules p ! l) c = Inr False) =
          (\<not> re_matched (cx_rules x ! l))" by simp
    qed
    then show ?thesis
      unfolding rr(3) [OF i] evaluate_selects [OF d bd] rr(2) [OF i] t(1) using i by simp
  qed
  with rr(2) have rules: "\<forall>i < length (p_rules p).
      rule_matches (p_rules p ! i) c = Inr (re_matched (cx_rules x ! i)) \<and>
      (re_selected (cx_rules x ! i) \<longleftrightarrow> \<not> be_triggered (cx_budget x) \<and>
         re_matched (cx_rules x ! i) \<and> (\<forall>l < i. \<not> re_matched (cx_rules x ! l)))"
    by blast
  show ?thesis by (intro conjI d t(2) [symmetric] message rules)
qed

lemma explanation_faithful_witness:
  "\<exists>x. explain_call sample_policy deploy_call empty_usage = Inr x \<and>
     map re_selected (cx_rules x) = [False, True] \<and>
     evaluate sample_policy deploy_call empty_usage = Inr (cx_decision x)"
proof -
  obtain x where x: "explain_call sample_policy deploy_call empty_usage = Inr x"
    "map re_selected (cx_rules x) = [False, True]"
    by (simp add: sample_policy_def deploy_call_def evals get_count_def PyDecimal.signed_def
        scale_to_def dec_zero_def dec_fix_def)
  have "evaluate sample_policy deploy_call empty_usage = Inr (cx_decision x)"
    by (rule explanation_faithful [OF x(1), THEN conjunct1])
  with x show ?thesis by (intro exI [of _ x] conjI)
qed

text \<open>Every call can be explained. For a document that loaded, a call with values the matchers can
  read and a cost that can be added, \<open>explain_call\<close> returns, although it tries the argument
  patterns of all rules, also those the decision never reaches.\<close>

theorem explanation_returns:
  assumes "policy_from_dict raw = Inr p" "call_values_ok c"
    "returns (dec_add (u_cost u) (tc_cost c))"
  shows "returns (explain_call p c u)"
proof -
  have ok: "policy_ok p" using assms(1) by (rule policy_from_dict_ok)
  have "returns (explain_rule c bd d ir)" if "ir \<in> set (enumerate 0 (p_rules p))" for bd d ir
  proof -
    have "rule_ok (snd ir)"
      using that ok by (auto simp: in_set_enumerate_eq policy_ok_def list_all_length)
    from explain_rule_returns [OF this assms(2), of bd d "fst ir"] show ?thesis by simp
  qed
  then show ?thesis
    unfolding explain_call_def explain_budget_def Let_def
    by (intro returns_bindR budget_decision_returns cost_check_returns evaluate_returns
        returns_mapR ok assms(2,3)) simp_all
qed

lemma explanation_returns_witness:
  "returns (explain_call sample_policy read_call empty_usage)"
proof -
  have "returns (dec_add (u_cost empty_usage) (tc_cost read_call))"
    by (simp add: read_call_def evals scale_to_def dec_zero_def dec_fix_def PyDecimal.signed_def)
  then show ?thesis by (rule explanation_returns [OF sample_policy_loads sample_calls_ok(1)])
qed

end
