(* ===== verification/JsonText.thy ===== *)
theory JsonText
  imports Models
begin

text \<open>
  The option \<open>sort_keys\<close> of \<open>json.dumps\<close>: writing with sorted keys is writing the value whose keys are in
  order.
\<close>

section \<open>Keys in order\<close>

text \<open>The value with the keys of every dictionary in order.\<close>

fun key_sorted :: "pyval \<Rightarrow> pyval" and keys_sorted :: "pyval list \<Rightarrow> pyval list"
  and items_sorted :: "pydict \<Rightarrow> pydict" where
  "key_sorted (PDict d) = PDict (sort_key fst (items_sorted d))"
| "key_sorted (PList xs) = PList (keys_sorted xs)"
| "key_sorted (PTuple xs) = PTuple (keys_sorted xs)"
| "key_sorted v = v"
| "keys_sorted [] = []"
| "keys_sorted (x # xs) = key_sorted x # keys_sorted xs"
| "items_sorted [] = []"
| "items_sorted (kv # d) = (fst kv, key_sorted (snd kv)) # items_sorted d"

lemma items_sorted_map: "items_sorted d = map (\<lambda>kv. (fst kv, key_sorted (snd kv))) d"
  by (induction d) auto

lemma map_of_items_sorted: "map_of (items_sorted d) k = map_option key_sorted (map_of d k)"
  by (induction d) auto

lemma map_of_key_sorted:
  assumes "dict_wf d"
  shows "map_of (sort_key fst (items_sorted d)) k = map_option key_sorted (map_of d k)"
proof -
  have keys: "map fst (items_sorted d) = map fst d" by (simp add: items_sorted_map)
  have "distinct (map fst (sort_key fst (items_sorted d))) = distinct (map fst (items_sorted d))"
    by (simp add: distinct_map)
  then have "map_of (sort_key fst (items_sorted d)) = map_of (items_sorted d)"
    using assms unfolding keys dict_wf_def
    by (intro map_of_inject_set [THEN iffD2]) (simp_all add: keys)
  then show ?thesis by (simp add: map_of_items_sorted)
qed

lemma keys_sorted_map: "keys_sorted xs = map key_sorted xs"
  by (induction xs) auto

lemma json_items_map: "json_items st d = map (\<lambda>kv. (fst kv, json_text st (snd kv))) d"
  by (induction d) auto

lemma json_texts_map: "json_texts st xs = map (json_text st) xs"
  by (induction xs) auto

text \<open>Sorting the keys in the text is sorting them in the value.\<close>

lemma insort_key_map:
  "(\<And>x. fst (g x) = fst x) \<Longrightarrow> insort_key fst (g x) (map g xs) = map g (insort_key fst x xs)"
  by (induction xs) auto

lemma sort_key_map:
  "(\<And>x. fst (g x) = fst x) \<Longrightarrow> sort_key fst (map g xs) = map g (sort_key fst xs)"
  by (induction xs) (auto simp: insort_key_map)

lemma json_text_key_sorted:
  "js_sort st \<Longrightarrow> json_text st v = json_text (st\<lparr>js_sort := False\<rparr>) (key_sorted v)"
  "js_sort st \<Longrightarrow> json_texts st xs = json_texts (st\<lparr>js_sort := False\<rparr>) (keys_sorted xs)"
  "js_sort st \<Longrightarrow> json_items st d = json_items (st\<lparr>js_sort := False\<rparr>) (items_sorted d)"
proof (induction st v and st xs and st d rule: json_text_json_texts_json_items.induct)
  case (8 st d)
  let ?g = "\<lambda>kv. (fst kv, json_text (st\<lparr>js_sort := False\<rparr>) (snd kv))"
  from 8 have "json_items st d = map ?g (items_sorted d)"
    by (simp add: json_items_map [of "st\<lparr>js_sort := False\<rparr>"])
  then have "sort_key fst (json_items st d) = map ?g (sort_key fst (items_sorted d))"
    by (simp add: sort_key_map)
  with "8.prems" show ?case
    by (simp add: json_items_map [of "st\<lparr>js_sort := False\<rparr>"])
qed simp_all

end
