(* ===== verification/JsonParse.thy ===== *)
theory JsonParse
  imports JsonText
begin

text \<open>
  \<open>json.loads\<close> on a text, with the options the program uses: an \<open>object_pairs_hook\<close> that sees the pairs of
  every object. The scanner is that of CPython: NaN and the infinities are read, control characters
  in strings are refused, an integer of more than 4300 digits raises, and nesting is bounded by the
  interpreter's stack, whose room is an argument. The float a numeral denotes is written by \<open>repr\<close>:
  that function is an argument too. Results: the fuel of the scanner is always enough, and the text
  of a JSON value reads back as the value.
\<close>

section \<open>The scanner\<close>

text \<open>What stops the scanning of a string: an error, or an escape for a character outside the range of
  the model's strings.\<close>

datatype text_failure = TextMalformed | TextBeyond

datatype 'h json_failure =
    JsMalformed
  | JsTooDeep
  | JsBigInteger nat
  | JsHook 'h
  | JsBeyond
  | JsFuel

fun text_error :: "text_failure \<Rightarrow> 'h json_failure" where
  "text_error TextMalformed = JsMalformed"
| "text_error TextBeyond = JsBeyond"

record 'h json_reader =
  jr_hook :: "pydict \<Rightarrow> ('h, pydict) result"
  jr_float :: "string \<Rightarrow> string"

definition json_space :: "char \<Rightarrow> bool" where
  "json_space c = (code c = 32 \<or> code c = 9 \<or> code c = 10 \<or> code c = 13)"

definition skip_space :: "string \<Rightarrow> string" where
  "skip_space s = dropWhile json_space s"

definition simple_escape :: "char \<Rightarrow> char option" where
  "simple_escape e =
     (if e = dquote \<or> e = backslash \<or> e = CHR ''/'' then Some e
      else if e = CHR ''b'' then Some (char_of (8 :: nat))
      else if e = CHR ''f'' then Some (char_of (12 :: nat))
      else if e = CHR ''n'' then Some (char_of (10 :: nat))
      else if e = CHR ''r'' then Some (char_of (13 :: nat))
      else if e = CHR ''t'' then Some (char_of (9 :: nat))
      else None)"

definition cons_text :: "char \<Rightarrow> ('e, string \<times> string) result \<Rightarrow> ('e, string \<times> string) result" where
  "cons_text c m = bindR m (\<lambda>(t, r). Return (c # t, r))"

text \<open>The character of an escape, after its backslash.\<close>

definition read_escape :: "string \<Rightarrow> (text_failure, char \<times> string) result" where
  "read_escape s =
     (case s of
        [] \<Rightarrow> Raise TextMalformed
      | e # r \<Rightarrow>
          if e = CHR ''u'' then
            (case r of
               h1 # h2 # h3 # h4 # r' \<Rightarrow>
                 if is_hex h1 \<and> is_hex h2 \<and> is_hex h3 \<and> is_hex h4
                 then (let n = text_nat_base 16 [h1, h2, h3, h4]
                       in if n < 256 then Return (char_of n, r') else Raise TextBeyond)
                 else Raise TextMalformed
             | _ \<Rightarrow> Raise TextMalformed)
          else (case simple_escape e of
                  None \<Rightarrow> Raise TextMalformed
                | Some x \<Rightarrow> Return (x, r)))"

lemma read_escape_length: "read_escape s = Inr (x, r) \<Longrightarrow> length r < length s"
  by (auto simp: read_escape_def Let_def split: list.splits if_splits option.splits)

text \<open>The text after an opening quote, up to and without the closing one.\<close>

function scan_string :: "string \<Rightarrow> (text_failure, string \<times> string) result" where
  "scan_string [] = Raise TextMalformed"
| "scan_string (c # cs) =
     (if c = dquote then Return ([], cs)
      else if c = backslash then
        (case read_escape cs of
           Inl e \<Rightarrow> Raise e
         | Inr (x, r) \<Rightarrow> cons_text x (scan_string r))
      else if code c < 32 then Raise TextMalformed
      else cons_text c (scan_string cs))"
  by pat_completeness auto
termination
  by (relation "measure length") (auto dest: read_escape_length)

text \<open>A numeral: the longest match of the regular expression for an integer part, a fraction and an
  exponent.\<close>

definition scan_int_part :: "string \<Rightarrow> (string \<times> string) option" where
  "scan_int_part s =
     (let (sign, t) = (case s of c # cs \<Rightarrow> if c = CHR ''-'' then ([c], cs) else ([], s) | [] \<Rightarrow> ([], s))
      in case t of
           [] \<Rightarrow> None
         | c # cs \<Rightarrow>
             if c = CHR ''0'' then Some (sign @ [c], cs)
             else if is_digit c then Some (sign @ takeWhile is_digit t, dropWhile is_digit t)
             else None)"

definition scan_fraction :: "string \<Rightarrow> string \<times> string" where
  "scan_fraction s =
     (case s of
        c # d # r \<Rightarrow>
          if c = CHR ''.'' \<and> is_digit d
          then (c # takeWhile is_digit (d # r), dropWhile is_digit (d # r)) else ([], s)
      | _ \<Rightarrow> ([], s))"

definition scan_exponent :: "string \<Rightarrow> string \<times> string" where
  "scan_exponent s =
     (case s of
        [] \<Rightarrow> ([], s)
      | c # r \<Rightarrow>
          if c = CHR ''e'' \<or> c = CHR ''E''
          then (let (sign, t) = (case r of d # r' \<Rightarrow>
                    if d = CHR ''+'' \<or> d = CHR ''-'' then ([d], r') else ([], r) | [] \<Rightarrow> ([], r))
                in if takeWhile is_digit t = [] then ([], s)
                   else (c # sign @ takeWhile is_digit t, dropWhile is_digit t))
          else ([], s))"

definition text_int :: "string \<Rightarrow> int" where
  "text_int t =
     (case t of c # r \<Rightarrow> if c = CHR ''-'' then - int (text_nat r) else int (text_nat t) | [] \<Rightarrow> 0)"

definition number_value ::
  "('h, 'm) json_reader_scheme \<Rightarrow> string \<Rightarrow> string \<Rightarrow> ('h json_failure, pyval) result" where
  "number_value R i rest =
     (if rest = []
      then (if 4300 < length (filter is_digit i) then Raise (JsBigInteger (length (filter is_digit i))) else Return (PInt (text_int i)))
      else Return (PFloat (jr_float R (i @ rest))))"

text \<open>What is left when no numeral matches: the constants.\<close>

definition scan_constant :: "string \<Rightarrow> (pyval \<times> string) option" where
  "scan_constant s =
     (if starts_with ''null'' s then Some (PNone, drop 4 s)
      else if starts_with ''true'' s then Some (PBool True, drop 4 s)
      else if starts_with ''false'' s then Some (PBool False, drop 5 s)
      else if starts_with ''NaN'' s then Some (PFloat ''nan'', drop 3 s)
      else if starts_with ''Infinity'' s then Some (PFloat ''inf'', drop 8 s)
      else if starts_with ''-Infinity'' s then Some (PFloat ''-inf'', drop 9 s)
      else None)"

definition scan_atom ::
  "('h, 'm) json_reader_scheme \<Rightarrow> string \<Rightarrow> ('h json_failure, pyval \<times> string) result" where
  "scan_atom R s =
     (case scan_int_part s of
        Some (i, r) \<Rightarrow>
          (case scan_fraction r of (f, r1) \<Rightarrow>
             (case scan_exponent r1 of (e, r2) \<Rightarrow>
                bindR (number_value R i (f @ e)) (\<lambda>v. Return (v, r2))))
      | None \<Rightarrow>
          (case scan_constant s of
             None \<Rightarrow> Raise JsMalformed
           | Some x \<Rightarrow> Return x))"

text \<open>Values, the members of an object after its brace, the elements of an array after its bracket.
  The first argument is fuel, the second the room on the stack.\<close>

fun scan_value ::
    "('h, 'm) json_reader_scheme \<Rightarrow> nat \<Rightarrow> nat \<Rightarrow> string \<Rightarrow> ('h json_failure, pyval \<times> string) result"
  and scan_members ::
    "('h, 'm) json_reader_scheme \<Rightarrow> nat \<Rightarrow> nat \<Rightarrow> string \<Rightarrow> ('h json_failure, pydict \<times> string) result"
  and scan_elements ::
    "('h, 'm) json_reader_scheme \<Rightarrow> nat \<Rightarrow> nat \<Rightarrow> string \<Rightarrow> ('h json_failure, pyval list \<times> string) result"
where
  "scan_value R 0 d s = Raise JsFuel"
| "scan_value R (Suc n) d s =
     (case s of
        [] \<Rightarrow> Raise JsMalformed
      | c # r \<Rightarrow>
          if c = dquote then bindR (map_errorR text_error (scan_string r)) (\<lambda>(t, r'). Return (PStr t, r'))
          else if c = CHR ''{'' then
            (if d = 0 then Raise JsTooDeep
             else bindR
               (if starts_with ''}'' (skip_space r) then Return ([], drop 1 (skip_space r))
                else scan_members R n (d - 1) (skip_space r))
               (\<lambda>(ps, r'). bindR (map_errorR JsHook (jr_hook R ps)) (\<lambda>ps'. Return (PDict ps', r'))))
          else if c = CHR ''['' then
            (if d = 0 then Raise JsTooDeep
             else if starts_with '']'' (skip_space r) then Return (PList [], drop 1 (skip_space r))
             else bindR (scan_elements R n (d - 1) (skip_space r)) (\<lambda>(xs, r'). Return (PList xs, r')))
          else scan_atom R s)"
| "scan_members R 0 d s = Raise JsFuel"
| "scan_members R (Suc n) d s =
     (case s of
        [] \<Rightarrow> Raise JsMalformed
      | c # r \<Rightarrow>
          if c \<noteq> dquote then Raise JsMalformed
          else bindR (map_errorR text_error (scan_string r)) (\<lambda>(k, r1).
            (case skip_space r1 of
               [] \<Rightarrow> Raise JsMalformed
             | c2 # r2 \<Rightarrow>
                 if c2 \<noteq> CHR '':'' then Raise JsMalformed
                 else bindR (scan_value R n d (skip_space r2)) (\<lambda>(v, r3).
                   (case skip_space r3 of
                      [] \<Rightarrow> Raise JsMalformed
                    | c4 # r4 \<Rightarrow>
                        if c4 = CHR ''}'' then Return ([(k, v)], r4)
                        else if c4 = CHR '',''
                        then bindR (scan_members R n d (skip_space r4)) (\<lambda>(ps, r5). Return ((k, v) # ps, r5))
                        else Raise JsMalformed)))))"
| "scan_elements R 0 d s = Raise JsFuel"
| "scan_elements R (Suc n) d s =
     bindR (scan_value R n d s) (\<lambda>(v, r3).
       (case skip_space r3 of
          [] \<Rightarrow> Raise JsMalformed
        | c4 # r4 \<Rightarrow>
            if c4 = CHR '']'' then Return ([v], r4)
            else if c4 = CHR '',''
            then bindR (scan_elements R n d (skip_space r4)) (\<lambda>(xs, r5). Return (v # xs, r5))
            else Raise JsMalformed))"

text \<open>Every call consumes a character, or is the one below a call that did: twice the length is fuel
  enough.\<close>

definition json_loads ::
  "('h, 'm) json_reader_scheme \<Rightarrow> nat \<Rightarrow> string \<Rightarrow> ('h json_failure, pyval) result" where
  "json_loads R room s =
     bindR (scan_value R (2 * length s + 2) room (skip_space s)) (\<lambda>(v, r).
       if skip_space r = [] then Return v else Raise JsMalformed)"

text \<open>Evaluation: the fuel is a numeral.\<close>

lemmas scan_numerals [evals] =
  scan_value.simps(2) [where n = "pred_numeral k" for k, folded numeral_eq_Suc]
  scan_members.simps(2) [where n = "pred_numeral k" for k, folded numeral_eq_Suc]
  scan_elements.simps(2) [where n = "pred_numeral k" for k, folded numeral_eq_Suc]

declare json_space_def [evals] skip_space_def [evals] simple_escape_def [evals] cons_text_def [evals]
  read_escape_def [evals] scan_int_part_def [evals] scan_fraction_def [evals]
  scan_exponent_def [evals] text_int_def [evals] number_value_def [evals]
  scan_constant_def [evals] scan_atom_def [evals] json_loads_def [evals]

section \<open>The scanner consumes its input\<close>

lemma skip_space_length: "length (skip_space s) \<le> length s"
  by (simp add: skip_space_def length_dropWhile_le)

lemma cons_text_Inr: "cons_text c m = Inr (t, r) \<longleftrightarrow> (\<exists>u. t = c # u \<and> m = Inr (u, r))"
  by (auto simp: cons_text_def result_simps)

lemma scan_string_length: "scan_string s = Inr (t, r) \<Longrightarrow> length r < length s"
proof (induction s arbitrary: t rule: scan_string.induct)
  case (2 c cs)
  then show ?case
    by (auto simp: cons_text_Inr split: if_splits sum.splits prod.splits)
      (meson less_SucI order.strict_trans read_escape_length)+
qed simp

lemma scan_int_part_length: "scan_int_part s = Some (i, r) \<Longrightarrow> length r < length s"
  by (auto simp: scan_int_part_def Let_def less_Suc_eq_le length_dropWhile_le
      split: list.splits if_splits intro: le_SucI)

lemma scan_fraction_length: "scan_fraction s = (f, r) \<Longrightarrow> length r \<le> length s"
  by (auto simp: scan_fraction_def length_dropWhile_le le_SucI split: list.splits if_splits)

lemma scan_exponent_length: "scan_exponent s = (e, r) \<Longrightarrow> length r \<le> length s"
  by (auto simp: scan_exponent_def Let_def length_dropWhile_le le_SucI split: list.splits if_splits)

lemma scan_constant_length: "scan_constant s = Some (v, r) \<Longrightarrow> length r < length s"
  by (auto simp: scan_constant_def starts_with_iff split: if_splits)

lemma scan_atom_length: "scan_atom R s = Inr (v, r) \<Longrightarrow> length r < length s"
  using scan_int_part_length scan_fraction_length scan_exponent_length scan_constant_length
  by (auto simp: scan_atom_def result_simps split: option.splits prod.splits)
    (meson le_less_trans order.trans)

lemma drop1_skip_length: "starts_with [c] (skip_space r) \<Longrightarrow> length (drop 1 (skip_space r)) < Suc (length r)"
  using skip_space_length [of r] by simp

lemma skip_space_Cons: "skip_space s = c # r \<Longrightarrow> length r < length s"
  using skip_space_length [of s] by simp

lemmas scan_lengths = scan_string_length scan_atom_length skip_space_length skip_space_Cons

text \<open>What one step of a member or an element reads.\<close>

lemma scan_members_step:
  assumes "scan_members R (Suc n) d s = Inr (ps, r)"
  obtains t k r1 r2 v r3 c r4 where "s = dquote # t" "scan_string t = Inr (k, r1)"
    "skip_space r1 = CHR '':'' # r2" "scan_value R n d (skip_space r2) = Inr (v, r3)"
    "skip_space r3 = c # r4"
    "c = CHR ''}'' \<and> ps = [(k, v)] \<and> r = r4 \<or>
     c = CHR '','' \<and> (\<exists>ps'. scan_members R n d (skip_space r4) = Inr (ps', r) \<and> ps = (k, v) # ps')"
proof -
  from assms obtain t where s: "s = dquote # t" by (auto split: list.splits if_splits)
  with assms obtain k r1 where 1: "scan_string t = Inr (k, r1)" by (auto simp: result_simps)
  with assms s obtain r2 where 2: "skip_space r1 = CHR '':'' # r2"
    by (auto split: list.splits if_splits)
  with assms s 1 obtain v r3 where 3: "scan_value R n d (skip_space r2) = Inr (v, r3)"
    by (auto simp: result_simps)
  with assms s 1 2 obtain c r4 where 4: "skip_space r3 = c # r4" by (auto split: list.splits)
  from assms s 1 2 3 4 have "c = CHR ''}'' \<and> ps = [(k, v)] \<and> r = r4 \<or>
     c = CHR '','' \<and> (\<exists>ps'. scan_members R n d (skip_space r4) = Inr (ps', r) \<and> ps = (k, v) # ps')"
    by (auto simp: result_simps split: if_splits)
  with s 1 2 3 4 show thesis by (rule that)
qed

lemma scan_elements_step:
  assumes "scan_elements R (Suc n) d s = Inr (vs, r)"
  obtains v r3 c r4 where "scan_value R n d s = Inr (v, r3)" "skip_space r3 = c # r4"
    "c = CHR '']'' \<and> vs = [v] \<and> r = r4 \<or>
     c = CHR '','' \<and> (\<exists>vs'. scan_elements R n d (skip_space r4) = Inr (vs', r) \<and> vs = v # vs')"
proof -
  from assms obtain v r3 where 3: "scan_value R n d s = Inr (v, r3)" by (auto simp: result_simps)
  with assms obtain c r4 where 4: "skip_space r3 = c # r4" by (auto split: list.splits)
  from assms 3 4 have "c = CHR '']'' \<and> vs = [v] \<and> r = r4 \<or>
     c = CHR '','' \<and> (\<exists>vs'. scan_elements R n d (skip_space r4) = Inr (vs', r) \<and> vs = v # vs')"
    by (auto simp: result_simps split: if_splits)
  with 3 4 show thesis by (rule that)
qed

lemma scan_length:
  "scan_value R n d s = Inr (v, r) \<Longrightarrow> length r < length s"
  "scan_members R n d s = Inr (ps, r) \<Longrightarrow> length r < length s"
  "scan_elements R n d s = Inr (vs, r) \<Longrightarrow> length r < length s"
proof (induction n arbitrary: d s v r ps vs)
  case (Suc n)
  {
    case 1
    show ?case
    proof (cases s)
      case (Cons c t)
      have "length r < length s" if "scan_atom R s = Inr (v, r)" using that by (rule scan_atom_length)
      moreover have "length r \<le> length t" if "scan_members R n (d - 1) (skip_space t) = Inr (ps, r)" for ps
        using Suc(2) [OF that] skip_space_length [of t] by simp
      moreover have "length r \<le> length t" if "scan_elements R n (d - 1) (skip_space t) = Inr (vs, r)" for vs
        using Suc(3) [OF that] skip_space_length [of t] by simp
      moreover have "length (drop 1 (skip_space t)) \<le> length t"
        using skip_space_length [of t] by simp
      ultimately show ?thesis
        using 1 Cons scan_string_length [of t]
        by (auto simp: result_simps less_Suc_eq_le less_imp_le split: if_splits)
    qed (use 1 in simp)
  next
    case 2
    from 2 obtain t k r1 r2 v r3 c r4 where s: "s = dquote # t" "scan_string t = Inr (k, r1)"
      "skip_space r1 = CHR '':'' # r2" "scan_value R n d (skip_space r2) = Inr (v, r3)"
      "skip_space r3 = c # r4"
      and last: "c = CHR ''}'' \<and> ps = [(k, v)] \<and> r = r4 \<or>
        c = CHR '','' \<and> (\<exists>ps'. scan_members R n d (skip_space r4) = Inr (ps', r) \<and> ps = (k, v) # ps')"
      by (rule scan_members_step)
    have "length r4 < length s"
      using s(1) scan_string_length [OF s(2)] skip_space_Cons [OF s(3)] Suc(1) [OF s(4)]
        skip_space_length [of r2] skip_space_Cons [OF s(5)] by simp
    then show ?case
      using last Suc(2) [of d "skip_space r4" _ r] skip_space_length [of r4] by fastforce
  next
    case 3
    from 3 obtain v r3 c r4 where s: "scan_value R n d s = Inr (v, r3)" "skip_space r3 = c # r4"
      and last: "c = CHR '']'' \<and> vs = [v] \<and> r = r4 \<or>
        c = CHR '','' \<and> (\<exists>vs'. scan_elements R n d (skip_space r4) = Inr (vs', r) \<and> vs = v # vs')"
      by (rule scan_elements_step)
    have "length r4 < length s"
      using Suc(1) [OF s(1)] skip_space_Cons [OF s(2)] by simp
    then show ?case
      using last Suc(3) [of d "skip_space r4" _ r] skip_space_length [of r4] by fastforce
  }
qed simp_all

section \<open>The fuel is enough\<close>

lemma text_error_not_fuel [simp]: "text_error e \<noteq> JsFuel" "JsFuel \<noteq> text_error e"
  by (cases e; simp)+

lemma scan_atom_not_fuel: "scan_atom R s \<noteq> Inl JsFuel"
  by (auto simp: scan_atom_def number_value_def result_simps split: option.splits prod.splits)

lemma scan_fuel:
  "2 * length s + 1 \<le> n \<Longrightarrow> scan_value R n d s \<noteq> Inl JsFuel"
  "2 * length s + 1 \<le> n \<Longrightarrow> scan_members R n d s \<noteq> Inl JsFuel"
  "2 * length s + 2 \<le> n \<Longrightarrow> scan_elements R n d s \<noteq> Inl JsFuel"
proof (induction n arbitrary: d s)
  case (Suc n)
  {
    case 1
    show ?case
    proof (cases s)
      case (Cons c t)
      have "scan_members R n (d - 1) (skip_space t) \<noteq> Inl JsFuel"
        "scan_elements R n (d - 1) (skip_space t) \<noteq> Inl JsFuel"
        using Suc(2,3) [of "skip_space t" "d - 1"] skip_space_length [of t] 1 Cons by simp_all
      then show ?thesis
        using scan_atom_not_fuel [of R s] Cons by (auto simp: result_simps)
    qed simp
  next
    case 2
    show ?case
    proof (cases s)
      case (Cons c t)
      have "scan_value R n d (skip_space r2) \<noteq> Inl JsFuel"
        if "scan_string t = Inr (k, r1)" "skip_space r1 = c2 # r2" for k r1 c2 r2
        using Suc(1) [of "skip_space r2" d] 2 Cons scan_string_length [OF that(1)]
          skip_space_Cons [OF that(2)] skip_space_length [of r2] by simp
      moreover have "scan_members R n d (skip_space r4) \<noteq> Inl JsFuel"
        if "scan_string t = Inr (k, r1)" "skip_space r1 = c2 # r2"
          "scan_value R n d (skip_space r2) = Inr (v, r3)" "skip_space r3 = c4 # r4" for k r1 c2 r2 v r3 c4 r4
        using Suc(2) [of "skip_space r4" d] 2 Cons scan_string_length [OF that(1)]
          skip_space_Cons [OF that(2)] skip_space_length [of r2] scan_length(1) [OF that(3)]
          skip_space_Cons [OF that(4)] skip_space_length [of r4] by simp
      ultimately show ?thesis
        using Cons by (auto simp: result_simps split: list.split)
    qed simp
  next
    case 3
    have "scan_value R n d s \<noteq> Inl JsFuel"
      using Suc(1) [of s d] 3 by simp
    moreover have "scan_elements R n d (skip_space r4) \<noteq> Inl JsFuel"
      if "scan_value R n d s = Inr (v, r3)" "skip_space r3 = c4 # r4" for v r3 c4 r4
      using Suc(3) [of "skip_space r4" d] 3 scan_length(1) [OF that(1)]
        skip_space_Cons [OF that(2)] skip_space_length [of r4] by simp
    ultimately show ?case
      by (auto simp: result_simps split: list.split)
  }
qed simp_all

lemma json_loads_fuel: "json_loads R room s \<noteq> Inl JsFuel"
  using scan_fuel(1) [of "skip_space s" "2 * length s + 2" R room] skip_space_length [of s]
  by (auto simp: json_loads_def result_simps)

section \<open>Reading back\<close>

text \<open>The texts of floats: the special values, or a numeral with a fraction or an exponent.\<close>

definition float_numeral :: "string \<Rightarrow> bool" where
  "float_numeral r =
     (case scan_int_part r of
        None \<Rightarrow> False
      | Some (i, r1) \<Rightarrow>
          (case scan_fraction r1 of (f, r2) \<Rightarrow>
             (case scan_exponent r2 of (e, r3) \<Rightarrow> r3 = [] \<and> f @ e \<noteq> [])))"

text \<open>The JSON values a reader reads back as themselves: its hook keeps their dictionaries, their floats
  are written as \<open>repr\<close> writes them, and no integer is too long.\<close>

fun readable :: "('h, 'm) json_reader_scheme \<Rightarrow> pyval \<Rightarrow> bool"
  and readables :: "('h, 'm) json_reader_scheme \<Rightarrow> pyval list \<Rightarrow> bool"
  and readable_items :: "('h, 'm) json_reader_scheme \<Rightarrow> pydict \<Rightarrow> bool" where
  "readable R (PInt i) = (length (nat_text (nat \<bar>i\<bar>)) \<le> 4300)"
| "readable R (PFloat r) =
     (r \<in> {''nan'', ''inf'', ''-inf''} \<or> float_numeral r \<and> jr_float R r = r)"
| "readable R (PList xs) = readables R xs"
| "readable R (PTuple xs) = False"
| "readable R (PDict d) = (jr_hook R d = Inr d \<and> readable_items R d)"
| "readable R (PObj s r) = False"
| "readable R v = True"
| "readables R [] = True"
| "readables R (x # xs) = (readable R x \<and> readables R xs)"
| "readable_items R [] = True"
| "readable_items R (kv # d) = (readable R (snd kv) \<and> readable_items R d)"

definition stops :: "string \<Rightarrow> bool" where
  "stops r = (r = [] \<or> hd r \<in> {CHR '','', CHR '']'', CHR ''}'', char_of (10 :: nat)})"

definition plain_compact :: "json_style \<Rightarrow> bool" where
  "plain_compact st = (\<not> js_sort st \<and> js_item_sep st = '','' \<and> js_key_sep st = '':'')"

subsection \<open>Strings\<close>

lemma hex_val_digit: "d < 16 \<Longrightarrow> hex_val (hex_digit d) = d"
  by (auto simp: hex_val_def hex_digit_def is_digit_def)

lemma is_hex_digit: "d < 16 \<Longrightarrow> is_hex (hex_digit d)"
  by (auto simp: is_hex_def hex_digit_def is_digit_def)

lemma code_bound: "code c < 256"
  by (metis of_char_of char_of_char mod_less_divisor zero_less_numeral)

lemma code_div_bound: "code c div 16 < 16"
  using code_bound [of c] by (simp add: div_less_iff_less_mult)

lemma hex2_read: "text_nat_base 16 (''00'' @ hex2 (code c)) = code c"
proof -
  have "hex_val (CHR ''0'') = 0" by (simp add: hex_val_def is_digit_def)
  then show ?thesis
    using code_div_bound [of c] by (simp add: text_nat_base_def hex2_def hex_val_digit)
qed

lemma read_unicode: "read_escape (CHR ''u'' # ''00'' @ hex2 (code c) @ x) = Inr (c, x)"
proof -
  have "is_hex (CHR ''0'')" by (simp add: is_hex_def is_digit_def)
  then show ?thesis
    using hex2_read [of c] code_div_bound [of c] code_bound [of c]
    by (simp add: read_escape_def hex2_def is_hex_digit Let_def)
qed

lemma scan_escape:
  "read_escape s = Inr (x, r) \<Longrightarrow> scan_string (backslash # s) = cons_text x (scan_string r)"
  by (simp add: backslash_def dquote_def)

lemma code_eq_iff: "code c = n \<longleftrightarrow> n < 256 \<and> c = char_of n"
  using code_bound [of c] by auto

lemma read_simple: "e \<noteq> CHR ''u'' \<Longrightarrow> simple_escape e = Some x \<Longrightarrow> read_escape (e # s) = Inr (x, s)"
  by (simp add: read_escape_def)

lemma dquote_backslash_codes: "code dquote = 34" "code backslash = 92"
  by (simp_all add: dquote_def backslash_def)

lemma simple_escapes:
  "simple_escape dquote = Some dquote" "simple_escape backslash = Some backslash"
  "simple_escape (CHR ''n'') = Some (char_of (10 :: nat))"
  "simple_escape (CHR ''r'') = Some (char_of (13 :: nat))"
  "simple_escape (CHR ''t'') = Some (char_of (9 :: nat))"
  "simple_escape (CHR ''f'') = Some (char_of (12 :: nat))"
  "simple_escape (CHR ''b'') = Some (char_of (8 :: nat))"
proof -
  have "e \<noteq> dquote \<and> e \<noteq> backslash" if "code e \<notin> {34, 92}" for e
    using that dquote_backslash_codes by auto
  then have "CHR ''n'' \<noteq> dquote" "CHR ''n'' \<noteq> backslash" "CHR ''r'' \<noteq> dquote" "CHR ''r'' \<noteq> backslash"
    "CHR ''t'' \<noteq> dquote" "CHR ''t'' \<noteq> backslash" "CHR ''f'' \<noteq> dquote" "CHR ''f'' \<noteq> backslash"
    "CHR ''b'' \<noteq> dquote" "CHR ''b'' \<noteq> backslash"
    by simp_all
  then show "simple_escape dquote = Some dquote" "simple_escape backslash = Some backslash"
    "simple_escape (CHR ''n'') = Some (char_of (10 :: nat))"
    "simple_escape (CHR ''r'') = Some (char_of (13 :: nat))"
    "simple_escape (CHR ''t'') = Some (char_of (9 :: nat))"
    "simple_escape (CHR ''f'') = Some (char_of (12 :: nat))"
    "simple_escape (CHR ''b'') = Some (char_of (8 :: nat))"
    by (simp_all add: simple_escape_def)
qed

lemma quote_not_u: "dquote \<noteq> CHR ''u''" "backslash \<noteq> CHR ''u''"
  by (simp_all add: dquote_def backslash_def char_of_def)

lemma json_char_cases:
  "(c = dquote \<or> c = backslash) \<or> code c \<in> {10, 13, 9, 12, 8} \<or>
   json_char a c = [backslash] @ ''u00'' @ hex2 (code c) \<or>
   json_char a c = [c] \<and> c \<noteq> dquote \<and> c \<noteq> backslash \<and> 32 \<le> code c"
  by (simp add: json_char_def)

lemma scan_json_char: "scan_string (json_char a c @ s) = cons_text c (scan_string s)"
proof -
  consider "c = dquote \<or> c = backslash" | "code c \<in> {10, 13, 9, 12, 8}"
    | "json_char a c = [backslash] @ ''u00'' @ hex2 (code c)"
    | "json_char a c = [c]" "c \<noteq> dquote" "c \<noteq> backslash" "32 \<le> code c"
    using json_char_cases [of c a] by blast
  then show ?thesis
  proof cases
    case 1
    then have "json_char a c = [backslash, c]" by (auto simp: json_char_def)
    moreover have "read_escape (c # s) = Inr (c, s)"
      using 1 by (auto intro: read_simple simp: quote_not_u simple_escapes)
    ultimately show ?thesis by (simp add: scan_escape del: scan_string.simps)
  next
    case 2
    then have "\<exists>e. json_char a c = [backslash, e] \<and> e \<noteq> CHR ''u'' \<and> simple_escape e = Some c"
      unfolding code_eq_iff insert_iff empty_iff
      by (elim disjE conjE; clarify)
        (simp_all add: json_char_def simple_escapes dquote_def backslash_def)
    then obtain e where "json_char a c = [backslash, e]" "read_escape (e # s) = Inr (c, s)"
      using read_simple by blast
    then show ?thesis by (simp add: scan_escape del: scan_string.simps)
  next
    case 3
    then show ?thesis
      using scan_escape [OF read_unicode] by (simp del: scan_string.simps)
  next
    case 4
    then show ?thesis by simp
  qed
qed

lemma scan_json_body: "scan_string (concat (map (json_char a) s) @ dquote # x) = Inr (s, x)"
  by (induction s) (simp_all add: scan_json_char cons_text_def del: scan_string.simps(2),
    simp_all add: scan_string.simps(2))

lemma scan_json_string:
  "json_string a s @ x = dquote # t \<Longrightarrow> scan_string t = Inr (s, x)"
  using scan_json_body [of a s x] by (auto simp: json_string_def)

subsection \<open>Numerals\<close>

lemma stops_head: "stops (c # r) \<Longrightarrow> \<not> is_digit c \<and> c \<notin> {CHR ''.'', CHR ''e'', CHR ''E'', CHR ''+'', CHR ''-''}"
  by (auto simp: stops_def is_digit_def char_of_def bit_Suc_0_nat)

lemma digits_stop:
  assumes "stops x"
  shows "takeWhile is_digit (t @ x) = takeWhile is_digit t"
    "dropWhile is_digit (t @ x) = dropWhile is_digit t @ x"
proof -
  have "takeWhile is_digit x = []" "dropWhile is_digit x = x"
    using stops_head assms by (cases x; auto)+
  then show "takeWhile is_digit (t @ x) = takeWhile is_digit t"
    "dropWhile is_digit (t @ x) = dropWhile is_digit t @ x"
    by (induction t) auto
qed

lemma scan_int_part_stop:
  assumes "stops x" "scan_int_part r = Some (i, r1)"
  shows "scan_int_part (r @ x) = Some (i, r1 @ x)"
proof (cases r)
  case Nil
  with assms(2) show ?thesis by (simp add: scan_int_part_def)
next
  case (Cons c t)
  show ?thesis
  proof (cases "c = CHR ''-''")
    case True
    with Cons assms(2) obtain d u where "t = d # u"
      by (cases t) (auto simp: scan_int_part_def)
    with Cons True assms(2) digits_stop [OF assms(1), of t] digits_stop [OF assms(1), of u] show ?thesis
      by (auto simp: scan_int_part_def split: if_splits)
  next
    case False
    with Cons assms(2) digits_stop [OF assms(1), of r] digits_stop [OF assms(1), of t] show ?thesis
      by (auto simp: scan_int_part_def split: if_splits)
  qed
qed

lemma scan_fraction_stop:
  assumes "stops x" "scan_fraction r = (f, r1)"
  shows "scan_fraction (r @ x) = (f, r1 @ x)"
proof -
  consider "r = []" | c where "r = [c]" | c d t where "r = c # d # t"
    by (metis list.exhaust)
  then show ?thesis
  proof cases
    case 1
    then show ?thesis
      using assms stops_head by (cases x) (auto simp: scan_fraction_def split: list.split)
  next
    case 2
    then show ?thesis
      using assms stops_head by (cases x) (auto simp: scan_fraction_def)
  next
    case 3
    then show ?thesis
      using assms(2) digits_stop [OF assms(1), of "d # t"]
      by (auto simp: scan_fraction_def split: if_splits)
  qed
qed

lemma scan_exponent_stop:
  assumes "stops x" "scan_exponent r = (e, r1)"
  shows "scan_exponent (r @ x) = (e, r1 @ x)"
proof (cases r)
  case Nil
  then show ?thesis
    using assms stops_head by (cases x) (auto simp: scan_exponent_def)
next
  case (Cons c t)
  show ?thesis
  proof (cases t)
    case Nil
    with Cons assms stops_head digits_stop [OF assms(1), of "[]"] show ?thesis
      by (cases x) (auto simp: scan_exponent_def Let_def)
  next
    case (Cons d u)
    with \<open>r = c # t\<close> assms(2) digits_stop [OF assms(1), of t] digits_stop [OF assms(1), of u]
    show ?thesis by (auto simp: scan_exponent_def Let_def split: if_splits)
  qed
qed

lemma scan_parts:
  "scan_int_part r = Some (i, r1) \<Longrightarrow> i @ r1 = r"
  "scan_fraction s = (f, s1) \<Longrightarrow> f @ s1 = s"
  "scan_exponent t = (e, t1) \<Longrightarrow> e @ t1 = t"
  by (auto simp: scan_int_part_def scan_fraction_def scan_exponent_def Let_def
      split: list.splits if_splits)

lemma scan_float:
  assumes "stops x" "float_numeral r"
  shows "scan_atom R (r @ x) = Inr (PFloat (jr_float R r), x)"
proof -
  from assms(2) obtain i r1 where 1: "scan_int_part r = Some (i, r1)"
    by (auto simp: float_numeral_def split: option.splits)
  obtain f r2 where 2: "scan_fraction r1 = (f, r2)" by fastforce
  obtain e r3 where 3: "scan_exponent r2 = (e, r3)" by fastforce
  have 4: "r3 = []" "f @ e \<noteq> []" using assms(2) 1 2 3 by (auto simp: float_numeral_def)
  have "i @ f @ e = r" using scan_parts(1) [OF 1] scan_parts(2) [OF 2] scan_parts(3) [OF 3] 4 by simp
  then show ?thesis
    using scan_int_part_stop [OF assms(1) 1] scan_fraction_stop [OF assms(1) 2]
      scan_exponent_stop [OF assms(1) 3] 4
    by (auto simp: scan_atom_def number_value_def)
qed

lemma nat_text_head: "0 < n \<Longrightarrow> hd (nat_text n) \<noteq> CHR ''0''"
proof (induction n rule: nat_text.induct)
  case (1 n)
  show ?case
  proof (cases "n < 10")
    case True
    then have "nat_text n = [digit_char n]" by (simp add: nat_text.simps [of n])
    moreover have "digit_val (digit_char n) \<noteq> digit_val (CHR ''0'')"
      using True 1(2) by (simp add: digit_val_def digit_char_def)
    ultimately show ?thesis by auto
  next
    case False
    then show ?thesis using 1 by (subst nat_text.simps) simp
  qed
qed

lemma scan_int_digits:
  assumes "stops x"
  shows "scan_int_part (nat_text n @ x) = Some (nat_text n, x)"
    "scan_int_part (CHR ''-'' # nat_text n @ x) = Some (CHR ''-'' # nat_text n, x)"
proof -
  obtain c t where c: "nat_text n = c # t" by (cases "nat_text n") simp_all
  have d: "is_digit c" "list_all is_digit t"
    using nat_text_digits [of _ n] c by (auto simp: list_all_iff)
  have all: "takeWhile is_digit (nat_text n @ x) = nat_text n" "dropWhile is_digit (nat_text n @ x) = x"
    using digits_stop [OF assms, of "nat_text n"] nat_text_digits [of _ n]
    by (simp_all add: takeWhile_eq_all_conv dropWhile_eq_Nil_conv)
  have z: "t = []" if "c = CHR ''0''"
  proof -
    have "n = 0" using nat_text_head [of n] c that by (cases "n = 0") auto
    then show ?thesis using c by (simp add: nat_text_numeral)
  qed
  show "scan_int_part (nat_text n @ x) = Some (nat_text n, x)"
    "scan_int_part (CHR ''-'' # nat_text n @ x) = Some (CHR ''-'' # nat_text n, x)"
    using all d z by (auto simp: scan_int_part_def c)
qed

lemma scan_stop: "stops x \<Longrightarrow> scan_fraction x = ([], x)" "stops x \<Longrightarrow> scan_exponent x = ([], x)"
  using scan_fraction_stop [of x "[]" "[]" "[]"] scan_exponent_stop [of x "[]" "[]" "[]"]
  by (simp_all add: scan_fraction_def scan_exponent_def)

lemma filter_digits_nat_text: "filter is_digit (nat_text n) = nat_text n"
  using nat_text_digits [of _ n] by (simp add: filter_id_conv)

lemma text_int_nat: "text_int (nat_text n) = int n" "text_int (CHR ''-'' # nat_text n) = - int n"
proof -
  obtain c t where c: "nat_text n = c # t" by (cases "nat_text n") simp_all
  then have "is_digit c" using nat_text_digits [of c n] by simp
  then have "c \<noteq> CHR ''-''" by auto
  with c show "text_int (nat_text n) = int n"
    using text_nat_text [of n] by (simp add: text_int_def)
  show "text_int (CHR ''-'' # nat_text n) = - int n" by (simp add: text_int_def)
qed

lemma scan_int:
  assumes "stops x" "length (nat_text (nat \<bar>i\<bar>)) \<le> 4300"
  shows "scan_atom R (int_text i @ x) = Inr (PInt i, x)"
proof (cases "i < 0")
  case True
  then have "nat \<bar>i\<bar> = nat (- i)" by simp
  with True assms show ?thesis
    using scan_int_digits(2) [OF assms(1), of "nat (- i)"] text_int_nat(2) [of "nat (- i)"]
    by (simp add: int_text_def scan_atom_def scan_stop number_value_def filter_digits_nat_text)
next
  case False
  with assms show ?thesis
    using scan_int_digits(1) [OF assms(1), of "nat i"] text_int_nat(1) [of "nat i"]
    by (simp add: int_text_def scan_atom_def scan_stop number_value_def filter_digits_nat_text)
qed

subsection \<open>Values\<close>

lemma float_numeral_head:
  assumes "float_numeral r"
  obtains c t where "r = c # t" "is_digit c \<or> c = CHR ''-''"
proof -
  from assms obtain i r1 where "scan_int_part r = Some (i, r1)"
    by (auto simp: float_numeral_def split: option.splits)
  then have "\<exists>c t. r = c # t \<and> (is_digit c \<or> c = CHR ''-'')"
    by (auto simp: scan_int_part_def is_digit_def split: list.splits if_splits)
  then show thesis using that by blast
qed

lemma json_float_numeral: "float_numeral r \<Longrightarrow> json_float r = r"
proof -
  assume r: "float_numeral r"
  have "\<not> float_numeral ''nan''" "\<not> float_numeral ''inf''" "\<not> float_numeral ''-inf''"
    by (simp_all add: float_numeral_def scan_int_part_def is_digit_def)
  with r show ?thesis by (auto simp: json_float_def)
qed

lemma int_text_head: obtains c t where "int_text i = c # t" "is_digit c \<or> c = CHR ''-''"
proof -
  obtain c t where c: "nat_text (nat i) = c # t" by (cases "nat_text (nat i)") simp_all
  then have "is_digit c" using nat_text_digits [of c "nat i"] by simp
  with c that show thesis by (cases "i < 0") (simp_all add: int_text_def)
qed

definition plain_start :: "string \<Rightarrow> bool" where
  "plain_start s = (s \<noteq> [] \<and> \<not> json_space (hd s) \<and> hd s \<notin> {CHR '']'', CHR ''}''})"

lemma number_start: "is_digit c \<or> c = CHR ''-'' \<Longrightarrow> plain_start (c # t)"
  by (auto simp: plain_start_def json_space_def is_digit_def)

lemma special_start:
  "plain_start (''NaN'')" "plain_start (''Infinity'')" "plain_start (''-Infinity'')"
  "plain_start (''null'')" "plain_start (''true'')" "plain_start (''false'')"
  "plain_start (CHR ''['' # s)" "plain_start (CHR ''{'' # s)" "plain_start (dquote # s)"
  by (simp_all add: plain_start_def json_space_def dquote_def char_of_def)

lemma json_text_start: "readable R v \<Longrightarrow> plain_start (json_text st v)"
proof (cases v)
  case (PInt i)
  obtain c t where "int_text i = c # t" "is_digit c \<or> c = CHR ''-''" by (rule int_text_head)
  then show ?thesis using PInt number_start by simp
next
  case (PFloat r)
  assume "readable R v"
  with PFloat consider "r = ''nan'' \<or> r = ''inf'' \<or> r = ''-inf''" | "float_numeral r" by auto
  then show ?thesis
  proof cases
    case 1
    then show ?thesis using PFloat special_start by (auto simp: json_float_def)
  next
    case 2
    then show ?thesis
      using PFloat number_start by (simp add: json_float_numeral) (metis float_numeral_head)
  qed
qed (auto simp: special_start json_string_def)

lemma plain_start_skip: "plain_start s \<Longrightarrow> skip_space (s @ x) = s @ x"
  by (cases s) (auto simp: plain_start_def skip_space_def)

lemma skip_marks [simp]:
  "skip_space (CHR '','' # s) = CHR '','' # s" "skip_space (CHR '':'' # s) = CHR '':'' # s"
  "skip_space (CHR '']'' # s) = CHR '']'' # s" "skip_space (CHR ''}'' # s) = CHR ''}'' # s"
  "skip_space (dquote # s) = dquote # s"
  by (simp_all add: skip_space_def json_space_def dquote_def)

lemma plain_not_closing:
  "plain_start s \<Longrightarrow> \<not> starts_with '']'' (s @ x)" "plain_start s \<Longrightarrow> \<not> starts_with ''}'' (s @ x)"
  by (cases s; auto simp: plain_start_def starts_with_iff)+

lemma stops_marks [simp]:
  "stops (CHR '','' # s)" "stops (CHR '']'' # s)" "stops (CHR ''}'' # s)" "stops []"
  by (simp_all add: stops_def)

lemma scan_value_atom:
  "0 < n \<Longrightarrow> s \<noteq> [] \<Longrightarrow> hd s \<notin> {dquote, CHR ''{'', CHR ''[''} \<Longrightarrow> scan_value R n d s = scan_atom R s"
  by (cases n; cases s) auto

lemma quote_not_mark: "dquote \<noteq> CHR ''{''" "dquote \<noteq> CHR ''[''" "CHR ''-'' \<noteq> dquote"
  by (simp_all add: dquote_def char_of_def)

lemma number_not_open: "is_digit c \<or> c = CHR ''-'' \<Longrightarrow> c \<notin> {dquote, CHR ''{'', CHR ''[''}"
  using dquote_backslash_codes quote_not_mark by (auto simp: is_digit_def)

lemma scan_constants:
  "scan_atom R (''null'' @ x) = Inr (PNone, x)" "scan_atom R (''true'' @ x) = Inr (PBool True, x)"
  "scan_atom R (''false'' @ x) = Inr (PBool False, x)" "scan_atom R (''NaN'' @ x) = Inr (PFloat ''nan'', x)"
  "scan_atom R (''Infinity'' @ x) = Inr (PFloat ''inf'', x)"
  "scan_atom R (''-Infinity'' @ x) = Inr (PFloat ''-inf'', x)"
  by (simp_all add: scan_atom_def scan_int_part_def scan_constant_def is_digit_def)

lemma scan_back_atom:
  assumes "readable R v" "stops x" "0 < n" "case v of PStr _ \<Rightarrow> False | PList _ \<Rightarrow> False | PDict _ \<Rightarrow> False | _ \<Rightarrow> True"
  shows "scan_value R n d (json_text st v @ x) = Inr (v, x)"
proof -
  have special: "scan_value R n d (s @ x) = scan_atom R (s @ x)"
    if "s \<in> {''null'', ''true'', ''false'', ''NaN'', ''Infinity'', ''-Infinity''}" for s
    using that assms(3) by (intro scan_value_atom) (auto simp: dquote_def char_of_def)
  have number: "scan_value R n d (s @ x) = scan_atom R (s @ x)"
    if "s = c # t" "is_digit c \<or> c = CHR ''-''" for s c t
    using that(1) assms(3) number_not_open [OF that(2)] by (intro scan_value_atom) auto
  show ?thesis
  proof (cases v)
    case (PInt i)
    obtain c t where "int_text i = c # t" "is_digit c \<or> c = CHR ''-''" by (rule int_text_head)
    then have "scan_value R n d (int_text i @ x) = scan_atom R (int_text i @ x)" by (rule number)
    with PInt assms show ?thesis by (simp add: scan_int)
  next
    case (PFloat r)
    with assms(1) consider "r = ''nan''" | "r = ''inf''" | "r = ''-inf''"
      | "float_numeral r" "jr_float R r = r" by auto
    then show ?thesis
    proof cases
      case 4
      from float_numeral_head [OF 4(1)] number [of r] have "scan_value R n d (r @ x) = scan_atom R (r @ x)"
        by metis
      with 4 PFloat assms(2) show ?thesis by (simp add: scan_float json_float_numeral)
    qed (use PFloat special [of "''NaN''"] special [of "''Infinity''"] special [of "''-Infinity''"]
        scan_constants [of R x] in \<open>simp_all add: json_float_def\<close>)
  next
    case (PBool b)
    then show ?thesis
      using special [of "''true''"] special [of "''false''"] scan_constants [of R x] by simp
  next
    case PNone
    then show ?thesis using special [of "''null''"] scan_constants [of R x] by simp
  qed (use assms in auto)
qed

definition member_text :: "json_style \<Rightarrow> string \<times> pyval \<Rightarrow> string" where
  "member_text st kv = json_string (js_ascii st) (fst kv) @ CHR '':'' # json_text st (snd kv)"

lemma json_text_containers:
  assumes "plain_compact st"
  shows "json_text st (PList xs) = CHR ''['' # join_with '','' (map (json_text st) xs) @ '']''"
    "json_text st (PDict d) = CHR ''{'' # join_with '','' (map (member_text st) d) @ ''}''"
  using assms by (simp_all add: plain_compact_def json_texts_map json_items_map member_text_def [abs_def] comp_def)

lemma join_with_Cons: "join_with '','' (w # ws) = w @ (if ws = [] then [] else CHR '','' # join_with '','' ws)"
  by (cases ws) auto

lemma member_text_start: "member_text st kv @ x = dquote # t \<Longrightarrow>
    scan_string t = Inr (fst kv, CHR '':'' # json_text st (snd kv) @ x)"
  by (rule scan_json_string [of "js_ascii st"]) (simp add: member_text_def)

lemma member_text_quote: "\<exists>t. member_text st kv = dquote # t"
  by (simp add: member_text_def json_string_def)

text \<open>The text of a value, followed by a mark that ends a value, reads back as the value and leaves the
  mark. \<open>V\<close> below is this statement for the values in a list or a dictionary.\<close>

definition reads_back :: "('h, 'm) json_reader_scheme \<Rightarrow> json_style \<Rightarrow> nat \<Rightarrow> pyval \<Rightarrow> bool" where
  "reads_back R st d v =
     (\<forall>n x. 2 * length (json_text st v) + 1 \<le> n \<and> stops x \<longrightarrow>
        scan_value R n d (json_text st v @ x) = Inr (v, x))"

lemma reads_backD:
  "reads_back R st d v \<Longrightarrow> 2 * length (json_text st v) + 1 \<le> n \<Longrightarrow> stops x \<Longrightarrow>
     scan_value R n d (json_text st v @ x) = Inr (v, x)"
  by (simp add: reads_back_def)

lemma elements_back:
  assumes "xs \<noteq> []" "\<And>v. v \<in> set xs \<Longrightarrow> reads_back R st d v \<and> readable R v"
    "2 * length (join_with '','' (map (json_text st) xs)) + 4 \<le> n"
  shows "scan_elements R n d (join_with '','' (map (json_text st) xs) @ CHR '']'' # x) = Inr (xs, x)"
  using assms
proof (induction xs arbitrary: n)
  case (Cons v vs)
  then obtain m where n: "n = Suc m" by (cases n) auto
  let ?tail = "if vs = [] then CHR '']'' # x else CHR '','' # join_with '','' (map (json_text st) vs) @ CHR '']'' # x"
  have v: "scan_value R m d (json_text st v @ ?tail) = Inr (v, ?tail)"
    using Cons.prems n by (intro reads_backD) (auto simp: join_with_Cons)
  show ?case
  proof (cases "vs = []")
    case True
    with v n show ?thesis by simp
  next
    case False
    have rest: "scan_elements R m d (join_with '','' (map (json_text st) vs) @ CHR '']'' # x) = Inr (vs, x)"
      using Cons.prems n False by (intro Cons.IH) (auto simp: join_with_Cons)
    obtain w ws where "vs = w # ws" using False by (cases vs) auto
    then have "plain_start (join_with '','' (map (json_text st) vs))"
      using Cons.prems(2) [of w] json_text_start [of R w st] by (auto simp: join_with_Cons plain_start_def)
    then have "skip_space (join_with '','' (map (json_text st) vs) @ CHR '']'' # x) =
        join_with '','' (map (json_text st) vs) @ CHR '']'' # x"
      by (rule plain_start_skip)
    with v rest n False show ?thesis by (simp add: join_with_Cons)
  qed
qed simp

lemma members_back:
  assumes "ps \<noteq> []" "\<And>kv. kv \<in> set ps \<Longrightarrow> reads_back R st d (snd kv) \<and> readable R (snd kv)"
    "2 * length (join_with '','' (map (member_text st) ps)) + 4 \<le> n"
  shows "scan_members R n d (join_with '','' (map (member_text st) ps) @ CHR ''}'' # x) = Inr (ps, x)"
  using assms
proof (induction ps arbitrary: n)
  case (Cons kv ps)
  then obtain m where n: "n = Suc m" by (cases n) auto
  let ?tail = "if ps = [] then CHR ''}'' # x else CHR '','' # join_with '','' (map (member_text st) ps) @ CHR ''}'' # x"
  obtain t where t: "member_text st kv @ ?tail = dquote # t" using member_text_quote [of st kv] by auto
  have whole: "join_with '','' (map (member_text st) (kv # ps)) @ CHR ''}'' # x = dquote # t"
    using t by (auto simp: join_with_Cons)
  have k: "scan_string t = Inr (fst kv, CHR '':'' # json_text st (snd kv) @ ?tail)"
    by (rule member_text_start [OF t])
  have v: "scan_value R m d (json_text st (snd kv) @ ?tail) = Inr (snd kv, ?tail)"
    using Cons.prems n by (intro reads_backD) (auto simp: join_with_Cons member_text_def)
  have skip: "skip_space (json_text st (snd kv) @ ?tail) = json_text st (snd kv) @ ?tail"
    using Cons.prems(2) [of kv] by (intro plain_start_skip json_text_start [of R]) simp
  show ?case
  proof (cases "ps = []")
    case True
    with k v n skip show ?thesis unfolding whole by simp
  next
    case False
    have rest: "scan_members R m d (join_with '','' (map (member_text st) ps) @ CHR ''}'' # x) = Inr (ps, x)"
      using Cons.prems n False by (intro Cons.IH) (auto simp: join_with_Cons)
    obtain w ws where "ps = w # ws" using False by (cases ps) auto
    then have "skip_space (join_with '','' (map (member_text st) ps) @ CHR ''}'' # x) =
        join_with '','' (map (member_text st) ps) @ CHR ''}'' # x"
      using member_text_quote [of st w] by (auto simp: join_with_Cons)
    with k v rest n skip False show ?thesis unfolding whole by simp
  qed
qed simp

lemma atom_reads_back:
  "readable R v \<Longrightarrow> (case v of PStr _ \<Rightarrow> False | PList _ \<Rightarrow> False | PDict _ \<Rightarrow> False | _ \<Rightarrow> True) \<Longrightarrow>
     reads_back R st d v"
  by (simp add: reads_back_def scan_back_atom)

lemma string_reads_back: "reads_back R st d (PStr s)"
  unfolding reads_back_def
proof (intro allI impI)
  fix n x
  assume n: "2 * length (json_text st (PStr s)) + 1 \<le> n \<and> stops x"
  then obtain m where m: "n = Suc m" by (cases n) auto
  obtain t where t: "json_string (js_ascii st) s @ x = dquote # t" by (simp add: json_string_def)
  show "scan_value R n d (json_text st (PStr s) @ x) = Inr (PStr s, x)"
    using scan_json_string [OF t] m t by simp
qed

lemma value_reads_back:
  assumes "plain_compact st"
  shows "readable R v \<Longrightarrow> pv_depth v < d \<Longrightarrow> reads_back R st d v"
    "readables R xs \<Longrightarrow> pv_depth_list xs \<le> d \<Longrightarrow> \<forall>v \<in> set xs. reads_back R st d v \<and> readable R v"
    "readable_items R ps \<Longrightarrow> pv_depth_items ps \<le> d \<Longrightarrow>
       \<forall>kv \<in> set ps. reads_back R st d (snd kv) \<and> readable R (snd kv)"
proof (induction R v and R xs and R ps arbitrary: d and d and d
    rule: readable_readables_readable_items.induct)
  case (3 R xs)
  have "scan_value R n d (json_text st (PList xs) @ x) = Inr (PList xs, x)"
    if n: "2 * length (json_text st (PList xs)) + 1 \<le> n" and "stops x" for n x
  proof -
    from n obtain m where m: "n = Suc m" by (cases n) auto
    have whole: "json_text st (PList xs) @ x =
        CHR ''['' # join_with '','' (map (json_text st) xs) @ CHR '']'' # x"
      using json_text_containers [OF assms] by simp
    have elems: "xs \<noteq> [] \<Longrightarrow> scan_elements R m (d - 1)
        (join_with '','' (map (json_text st) xs) @ CHR '']'' # x) = Inr (xs, x)"
      using 3 n m json_text_containers [OF assms] by (intro elements_back) auto
    show ?thesis
    proof (cases xs)
      case Nil
      with 3(3) m show ?thesis unfolding whole using quote_not_mark by simp
    next
      case (Cons w ws)
      then have "plain_start (join_with '','' (map (json_text st) xs))"
        using 3(2) json_text_start [of R w st] by (auto simp: join_with_Cons plain_start_def)
      note start = plain_start_skip [OF this] plain_not_closing [OF this]
      show ?thesis
        unfolding whole m using 3(3) elems Cons start quote_not_mark by simp
    qed
  qed
  then show ?case by (simp add: reads_back_def)
next
  case (5 R ps)
  have "scan_value R n d (json_text st (PDict ps) @ x) = Inr (PDict ps, x)"
    if n: "2 * length (json_text st (PDict ps)) + 1 \<le> n" and "stops x" for n x
  proof -
    from n obtain m where m: "n = Suc m" by (cases n) auto
    have whole: "json_text st (PDict ps) @ x =
        CHR ''{'' # join_with '','' (map (member_text st) ps) @ CHR ''}'' # x"
      using json_text_containers [OF assms] by simp
    have mems: "ps \<noteq> [] \<Longrightarrow> scan_members R m (d - 1)
        (join_with '','' (map (member_text st) ps) @ CHR ''}'' # x) = Inr (ps, x)"
      using 5 n m json_text_containers [OF assms] by (intro members_back) auto
    show ?thesis
    proof (cases ps)
      case Nil
      with 5(2,3) m show ?thesis unfolding whole using quote_not_mark by simp
    next
      case (Cons w ws)
      then obtain t where t: "join_with '','' (map (member_text st) ps) @ CHR ''}'' # x = dquote # t"
        using member_text_quote [of st w] by (auto simp: join_with_Cons)
      then have "\<not> starts_with ''}'' (dquote # t)" by (simp add: dquote_def char_of_def)
      with 5(2,3) mems Cons quote_not_mark show ?thesis
        unfolding whole m t by simp
    qed
  qed
  then show ?case by (simp add: reads_back_def)
qed (auto simp: atom_reads_back string_reads_back)

lemma json_loads_line:
  assumes "plain_compact st" "readable R v" "pv_depth v < room" "x = [] \<or> x = [char_of (10 :: nat)]"
  shows "json_loads R room (json_text st v @ x) = Inr v"
proof -
  have "skip_space (json_text st v @ x) = json_text st v @ x"
    by (rule plain_start_skip [OF json_text_start [OF assms(2)]])
  moreover have "stops x" "skip_space x = []"
    using assms(4) by (auto simp: stops_def skip_space_def json_space_def)
  ultimately show ?thesis
    using reads_backD [OF value_reads_back(1) [OF assms(1-3)], of _ x]
    by (simp add: json_loads_def del: scan_value.simps)
qed

lemma json_loads_text:
  "plain_compact st \<Longrightarrow> readable R v \<Longrightarrow> pv_depth v < room \<Longrightarrow> json_loads R room (json_text st v) = Inr v"
  using json_loads_line [of st R v room "[]"] by simp

section \<open>Duplicate keys\<close>

text \<open>No dictionary of the value, at any depth, has a key twice. A reader whose hook refuses duplicates
  reads such values only.\<close>

fun unique_keys :: "pyval \<Rightarrow> bool" and uniques :: "pyval list \<Rightarrow> bool" and unique_items :: "pydict \<Rightarrow> bool" where
  "unique_keys (PDict d) = (dict_wf d \<and> unique_items d)"
| "unique_keys (PList xs) = uniques xs"
| "unique_keys (PTuple xs) = uniques xs"
| "unique_keys v = True"
| "uniques [] = True"
| "uniques (x # xs) = (unique_keys x \<and> uniques xs)"
| "unique_items [] = True"
| "unique_items (kv # d) = (unique_keys (snd kv) \<and> unique_items d)"

definition strict_hook :: "('h, 'm) json_reader_scheme \<Rightarrow> bool" where
  "strict_hook R = (\<forall>ps d. jr_hook R ps = Inr d \<longrightarrow> d = ps \<and> dict_wf ps)"

lemma scan_atom_unique: "scan_atom R s = Inr (v, r) \<Longrightarrow> unique_keys v"
  by (auto simp: scan_atom_def number_value_def scan_constant_def result_simps
      split: option.splits prod.splits if_splits)

lemma scan_unique:
  assumes "strict_hook R"
  shows "scan_value R n d s = Inr (v, r) \<Longrightarrow> unique_keys v"
    "scan_members R n d s = Inr (ps, r) \<Longrightarrow> unique_items ps"
    "scan_elements R n d s = Inr (vs, r) \<Longrightarrow> uniques vs"
proof (induction n arbitrary: d s v r ps vs)
  case (Suc n)
  {
    case 1
    then obtain c t where s: "s = c # t" by (cases s) auto
    have "unique_keys v" if "scan_atom R s = Inr (v, r)" using that by (rule scan_atom_unique)
    moreover have "unique_items ps \<and> dict_wf ps \<and> q = ps"
      if "scan_members R n d' u = Inr (ps, r')" "jr_hook R ps = Inr q" for d' u ps r' q
      using Suc(2) [OF that(1)] that(2) assms by (auto simp: strict_hook_def)
    moreover have "dict_wf q \<and> q = []" if "jr_hook R [] = Inr q" for q
      using that assms by (auto simp: strict_hook_def)
    ultimately show ?case
      using 1 s Suc(3) by (fastforce simp: result_simps split: if_splits)
  next
    case 2
    then show ?case by (rule scan_members_step) (use Suc in auto)
  next
    case 3
    then show ?case by (rule scan_elements_step) (use Suc in auto)
  }
qed simp_all

lemma json_loads_unique: "strict_hook R \<Longrightarrow> json_loads R room s = Inr v \<Longrightarrow> unique_keys v"
  by (auto simp: json_loads_def result_simps split: if_splits dest: scan_unique(1)
      simp del: scan_value.simps)

section \<open>What a text determines\<close>

text \<open>JSON values: those a reader without a hook that keeps floats as they are reads back. Two of them
  have the same text with sorted keys only if they are equal up to the order of keys.\<close>

definition plain_reader :: "unit json_reader" where
  "plain_reader = \<lparr>jr_hook = Inr, jr_float = (\<lambda>r. r)\<rparr>"

abbreviation json_value :: "pyval \<Rightarrow> bool" where
  "json_value \<equiv> readable plain_reader"

lemma readables_iff: "readables R xs \<longleftrightarrow> (\<forall>x \<in> set xs. readable R x)"
  by (induction xs) auto

lemma readable_items_iff: "readable_items R d \<longleftrightarrow> (\<forall>kv \<in> set d. readable R (snd kv))"
  by (induction d) auto

lemma key_sorted_json:
  "json_value v \<Longrightarrow> json_value (key_sorted v)"
  "readables plain_reader xs \<Longrightarrow> readables plain_reader (keys_sorted xs)"
  "readable_items plain_reader d \<Longrightarrow> readable_items plain_reader (items_sorted d)"
  by (induction v and xs and d rule: key_sorted_keys_sorted_items_sorted.induct)
     (auto simp: plain_reader_def readable_items_iff)

lemma json_text_inject:
  assumes "plain_compact st" "json_value v" "json_value w" "json_text st v = json_text st w"
  shows "v = w"
proof -
  let ?room = "Suc (max (pv_depth v) (pv_depth w))"
  have "Inr v = json_loads plain_reader ?room (json_text st v)"
    by (rule sym, rule json_loads_text) (use assms in auto)
  also have "\<dots> = Inr w"
    unfolding assms(4) by (rule json_loads_text) (use assms in auto)
  finally show ?thesis by simp
qed

lemma sorted_text_inject:
  assumes "js_sort st" "js_item_sep st = '',''" "js_key_sep st = '':''"
    "json_value v" "json_value w" "json_text st v = json_text st w"
  shows "key_sorted v = key_sorted w"
proof (rule json_text_inject)
  show "plain_compact (st\<lparr>js_sort := False\<rparr>)" using assms(2,3) by (simp add: plain_compact_def)
  show "json_value (key_sorted v)" "json_value (key_sorted w)"
    using assms(4,5) key_sorted_json(1) by auto
  show "json_text (st\<lparr>js_sort := False\<rparr>) (key_sorted v) = json_text (st\<lparr>js_sort := False\<rparr>) (key_sorted w)"
    using assms(1,6) json_text_key_sorted(1) [of st] by simp
qed

end
