(* ===== verification/Lint.thy ===== *)
theory Lint
  imports JsonParse Samples
begin

text \<open>
  \<open>lint.py\<close>: the static findings about a policy. Results: a rule that lint reports as unreachable never
  decides a call, for the two checks that claim it: an earlier rule with the same tool and
  arguments, and an earlier allow rule without arguments whose tool pattern covers it. The second
  holds for tool patterns without brackets; with a bracket it can be wrong, which is shown by an
  instance. The rules of a policy file are JSON values, as \<open>json.loads\<close> makes them.
\<close>

section \<open>Findings\<close>

record finding =
  fd_severity :: string
  fd_code :: string
  fd_message :: string
  fd_rule_index :: "nat option"

definition finding_dict :: "finding \<Rightarrow> pydict" where
  "finding_dict f =
     [(''severity'', PStr (fd_severity f)), (''code'', PStr (fd_code f)),
      (''rule_index'', (case fd_rule_index f of None \<Rightarrow> PNone | Some i \<Rightarrow> PInt (int i))),
      (''message'', PStr (fd_message f))]"

definition lint_error :: "string \<Rightarrow> string \<Rightarrow> nat option \<Rightarrow> finding" where
  "lint_error c m i = \<lparr>fd_severity = ''error'', fd_code = c, fd_message = m, fd_rule_index = i\<rparr>"

definition lint_warning :: "string \<Rightarrow> string \<Rightarrow> nat option \<Rightarrow> finding" where
  "lint_warning c m i = \<lparr>fd_severity = ''warning'', fd_code = c, fd_message = m, fd_rule_index = i\<rparr>"

section \<open>Predicates on patterns\<close>

definition matches_everything :: "string \<Rightarrow> bool" where
  "matches_everything tool = (tool = ''*'' \<or> tool = ''**'')"

definition is_broad_tool :: "string \<Rightarrow> bool" where
  "is_broad_tool tool = (CHR ''*'' \<in> set tool \<or> CHR ''?'' \<in> set tool \<or> CHR ''['' \<in> set tool)"

text \<open>The search for a scheme followed by \<open>://\<close>: no character of a scheme is a colon, so the longest run
  decides at each position.\<close>

fun has_scheme_url :: "string \<Rightarrow> bool" where
  "has_scheme_url [] = False"
| "has_scheme_url (c # cs) =
     (is_alpha_ascii c \<and> starts_with ''://'' (dropWhile scheme_char cs) \<or> has_scheme_url cs)"

definition url_glob_lookalike :: "pyval \<Rightarrow> bool" where
  "url_glob_lookalike v = (case v of PStr s \<Rightarrow> has_scheme_url s | _ \<Rightarrow> False)"

definition glob_covers :: "string \<Rightarrow> string \<Rightarrow> bool" where
  "glob_covers broad specific =
     (if broad = ''*'' \<or> broad = specific then True
      else if CHR ''*'' \<in> set broad
      then ends_with ''*'' broad \<and> starts_with (butlast broad) specific
      else glob_match broad specific \<and> CHR ''*'' \<notin> set specific)"

definition arguments_key :: "pydict \<Rightarrow> string" where
  "arguments_key d = json_text (compact_style True True) (PDict d)"

definition equivalent_rules :: "rule \<Rightarrow> rule \<Rightarrow> bool" where
  "equivalent_rules a b = (r_tool a = r_tool b \<and> arguments_key (r_arguments a) = arguments_key (r_arguments b))"

section \<open>The checks\<close>

definition check_default :: "policy \<Rightarrow> finding list" where
  "check_default p =
     (if p_default p = ALLOW
      then [lint_error ''permissive_default''
        (''default_decision is '' @ [dquote] @ ''allow'' @ [dquote] @ ''; unknown tool calls are not blocked'') None]
      else [])"

definition check_budget :: "policy \<Rightarrow> finding list" where
  "check_budget p =
     (let b = p_budget p
      in if b_max_calls b = None \<and> b_max_calls_per_tool b = None \<and> b_max_identical_calls b = None \<and>
            b_max_cost_usd b = None
         then [lint_error ''no_budgets'' ''budget defines no limits; nothing caps runaway tool calls'' None]
         else [])"

definition check_rule :: "nat \<times> rule \<Rightarrow> finding list" where
  "check_rule ir =
     (case ir of (i, r) \<Rightarrow>
        (if r_decision r = ALLOW \<and> r_arguments r = [] \<and> \<not> matches_everything (r_tool r) \<and>
            is_broad_tool (r_tool r)
         then [lint_warning ''empty_arguments''
           ''allow rule has no argument constraints and its tool pattern matches many tool names'' (Some i)]
         else []) @
        (if r_decision r = ALLOW \<and> matches_everything (r_tool r)
         then [lint_warning ''broad_allow_all''
           (''tool pattern '' @ str_repr (r_tool r) @ '' matches every tool call'') (Some i)]
         else []) @
        map (\<lambda>kp. lint_warning ''url_glob_lookalike''
            (''argument '' @ str_repr (fst kp) @ '' is a URL-shaped string glob; use the url typed matcher so the scheme, host, and path are parsed instead of globbed'')
            (Some i))
          (filter (\<lambda>kp. url_glob_lookalike (snd kp)) (r_arguments r)))"

definition shadowed_finding :: "nat \<Rightarrow> finding" where
  "shadowed_finding i =
     lint_error ''shadowed_equivalent''
       ''rule is unreachable: an earlier rule with the same tool pattern and arguments always matches first''
       (Some i)"

definition check_shadowed_equivalents :: "rule list \<Rightarrow> finding list" where
  "check_shadowed_equivalents rules =
     map shadowed_finding
       (filter (\<lambda>later. list_ex (\<lambda>earlier. equivalent_rules (rules ! earlier) (rules ! later)) [0..<later])
         [1..<length rules])"

definition approval_finding :: "nat \<Rightarrow> finding" where
  "approval_finding i =
     lint_error ''approval_shadowed_by_allow''
       ''approval rule is unreachable: an earlier allow rule with no argument constraints matches every tool this rule matches''
       (Some i)"

definition covering_allow :: "rule \<Rightarrow> rule \<Rightarrow> bool" where
  "covering_allow a r = (r_decision a = ALLOW \<and> r_arguments a = [] \<and> glob_covers (r_tool a) (r_tool r))"

definition check_approval_shadowing :: "rule list \<Rightarrow> finding list" where
  "check_approval_shadowing rules =
     map approval_finding
       (filter (\<lambda>later. r_decision (rules ! later) = REQUIRE_APPROVAL \<and>
            list_ex (\<lambda>earlier. covering_allow (rules ! earlier) (rules ! later)) [0..<later])
         [1..<length rules])"

definition lint_policy :: "policy \<Rightarrow> finding list" where
  "lint_policy p =
     check_default p @ check_budget p @ concat (map check_rule (enumerate 0 (p_rules p))) @
     check_shadowed_equivalents (p_rules p) @ check_approval_shadowing (p_rules p)"

section \<open>Reports\<close>

definition severity_count :: "string \<Rightarrow> finding list \<Rightarrow> nat" where
  "severity_count s fs = length (filter (\<lambda>f. fd_severity f = s) fs)"

definition finding_line :: "finding \<Rightarrow> string" where
  "finding_line f =
     fd_severity f @ '': '' @ fd_code f @ '': '' @
     (case fd_rule_index f of None \<Rightarrow> [] | Some i \<Rightarrow> ''rule '' @ nat_text i @ '': '') @ fd_message f"

definition lint_text :: "string \<Rightarrow> finding list \<Rightarrow> string" where
  "lint_text path fs =
     (if fs = [] then ''policy lint: '' @ path @ '': no findings''
      else join_with [char_of (10 :: nat)]
        ([''policy lint: '' @ path @ '': '' @ nat_text (length fs) @ '' finding(s)''] @
         map finding_line fs @
         [nat_text (severity_count ''error'' fs) @ '' error(s), '' @
          nat_text (severity_count ''warning'' fs) @ '' warning(s)'']))"

definition lint_dict :: "string \<Rightarrow> finding list \<Rightarrow> pydict" where
  "lint_dict path fs =
     [(''policy'', PStr path), (''findings'', PList (map (\<lambda>f. PDict (finding_dict f)) fs)),
      (''error_count'', PInt (int (severity_count ''error'' fs))),
      (''warning_count'', PInt (int (severity_count ''warning'' fs)))]"

declare lint_error_def [evals] lint_warning_def [evals] matches_everything_def [evals]
  is_broad_tool_def [evals] url_glob_lookalike_def [evals] glob_covers_def [evals]
  arguments_key_def [evals] equivalent_rules_def [evals] check_default_def [evals]
  check_budget_def [evals] check_rule_def [evals] shadowed_finding_def [evals]
  check_shadowed_equivalents_def [evals] approval_finding_def [evals] covering_allow_def [evals]
  check_approval_shadowing_def [evals] lint_policy_def [evals]

section \<open>Covering patterns\<close>

text \<open>Without brackets a pattern is read character by character; a run of stars is one star.\<close>

definition bracket_free :: "string \<Rightarrow> bool" where
  "bracket_free p = (CHR ''['' \<notin> set p)"

definition char_token :: "char \<Rightarrow> glob_tok" where
  "char_token c = (if c = CHR ''*'' then GStar else if c = CHR ''?'' then GAny else GLit c)"

lemma char_token_star [simp]: "char_token c = GStar \<longleftrightarrow> c = CHR ''*''"
  "char_token (CHR ''*'') = GStar"
  by (simp_all add: char_token_def)

lemma char_token_matches: "tok_matches (char_token c) d \<longleftrightarrow> c \<noteq> CHR ''*'' \<and> (c = CHR ''?'' \<or> c = d)"
  by (simp add: char_token_def)

lemma toks_match_star_star: "toks_match (GStar # GStar # ts) s = toks_match (GStar # ts) s"
proof
  assume "toks_match (GStar # GStar # ts) s"
  then obtain a c d where "s = (a @ c) @ d" "toks_match ts d" by (auto simp: toks_match_star)
  then show "toks_match (GStar # ts) s" by (auto simp only: toks_match_star)
next
  assume "toks_match (GStar # ts) s"
  then show "toks_match (GStar # GStar # ts) s"
    using toks_match_star [of "GStar # ts" s] by (metis append_Nil)
qed

lemma glob_chars:
  "bracket_free p \<Longrightarrow> toks_match (glob_tokens p) s = toks_match (map char_token p) s"
proof (induction p arbitrary: s rule: length_induct)
  case (1 p)
  show ?case
  proof (cases p)
    case (Cons c cs)
    have free: "bracket_free cs" using 1(2) Cons by (simp add: bracket_free_def)
    show ?thesis
    proof (cases "c = CHR ''*''")
      case True
      have stars: "toks_match (GStar # map char_token (dropWhile (\<lambda>d. d = CHR ''*'') cs)) s =
          toks_match (GStar # map char_token cs) s" for s
      proof (induction cs arbitrary: s)
        case (Cons d ds)
        then show ?case
          using toks_match_star_star [of "map char_token ds" s] by (cases "d = CHR ''*''") simp_all
      qed simp
      have "bracket_free (dropWhile (\<lambda>d. d = CHR ''*'') cs)"
        using free by (auto simp: bracket_free_def dest: set_dropWhileD)
      then have "toks_match (glob_tokens (dropWhile (\<lambda>d. d = CHR ''*'') cs)) u =
          toks_match (map char_token (dropWhile (\<lambda>d. d = CHR ''*'') cs)) u" for u
        using 1(1) Cons by (simp add: less_Suc_eq_le length_dropWhile_le)
      then have "toks_match (GStar # glob_tokens (dropWhile (\<lambda>d. d = CHR ''*'') cs)) s =
          toks_match (GStar # map char_token (dropWhile (\<lambda>d. d = CHR ''*'') cs)) s"
        by (simp add: toks_match_star)
      moreover have "char_token c = GStar" using True by simp
      ultimately show ?thesis using stars Cons True by simp
    next
      case False
      have "c \<noteq> CHR ''[''" using 1(2) Cons by (auto simp: bracket_free_def)
      with 1(1) free Cons False show ?thesis by (simp add: char_token_def toks_match_single)
    qed
  qed simp
qed

lemma glob_match_chars: "bracket_free p \<Longrightarrow> glob_match p s = toks_match (map char_token p) s"
  by (simp add: glob_match_def glob_chars)

lemma covers_single:
  assumes "toks_match (map char_token b) p" "CHR ''*'' \<notin> set b" "CHR ''*'' \<notin> set p"
    "toks_match (map char_token p) s"
  shows "toks_match (map char_token b) s"
  using assms
proof (induction b arbitrary: p s)
  case (Cons c b)
  have c: "char_token c \<noteq> GStar" using Cons.prems(2) by auto
  with Cons.prems(1) obtain d q where p: "p = d # q" "tok_matches (char_token c) d"
      "toks_match (map char_token b) q"
    by (auto simp: toks_match_single)
  have d: "char_token d \<noteq> GStar" using Cons.prems(3) p(1) by auto
  with Cons.prems(4) p(1) obtain e t where s: "s = e # t" "tok_matches (char_token d) e"
      "toks_match (map char_token q) t"
    by (auto simp: toks_match_single)
  have "toks_match (map char_token b) t"
    using Cons.IH [OF p(3) _ _ s(3)] Cons.prems p(1) by simp
  moreover have "tok_matches (char_token c) e"
    using p(2) s(2) by (auto simp: char_token_matches)
  ultimately show ?case
    using c s(1) by (simp add: toks_match_single)
qed simp

text \<open>Containment of patterns, without brackets.\<close>

lemma glob_covers_sound:
  assumes "glob_covers b p" "bracket_free b" "bracket_free p" "glob_match p s"
  shows "glob_match b s"
proof -
  consider "b = ''*''" | "b = p" | x where "b = x @ ''*''" "starts_with x p"
    | "CHR ''*'' \<notin> set b" "glob_match b p" "CHR ''*'' \<notin> set p"
    using assms(1) by (auto simp: glob_covers_def ends_with_iff split: if_splits)
  then show ?thesis
  proof cases
    case 3
    then obtain q where p: "p = x @ q" by (auto simp: starts_with_iff)
    have "toks_match (map char_token x @ map char_token q) s"
      using assms(3,4) p by (simp add: glob_match_chars)
    then show ?thesis
      using assms(2) 3(1) by (auto simp: glob_match_chars toks_match_append char_token_def)
  next
    case 4
    then show ?thesis
      using assms covers_single [of b p s] by (simp add: glob_match_chars)
  qed (use assms(4) in simp_all)
qed

section \<open>The order of keys\<close>

text \<open>A pattern with its keys in another order, at any depth, matches the same arguments.\<close>

lemma test_field_cong:
  assumes "\<And>k. map_of q k = map_option key_sorted (map_of p k)" "\<And>x. f (key_sorted x) = g x"
  shows "test_field q k f = test_field p k g"
  using assms by (simp add: test_field_def split: option.split)

lemma sort_key_empty: "sort_key f xs = [] \<longleftrightarrow> xs = []"
  by (metis length_0_conv length_sort)

lemma text_key_sorted:
  "lower_of (key_sorted x) = lower_of x" "upper_of (key_sorted x) = upper_of x"
  "text_of (key_sorted x) = text_of x" "truthy (key_sorted x) = truthy x"
  "to_decimal (key_sorted x) l = to_decimal x l"
  "normalized (key_sorted x) = map key_sorted (normalized x)"
  by (cases x; simp add: lower_of_def upper_of_def text_of_def truthy_def to_decimal_def
      normalized_def keys_sorted_map items_sorted_map Let_def py_str_def sort_key_empty)+

lemma mapR_map: "mapR f (map g xs) = mapR (\<lambda>x. f (g x)) xs"
  by (induction xs) auto

lemma anyR_map: "anyR f (map g xs) = anyR (\<lambda>x. f (g x)) xs"
  by (induction xs) (auto cong: if_cong)

lemma key_sorted_scalar [simp]:
  "num_value (key_sorted x) = num_value x" "key_sorted x = PStr s \<longleftrightarrow> x = PStr s"
  by (cases x; simp add: num_value_def)+

lemma num_eq_key_sorted: "num_eq a (key_sorted x) = num_eq a x"
  by (simp add: num_eq_def)

text \<open>The parts of the seven operators read texts and numbers only.\<close>

lemma fields_key_sorted:
  "match_string_list (key_sorted x) s = match_string_list x s"
  "match_scheme (key_sorted x) s = match_scheme x s"
  "match_int_list (key_sorted x) n = match_int_list x n"
  "match_in (key_sorted x) s = match_in x s"
  by (simp_all add: match_string_list_def match_scheme_def match_int_list_def match_in_def
      text_key_sorted mapR_map anyR_map list_ex_iff num_eq_key_sorted)

lemma path_operator_key_sorted:
  "unique_keys x \<Longrightarrow> match_path_operator (key_sorted x) s = match_path_operator x s"
  by (cases x) (simp_all add: match_path_operator_def map_of_key_sorted text_key_sorted
      split: option.split)

lemma allR_zip_key_sorted:
  "allR (\<lambda>ae. bindR (text_of (snd ae)) (\<lambda>e. Return (glob_match e (fst ae)))) (zip as (map key_sorted bs)) =
   allR (\<lambda>ae. bindR (text_of (snd ae)) (\<lambda>e. Return (glob_match e (fst ae)))) (zip as bs)"
  by (induction as bs rule: list_induct2') (simp_all add: text_key_sorted cong: if_cong)

lemma unique_items_iff: "unique_items d \<longleftrightarrow> (\<forall>kv \<in> set d. unique_keys (snd kv))"
  by (induction d) auto

lemma matcher_key_sorted:
  assumes "unique_keys (PDict p)"
  shows "matcher op (sort_key fst (items_sorted p)) v = matcher op p v"
proof -
  let ?q = "sort_key fst (items_sorted p)"
  have q: "map_of ?q k = map_option key_sorted (map_of p k)" for k
    using assms by (simp add: map_of_key_sorted)
  have get: "truthy (dict_get ?q k PNone) = truthy (dict_get p k PNone)" for k
    by (simp add: dict_get_def q text_key_sorted split: option.split)
  have path: "test_field ?q k (\<lambda>x. match_path_operator x s) = test_field p k (\<lambda>x. match_path_operator x s)"
    for k s
  proof -
    have "unique_keys x" if "map_of p k = Some x" for x
      using assms map_of_SomeD [OF that] by (auto simp: unique_items_iff)
    then show ?thesis
      by (simp add: test_field_def q path_operator_key_sorted split: option.split)
  qed
  have field: "test_field ?q k f = test_field p k f"
    if "\<And>x. f (key_sorted x) = f x" for k and f :: "pyval \<Rightarrow> (exc, bool) result"
    by (rule test_field_cong) (simp_all add: q that)
  have "match_url ?q v = match_url p v"
    by (cases v) (simp_all add: match_url_def path get field fields_key_sorted split: option.split)
  moreover have "match_path ?q v = match_path p v"
    by (cases v) (simp_all add: match_path_def field text_key_sorted)
  moreover have "match_domain ?q v = match_domain p v"
    by (cases v) (simp_all add: match_domain_def field text_key_sorted)
  moreover have "match_http_method ?q v = match_http_method p v"
    by (cases v) (simp_all add: match_http_method_def field text_key_sorted fields_key_sorted)
  moreover have "match_number ?q v = match_number p v"
    by (simp add: match_number_def field text_key_sorted cong: option.case_cong)
  moreover have "match_sql ?q v = match_sql p v"
    by (cases v) (simp_all add: match_sql_def field text_key_sorted fields_key_sorted split: option.split)
  moreover have "match_command ?q v = match_command p v"
    by (simp add: match_command_def field text_key_sorted allR_zip_key_sorted Let_def
        split: option.split list.split)
  ultimately show ?thesis by (simp add: matcher_def)
qed

lemma strict_items_iff:
  "strict_items d e \<longleftrightarrow> (\<forall>kv \<in> set e. case map_of d (fst kv) of None \<Rightarrow> False | Some x \<Rightarrow> strict_equal x (snd kv))"
  by (induction e) auto

lemma strict_key_sorted:
  "json_value e \<Longrightarrow> strict_equal a (key_sorted e) = strict_equal a e"
  "readables plain_reader es \<Longrightarrow> strict_elems as (keys_sorted es) = strict_elems as es"
  "readable_items plain_reader ps \<Longrightarrow> strict_items d (items_sorted ps) = strict_items d ps"
proof (induction e and es and ps arbitrary: a and as and d
    rule: key_sorted_keys_sorted_items_sorted.induct)
  case (1 ps)
  then have "strict_items d (sort_key fst (items_sorted ps)) = strict_items d ps" for d
    by (simp add: strict_items_iff)
  moreover have "length (sort_key fst (items_sorted ps)) = length ps"
    by (simp add: items_sorted_map)
  ultimately show ?case by (simp split: pyval.split)
qed (auto split: pyval.split list.split option.split)

lemma is_typed_key_sorted: "unique_keys v \<Longrightarrow> is_typed (key_sorted v) = is_typed v"
  by (cases v) (simp_all add: is_typed_def dict_has_def map_of_key_sorted)

lemma match_typed_key_sorted:
  assumes "unique_keys (PDict p)" "json_value (PDict p)"
  shows "match_typed (PDict (sort_key fst (items_sorted p))) v = match_typed (PDict p) v"
proof -
  let ?q = "sort_key fst (items_sorted p)"
  have typed: "is_typed (PDict ?q) = is_typed (PDict p)"
    using is_typed_key_sorted [OF assms(1)] by simp
  have get: "dict_get ?q ''operator'' PNone = key_sorted (dict_get p ''operator'' PNone)"
    using assms(1) by (simp add: dict_get_def map_of_key_sorted split: option.split)
  have "readable plain_reader (dict_get p ''operator'' PNone)"
    using assms(2) by (auto simp: dict_get_def readable_items_iff split: option.split dest!: map_of_SomeD)
  then show ?thesis
    unfolding match_typed_def typed
    using matcher_key_sorted [OF assms(1)] get
    by (cases "dict_get p ''operator'' PNone") (simp_all add: Let_def)
qed

lemma argument_matches_key_sorted:
  assumes "unique_keys v" "json_value v"
  shows "argument_matches actual (k, key_sorted v) = argument_matches actual (k, v)"
proof (cases "is_typed v")
  case True
  then obtain p where v: "v = PDict p" by (cases v) (simp_all add: is_typed_def)
  have "is_typed (key_sorted v)" using True is_typed_key_sorted [OF assms(1)] by simp
  then show ?thesis
    using True match_typed_key_sorted [OF assms(1,2) [unfolded v]]
    unfolding argument_matches_def by (simp add: v split: option.split)
next
  case False
  then have "\<not> is_typed (key_sorted v)" using is_typed_key_sorted [OF assms(1)] by simp
  with False show ?thesis
    using strict_key_sorted(1) [OF assms(2)]
    unfolding argument_matches_def by (cases v) (simp_all split: option.split)
qed

text \<open>The rules of a policy file: their arguments are JSON values without duplicate keys.\<close>

definition json_rules :: "policy \<Rightarrow> bool" where
  "json_rules p = list_all (\<lambda>r. json_value (PDict (r_arguments r)) \<and> unique_keys (PDict (r_arguments r))) (p_rules p)"

lemma arguments_match_key:
  assumes "unique_keys (PDict a)" "json_value (PDict a)" "unique_keys (PDict b)" "json_value (PDict b)"
    "arguments_key a = arguments_key b"
  shows "arguments_match actual a = Inr True \<longleftrightarrow> arguments_match actual b = Inr True"
proof -
  have one: "arguments_match actual d = Inr True \<longleftrightarrow>
      (\<forall>kv \<in> set (sort_key fst (items_sorted d)). argument_matches actual kv = Inr True)"
    if "unique_keys (PDict d)" "json_value (PDict d)" for d
    using that argument_matches_key_sorted
    by (auto simp: arguments_match_def allR_True_iff items_sorted_map unique_items_iff readable_items_iff)
  have "key_sorted (PDict a) = key_sorted (PDict b)"
    using assms by (intro sorted_text_inject [of "compact_style True True"])
      (simp_all add: arguments_key_def, simp_all add: compact_style_def)
  then have "sort_key fst (items_sorted a) = sort_key fst (items_sorted b)" by simp
  with one [OF assms(1,2)] one [OF assms(3,4)] show ?thesis by simp
qed

lemma rule_of_arguments:
  assumes "rule_of i v = Inr r"
  shows "\<exists>d. v = PDict d \<and> dict_get d ''arguments'' (PDict []) = PDict (r_arguments r)"
proof -
  from assms obtain d where v: "v = PDict d" by (auto simp: rule_of_def split: pyval.splits)
  with assms show ?thesis
    by (cases "dict_get d ''arguments'' (PDict [])") (auto simp: rule_of_def bindR_Inr_iff)
qed

lemma rules_from_arguments:
  "rules_from i vs = Inr rs \<Longrightarrow> r \<in> set rs \<Longrightarrow>
     \<exists>d. PDict d \<in> set vs \<and> dict_get d ''arguments'' (PDict []) = PDict (r_arguments r)"
  by (induction i vs arbitrary: rs rule: rules_from.induct)
     (auto simp: result_simps dest!: rule_of_arguments, blast+)

lemma json_dict_get:
  "json_value (PDict d) \<Longrightarrow> json_value x \<Longrightarrow> json_value (dict_get d k x)"
  "unique_keys (PDict d) \<Longrightarrow> unique_keys x \<Longrightarrow> unique_keys (dict_get d k x)"
  by (auto simp: dict_get_def readable_items_iff unique_items_iff split: option.split dest!: map_of_SomeD)

lemma uniques_iff: "uniques xs \<longleftrightarrow> (\<forall>x \<in> set xs. unique_keys x)"
  by (induction xs) auto

lemma document_json_rules:
  assumes "policy_from_dict raw = Inr p" "json_value raw" "unique_keys raw"
  shows "json_rules p"
proof -
  from assms(1) obtain d where raw: "raw = PDict d" by (auto simp: policy_from_dict_def split: pyval.splits)
  with assms(1) obtain items where items: "dict_get d ''rules'' (PList []) = PList items"
    by (cases "dict_get d ''rules'' (PList [])") (auto simp: policy_from_dict_def bindR_Inr_iff)
  from assms(1) have rs: "rules_from 0 items = Inr (p_rules p)"
    by (auto simp: raw items policy_from_dict_def bindR_Inr_iff)
  have ok: "json_value (PList items)" "unique_keys (PList items)"
    using json_dict_get [of d "PList []" "''rules''"] assms(2,3) raw items by simp_all
  have "json_value (PDict (r_arguments r)) \<and> unique_keys (PDict (r_arguments r))"
    if r: "r \<in> set (p_rules p)" for r
  proof -
    obtain e where e: "PDict e \<in> set items" "dict_get e ''arguments'' (PDict []) = PDict (r_arguments r)"
      using rules_from_arguments [OF rs r] by blast
    have "json_value (PDict e)" "unique_keys (PDict e)"
      using ok e(1) by (auto simp: readables_iff uniques_iff)
    then show ?thesis
      using json_dict_get [of e "PDict []" "''arguments''"] e(2)
      by (simp add: plain_reader_def dict_wf_def)
  qed
  then show ?thesis by (simp add: json_rules_def list_all_iff)
qed

section \<open>Unreachable rules\<close>

lemma earlier_match_shadows:
  assumes "evaluate p c u = Inr d" "j < i" "i < length (p_rules p)"
    "rule_matches (p_rules p ! i) c = Inr True \<Longrightarrow> rule_matches (p_rules p ! j) c = Inr True"
  shows "d_rule_index d \<noteq> Some i"
  using assms(1)
proof (cases rule: evaluateE)
  case budget
  then show ?thesis using budget_decision_Some(2) by simp
next
  case (rule k)
  then show ?thesis using assms(2-4) by (auto simp: rule_decision_def)
next
  case default
  then show ?thesis by (simp add: default_decision_of_def)
qed

lemma equivalent_rules_match:
  assumes "equivalent_rules a b" "json_value (PDict (r_arguments a))" "unique_keys (PDict (r_arguments a))"
    "json_value (PDict (r_arguments b))" "unique_keys (PDict (r_arguments b))"
    "rule_matches b c = Inr True"
  shows "rule_matches a c = Inr True"
  using assms arguments_match_key [of "r_arguments a" "r_arguments b" "tc_arguments c"]
  by (auto simp: equivalent_rules_def rule_matches_def rule_arguments_match_def rule_tool_matches_def
      split: if_splits)

lemma covering_allow_matches:
  assumes "covering_allow a r" "bracket_free (r_tool a)" "bracket_free (r_tool r)"
    "rule_matches r c = Inr True"
  shows "rule_matches a c = Inr True"
  using assms glob_covers_sound [of "r_tool a" "r_tool r" "tc_name c"]
  by (auto simp: covering_allow_def rule_matches_def rule_arguments_match_def arguments_match_def
      rule_tool_matches_def split: if_splits)

text \<open>C22: what lint calls unreachable is unreachable. A rule of a policy file that lint reports as
  shadowed by an equivalent rule never decides a call, whatever the call and the usage; nor does
  one it reports as shadowed by an allow rule, when no tool pattern of the policy has a bracket.\<close>

theorem reported_rule_unreachable:
  assumes "policy_from_dict raw = Inr p" "json_value raw" "unique_keys raw"
    "f \<in> set (lint_policy p)" "fd_rule_index f = Some i"
    "fd_code f = ''shadowed_equivalent'' \<or>
     fd_code f = ''approval_shadowed_by_allow'' \<and> (\<forall>r \<in> set (p_rules p). bracket_free (r_tool r))"
    "evaluate p c u = Inr d"
  shows "d_rule_index d \<noteq> Some i"
proof -
  let ?rs = "p_rules p"
  have json: "json_value (PDict (r_arguments (?rs ! k)))" "unique_keys (PDict (r_arguments (?rs ! k)))"
    if "k < length ?rs" for k
    using document_json_rules [OF assms(1-3)] that
    unfolding json_rules_def list_all_length by blast+
  from assms(6) show ?thesis
  proof (elim disjE conjE)
    assume "fd_code f = ''shadowed_equivalent''"
    with assms(4,5) have "f \<in> set (check_shadowed_equivalents ?rs)"
      by (auto simp: lint_policy_def check_default_def check_budget_def check_rule_def
          check_approval_shadowing_def approval_finding_def lint_error_def lint_warning_def
          Let_def split: if_splits prod.splits)
    with assms(5) obtain j where j: "j < i" "i < length ?rs" "equivalent_rules (?rs ! j) (?rs ! i)"
      by (auto simp: check_shadowed_equivalents_def shadowed_finding_def lint_error_def list_ex_iff)
    then show ?thesis
      using equivalent_rules_match [OF j(3)] json [of i] json [of j]
      by (intro earlier_match_shadows [OF assms(7) j(1,2)]) simp_all
  next
    assume "fd_code f = ''approval_shadowed_by_allow''" and free: "\<forall>r \<in> set ?rs. bracket_free (r_tool r)"
    with assms(4,5) have "f \<in> set (check_approval_shadowing ?rs)"
      by (auto simp: lint_policy_def check_default_def check_budget_def check_rule_def
          check_shadowed_equivalents_def shadowed_finding_def lint_error_def lint_warning_def
          Let_def split: if_splits prod.splits)
    with assms(5) obtain j where j: "j < i" "i < length ?rs" "covering_allow (?rs ! j) (?rs ! i)"
      by (auto simp: check_approval_shadowing_def approval_finding_def lint_error_def list_ex_iff)
    then show ?thesis
      using covering_allow_matches [OF j(3)] free
      by (intro earlier_match_shadows [OF assms(7) j(1,2)]) simp_all
  qed
qed

definition shadow_document :: "string \<Rightarrow> string \<Rightarrow> pyval" where
  "shadow_document broad narrow = PDict
    [(''rules'', PList
       [PDict [(''tool'', PStr broad), (''decision'', PStr ''allow'')],
        PDict [(''tool'', PStr narrow), (''decision'', PStr ''require_approval'')]])]"

definition shadow_policy :: "string \<Rightarrow> string \<Rightarrow> policy" where
  "shadow_policy broad narrow =
    \<lparr>p_default = BLOCK,
     p_budget = \<lparr>b_max_calls = None, b_max_calls_per_tool = None, b_max_identical_calls = None,
                 b_max_cost_usd = None\<rparr>,
     p_rules =
       [\<lparr>r_tool = broad, r_decision = ALLOW, r_reason = ''matched policy rule'', r_arguments = []\<rparr>,
        \<lparr>r_tool = narrow, r_decision = REQUIRE_APPROVAL, r_reason = ''matched policy rule'',
         r_arguments = []\<rparr>],
     p_audit_arguments = AUDIT_NONE\<rparr>"

lemma shadow_policy_loads:
  "policy_from_dict (shadow_document ''fs_*'' ''fs_write'') = Inr (shadow_policy ''fs_*'' ''fs_write'')"
  by (simp add: shadow_document_def shadow_policy_def evals)

lemma shadow_policy_reported:
  assumes "glob_covers broad narrow"
  shows "approval_finding 1 \<in> set (lint_policy (shadow_policy broad narrow))"
  using assms
  by (simp add: lint_policy_def shadow_policy_def check_approval_shadowing_def covering_allow_def upt_rec)

lemma shadow_document_json:
  "json_value (shadow_document ''fs_*'' ''fs_write'')" "unique_keys (shadow_document ''fs_*'' ''fs_write'')"
  by (simp_all add: shadow_document_def plain_reader_def dict_wf_def)

lemma reported_rule_unreachable_witness:
  "\<exists>d. evaluate (shadow_policy ''fs_*'' ''fs_write'')
     \<lparr>tc_name = ''fs_write'', tc_arguments = [], tc_cost = dec_zero, tc_id = ''c''\<rparr> empty_usage = Inr d \<and>
     d_rule_index d \<noteq> Some 1"
proof -
  let ?p = "shadow_policy ''fs_*'' ''fs_write''"
  let ?d = "rule_decision 0 (p_rules ?p ! 0)"
  have run: "evaluate ?p \<lparr>tc_name = ''fs_write'', tc_arguments = [], tc_cost = dec_zero, tc_id = ''c''\<rparr> empty_usage
      = Inr ?d"
    by (simp add: shadow_policy_def evals dec_zero_def dec_fix_def)
  have "\<forall>r \<in> set (p_rules ?p). bracket_free (r_tool r)"
    by (simp add: shadow_policy_def bracket_free_def)
  moreover have "approval_finding 1 \<in> set (lint_policy ?p)"
    by (rule shadow_policy_reported) (simp add: glob_covers_def evals)
  ultimately have "d_rule_index ?d \<noteq> Some 1"
    using reported_rule_unreachable [OF shadow_policy_loads(1) shadow_document_json _ _ _ run]
    by (simp add: approval_finding_def lint_error_def)
  with run show ?thesis by blast
qed

text \<open>With a bracket the second check is wrong: a class of one character is covered, says lint, by four
  single-character wildcards, since the text of the class has four characters. The rule it calls
  unreachable decides a call.\<close>

lemma bracket_rule_reported_but_reached:
  "policy_from_dict (shadow_document ''????'' ''[ab]'') = Inr (shadow_policy ''????'' ''[ab]'')"
  "approval_finding 1 \<in> set (lint_policy (shadow_policy ''????'' ''[ab]''))"
  "evaluate (shadow_policy ''????'' ''[ab]'')
     \<lparr>tc_name = ''a'', tc_arguments = [], tc_cost = dec_zero, tc_id = ''c''\<rparr> empty_usage
   = Inr (rule_decision 1 (p_rules (shadow_policy ''????'' ''[ab]'') ! 1))"
proof -
  show "policy_from_dict (shadow_document ''????'' ''[ab]'') = Inr (shadow_policy ''????'' ''[ab]'')"
    by (simp add: shadow_document_def shadow_policy_def evals)
  show "approval_finding 1 \<in> set (lint_policy (shadow_policy ''????'' ''[ab]''))"
    by (rule shadow_policy_reported) (simp add: glob_covers_def evals)
  show "evaluate (shadow_policy ''????'' ''[ab]'')
     \<lparr>tc_name = ''a'', tc_arguments = [], tc_cost = dec_zero, tc_id = ''c''\<rparr> empty_usage
   = Inr (rule_decision 1 (p_rules (shadow_policy ''????'' ''[ab]'') ! 1))"
    by (simp add: shadow_policy_def evals dec_zero_def dec_fix_def)
qed

end
