(* ===== verification/Doctor.thy ===== *)
theory Doctor
  imports Lint Samples
begin

text \<open>
  \<open>doctor.py\<close>: the environment and configuration checks. What the file system answers is an argument; a
  parent directory is the list of its names. Results: a report without failures means that the policy
  never allows a call no rule names, the exit of the command is the report's, and the write probe leaves
  the directory as it found it.
\<close>

section \<open>Checks\<close>

definition UNKNOWN_TOOL_PROBE :: string where
  "UNKNOWN_TOOL_PROBE = ''agent_firewall.doctor.unknown_tool_probe''"

definition package_version :: string where
  "package_version = ''0.3.1''"

record check_record =
  dk_name :: string
  dk_ok :: bool
  dk_message :: string

definition doctor_check :: "string \<Rightarrow> bool \<Rightarrow> string \<Rightarrow> check_record" where
  "doctor_check nm ok m = \<lparr>dk_name = nm, dk_ok = ok, dk_message = m\<rparr>"

definition doctor_check_dict :: "check_record \<Rightarrow> pydict" where
  "doctor_check_dict k =
     [(''name'', PStr (dk_name k)), (''ok'', PBool (dk_ok k)), (''message'', PStr (dk_message k))]"

section \<open>The write probe\<close>

text \<open>What the calls of the probe give: creating the file fails with a message or gives its name, closing
  it may fail, and removing it works, finds it gone, or fails otherwise.\<close>

datatype unlink_outcome = Unlinked | AlreadyGone | UnlinkFails exc

record parent_env =
  pe_parent :: string
  pe_exists :: bool
  pe_is_dir :: bool
  pe_mkstemp :: "string + string"
  pe_close_error :: "string option"
  pe_unlink :: unlink_outcome

definition unlink :: "unlink_outcome \<Rightarrow> string \<Rightarrow> string list \<Rightarrow> (exc, unit) result \<times> string list" where
  "unlink outcome probe dir =
     (case outcome of
        Unlinked \<Rightarrow> (Return (), remove1 probe dir)
      | AlreadyGone \<Rightarrow> (Return (), remove1 probe dir)
      | UnlinkFails e \<Rightarrow> (Raise e, dir))"

definition check_parent_writable ::
  "string \<Rightarrow> parent_env \<Rightarrow> string list \<Rightarrow> (exc, check_record) result \<times> string list" where
  "check_parent_writable nm pe dir =
     (let parent = ''parent '' @ pe_parent pe
      in if \<not> pe_exists pe then (Return (doctor_check nm False (parent @ '' does not exist'')), dir)
         else if \<not> pe_is_dir pe then (Return (doctor_check nm False (parent @ '' is not a directory'')), dir)
         else (case pe_mkstemp pe of
                 Inl m \<Rightarrow> (Return (doctor_check nm False (parent @ '' is not writable: '' @ m)), dir)
               | Inr probe \<Rightarrow>
                   (let result = (case pe_close_error pe of
                                    Some m \<Rightarrow> doctor_check nm False (parent @ '' is not writable: '' @ m)
                                  | None \<Rightarrow> doctor_check nm True (parent @ '' is writable''))
                    in case unlink (pe_unlink pe) probe (probe # dir) of
                         (Inl e, dir') \<Rightarrow> (Raise e, dir')
                       | (Inr _, dir') \<Rightarrow> (Return result, dir'))))"

section \<open>The MCP command\<close>

definition check_mcp :: "(string \<Rightarrow> bool) \<Rightarrow> (string \<Rightarrow> string option) \<Rightarrow> string list \<Rightarrow> check_record" where
  "check_mcp executable_file which command =
     (case command of
        [] \<Rightarrow> doctor_check ''mcp'' False ''no MCP command given''
      | executable # _ \<Rightarrow>
          if CHR ''/'' \<in> set executable
          then (if executable_file executable then doctor_check ''mcp'' True (executable @ '' is executable'')
                else doctor_check ''mcp'' False (executable @ '' is not an executable file''))
          else (case which executable of
                  None \<Rightarrow> doctor_check ''mcp'' False (''executable '' @ str_repr executable @ '' not found on PATH'')
                | Some found \<Rightarrow> doctor_check ''mcp'' True (executable @ '' resolves to '' @ found)))"

section \<open>The report\<close>

record doctor_env =
  dr_policy_path :: string
  dr_policy :: "(exc, policy) result"
  dr_state :: "(parent_env \<times> string list) option"
  dr_audit :: "(parent_env \<times> string list) option"
  dr_mcp :: "string list option"
  dr_executable_file :: "string \<Rightarrow> bool"
  dr_which :: "string \<Rightarrow> string option"
  dr_call_id :: string
  dr_exc_text :: "exc \<Rightarrow> string"

definition finding_codes :: "string \<Rightarrow> finding list \<Rightarrow> string list" where
  "finding_codes severity fs = sort (map fd_code (filter (\<lambda>f. fd_severity f = severity) fs))"

definition lint_check :: "finding list \<Rightarrow> check_record" where
  "lint_check fs =
     (let errors = finding_codes ''error'' fs; warnings = finding_codes ''warning'' fs
      in if errors \<noteq> [] then doctor_check ''policy_lint'' False (''policy lint errors: '' @ join_with '', '' errors)
         else if warnings \<noteq> []
         then doctor_check ''policy_lint'' True (''policy lint warnings: '' @ join_with '', '' warnings)
         else doctor_check ''policy_lint'' True ''no lint findings'')"

definition check_path :: "string \<Rightarrow> (parent_env \<times> string list) option \<Rightarrow> (exc, check_record) result" where
  "check_path nm place =
     (case place of
        None \<Rightarrow> Return (doctor_check nm True ''not configured'')
      | Some (pe, dir) \<Rightarrow> fst (check_parent_writable nm pe dir))"

definition probe_check :: "decision \<Rightarrow> check_record" where
  "probe_check d =
     (if d_kind d = BLOCK
      then doctor_check ''fail_closed_unknown_tool'' True
             (''unknown tool '' @ str_repr UNKNOWN_TOOL_PROBE @ '' is blocked'')
      else doctor_check ''fail_closed_unknown_tool'' False
             (''unknown tool '' @ str_repr UNKNOWN_TOOL_PROBE @ '' resolves to '' @ kind_value (d_kind d) @
              ''; the policy does not fail closed for unknown tools''))"

definition run_checks :: "doctor_env \<Rightarrow> (exc, check_record list) result" where
  "run_checks env =
     (let version = doctor_check ''version'' True package_version
      in case dr_policy env of
           Inl e \<Rightarrow> Return
             [version, doctor_check ''policy'' False (''could not load policy: '' @ dr_exc_text env e),
              doctor_check ''fail_closed_unknown_tool'' False ''cannot evaluate without a loadable policy'']
         | Inr p \<Rightarrow>
             bindR (check_path ''state'' (dr_state env)) (\<lambda>state.
             bindR (check_path ''audit'' (dr_audit env)) (\<lambda>audit.
             bindR (create_call (dr_call_id env) (PStr UNKNOWN_TOOL_PROBE) None (PInt 0)) (\<lambda>c.
             bindR (evaluate p c empty_usage) (\<lambda>d.
             Return
               [version, doctor_check ''policy'' True (''loaded '' @ dr_policy_path env),
                lint_check (lint_policy p), state, audit,
                (case dr_mcp env of
                   None \<Rightarrow> doctor_check ''mcp'' True ''not configured''
                 | Some command \<Rightarrow> check_mcp (dr_executable_file env) (dr_which env) command),
                probe_check d])))))"

definition failed_checks :: "check_record list \<Rightarrow> nat" where
  "failed_checks checks = length (filter (\<lambda>k. \<not> dk_ok k) checks)"

definition doctor_text :: "check_record list \<Rightarrow> string" where
  "doctor_text checks =
     join_with [char_of (10 :: nat)]
       ([''agent-firewall doctor''] @
        concat (map (\<lambda>k. [dk_name k @ '': '' @ (if dk_ok k then ''ok'' else ''FAIL''), ''  '' @ dk_message k]) checks) @
        [if failed_checks checks \<noteq> 0
         then ''doctor: '' @ nat_text (failed_checks checks) @ '' of '' @ nat_text (length checks) @ '' check(s) failed''
         else ''doctor: all '' @ nat_text (length checks) @ '' check(s) passed''])"

definition doctor_dict :: "check_record list \<Rightarrow> pydict" where
  "doctor_dict checks =
     [(''version'', PStr package_version), (''checks'', PList (map (PDict \<circ> doctor_check_dict) checks)),
      (''all_ok'', PBool (failed_checks checks = 0)), (''failed_checks'', PInt (int (failed_checks checks)))]"

declare UNKNOWN_TOOL_PROBE_def [evals] package_version_def [evals] doctor_check_def [evals]
  doctor_check_dict_def [evals] unlink_def [evals] check_parent_writable_def [evals] check_mcp_def [evals]
  finding_codes_def [evals] lint_check_def [evals] check_path_def [evals] probe_check_def [evals]
  run_checks_def [evals] failed_checks_def [evals] doctor_dict_def [evals]

section \<open>Lemmas\<close>

lemma dk_ok_doctor_check [simp]: "dk_ok (doctor_check nm ok m) = ok" "dk_name (doctor_check nm ok m) = nm"
  by (simp_all add: doctor_check_def)

lemma failed_checks_zero: "failed_checks checks = 0 \<longleftrightarrow> list_all dk_ok checks"
  by (induction checks) (auto simp: failed_checks_def)

lemma finding_codes_empty: "finding_codes s fs = [] \<longleftrightarrow> severity_count s fs = 0"
  by (simp add: finding_codes_def severity_count_def flip: length_0_conv)

lemma lint_check_ok: "dk_ok (lint_check fs) \<longleftrightarrow> severity_count ''error'' fs = 0"
  by (simp add: lint_check_def Let_def finding_codes_empty)

lemma lint_clean_default: "severity_count ''error'' (lint_policy p) = 0 \<Longrightarrow> p_default p \<noteq> ALLOW"
  by (auto simp: severity_count_def lint_policy_def check_default_def lint_error_def)

lemma probe_check_ok: "dk_ok (probe_check d) \<longleftrightarrow> d_kind d = BLOCK"
  by (simp add: probe_check_def)

lemma run_checks_ok:
  assumes "run_checks env = Inr checks" "list_all dk_ok checks"
  obtains p c d where "dr_policy env = Inr p" "severity_count ''error'' (lint_policy p) = 0"
    "create_call (dr_call_id env) (PStr UNKNOWN_TOOL_PROBE) None (PInt 0) = Inr c"
    "evaluate p c empty_usage = Inr d" "d_kind d = BLOCK"
  using assms
  by (auto simp: run_checks_def Let_def result_simps lint_check_ok probe_check_ok split: sum.splits)

text \<open>The probe call meets no limit of a loaded policy, so that only a rule or the default decides it.\<close>

lemma probe_call:
  assumes "create_call cid (PStr UNKNOWN_TOOL_PROBE) None (PInt 0) = Inr c"
  shows "tc_name c = UNKNOWN_TOOL_PROBE" "tc_arguments c = []" "tc_cost c = DFin False 0 0"
  using assms by (auto simp: evals)

lemma probe_within_budget:
  assumes "policy_ok p" "tc_cost c = DFin False 0 0"
  shows "budget_decision p c empty_usage = Inr None"
proof -
  have "\<not> reached limit 0" if "limit_ok limit" for limit
    using that by (cases limit) (auto simp: reached_def limit_ok_def)
  moreover have "dec_add dec_zero (DFin False 0 0) = Inr (DFin False 0 0)"
    by (simp add: evals)
  moreover have "\<not> dec_less m (DFin False 0 0)" if "cost_ok None m" for m
    using that by (auto simp: cost_ok_def dec_less_value)
  ultimately show ?thesis
    using assms
    by (simp add: budget_decision_def policy_ok_def empty_usage_def get_count_def cost_decision_def Let_def
        split: option.split)
qed

lemma default_evaluate:
  assumes "evaluate p c u = Inr d" "\<forall>r \<in> set (p_rules p). rule_matches r c = Inr False"
  shows "d_kind d = BLOCK \<or> d_kind d = p_default p"
  using assms(1)
proof (cases rule: evaluateE)
  case budget
  then show ?thesis using budget_decision_Some(1) by blast
next
  case (rule i)
  then show ?thesis using assms(2) nth_mem by fastforce
next
  case default
  then show ?thesis by (simp add: default_decision_of_def)
qed

lemma unmatched_names: "\<not> rule_tool_matches r c \<Longrightarrow> rule_matches r c = Inr False"
  by (simp add: rule_matches_def)

section \<open>Properties\<close>

text \<open>The comment says that no rule can match the probe's name; a catch-all rule does, and then the probe
  reports what the rule decides, not what the default would.\<close>

definition catch_all_policy :: policy where
  "catch_all_policy = sample_policy
     \<lparr>p_rules := [\<lparr>r_tool = ''*'', r_decision = ALLOW, r_reason = ''r'', r_arguments = []\<rparr>]\<rparr>"

definition sample_doctor :: "policy \<Rightarrow> doctor_env" where
  "sample_doctor p =
     \<lparr>dr_policy_path = ''p.json'', dr_policy = Inr p, dr_state = None, dr_audit = None, dr_mcp = None,
      dr_executable_file = (\<lambda>_. False), dr_which = (\<lambda>_. None), dr_call_id = ''c'', dr_exc_text = exc_message\<rparr>"

definition probe_sample :: tool_call where
  "probe_sample = \<lparr>tc_name = UNKNOWN_TOOL_PROBE, tc_arguments = [], tc_cost = DFin False 0 0, tc_id = ''c''\<rparr>"

lemma create_probe: "create_call ''c'' (PStr UNKNOWN_TOOL_PROBE) None (PInt 0) = Inr probe_sample"
  by (simp add: probe_sample_def evals)

lemma sample_within: "budget_decision (sample_policy\<lparr>p_rules := rules\<rparr>) probe_sample empty_usage = Inr None"
  using probe_within_budget [OF sample_policy_ok, of probe_sample]
  by (simp add: probe_sample_def budget_decision_def Let_def)

lemma catch_all_probe:
  "p_default catch_all_policy = BLOCK"
  "evaluate catch_all_policy probe_sample empty_usage = Inr (rule_decision 0 (hd (p_rules catch_all_policy)))"
  using sample_within [of "p_rules catch_all_policy"]
  by (simp_all add: catch_all_policy_def sample_policy_def evaluate_def evals probe_sample_def)

text \<open>C35: 
  A clean bill from the doctor means that the policy fails closed. When every check of a report on a
  loadable policy is ok, then under any usage no call that no rule matches is allowed; and when no rule
  names the probe, every such call is blocked outright.
\<close>

theorem clean_report_fails_closed:
  assumes "run_checks env = Inr checks" "failed_checks checks = 0" "dr_policy env = Inr p" "policy_ok p"
    "evaluate p c u = Inr d" "\<forall>r \<in> set (p_rules p). rule_matches r c = Inr False"
  shows "d_kind d \<noteq> ALLOW \<and>
    ((\<forall>r \<in> set (p_rules p). \<not> glob_match (r_tool r) UNKNOWN_TOOL_PROBE) \<longrightarrow> d_kind d = BLOCK)"
proof -
  obtain k e where k: "severity_count ''error'' (lint_policy p) = 0"
    "create_call (dr_call_id env) (PStr UNKNOWN_TOOL_PROBE) None (PInt 0) = Inr k"
    "evaluate p k empty_usage = Inr e" "d_kind e = BLOCK"
    using run_checks_ok [OF assms(1)] assms(2,3) by (metis Inr_inject failed_checks_zero)
  have kind: "d_kind d = BLOCK \<or> d_kind d = p_default p" by (rule default_evaluate [OF assms(5,6)])
  have "p_default p = BLOCK" if unnamed: "\<forall>r \<in> set (p_rules p). \<not> glob_match (r_tool r) UNKNOWN_TOOL_PROBE"
  proof -
    have unmatched: "rule_matches r k = Inr False" if "r \<in> set (p_rules p)" for r
      using that unnamed probe_call(1) [OF k(2)]
      by (intro unmatched_names) (simp add: rule_tool_matches_def)
    have within: "budget_decision p k empty_usage = Inr None"
      using probe_within_budget [OF assms(4)] probe_call(3) [OF k(2)] by blast
    from k(3) have "e = default_decision_of p"
    proof (cases rule: evaluateE)
      case budget
      then show ?thesis using within by simp
    next
      case (rule i)
      then show ?thesis using unmatched [OF nth_mem [of i "p_rules p"]] by simp
    qed
    then show ?thesis using k(4) by (simp add: default_decision_of_def)
  qed
  then show ?thesis using kind lint_clean_default [OF k(1)] by auto
qed

lemma sample_clean: "severity_count ''error'' (lint_policy sample_policy) = 0"
  by (simp add: severity_count_def lint_policy_def check_default_def check_budget_def check_rule_def
      lint_warning_def check_shadowed_equivalents_def check_approval_shadowing_def covering_allow_def
      equivalent_rules_def sample_policy_def upt_rec glob_covers_def)

lemma sample_unmatched:
  "r \<in> set (p_rules sample_policy) \<Longrightarrow> \<not> glob_match (r_tool r) UNKNOWN_TOOL_PROBE"
  "r \<in> set (p_rules sample_policy) \<Longrightarrow> rule_matches r other_call = Inr False"
  by (auto simp: sample_policy_def other_call_def evals)

lemma sample_report:
  obtains checks where "run_checks (sample_doctor sample_policy) = Inr checks" "failed_checks checks = 0"
proof -
  have "rule_matches r probe_sample = Inr False" if "r \<in> set (p_rules sample_policy)" for r
    using sample_unmatched(1) [OF that] by (simp add: rule_matches_def rule_tool_matches_def probe_sample_def)
  then have "first_rule 0 (p_rules sample_policy) probe_sample = Inr None"
    by (simp add: sample_policy_def)
  then have "evaluate sample_policy probe_sample empty_usage = Inr (default_decision_of sample_policy)"
    using sample_within [of "p_rules sample_policy"] by (simp add: evaluate_def)
  moreover have "d_kind (default_decision_of sample_policy) = BLOCK"
    by (simp add: default_decision_of_def sample_policy_def)
  ultimately show thesis
    using that create_probe sample_clean
    by (simp add: run_checks_def sample_doctor_def check_path_def failed_checks_zero lint_check_ok probe_check_ok)
qed

theorem clean_report_fails_closed_witness: "d_kind (default_decision_of sample_policy) = BLOCK"
proof -
  obtain checks where report: "run_checks (sample_doctor sample_policy) = Inr checks" "failed_checks checks = 0"
    by (rule sample_report)
  have "dr_policy (sample_doctor sample_policy) = Inr sample_policy" by (simp add: sample_doctor_def)
  then show ?thesis
    using clean_report_fails_closed [OF report _ sample_policy_ok sample_decisions(3)] sample_unmatched by blast
qed

text \<open>
  The write probe leaves no trace. Checking a parent directory changes nothing in it, whatever fails on
  the way; the one exception is a probe file that cannot be removed, and then the check raises that error
  rather than report. A directory is reported writable only after a file could be created in it.
\<close>

theorem probe_leaves_no_trace:
  "case check_parent_writable nm pe dir of
     (Inr k, dir') \<Rightarrow> dir' = dir \<and>
       dk_ok k = (pe_exists pe \<and> pe_is_dir pe \<and> (\<exists>probe. pe_mkstemp pe = Inr probe) \<and> pe_close_error pe = None)
   | (Inl e, dir') \<Rightarrow> pe_unlink pe = UnlinkFails e \<and> (\<exists>probe. pe_mkstemp pe = Inr probe \<and> dir' = probe # dir)"
  by (cases "pe_mkstemp pe"; cases "pe_unlink pe"; cases "pe_close_error pe")
     (auto simp: check_parent_writable_def Let_def unlink_def)

end
