(* ===== verification/PyFloat.thy ===== *)
theory PyFloat
  imports PyText Complex_Main "HOL-Library.Log_Nat"
begin

text \<open>
  The floating point arithmetic the benchmark's rates use, on exact rationals: the rounding of a
  non-negative rational to a double (53 significant bits, ties to even), the division of two integers,
  \<open>round(x, 4)\<close> and the formatting with four decimals. Rates are quotients of counts, so neither the
  overflow nor the subnormal range of doubles is reached. Results: rounding to a double is monotonic
  and leaves doubles as they are, so a comparison with a double bound never rejects a quotient that
  meets it.
\<close>

section \<open>Rounding\<close>

definition round_half_even :: "rat \<Rightarrow> int" where
  "round_half_even x =
     (let f = \<lfloor>x\<rfloor>; r = x - of_int f
      in if r < 1 / 2 then f else if 1 / 2 < r then f + 1 else if even f then f else f + 1)"

text \<open>The greatest \<open>k\<close> with \<open>2 ^ k \<le> x\<close>, for positive \<open>x\<close>.\<close>

definition binary_exponent :: "rat \<Rightarrow> int" where
  "binary_exponent x =
     (case quotient_of x of (a, b) \<Rightarrow>
        let k = int (floorlog 2 (nat a)) - int (floorlog 2 (nat b))
        in if 2 powi k \<le> x then k else k - 1)"

definition to_double :: "rat \<Rightarrow> rat" where
  "to_double x =
     (if x = 0 then 0
      else let e = binary_exponent x - 52 in of_int (round_half_even (x / 2 powi e)) * 2 powi e)"

definition is_double :: "rat \<Rightarrow> bool" where
  "is_double x = (to_double x = x)"

text \<open>\<open>n / d\<close> on integers, \<open>round(x, 4)\<close>, and \<open>f"{x:.4f}"\<close>.\<close>

definition true_div :: "nat \<Rightarrow> nat \<Rightarrow> rat" where
  "true_div n d = to_double (of_nat n / of_nat d)"

definition round4 :: "rat \<Rightarrow> rat" where
  "round4 x = to_double (of_int (round_half_even (x * 10000)) / 10000)"

definition fixed4_text :: "rat \<Rightarrow> string" where
  "fixed4_text x =
     (let n = nat (round_half_even (x * 10000)); t = nat_text (n mod 10000)
      in nat_text (n div 10000) @ ''.'' @ replicate (4 - length t) (CHR ''0'') @ t)"

declare round_half_even_def [evals] binary_exponent_def [evals] to_double_def [evals]
  true_div_def [evals] round4_def [evals] fixed4_text_def [evals]

section \<open>Lemmas\<close>

lemma round_half_even_mono: "x \<le> y \<Longrightarrow> round_half_even x \<le> round_half_even y"
proof -
  assume le: "x \<le> y"
  then have floor: "\<lfloor>x\<rfloor> \<le> \<lfloor>y\<rfloor>" by (rule floor_mono)
  have up: "round_half_even x \<le> \<lfloor>x\<rfloor> + 1" "\<lfloor>y\<rfloor> \<le> round_half_even y"
    by (auto simp: round_half_even_def Let_def)
  show ?thesis
  proof (cases "\<lfloor>x\<rfloor> = \<lfloor>y\<rfloor>")
    case True
    then show ?thesis using le by (auto simp: round_half_even_def Let_def)
  next
    case False
    then show ?thesis using floor up by linarith
  qed
qed

lemma round_half_even_int [simp]: "round_half_even (of_int n) = n"
  by (simp add: round_half_even_def)

lemma powi_mono2: "k \<le> l \<Longrightarrow> (2 :: rat) powi k \<le> 2 powi l"
  by (rule power_int_increasing) auto

lemma powi_add: "(2 :: rat) powi a * 2 powi b = 2 powi (a + b)"
  by (simp add: power_int_add)

lemma powi_of_nat: "(2 :: rat) powi int n = 2 ^ n"
  by (simp add: power_int_def)

lemma bits_bounds:
  assumes "0 < n"
  shows "(2 :: rat) powi (int (floorlog 2 n) - 1) \<le> of_nat n" "of_nat n < (2 :: rat) powi int (floorlog 2 n)"
proof -
  have b: "2 ^ (floorlog 2 n - 1) \<le> n" "n < 2 ^ floorlog 2 n"
    using assms floorlog_bounds [of n 2] by auto
  then have "0 < floorlog 2 n" using assms by (cases "floorlog 2 n") auto
  note b = b this
  have "of_nat (2 ^ (floorlog 2 n - 1)) \<le> (of_nat n :: rat)" "of_nat n < (of_nat (2 ^ floorlog 2 n) :: rat)"
    using b(1,2) by (simp_all only: of_nat_le_iff of_nat_less_iff)
  then have "2 ^ (floorlog 2 n - 1) \<le> (of_nat n :: rat)" "of_nat n < (2 :: rat) ^ floorlog 2 n"
    by simp_all
  moreover have "int (floorlog 2 n) - 1 = int (floorlog 2 n - 1)" using b(3) by simp
  ultimately show "(2 :: rat) powi (int (floorlog 2 n) - 1) \<le> of_nat n" "of_nat n < (2 :: rat) powi int (floorlog 2 n)"
    by (simp_all only: powi_of_nat)
qed

lemma binary_exponent_bounds:
  assumes "0 < x"
  shows "2 powi binary_exponent x \<le> x" "x < 2 powi (binary_exponent x + 1)"
proof -
  obtain a b where q: "quotient_of x = (a, b)" by (cases "quotient_of x")
  have b: "0 < b" using quotient_of_denom_pos [OF q] .
  have x: "x = of_int a / of_int b" using quotient_of_div [OF q] .
  then have a: "0 < a" using assms b by (simp add: zero_less_divide_iff)
  let ?la = "int (floorlog 2 (nat a))" and ?lb = "int (floorlog 2 (nat b))"
  have A: "2 powi (?la - 1) \<le> (of_int a :: rat)" "(of_int a :: rat) < 2 powi ?la"
    using bits_bounds [of "nat a"] a by simp_all
  have B: "2 powi (?lb - 1) \<le> (of_int b :: rat)" "(of_int b :: rat) < 2 powi ?lb"
    using bits_bounds [of "nat b"] b by simp_all
  have pb: "(0 :: rat) < of_int b" using b by simp
  have low: "2 powi (?la - ?lb - 1) \<le> x"
  proof -
    have "2 powi (?la - ?lb - 1) * of_int b \<le> (2 :: rat) powi (?la - ?lb - 1) * 2 powi ?lb"
      using B(2) by (intro mult_left_mono) auto
    also have "\<dots> = 2 powi (?la - 1)" unfolding powi_add by simp
    finally have "2 powi (?la - ?lb - 1) * of_int b \<le> (of_int a :: rat)" using A(1) by linarith
    then show ?thesis using pb by (simp add: x pos_le_divide_eq)
  qed
  have high: "x < 2 powi (?la - ?lb + 1)"
  proof -
    have "(2 :: rat) powi ?la = 2 powi (?la - ?lb + 1) * 2 powi (?lb - 1)" unfolding powi_add by simp
    also have "\<dots> \<le> 2 powi (?la - ?lb + 1) * of_int b" using B(1) by (intro mult_left_mono) auto
    finally have "of_int a < 2 powi (?la - ?lb + 1) * (of_int b :: rat)" using A(2) by linarith
    then show ?thesis using pb by (simp add: x pos_divide_less_eq)
  qed
  show "2 powi binary_exponent x \<le> x" "x < 2 powi (binary_exponent x + 1)"
    using low high by (auto simp: binary_exponent_def q Let_def not_le)
qed

lemma binary_exponent_mono:
  assumes "0 < x" "x \<le> y"
  shows "binary_exponent x \<le> binary_exponent y"
proof (rule ccontr)
  assume "\<not> ?thesis"
  then have "(2 :: rat) powi (binary_exponent y + 1) \<le> 2 powi binary_exponent x" by (intro powi_mono2) simp
  then show False
    using binary_exponent_bounds [of x] binary_exponent_bounds [of y] assms by linarith
qed

lemma to_double_range:
  assumes "0 < x"
  shows "2 powi binary_exponent x \<le> to_double x" "to_double x \<le> 2 powi (binary_exponent x + 1)"
proof -
  let ?k = "binary_exponent x"
  let ?e = "?k - 52"
  have pos: "(0 :: rat) < 2 powi ?e" by simp
  have one: "(2 :: rat) powi ?k = of_int (2 ^ 52) * 2 powi ?e"
    using powi_add [of 52 ?e] by simp
  have two: "(2 :: rat) powi (?k + 1) = of_int (2 ^ 53) * 2 powi ?e"
    using powi_add [of 53 ?e] by (simp add: add.commute)
  have "of_int (2 ^ 52) \<le> x / 2 powi ?e" "x / 2 powi ?e \<le> of_int (2 ^ 53)"
    using binary_exponent_bounds [OF assms] pos unfolding one two
    by (simp_all add: pos_le_divide_eq pos_divide_le_eq)
  then have "2 ^ 52 \<le> round_half_even (x / 2 powi ?e)" "round_half_even (x / 2 powi ?e) \<le> 2 ^ 53"
    using round_half_even_mono round_half_even_int by metis+
  then have "(of_int (2 ^ 52) :: rat) \<le> of_int (round_half_even (x / 2 powi ?e))"
      "(of_int (round_half_even (x / 2 powi ?e)) :: rat) \<le> of_int (2 ^ 53)"
    by (simp_all only: of_int_le_iff)
  then show "2 powi ?k \<le> to_double x" "to_double x \<le> 2 powi (?k + 1)"
    using assms pos unfolding one two by (auto simp: to_double_def Let_def intro: mult_right_mono)
qed

lemma to_double_nonneg: "0 \<le> x \<Longrightarrow> 0 \<le> to_double x"
  using to_double_range(1) [of x] by (cases "x = 0") (auto simp: to_double_def intro: order_trans [rotated])

lemma to_double_mono:
  assumes "0 \<le> x" "x \<le> y"
  shows "to_double x \<le> to_double y"
proof (cases "x = 0")
  case True
  then show ?thesis using to_double_nonneg [of y] assms by (simp add: to_double_def [of 0])
next
  case False
  then have pos: "0 < x" "0 < y" using assms by auto
  show ?thesis
  proof (cases "binary_exponent x = binary_exponent y")
    case True
    have "round_half_even (x / 2 powi (binary_exponent y - 52)) \<le> round_half_even (y / 2 powi (binary_exponent y - 52))"
      using assms by (intro round_half_even_mono divide_right_mono) auto
    then show ?thesis using pos True by (auto simp: to_double_def Let_def intro: mult_right_mono)
  next
    case False
    then have "binary_exponent x + 1 \<le> binary_exponent y" using binary_exponent_mono [OF pos(1) assms(2)] by simp
    then have "(2 :: rat) powi (binary_exponent x + 1) \<le> 2 powi binary_exponent y" by (rule powi_mono2)
    then show ?thesis using to_double_range(2) [OF pos(1)] to_double_range(1) [OF pos(2)] by linarith
  qed
qed

lemma to_double_le: "0 \<le> x \<Longrightarrow> x \<le> t \<Longrightarrow> is_double t \<Longrightarrow> to_double x \<le> t"
  using to_double_mono [of x t] by (simp add: is_double_def)

lemma to_double_ge: "0 \<le> t \<Longrightarrow> t \<le> x \<Longrightarrow> is_double t \<Longrightarrow> t \<le> to_double x"
  using to_double_mono [of t x] by (simp add: is_double_def)

end
