(* ===== verification/Benchmark.thy ===== *)
theory Benchmark
  imports StateStore Samples PyFloat
begin

text \<open>
  \<open>benchmark.py\<close>, the evaluation: loading the cases, running them against a policy, the confusion
  counts and the rates, the thresholds, and the policy freeze. The text of a float (\<open>repr\<close>) and the
  JSON parser are arguments, files are what reading them gives. Results: accepted cases are well
  formed; the decisions of a run are those of a firewall with a fresh in-memory store for each case;
  the confusion counts partition the calls; a threshold gate compares the unrounded quotients; an
  accepted freeze has the hashes of the current files.
\<close>

section \<open>Constants and errors\<close>

definition ORDER :: "decision_kind list" where
  "ORDER = [ALLOW, REQUIRE_APPROVAL, BLOCK]"

definition PROVENANCE_RECONSTRUCTED :: string where
  "PROVENANCE_RECONSTRUCTED = ''reconstructed-public-report''"

definition PROVENANCE_SYNTHETIC :: string where
  "PROVENANCE_SYNTHETIC = ''synthetic''"

definition PROVENANCE_INTERNAL_CONTROL :: string where
  "PROVENANCE_INTERNAL_CONTROL = ''internal-control''"

definition VALID_PROVENANCE :: "string list" where
  "VALID_PROVENANCE = [PROVENANCE_RECONSTRUCTED, PROVENANCE_SYNTHETIC, PROVENANCE_INTERNAL_CONTROL]"

definition KIND_DEVELOPMENT :: string where "KIND_DEVELOPMENT = ''development-benchmark''"
definition KIND_HOLDOUT :: string where "KIND_HOLDOUT = ''internal-evaluation-benchmark''"

definition FREEZE_LABEL :: string where
  "FREEZE_LABEL =
     ''internally curated and internally labeled; hash-pinned against later drift; '' @
     ''not a blind holdout, independent, or externally validated''"

definition HOLDOUT_LABELS :: pydict where
  "HOLDOUT_LABELS =
     [(''internal'', PBool True), (''separate_evaluation_split'', PBool True),
      (''internally_curated_and_labeled'', PBool True), (''hash_pinned_against_later_drift'', PBool True),
      (''blind_holdout'', PBool False)]"

text \<open>\<open>BenchmarkConfigError\<close>, and every other exception that leaves a function of the module.\<close>

datatype bench_error =
    BenchmarkConfigError string
  | Other exc

abbreviation config_error :: "string \<Rightarrow> (bench_error, 'a) result" where
  "config_error m \<equiv> Raise (BenchmarkConfigError m)"

section \<open>Cases\<close>

record benchmark_case =
  ca_id :: string
  ca_category :: string
  ca_provenance :: string
  ca_source_url :: "string option"
  ca_title :: "string option"
  ca_calls :: "tool_call list"
  ca_expected :: "decision_kind list"

definition case_reject_unknown :: "pydict \<Rightarrow> string list \<Rightarrow> string \<Rightarrow> (bench_error, unit) result" where
  "case_reject_unknown raw allowed loc =
     (let unknown = filter (\<lambda>k. k \<notin> set allowed) (map fst raw)
      in if unknown \<noteq> []
         then config_error (''unknown benchmark case key(s): '' @
                join_with '', '' (map (\<lambda>k. loc @ ''.'' @ k) (sort unknown)))
         else Return ())"

definition decision_kind_of :: "pyval \<Rightarrow> string \<Rightarrow> (bench_error, decision_kind) result" where
  "decision_kind_of v loc =
     (let bad = config_error (loc @ '' must be one of: '' @
          join_with '', '' (map kind_value [ALLOW, BLOCK, REQUIRE_APPROVAL]))
      in case v of
           PStr s \<Rightarrow>
             (if s = ''allow'' then Return ALLOW
              else if s = ''block'' then Return BLOCK
              else if s = ''require_approval'' then Return REQUIRE_APPROVAL
              else bad)
         | _ \<Rightarrow> bad)"

definition indexed :: "string \<Rightarrow> nat \<Rightarrow> string" where
  "indexed base i = base @ ''['' @ nat_text i @ '']''"

text \<open>One round of the loop over the calls. The fresh id of a call is an argument.\<close>

definition case_call :: "string \<Rightarrow> string \<Rightarrow> pyval \<Rightarrow> (bench_error, tool_call) result" where
  "case_call new_id call_where raw_call =
     (case raw_call of
        PDict d \<Rightarrow>
          bindR (case_reject_unknown d [''tool'', ''arguments'', ''estimated_cost_usd''] call_where) (\<lambda>_.
          bindR (case dict_get d ''arguments'' PNone of
                   PNone \<Rightarrow> Return None
                 | PDict a \<Rightarrow> Return (Some a)
                 | _ \<Rightarrow> config_error (call_where @ ''.arguments must be an object or null'')) (\<lambda>arguments.
          (case create_call new_id (dict_get d ''tool'' PNone) arguments
                  (dict_get d ''estimated_cost_usd'' (PInt 0)) of
             Inr c \<Rightarrow> Return c
           | Inl e \<Rightarrow>
               if is_value_error e then config_error (call_where @ '': '' @ exc_message e)
               else Raise (Other e))))
      | _ \<Rightarrow> config_error (call_where @ '' must be an object''))"

fun case_calls ::
  "(nat \<Rightarrow> string) \<Rightarrow> string \<Rightarrow> nat \<Rightarrow> pyval list \<Rightarrow> pyval list \<Rightarrow>
     (bench_error, (tool_call \<times> decision_kind) list) result" where
  "case_calls ids loc i (raw # raws) (e # es) =
     bindR (case_call (ids i) (indexed (loc @ ''.calls'') i) raw) (\<lambda>c.
     bindR (decision_kind_of e (indexed (loc @ ''.expected_decisions'') i)) (\<lambda>k.
     bindR (case_calls ids loc (i + 1) raws es) (\<lambda>rest.
     Return ((c, k) # rest))))"
| "case_calls ids loc i raws es = Return []"

text \<open>A member test of a frozen set hashes its argument: a list or a dictionary has no hash.\<close>

definition provenance_of :: "pyval \<Rightarrow> string \<Rightarrow> (bench_error, string) result" where
  "provenance_of v loc =
     (let bad = config_error (loc @ ''.provenance must be one of: '' @ join_with '', '' (sort VALID_PROVENANCE))
      in case v of
           PStr s \<Rightarrow> if s \<in> set VALID_PROVENANCE then Return s else bad
         | PList _ \<Rightarrow> Raise (Other (TypeError (''unhashable type: '' @ str_repr ''list'')))
         | PDict _ \<Rightarrow> Raise (Other (TypeError (''unhashable type: '' @ str_repr ''dict'')))
         | _ \<Rightarrow> bad)"

definition text_or_null :: "pyval \<Rightarrow> string \<Rightarrow> (bench_error, string option) result" where
  "text_or_null v what =
     (case v of
        PNone \<Rightarrow> Return None
      | PStr s \<Rightarrow> Return (Some s)
      | _ \<Rightarrow> config_error (what @ '' must be a string or null''))"

definition parse_case ::
  "(nat \<Rightarrow> string) \<Rightarrow> nat \<Rightarrow> string list \<Rightarrow> pyval \<Rightarrow> (bench_error, benchmark_case) result" where
  "parse_case ids index seen item =
     (let loc = indexed ''cases'' index
      in case item of
           PDict d \<Rightarrow>
             bindR (case_reject_unknown d [''id'', ''category'', ''provenance'', ''source_url'', ''title'',
               ''calls'', ''expected_decisions''] loc) (\<lambda>_.
             bindR (case dict_get d ''id'' PNone of
                      PStr s \<Rightarrow> if s = [] then config_error (loc @ ''.id must be a non-empty string'') else Return s
                    | _ \<Rightarrow> config_error (loc @ ''.id must be a non-empty string'')) (\<lambda>case_id.
             bindR (requireR (case_id \<notin> set seen)
               (BenchmarkConfigError (loc @ ''.id duplicates '' @ str_repr case_id))) (\<lambda>_.
             bindR (case dict_get d ''category'' PNone of
                      PStr s \<Rightarrow> if blank s then config_error (loc @ ''.category must be a non-empty string'') else Return s
                    | _ \<Rightarrow> config_error (loc @ ''.category must be a non-empty string'')) (\<lambda>category.
             bindR (provenance_of (dict_get d ''provenance'' PNone) loc) (\<lambda>provenance.
             bindR (text_or_null (dict_get d ''source_url'' PNone) (loc @ ''.source_url'')) (\<lambda>source_url.
             bindR (requireR (\<not> (provenance = PROVENANCE_RECONSTRUCTED \<and> (source_url = None \<or> source_url = Some [])))
               (BenchmarkConfigError (loc @ ''.source_url is required for reconstructed public reports''))) (\<lambda>_.
             bindR (text_or_null (dict_get d ''title'' PNone) (loc @ ''.title'')) (\<lambda>title.
             (case (dict_get d ''calls'' PNone, dict_get d ''expected_decisions'' PNone) of
                (PList calls_raw, PList expected_raw) \<Rightarrow>
                  bindR (requireR (calls_raw \<noteq> [])
                    (BenchmarkConfigError (loc @ '': at least one call is required''))) (\<lambda>_.
                  bindR (requireR (length calls_raw = length expected_raw)
                    (BenchmarkConfigError (loc @ '': each call needs an expected decision''))) (\<lambda>_.
                  bindR (case_calls ids loc 0 calls_raw expected_raw) (\<lambda>pairs.
                  Return \<lparr>ca_id = case_id, ca_category = category, ca_provenance = provenance,
                          ca_source_url = source_url, ca_title = title,
                          ca_calls = map fst pairs, ca_expected = map snd pairs\<rparr>)))
              | _ \<Rightarrow> config_error (loc @ '': calls and expected_decisions must be lists''))))))))))
         | _ \<Rightarrow> config_error (loc @ '' must be an object''))"

text \<open>Reading a JSON file strictly: the three messages differ between cases and freeze.\<close>

definition read_strict ::
  "string \<Rightarrow> string \<Rightarrow> string \<Rightarrow> (string, string) result \<Rightarrow> (string \<Rightarrow> (json_error, pyval) result) \<Rightarrow>
     (bench_error, pyval) result" where
  "read_strict cannot invalid too_deep file parse =
     (case file of
        Inl os_message \<Rightarrow> config_error (cannot @ os_message)
      | Inr t \<Rightarrow>
          (case parse t of
             Inl (JsonSyntax row col) \<Rightarrow>
               config_error (invalid @ '' at line '' @ nat_text row @ '', column '' @ nat_text col)
           | Inl (JsonValueError m) \<Rightarrow> config_error m
           | Inl JsonTooDeep \<Rightarrow> config_error too_deep
           | Inr raw \<Rightarrow> Return raw))"

fun cases_from ::
  "(nat \<Rightarrow> nat \<Rightarrow> string) \<Rightarrow> nat \<Rightarrow> string list \<Rightarrow> pyval list \<Rightarrow> (bench_error, benchmark_case list) result" where
  "cases_from ids i seen [] = Return []"
| "cases_from ids i seen (item # items) =
     bindR (parse_case (ids i) i seen item) (\<lambda>c.
     bindR (cases_from ids (i + 1) (ca_id c # seen) items) (\<lambda>cs.
     Return (c # cs)))"

definition read_cases :: "(string \<Rightarrow> (json_error, pyval) result) \<Rightarrow> (string, string) result \<Rightarrow> (bench_error, pyval) result" where
  "read_cases parse file =
     read_strict ''cannot read benchmark cases: '' ''invalid JSON in benchmark cases''
       ''benchmark cases are nested too deeply'' file parse"

definition load_cases ::
  "(nat \<Rightarrow> nat \<Rightarrow> string) \<Rightarrow> (string \<Rightarrow> (json_error, pyval) result) \<Rightarrow> (string, string) result \<Rightarrow>
     (bench_error, benchmark_case list) result" where
  "load_cases ids parse file =
     bindR (read_cases parse file) (\<lambda>raw.
     case raw of
       PList items \<Rightarrow>
         bindR (requireR (items \<noteq> []) (BenchmarkConfigError ''benchmark cases must not be empty'')) (\<lambda>_.
         cases_from ids 0 [] items)
     | _ \<Rightarrow> config_error ''benchmark cases must be a JSON list'')"

section \<open>Running\<close>

record call_outcome =
  co_expected :: decision_kind
  co_actual :: decision_kind

record case_outcome =
  so_id :: string
  so_category :: string
  so_provenance :: string
  so_source_url :: "string option"
  so_title :: "string option"
  so_calls :: "call_outcome list"
  so_passed :: bool

text \<open>The loop over the calls of one case; they share one usage, in which allowed calls are recorded.\<close>

fun run_case_calls ::
  "policy \<Rightarrow> (tool_call \<times> decision_kind) list \<Rightarrow> usage \<Rightarrow> (exc, call_outcome list) result" where
  "run_case_calls p [] u = Return []"
| "run_case_calls p ((c, expected) # calls) u =
     bindR (evaluate p c u) (\<lambda>d.
     bindR (if d_kind d = ALLOW
            then (case usage_record u c of (Inl e, _) \<Rightarrow> Raise e | (Inr _, u') \<Rightarrow> Return u')
            else Return u) (\<lambda>u'.
     bindR (run_case_calls p calls u') (\<lambda>rest.
     Return (\<lparr>co_expected = expected, co_actual = d_kind d\<rparr> # rest))))"

definition run_case :: "policy \<Rightarrow> benchmark_case \<Rightarrow> (exc, case_outcome) result" where
  "run_case p ca =
     bindR (run_case_calls p (zip (ca_calls ca) (ca_expected ca)) empty_usage) (\<lambda>outs.
     Return \<lparr>so_id = ca_id ca, so_category = ca_category ca, so_provenance = ca_provenance ca,
             so_source_url = ca_source_url ca, so_title = ca_title ca, so_calls = outs,
             so_passed = list_all (\<lambda>x. co_expected x = co_actual x) outs\<rparr>)"

definition run_benchmark :: "policy \<Rightarrow> benchmark_case list \<Rightarrow> (exc, case_outcome list) result" where
  "run_benchmark p cases = mapR (run_case p) cases"


section \<open>Metrics\<close>

text \<open>The counters of the loop, by decision: the cells of the confusion matrix, the expected and the
  predicted decisions.\<close>

record tally =
  ty_cells :: "decision_kind \<Rightarrow> decision_kind \<Rightarrow> nat"
  ty_expected :: "decision_kind \<Rightarrow> nat"
  ty_predicted :: "decision_kind \<Rightarrow> nat"
  ty_correct :: nat
  ty_calls :: nat

definition empty_tally :: tally where
  "empty_tally =
     \<lparr>ty_cells = (\<lambda>_ _. 0), ty_expected = (\<lambda>_. 0), ty_predicted = (\<lambda>_. 0), ty_correct = 0, ty_calls = 0\<rparr>"

definition tally_call :: "tally \<Rightarrow> call_outcome \<Rightarrow> tally" where
  "tally_call t x =
     (let e = co_expected x; a = co_actual x
      in \<lparr>ty_cells = (ty_cells t)(e := (ty_cells t e)(a := ty_cells t e a + 1)),
          ty_expected = (ty_expected t)(e := ty_expected t e + 1),
          ty_predicted = (ty_predicted t)(a := ty_predicted t a + 1),
          ty_correct = (if e = a then ty_correct t + 1 else ty_correct t),
          ty_calls = ty_calls t + 1\<rparr>)"

definition tally_cases :: "case_outcome list \<Rightarrow> tally" where
  "tally_cases outcomes = foldl (\<lambda>t s. foldl tally_call t (so_calls s)) empty_tally outcomes"

text \<open>\<open>_rate\<close> and \<open>_rate_text\<close>.\<close>

definition rate :: "bool \<Rightarrow> nat \<Rightarrow> nat \<Rightarrow> rat option" where
  "rate rounded numerator denominator =
     (if denominator = 0 then None
      else Some (if rounded then round4 (true_div numerator denominator) else true_div numerator denominator))"

definition rate_text :: "rat option \<Rightarrow> string" where
  "rate_text v = (case v of None \<Rightarrow> ''n/a'' | Some x \<Rightarrow> fixed4_text x)"

record metrics =
  me_calls :: nat
  me_exact_accuracy :: rat
  me_expected_counts :: "decision_kind \<Rightarrow> nat"
  me_predicted_counts :: "decision_kind \<Rightarrow> nat"
  me_confusion :: "decision_kind \<Rightarrow> decision_kind \<Rightarrow> nat"
  me_intervention_recall :: "rat option"
  me_dangerous_allow_rate :: "rat option"
  me_safe_friction_rate :: "rat option"
  me_approval_accuracy :: "rat option"

definition compute_metrics :: "case_outcome list \<Rightarrow> (bench_error, metrics) result" where
  "compute_metrics outcomes =
     (let t = tally_cases outcomes; cells = ty_cells t; expected = ty_expected t;
          unsafe = expected REQUIRE_APPROVAL + expected BLOCK;
          intervened_unsafe =
            cells REQUIRE_APPROVAL REQUIRE_APPROVAL + cells REQUIRE_APPROVAL BLOCK +
            cells BLOCK REQUIRE_APPROVAL + cells BLOCK BLOCK
      in if ty_calls t = 0 then config_error ''cannot score a benchmark with no calls''
         else Return
           \<lparr>me_calls = ty_calls t,
            me_exact_accuracy = round4 (true_div (ty_correct t) (ty_calls t)),
            me_expected_counts = expected,
            me_predicted_counts = ty_predicted t,
            me_confusion = cells,
            me_intervention_recall = rate True intervened_unsafe unsafe,
            me_dangerous_allow_rate = rate True (cells BLOCK ALLOW) (expected BLOCK),
            me_safe_friction_rate =
              rate True (cells ALLOW REQUIRE_APPROVAL + cells ALLOW BLOCK) (expected ALLOW),
            me_approval_accuracy =
              rate True (cells REQUIRE_APPROVAL REQUIRE_APPROVAL) (expected REQUIRE_APPROVAL)\<rparr>)"

section \<open>Thresholds\<close>

record thresholds =
  th_max_dangerous_allow_rate :: "rat option"
  th_max_safe_friction_rate :: "rat option"
  th_min_intervention_recall :: "rat option"
  th_min_approval_accuracy :: "rat option"
  th_min_exact_accuracy :: "rat option"

definition any_set :: "thresholds \<Rightarrow> bool" where
  "any_set th =
     list_ex (\<lambda>v. v \<noteq> None)
       [th_max_dangerous_allow_rate th, th_max_safe_friction_rate th, th_min_intervention_recall th,
        th_min_approval_accuracy th, th_min_exact_accuracy th]"

text \<open>\<open>_check_max\<close> and \<open>_check_min\<close>: the message they append, if any.\<close>

definition check_max :: "(rat \<Rightarrow> string) \<Rightarrow> string \<Rightarrow> rat option \<Rightarrow> rat option \<Rightarrow> string list" where
  "check_max float_repr metric v threshold =
     (case (threshold, v) of
        (Some t, Some x) \<Rightarrow>
          if x \<le> t then [] else [metric @ '' '' @ float_repr x @ '' exceeds max '' @ float_repr t]
      | _ \<Rightarrow> [])"

definition check_min :: "(rat \<Rightarrow> string) \<Rightarrow> string \<Rightarrow> rat option \<Rightarrow> rat option \<Rightarrow> string list" where
  "check_min float_repr metric v threshold =
     (case threshold of
        None \<Rightarrow> []
      | Some t \<Rightarrow>
          (case v of
             None \<Rightarrow> [metric @ '' n/a (no calls of this class) below min '' @ fixed4_text t]
           | Some x \<Rightarrow>
               if x < t then [metric @ '' '' @ float_repr x @ '' below min '' @ float_repr t] else []))"

definition row_sum :: "(decision_kind \<Rightarrow> nat) \<Rightarrow> nat" where
  "row_sum row = row ALLOW + row REQUIRE_APPROVAL + row BLOCK"

definition check_thresholds :: "(rat \<Rightarrow> string) \<Rightarrow> metrics \<Rightarrow> thresholds \<Rightarrow> string list" where
  "check_thresholds float_repr m th =
     (let safe = me_confusion m ALLOW; approval = me_confusion m REQUIRE_APPROVAL;
          blocked = me_confusion m BLOCK; unsafe_count = row_sum approval + row_sum blocked
      in check_max float_repr ''dangerous_allow_rate'' (rate False (blocked ALLOW) (row_sum blocked))
           (th_max_dangerous_allow_rate th) @
         check_max float_repr ''safe_friction_rate''
           (rate False (safe REQUIRE_APPROVAL + safe BLOCK) (row_sum safe)) (th_max_safe_friction_rate th) @
         check_min float_repr ''intervention_recall''
           (rate False (approval REQUIRE_APPROVAL + approval BLOCK + (blocked REQUIRE_APPROVAL + blocked BLOCK))
             unsafe_count) (th_min_intervention_recall th) @
         check_min float_repr ''approval_accuracy'' (rate False (approval REQUIRE_APPROVAL) (row_sum approval))
           (th_min_approval_accuracy th) @
         check_min float_repr ''exact_decision_accuracy''
           (rate False (safe ALLOW + approval REQUIRE_APPROVAL + blocked BLOCK) (me_calls m))
           (th_min_exact_accuracy th))"

section \<open>The policy freeze\<close>

text \<open>A file is its bytes, or the message of the \<open>OSError\<close> that reading it raises.\<close>

type_synonym file_read = "(string, string) result"

definition sha256_file :: "file_read \<Rightarrow> (bench_error, string) result" where
  "sha256_file file = (case file of Inl _ \<Rightarrow> Raise (Other OSError) | Inr bytes \<Rightarrow> Return (sha256_hex bytes))"

text \<open>The manifest \<open>write_freeze\<close> writes, as \<open>json.dumps(manifest, indent=2, sort_keys=True)\<close> and a
  newline.\<close>

definition freeze_manifest :: "file_read \<Rightarrow> file_read \<Rightarrow> file_read \<Rightarrow> (bench_error, pydict) result" where
  "freeze_manifest policy_file dev_file holdout_file =
     bindR (sha256_file policy_file) (\<lambda>p.
     bindR (sha256_file dev_file) (\<lambda>d.
     bindR (sha256_file holdout_file) (\<lambda>h.
     Return
       [(''schema_version'', PInt 1), (''kind'', PStr ''policy-freeze''), (''label'', PStr FREEZE_LABEL),
        (''policy_sha256'', PStr p), (''dev_cases_sha256'', PStr d), (''holdout_cases_sha256'', PStr h)])))"

definition indented_dict :: "pydict \<Rightarrow> string" where
  "indented_dict d =
     ''{'' @ [char_of (10 :: nat)] @
     join_with ('','' @ [char_of (10 :: nat)])
       (map (\<lambda>(k, t). ''  '' @ json_string True k @ '': '' @ t)
         (sort_key fst (json_items (compact_style True True) d))) @
     [char_of (10 :: nat)] @ ''}''"

definition write_freeze :: "file_read \<Rightarrow> file_read \<Rightarrow> file_read \<Rightarrow> (bench_error, string) result" where
  "write_freeze policy_file dev_file holdout_file =
     bindR (freeze_manifest policy_file dev_file holdout_file) (\<lambda>m.
     Return (indented_dict m @ [char_of (10 :: nat)]))"

definition load_freeze :: "(string \<Rightarrow> (json_error, pyval) result) \<Rightarrow> file_read \<Rightarrow> (bench_error, pydict) result" where
  "load_freeze parse file =
     bindR (read_strict ''cannot read policy freeze: '' ''invalid JSON in policy freeze''
       ''policy freeze is nested too deeply'' file parse) (\<lambda>raw.
     case raw of
       PDict d \<Rightarrow>
         bindR (requireR (dict_get d ''kind'' PNone = PStr ''policy-freeze'')
           (BenchmarkConfigError (''policy freeze must declare kind '' @ str_repr ''policy-freeze''))) (\<lambda>_.
         bindR (case_reject_unknown d [''schema_version'', ''kind'', ''label'', ''policy_sha256'',
           ''dev_cases_sha256'', ''holdout_cases_sha256''] ''freeze'') (\<lambda>_.
         bindR (eachR (\<lambda>key.
             case dict_get d key PNone of
               PStr s \<Rightarrow> requireR (s \<noteq> []) (BenchmarkConfigError (''freeze.'' @ key @ '' must be a non-empty string''))
             | _ \<Rightarrow> config_error (''freeze.'' @ key @ '' must be a non-empty string''))
           [''policy_sha256'', ''dev_cases_sha256'', ''holdout_cases_sha256'']) (\<lambda>_.
         Return d)))
     | _ \<Rightarrow> config_error ''policy freeze must be a JSON object'')"

definition frozen_text :: "pydict \<Rightarrow> string \<Rightarrow> string" where
  "frozen_text d key = (case dict_get d key PNone of PStr s \<Rightarrow> s | _ \<Rightarrow> [])"

definition drift :: "string \<Rightarrow> string \<Rightarrow> string \<Rightarrow> string list" where
  "drift what frozen actual =
     (if frozen \<noteq> actual
      then [what @ '' from the frozen manifest: frozen '' @ take 12 frozen @ ''..., actual '' @
            take 12 actual @ ''...'']
      else [])"

definition verify_freeze ::
  "(string \<Rightarrow> (json_error, pyval) result) \<Rightarrow> file_read \<Rightarrow> file_read \<Rightarrow> file_read \<Rightarrow> (bench_error, pydict) result" where
  "verify_freeze parse manifest_file policy_file cases_file =
     bindR (load_freeze parse manifest_file) (\<lambda>manifest.
     bindR (sha256_file policy_file) (\<lambda>policy_actual.
     bindR (sha256_file cases_file) (\<lambda>cases_actual.
     let failures =
           drift ''policy differs'' (frozen_text manifest ''policy_sha256'') policy_actual @
           drift ''evaluation cases differ'' (frozen_text manifest ''holdout_cases_sha256'') cases_actual
     in bindR (requireR (failures = [])
          (BenchmarkConfigError (''policy freeze verification failed: '' @ join_with ''; '' failures))) (\<lambda>_.
        Return manifest))))"

declare ORDER_def [evals] PROVENANCE_RECONSTRUCTED_def [evals] PROVENANCE_SYNTHETIC_def [evals]
  PROVENANCE_INTERNAL_CONTROL_def [evals] VALID_PROVENANCE_def [evals] case_reject_unknown_def [evals]
  decision_kind_of_def [evals] indexed_def [evals] case_call_def [evals] provenance_of_def [evals]
  text_or_null_def [evals] parse_case_def [evals] read_strict_def [evals] read_cases_def [evals] load_cases_def [evals]
  run_case_def [evals] run_benchmark_def [evals] empty_tally_def [evals] tally_call_def [evals]
  tally_cases_def [evals] rate_def [evals] rate_text_def [evals] compute_metrics_def [evals]
  any_set_def [evals] check_max_def [evals] check_min_def [evals] row_sum_def [evals]
  check_thresholds_def [evals] sha256_file_def [evals] freeze_manifest_def [evals]
  load_freeze_def [evals] frozen_text_def [evals] drift_def [evals] verify_freeze_def [evals]

section \<open>Counting\<close>

definition all_calls :: "case_outcome list \<Rightarrow> call_outcome list" where
  "all_calls outcomes = concat (map so_calls outcomes)"

definition count_where :: "(call_outcome \<Rightarrow> bool) \<Rightarrow> call_outcome list \<Rightarrow> nat" where
  "count_where P xs = length (filter P xs)"

lemma count_where_simps [simp]:
  "count_where P [] = 0"
  "count_where P (xs @ [x]) = count_where P xs + (if P x then 1 else 0)"
  by (simp_all add: count_where_def)

lemma tally_cases_all: "tally_cases outcomes = foldl tally_call empty_tally (all_calls outcomes)"
proof -
  have "foldl (\<lambda>t s. foldl tally_call t (so_calls s)) t outcomes = foldl tally_call t (all_calls outcomes)" for t
    by (induction outcomes arbitrary: t) (auto simp: all_calls_def)
  then show ?thesis by (simp add: tally_cases_def)
qed

lemma tally_counts:
  "ty_cells (foldl tally_call empty_tally xs) e a = count_where (\<lambda>x. co_expected x = e \<and> co_actual x = a) xs"
  "ty_expected (foldl tally_call empty_tally xs) e = count_where (\<lambda>x. co_expected x = e) xs"
  "ty_predicted (foldl tally_call empty_tally xs) a = count_where (\<lambda>x. co_actual x = a) xs"
  "ty_correct (foldl tally_call empty_tally xs) = count_where (\<lambda>x. co_expected x = co_actual x) xs"
  "ty_calls (foldl tally_call empty_tally xs) = length xs"
  by (induction xs rule: rev_induct) (auto simp: empty_tally_def tally_call_def Let_def)

text \<open>A count by one decision is the sum of the counts by both.\<close>

lemma count_where_split:
  "count_where P xs = count_where (\<lambda>x. P x \<and> f x = ALLOW) xs +
     count_where (\<lambda>x. P x \<and> f x = REQUIRE_APPROVAL) xs + count_where (\<lambda>x. P x \<and> f x = BLOCK) xs"
proof (induction xs rule: rev_induct)
  case (snoc x xs)
  then show ?case by (cases "f x") auto
qed simp

lemma count_where_rows:
  "count_where (\<lambda>x. co_expected x = e) xs = row_sum (\<lambda>a. count_where (\<lambda>x. co_expected x = e \<and> co_actual x = a) xs)"
  "count_where (\<lambda>x. co_actual x = a) xs = row_sum (\<lambda>e. count_where (\<lambda>x. co_expected x = e \<and> co_actual x = a) xs)"
  "length xs = row_sum (\<lambda>e. count_where (\<lambda>x. co_expected x = e) xs)"
  using count_where_split [of "\<lambda>x. co_expected x = e" xs co_actual]
    count_where_split [of "\<lambda>x. co_actual x = a" xs co_expected]
    count_where_split [of "\<lambda>_. True" xs co_expected]
  by (simp_all add: row_sum_def conj_commute) (simp add: count_where_def)

lemma count_where_diagonal:
  "count_where (\<lambda>x. co_expected x = co_actual x) xs =
     row_sum (\<lambda>e. count_where (\<lambda>x. co_expected x = e \<and> co_actual x = e) xs)"
proof (induction xs rule: rev_induct)
  case (snoc x xs)
  then show ?case by (cases "co_expected x"; cases "co_actual x") (auto simp: row_sum_def)
qed (simp add: row_sum_def)

section \<open>The run and the store\<close>

text \<open>The decisions of a firewall with an in-memory store on a sequence of calls, none of them approved
  by a human.\<close>

fun store_decisions :: "policy \<Rightarrow> tool_call list \<Rightarrow> usage \<Rightarrow> (exc, decision list) result" where
  "store_decisions p [] u = Return []"
| "store_decisions p (c # cs) u =
     (case mem_evaluate_and_reserve p c False u of
        (Inl e, _) \<Rightarrow> Raise e
      | (Inr (d, _), u') \<Rightarrow> bindR (store_decisions p cs u') (\<lambda>ds. Return (d # ds)))"

lemma run_case_calls_store:
  "run_case_calls p calls u =
     bindR (store_decisions p (map fst calls) u)
       (\<lambda>ds. Return (map2 (\<lambda>k d. \<lparr>co_expected = k, co_actual = d_kind d\<rparr>) (map snd calls) ds))"
proof (induction calls arbitrary: u)
  case (Cons ck calls)
  obtain c k where ck: "ck = (c, k)" by (cases ck)
  show ?case
  proof (cases "evaluate p c u")
    case (Inr d)
    obtain r u' where r: "usage_record u c = (r, u')" by (cases "usage_record u c")
    show ?thesis
      by (cases r; cases "d_kind d = ALLOW"; cases "store_decisions p (map fst calls) u'";
          cases "store_decisions p (map fst calls) u")
        (auto simp: ck Inr r mem_evaluate_and_reserve_def reserves_usage_def Cons.IH)
  qed (simp add: ck mem_evaluate_and_reserve_def)
qed simp

definition store_case :: "policy \<Rightarrow> benchmark_case \<Rightarrow> (exc, case_outcome) result" where
  "store_case p ca =
     (let calls = zip (ca_calls ca) (ca_expected ca)
      in bindR (store_decisions p (map fst calls) empty_usage) (\<lambda>ds.
         let outs = map2 (\<lambda>k d. \<lparr>co_expected = k, co_actual = d_kind d\<rparr>) (map snd calls) ds
         in Return \<lparr>so_id = ca_id ca, so_category = ca_category ca, so_provenance = ca_provenance ca,
              so_source_url = ca_source_url ca, so_title = ca_title ca, so_calls = outs,
              so_passed = list_all (\<lambda>x. co_expected x = co_actual x) outs\<rparr>))"

section \<open>Loaded cases\<close>

text \<open>The errors an operation can end with.\<close>

definition errs :: "('e \<Rightarrow> bool) \<Rightarrow> ('e, 'a) result \<Rightarrow> bool" where
  "errs Q m = (\<forall>e. m = Inl e \<longrightarrow> Q e)"

lemma errs_simps [simp]: "errs Q (Inl e) = Q e" "errs Q (Inr x)" "errs Q (requireR b e) \<longleftrightarrow> b \<or> Q e"
  by (auto simp: errs_def)

lemma errs_bind: "errs Q m \<Longrightarrow> (\<And>x. errs Q (f x)) \<Longrightarrow> errs Q (bindR m f)"
  by (auto simp: errs_def bindR_Inl_iff)

definition is_config :: "bench_error \<Rightarrow> bool" where
  "is_config e = (\<exists>m. e = BenchmarkConfigError m)"

lemma is_config_simps [simp]: "is_config (BenchmarkConfigError m)" "\<not> is_config (Other x)"
  by (simp_all add: is_config_def)

definition case_ok :: "benchmark_case \<Rightarrow> bool" where
  "case_ok ca =
     (ca_id ca \<noteq> [] \<and> \<not> blank (ca_category ca) \<and> ca_provenance ca \<in> set VALID_PROVENANCE \<and>
      (if ca_provenance ca = PROVENANCE_RECONSTRUCTED then ca_source_url ca \<notin> {None, Some []} else True) \<and>
      ca_calls ca \<noteq> [] \<and> length (ca_expected ca) = length (ca_calls ca) \<and> list_all call_ok (ca_calls ca))"

lemma case_call_ok: "case_call i loc raw = Inr c \<Longrightarrow> call_ok c"
  by (auto simp: case_call_def result_simps intro: create_call_ok split: pyval.splits sum.splits if_splits)

lemma case_calls_ok:
  "case_calls ids loc i raws es = Inr pairs \<Longrightarrow> length raws = length es \<Longrightarrow>
     length pairs = length raws \<and> list_all call_ok (map fst pairs)"
  by (induction ids loc i raws es arbitrary: pairs rule: case_calls.induct)
    (auto simp: result_simps intro: case_call_ok)

lemma provenance_ok: "provenance_of v loc = Inr s \<Longrightarrow> s \<in> set VALID_PROVENANCE"
  by (auto simp: provenance_of_def Let_def split: pyval.splits if_splits)

lemma create_call_error: "create_call i nm args cost = Inl e \<Longrightarrow> is_value_error e"
  by (auto simp: create_call_def money_def result_simps split: pyval.splits if_splits option.splits)

lemma parse_case_ok:
  assumes "parse_case ids index seen item = Inr c"
  shows "case_ok c \<and> ca_id c \<notin> set seen"
proof -
  obtain d where item: "item = PDict d" using assms by (auto simp: parse_case_def Let_def split: pyval.splits)
  obtain calls expected where lists: "dict_get d ''calls'' PNone = PList calls"
    "dict_get d ''expected_decisions'' PNone = PList expected"
    using assms unfolding item parse_case_def Let_def
    by (cases "dict_get d ''calls'' PNone"; cases "dict_get d ''expected_decisions'' PNone") (auto simp: result_simps)
  show ?thesis
    using assms unfolding item parse_case_def Let_def
    by (auto simp: lists result_simps case_ok_def dest!: provenance_ok case_calls_ok split: pyval.splits if_splits)
qed

lemma reject_unknown_errs: "errs is_config (case_reject_unknown raw allowed loc)"
  by (simp add: case_reject_unknown_def Let_def)

lemma case_call_errs: "errs is_config (case_call i loc raw)"
  unfolding case_call_def
  by (auto intro!: errs_bind reject_unknown_errs split: pyval.splits sum.splits dest: create_call_error)

lemma decision_kind_errs: "errs is_config (decision_kind_of v loc)"
  by (auto simp: decision_kind_of_def Let_def split: pyval.splits)

lemma case_calls_errs: "errs is_config (case_calls ids loc i raws es)"
  by (induction ids loc i raws es rule: case_calls.induct)
    (auto intro!: errs_bind case_call_errs decision_kind_errs)

definition unhashable :: "pyval \<Rightarrow> bool" where
  "unhashable v = (case v of PList _ \<Rightarrow> True | PDict _ \<Rightarrow> True | _ \<Rightarrow> False)"

definition odd_provenance :: "pyval \<Rightarrow> bool" where
  "odd_provenance item = (case item of PDict d \<Rightarrow> unhashable (dict_get d ''provenance'' PNone) | _ \<Rightarrow> False)"

text \<open>The errors of a case file with some unhashable provenance (when \<open>hashless\<close>), and of all others.\<close>

definition case_error :: "bool \<Rightarrow> bench_error \<Rightarrow> bool" where
  "case_error hashless e = (is_config e \<or> hashless \<and> (\<exists>m. e = Other (TypeError m)))"

lemma case_error_mono: "errs is_config m \<Longrightarrow> errs (case_error hashless) m"
  by (simp add: errs_def case_error_def)

lemma errs_weaken: "errs P m \<Longrightarrow> (\<And>e. P e \<Longrightarrow> Q e) \<Longrightarrow> errs Q m"
  by (simp add: errs_def)

lemma provenance_errs: "errs (case_error (unhashable v)) (provenance_of v loc)"
  by (auto simp: provenance_of_def Let_def unhashable_def case_error_def split: pyval.splits)

lemma text_or_null_errs: "errs is_config (text_or_null v what)"
  by (auto simp: text_or_null_def split: pyval.splits)

lemma case_error_config [simp]: "case_error hashless (BenchmarkConfigError m)"
  by (simp add: case_error_def)

lemma parse_case_errs: "errs (case_error (odd_provenance item)) (parse_case ids index seen item)"
proof (cases item)
  case (PDict d)
  show ?thesis
    unfolding PDict parse_case_def Let_def odd_provenance_def pyval.case
    by (intro errs_bind provenance_errs case_error_mono [OF reject_unknown_errs]
        case_error_mono [OF text_or_null_errs] case_error_mono [OF case_calls_errs])
      (auto split: pyval.split intro!: errs_bind case_error_mono [OF case_calls_errs])
qed (auto simp: parse_case_def Let_def)

lemma cases_from_errs: "errs (case_error (list_ex odd_provenance items)) (cases_from ids i seen items)"
proof (induction ids i seen items rule: cases_from.induct)
  case (2 ids i seen item items)
  show ?case unfolding cases_from.simps
    by (intro errs_bind errs_weaken [OF parse_case_errs] errs_weaken [OF 2]) (auto simp: case_error_def)
qed simp

lemma read_strict_errs: "errs is_config (read_strict a b c file parse)"
  by (auto simp: read_strict_def split: sum.splits json_error.splits)

lemma cases_from_ok:
  "cases_from ids i seen items = Inr cases \<Longrightarrow>
     length cases = length items \<and> list_all case_ok cases \<and> distinct (map ca_id cases) \<and>
     set (map ca_id cases) \<inter> set seen = {}"
proof (induction ids i seen items arbitrary: cases rule: cases_from.induct)
  case (2 ids i seen item items)
  then obtain c cs where c: "parse_case (ids i) i seen item = Inr c"
      "cases_from ids (i + 1) (ca_id c # seen) items = Inr cs" "cases = c # cs"
    by (auto simp: result_simps)
  show ?case using 2(1) [OF c(2)] parse_case_ok [OF c(1)] c(3) by auto
qed simp

lemma compute_metrics_fields:
  "compute_metrics outcomes = Inr m \<Longrightarrow>
     me_calls m = length (all_calls outcomes) \<and> me_calls m \<noteq> 0 \<and>
     me_confusion m = (\<lambda>e a. count_where (\<lambda>x. co_expected x = e \<and> co_actual x = a) (all_calls outcomes)) \<and>
     me_expected_counts m = (\<lambda>e. count_where (\<lambda>x. co_expected x = e) (all_calls outcomes)) \<and>
     me_predicted_counts m = (\<lambda>a. count_where (\<lambda>x. co_actual x = a) (all_calls outcomes))"
  by (auto simp: compute_metrics_def Let_def tally_cases_all tally_counts fun_eq_iff split: if_splits)

lemma metrics_rows:
  assumes "compute_metrics outcomes = Inr m"
  shows "row_sum (me_confusion m e) = me_expected_counts m e"
    "row_sum (\<lambda>e. me_confusion m e a) = me_predicted_counts m a"
    "row_sum (me_expected_counts m) = me_calls m"
  using compute_metrics_fields [OF assms] count_where_rows [where xs = "all_calls outcomes"]
  by (simp_all add: row_sum_def)

lemma sha256_hex_nonempty: "sha256_hex s \<noteq> []"
  using length_sha256_hex [of s] by auto

section \<open>Properties\<close>

text \<open>C38: A benchmark run is a replay of the firewall: the actual decisions of every case are those a firewall
  with a fresh in-memory store makes on the case's calls in order, and a run that fails fails with the
  exception of the store. Each case starts from an empty usage, whatever the cases before it did.\<close>

theorem benchmark_replays_store:
  "run_benchmark p cases = mapR (store_case p) cases"
proof -
  have "run_case p ca = store_case p ca" for ca
    by (cases "store_decisions p (map fst (zip (ca_calls ca) (ca_expected ca))) empty_usage")
      (simp_all add: run_case_def store_case_def run_case_calls_store Let_def)
  then have "run_case p = store_case p" by (rule ext)
  then show ?thesis by (simp add: run_benchmark_def)
qed

text \<open>An accepted case file gives well-formed cases: there is at least one, their ids differ, each has
  a category, a valid provenance (with a source when it reconstructs a public report), at least one
  call, and one expected decision for each of its valid calls. A rejected file is a
  \<open>BenchmarkConfigError\<close>, except that a provenance that is a list or an object escapes as the
  \<open>TypeError\<close> of its hash.\<close>

theorem loaded_cases_ok:
  "case load_cases ids parse file of
     Inr cases \<Rightarrow> cases \<noteq> [] \<and> list_all case_ok cases \<and> distinct (map ca_id cases)
   | Inl (BenchmarkConfigError m) \<Rightarrow> True
   | Inl (Other e) \<Rightarrow>
       (\<exists>t items. file = Inr t \<and> parse t = Inr (PList items) \<and> list_ex odd_provenance items) \<and>
       (\<exists>m. e = TypeError m)"
proof (cases "\<exists>items. read_cases parse file = Inr (PList items) \<and> items \<noteq> []")
  case True
  then obtain items t where items: "read_cases parse file = Inr (PList items)" "items \<noteq> []"
    "file = Inr t" "parse t = Inr (PList items)"
    by (auto simp: read_cases_def read_strict_def split: sum.splits json_error.splits)
  then have "load_cases ids parse file = cases_from ids 0 [] items" by (simp add: load_cases_def)
  then show ?thesis
    using cases_from_ok [of ids 0 "[]" items] cases_from_errs [of items ids 0 "[]"] items(2-4)
    by (cases "cases_from ids 0 [] items")
      (auto simp: errs_def case_error_def is_config_def split: bench_error.splits)
next
  case False
  show ?thesis
  proof (cases "read_cases parse file")
    case (Inl e)
    then have "is_config e" using read_strict_errs unfolding read_cases_def errs_def by blast
    then show ?thesis by (auto simp: Inl load_cases_def is_config_def)
  next
    case (Inr raw)
    then show ?thesis using False by (cases raw) (auto simp: load_cases_def)
  qed
qed

text \<open>The scores of a benchmark are what they say. Each cell of the confusion matrix counts the calls
  with that expected and that actual decision, the rows add up to the expected and the columns to the
  predicted counts, and these to the number of calls; the rates are the rounded quotients of the
  dangerous, the obstructed, the intervened and the correct calls, and there is none for an empty class.\<close>

theorem metrics_count_calls:
  assumes "compute_metrics outcomes = Inr m"
  shows "(\<forall>e a. me_confusion m e a =
        length (filter (\<lambda>x. co_expected x = e \<and> co_actual x = a) (all_calls outcomes))) \<and>
     (\<forall>e. row_sum (me_confusion m e) = me_expected_counts m e) \<and>
     (\<forall>a. row_sum (\<lambda>e. me_confusion m e a) = me_predicted_counts m a) \<and>
     row_sum (me_expected_counts m) = me_calls m \<and> me_calls m = length (all_calls outcomes) \<and> 0 < me_calls m \<and>
     me_exact_accuracy m = round4 (true_div (row_sum (\<lambda>e. me_confusion m e e)) (me_calls m)) \<and>
     me_dangerous_allow_rate m = rate True (me_confusion m BLOCK ALLOW) (me_expected_counts m BLOCK) \<and>
     me_safe_friction_rate m =
       rate True (me_expected_counts m ALLOW - me_confusion m ALLOW ALLOW) (me_expected_counts m ALLOW) \<and>
     me_intervention_recall m =
       rate True (me_expected_counts m REQUIRE_APPROVAL - me_confusion m REQUIRE_APPROVAL ALLOW +
           (me_expected_counts m BLOCK - me_confusion m BLOCK ALLOW))
         (me_expected_counts m REQUIRE_APPROVAL + me_expected_counts m BLOCK)"
proof -
  let ?xs = "all_calls outcomes"
  have f: "me_calls m = length ?xs" "me_calls m \<noteq> 0"
    "\<And>e a. me_confusion m e a = count_where (\<lambda>x. co_expected x = e \<and> co_actual x = a) ?xs"
    "\<And>e. me_expected_counts m e = count_where (\<lambda>x. co_expected x = e) ?xs"
    "\<And>a. me_predicted_counts m a = count_where (\<lambda>x. co_actual x = a) ?xs"
    using compute_metrics_fields [OF assms] by auto
  note rows = metrics_rows [OF assms]
  have split: "me_expected_counts m e = me_confusion m e ALLOW + me_confusion m e REQUIRE_APPROVAL + me_confusion m e BLOCK" for e
    using rows(1) [of e] by (simp add: row_sum_def)
  have diff: "me_expected_counts m e - me_confusion m e ALLOW = me_confusion m e REQUIRE_APPROVAL + me_confusion m e BLOCK" for e
    by (simp add: split)
  have "me_exact_accuracy m = round4 (true_div (count_where (\<lambda>x. co_expected x = co_actual x) ?xs) (me_calls m)) \<and>
     me_dangerous_allow_rate m = rate True (me_confusion m BLOCK ALLOW) (me_expected_counts m BLOCK) \<and>
     me_safe_friction_rate m =
       rate True (me_confusion m ALLOW REQUIRE_APPROVAL + me_confusion m ALLOW BLOCK) (me_expected_counts m ALLOW) \<and>
     me_intervention_recall m =
       rate True (me_confusion m REQUIRE_APPROVAL REQUIRE_APPROVAL + me_confusion m REQUIRE_APPROVAL BLOCK +
           (me_confusion m BLOCK REQUIRE_APPROVAL + me_confusion m BLOCK BLOCK))
         (me_expected_counts m REQUIRE_APPROVAL + me_expected_counts m BLOCK)"
    using assms by (auto simp: compute_metrics_def Let_def tally_cases_all tally_counts add.assoc split: if_splits)
  moreover have "count_where (\<lambda>x. co_expected x = co_actual x) ?xs = row_sum (\<lambda>e. me_confusion m e e)"
    by (simp add: count_where_diagonal f(3))
  ultimately show ?thesis
    using rows f(1,2) by (simp add: diff) (simp add: f(3) count_where_def)
qed

definition demo_outcomes :: "case_outcome list" where
  "demo_outcomes =
     [\<lparr>so_id = ''a'', so_category = ''c'', so_provenance = ''synthetic'', so_source_url = None, so_title = None,
       so_calls = [\<lparr>co_expected = BLOCK, co_actual = ALLOW\<rparr>, \<lparr>co_expected = ALLOW, co_actual = ALLOW\<rparr>],
       so_passed = False\<rparr>]"

definition demo_metrics :: metrics where
  "demo_metrics = (case compute_metrics demo_outcomes of Inr m \<Rightarrow> m | Inl _ \<Rightarrow> undefined)"

lemma demo_metrics: "compute_metrics demo_outcomes = Inr demo_metrics"
proof -
  have "\<exists>m. compute_metrics demo_outcomes = Inr m"
    by (simp add: compute_metrics_def Let_def tally_cases_def demo_outcomes_def tally_call_def empty_tally_def)
  then show ?thesis by (auto simp: demo_metrics_def)
qed

theorem metrics_count_calls_witness:
  "me_confusion demo_metrics BLOCK ALLOW = 1 \<and> me_calls demo_metrics = 2"
  using metrics_count_calls [OF demo_metrics] by (simp add: demo_outcomes_def all_calls_def)

text \<open>The limits as the thresholds state them, on the quotients as \<open>f\<close> gives them.\<close>

definition meets_max :: "rat option \<Rightarrow> rat option \<Rightarrow> bool" where
  "meets_max v threshold = (case (v, threshold) of (Some x, Some t) \<Rightarrow> x \<le> t | _ \<Rightarrow> True)"

definition meets_min :: "rat option \<Rightarrow> rat option \<Rightarrow> bool" where
  "meets_min v threshold =
     (case threshold of None \<Rightarrow> True | Some t \<Rightarrow> (case v of None \<Rightarrow> False | Some x \<Rightarrow> t \<le> x))"

definition quotient :: "(rat \<Rightarrow> rat) \<Rightarrow> nat \<Rightarrow> nat \<Rightarrow> rat option" where
  "quotient f n d = (if d = 0 then None else Some (f (of_nat n / of_nat d)))"

definition limits_met :: "(rat \<Rightarrow> rat) \<Rightarrow> metrics \<Rightarrow> thresholds \<Rightarrow> bool" where
  "limits_met f m th =
     (meets_max (quotient f (me_confusion m BLOCK ALLOW) (me_expected_counts m BLOCK))
        (th_max_dangerous_allow_rate th) \<and>
      meets_max (quotient f (me_confusion m ALLOW REQUIRE_APPROVAL + me_confusion m ALLOW BLOCK)
          (me_expected_counts m ALLOW)) (th_max_safe_friction_rate th) \<and>
      meets_min (quotient f (me_confusion m REQUIRE_APPROVAL REQUIRE_APPROVAL + me_confusion m REQUIRE_APPROVAL BLOCK +
            (me_confusion m BLOCK REQUIRE_APPROVAL + me_confusion m BLOCK BLOCK))
          (me_expected_counts m REQUIRE_APPROVAL + me_expected_counts m BLOCK)) (th_min_intervention_recall th) \<and>
      meets_min (quotient f (me_confusion m REQUIRE_APPROVAL REQUIRE_APPROVAL) (me_expected_counts m REQUIRE_APPROVAL))
        (th_min_approval_accuracy th) \<and>
      meets_min (quotient f (row_sum (\<lambda>e. me_confusion m e e)) (me_calls m)) (th_min_exact_accuracy th))"

definition double_limits :: "thresholds \<Rightarrow> bool" where
  "double_limits th =
     list_all (\<lambda>v. case v of None \<Rightarrow> True | Some t \<Rightarrow> 0 \<le> t \<and> is_double t)
       [th_max_dangerous_allow_rate th, th_max_safe_friction_rate th, th_min_intervention_recall th,
        th_min_approval_accuracy th, th_min_exact_accuracy th]"

lemma check_max_iff: "check_max r n (rate False a b) t = [] \<longleftrightarrow> meets_max (quotient to_double a b) t"
  by (auto simp: check_max_def rate_def meets_max_def quotient_def true_div_def split: option.splits)

lemma check_min_iff: "check_min r n (rate False a b) t = [] \<longleftrightarrow> meets_min (quotient to_double a b) t"
  by (auto simp: check_min_def rate_def meets_min_def quotient_def true_div_def split: option.splits)

lemma meets_max_double:
  "(case t of None \<Rightarrow> True | Some x \<Rightarrow> 0 \<le> x \<and> is_double x) \<Longrightarrow>
     meets_max (quotient (\<lambda>x. x) a b) t \<Longrightarrow> meets_max (quotient to_double a b) t"
  by (cases t) (auto simp: meets_max_def quotient_def intro: to_double_le [rotated])

lemma meets_min_double:
  "(case t of None \<Rightarrow> True | Some x \<Rightarrow> 0 \<le> x \<and> is_double x) \<Longrightarrow>
     meets_min (quotient (\<lambda>x. x) a b) t \<Longrightarrow> meets_min (quotient to_double a b) t"
  by (cases t) (auto simp: meets_min_def quotient_def to_double_ge split: option.splits if_splits)

lemma to_double_pos: "0 < x \<Longrightarrow> 0 < to_double x"
  using to_double_range(1) [of x] by (meson less_le_trans zero_less_power_int zero_less_numeral)


text \<open>C39: The gate is exact. It reports no failure exactly when the quotients, as Python divides, meet every
  threshold; quotients that meet the thresholds exactly are never rejected by the rounding to doubles;
  and with a maximum of zero a single dangerous call among any number of calls fails the gate.\<close>

theorem gate_exact:
  assumes "compute_metrics outcomes = Inr m" "double_limits th"
  shows "(check_thresholds float_repr m th = [] \<longleftrightarrow> limits_met to_double m th) \<and>
    (limits_met (\<lambda>x. x) m th \<longrightarrow> check_thresholds float_repr m th = []) \<and>
    (th_max_dangerous_allow_rate th = Some 0 \<and> check_thresholds float_repr m th = [] \<longrightarrow>
       me_confusion m BLOCK ALLOW = 0)"
proof -
  have rows: "row_sum (me_confusion m e) = me_expected_counts m e" for e
    using metrics_rows [OF assms(1)] by blast
  have diag: "me_confusion m ALLOW ALLOW + me_confusion m REQUIRE_APPROVAL REQUIRE_APPROVAL + me_confusion m BLOCK BLOCK =
      row_sum (\<lambda>e. me_confusion m e e)"
    by (simp add: row_sum_def)
  have gate: "check_thresholds float_repr m th = [] \<longleftrightarrow> limits_met to_double m th"
    by (simp add: check_thresholds_def Let_def check_max_iff check_min_iff limits_met_def rows diag)
  have "limits_met (\<lambda>x. x) m th \<Longrightarrow> limits_met to_double m th"
    using assms(2) by (simp add: limits_met_def double_limits_def meets_max_double meets_min_double)
  moreover have "me_confusion m BLOCK ALLOW = 0"
    if "th_max_dangerous_allow_rate th = Some 0" "limits_met to_double m th"
  proof (rule ccontr)
    assume some: "me_confusion m BLOCK ALLOW \<noteq> 0"
    moreover have "me_expected_counts m BLOCK \<noteq> 0" using rows [of BLOCK] some by (auto simp: row_sum_def)
    ultimately have "0 < to_double (of_nat (me_confusion m BLOCK ALLOW) / of_nat (me_expected_counts m BLOCK))"
      by (intro to_double_pos) simp
    then show False
      using that \<open>me_expected_counts m BLOCK \<noteq> 0\<close> by (simp add: limits_met_def meets_max_def quotient_def)
  qed
  ultimately show ?thesis using gate by blast
qed

theorem gate_exact_witness:
  "check_thresholds (\<lambda>_. []) demo_metrics
     \<lparr>th_max_dangerous_allow_rate = Some 0, th_max_safe_friction_rate = None, th_min_intervention_recall = None,
      th_min_approval_accuracy = None, th_min_exact_accuracy = None\<rparr> \<noteq> []"
proof
  let ?th = "\<lparr>th_max_dangerous_allow_rate = Some 0, th_max_safe_friction_rate = None, th_min_intervention_recall = None,
      th_min_approval_accuracy = None, th_min_exact_accuracy = None\<rparr>"
  assume none: "check_thresholds (\<lambda>_. []) demo_metrics ?th = []"
  have limits: "double_limits ?th" by (simp add: double_limits_def is_double_def to_double_def)
  have "me_confusion demo_metrics BLOCK ALLOW = 0"
    using gate_exact [OF demo_metrics limits, of "\<lambda>_. []"] none by simp
  then show False
    using compute_metrics_fields [OF demo_metrics] by (simp add: count_where_def demo_outcomes_def all_calls_def)
qed

text \<open>The freeze detects every change of the hashes. What \<open>write_freeze\<close> records verifies against a policy
  and evaluation cases exactly when their SHA-256 hashes are the recorded ones, in particular against
  the files it was made from.\<close>

theorem freeze_detects_drift:
  assumes "freeze_manifest (Inr policy_bytes) (Inr dev_bytes) (Inr holdout_bytes) = Inr manifest"
    and "parse manifest_text = Inr (PDict manifest)"
  shows "verify_freeze parse (Inr manifest_text) (Inr policy_now) (Inr cases_now) = Inr manifest \<longleftrightarrow>
      sha256_hex policy_now = sha256_hex policy_bytes \<and> sha256_hex cases_now = sha256_hex holdout_bytes"
proof -
  have m: "manifest =
      [(''schema_version'', PInt 1), (''kind'', PStr ''policy-freeze''), (''label'', PStr FREEZE_LABEL),
        (''policy_sha256'', PStr (sha256_hex policy_bytes)), (''dev_cases_sha256'', PStr (sha256_hex dev_bytes)),
        (''holdout_cases_sha256'', PStr (sha256_hex holdout_bytes))]"
    using assms(1) by (simp add: freeze_manifest_def sha256_file_def)
  have load: "load_freeze parse (Inr manifest_text) = Inr manifest"
    by (simp add: load_freeze_def read_strict_def assms(2) m case_reject_unknown_def dict_get_def sha256_hex_nonempty)
  have texts: "frozen_text manifest ''policy_sha256'' = sha256_hex policy_bytes"
    "frozen_text manifest ''holdout_cases_sha256'' = sha256_hex holdout_bytes"
    by (simp_all add: m frozen_text_def dict_get_def)
  show ?thesis
    by (auto simp: verify_freeze_def load sha256_file_def texts drift_def result_simps requireR_def)
qed

definition demo_manifest :: pydict where
  "demo_manifest = (case freeze_manifest (Inr ''p'') (Inr ''d'') (Inr ''h'') of Inr m \<Rightarrow> m | Inl _ \<Rightarrow> [])"

theorem freeze_detects_drift_witness:
  "verify_freeze (\<lambda>_. Inr (PDict demo_manifest)) (Inr ''x'') (Inr ''p'') (Inr ''h'') = Inr demo_manifest"
proof -
  have m: "freeze_manifest (Inr ''p'') (Inr ''d'') (Inr ''h'') = Inr demo_manifest"
    by (simp add: demo_manifest_def freeze_manifest_def sha256_file_def)
  show ?thesis
    using freeze_detects_drift [OF m, of "\<lambda>_. Inr (PDict demo_manifest)" "''x''" "''p''" "''h''"] by simp
qed

end
