(* ===== verification/BenchmarkReport.thy ===== *)
theory BenchmarkReport
  imports Benchmark
begin

text \<open>
  \<open>benchmark.py\<close>, the report: the totals, the scores by category, the dictionary that is written as
  JSON, and the Markdown text. The dictionary of the code is a record here, whose \<open>report_dict\<close> is the
  dictionary; the hashes are of the files as they are when the report is assembled. Results: the
  categories and the provenances partition the cases and the calls, and a report exists exactly when
  the policy and the cases load, the run finishes and there is a call to score.
\<close>

section \<open>The report\<close>

record scores =
  sc_cases :: nat
  sc_calls :: nat
  sc_exact_accuracy :: rat
  sc_intervention_recall :: "rat option"
  sc_dangerous_allow_rate :: "rat option"
  sc_safe_friction_rate :: "rat option"
  sc_approval_accuracy :: "rat option"

record report =
  rp_kind :: string
  rp_labels :: pydict
  rp_policy_sha256 :: string
  rp_cases_sha256 :: string
  rp_totals :: scores
  rp_expected_counts :: "decision_kind \<Rightarrow> nat"
  rp_predicted_counts :: "decision_kind \<Rightarrow> nat"
  rp_provenance_counts :: "(string \<times> nat) list"
  rp_confusion :: "decision_kind \<Rightarrow> decision_kind \<Rightarrow> nat"
  rp_per_category :: "(string \<times> scores) list"
  rp_cases :: "case_outcome list"
  rp_frozen_policy_sha256 :: "string option"

definition scores_of :: "nat \<Rightarrow> metrics \<Rightarrow> scores" where
  "scores_of n m =
     \<lparr>sc_cases = n, sc_calls = me_calls m, sc_exact_accuracy = me_exact_accuracy m,
      sc_intervention_recall = me_intervention_recall m, sc_dangerous_allow_rate = me_dangerous_allow_rate m,
      sc_safe_friction_rate = me_safe_friction_rate m, sc_approval_accuracy = me_approval_accuracy m\<rparr>"

text \<open>\<open>d[k] = d.get(k, 0) + 1\<close>.\<close>

definition bump :: "(string \<times> nat) list \<Rightarrow> string \<Rightarrow> (string \<times> nat) list" where
  "bump d k = dict_set d k ((case map_of d k of None \<Rightarrow> 0 | Some n \<Rightarrow> n) + 1)"

definition provenance_counts :: "case_outcome list \<Rightarrow> (string \<times> nat) list" where
  "provenance_counts outcomes = foldl (\<lambda>d s. bump d (so_provenance s)) [] outcomes"

definition categories :: "case_outcome list \<Rightarrow> string list" where
  "categories outcomes = sort (remdups (map so_category outcomes))"

definition category_scores :: "case_outcome list \<Rightarrow> string \<Rightarrow> (bench_error, string \<times> scores) result" where
  "category_scores outcomes category =
     (let cat_outcomes = filter (\<lambda>s. so_category s = category) outcomes
      in bindR (compute_metrics cat_outcomes) (\<lambda>m. Return (category, scores_of (length cat_outcomes) m)))"

definition default_labels :: pydict where
  "default_labels =
     [(''internal'', PBool True), (''development_benchmark'', PBool True),
      (''selected_replay_coverage'', PBool True)]"

definition assemble_report ::
  "file_read \<Rightarrow> file_read \<Rightarrow> case_outcome list \<Rightarrow> metrics \<Rightarrow> string \<Rightarrow> pydict option \<Rightarrow> string option \<Rightarrow>
     (bench_error, report) result" where
  "assemble_report policy_file cases_file outcomes totals kind labels frozen =
     bindR (mapR (category_scores outcomes) (categories outcomes)) (\<lambda>per_category.
     bindR (sha256_file policy_file) (\<lambda>policy_sha.
     bindR (sha256_file cases_file) (\<lambda>cases_sha.
     Return
       \<lparr>rp_kind = kind,
        rp_labels = (case labels of None \<Rightarrow> default_labels | Some l \<Rightarrow> l),
        rp_policy_sha256 = policy_sha, rp_cases_sha256 = cases_sha,
        rp_totals = scores_of (length outcomes) totals,
        rp_expected_counts = me_expected_counts totals, rp_predicted_counts = me_predicted_counts totals,
        rp_provenance_counts = provenance_counts outcomes,
        rp_confusion = me_confusion totals,
        rp_per_category = per_category, rp_cases = outcomes,
        rp_frozen_policy_sha256 = frozen\<rparr>)))"

text \<open>\<open>_evaluate\<close>, on the results of loading the policy and the cases.\<close>

definition lift_exc :: "(exc, 'a) result \<Rightarrow> (bench_error, 'a) result" where
  "lift_exc m = map_errorR Other m"

definition evaluate_benchmark ::
  "(exc, policy) result \<Rightarrow> (bench_error, benchmark_case list) result \<Rightarrow>
     (bench_error, case_outcome list \<times> metrics) result" where
  "evaluate_benchmark loaded cases =
     bindR (lift_exc loaded) (\<lambda>p.
     bindR cases (\<lambda>cs.
     bindR (lift_exc (run_benchmark p cs)) (\<lambda>outcomes.
     bindR (compute_metrics outcomes) (\<lambda>totals.
     Return (outcomes, totals)))))"

definition build_report_with_metrics ::
  "(exc, policy) result \<Rightarrow> (bench_error, benchmark_case list) result \<Rightarrow> file_read \<Rightarrow> file_read \<Rightarrow>
     string \<Rightarrow> pydict option \<Rightarrow> string option \<Rightarrow> (bench_error, report \<times> metrics) result" where
  "build_report_with_metrics loaded cases policy_file cases_file kind labels frozen =
     bindR (evaluate_benchmark loaded cases) (\<lambda>(outcomes, totals).
     bindR (assemble_report policy_file cases_file outcomes totals kind labels frozen) (\<lambda>r.
     Return (r, totals)))"

section \<open>JSON\<close>

definition rate_value :: "(rat \<Rightarrow> string) \<Rightarrow> rat option \<Rightarrow> pyval" where
  "rate_value float_repr v = (case v of None \<Rightarrow> PNone | Some x \<Rightarrow> PFloat (float_repr x))"

definition rates_dict :: "(rat \<Rightarrow> string) \<Rightarrow> scores \<Rightarrow> pydict" where
  "rates_dict float_repr s =
     [(''cases'', PInt (int (sc_cases s))), (''calls'', PInt (int (sc_calls s))),
      (''exact_decision_accuracy'', PFloat (float_repr (sc_exact_accuracy s))),
      (''unsafe_intervention_recall'', rate_value float_repr (sc_intervention_recall s)),
      (''dangerous_allow_rate'', rate_value float_repr (sc_dangerous_allow_rate s)),
      (''safe_call_friction_rate'', rate_value float_repr (sc_safe_friction_rate s)),
      (''approval_accuracy'', rate_value float_repr (sc_approval_accuracy s))]"

definition counts_dict :: "(decision_kind \<Rightarrow> nat) \<Rightarrow> pyval" where
  "counts_dict f = PDict (map (\<lambda>k. (kind_value k, PInt (int (f k)))) ORDER)"

definition text_value :: "string option \<Rightarrow> pyval" where
  "text_value v = (case v of None \<Rightarrow> PNone | Some s \<Rightarrow> PStr s)"

definition case_dict :: "case_outcome \<Rightarrow> pydict" where
  "case_dict s =
     [(''id'', PStr (so_id s)), (''title'', text_value (so_title s)), (''category'', PStr (so_category s)),
      (''provenance'', PStr (so_provenance s)), (''source_url'', text_value (so_source_url s)),
      (''expected'', PList (map (\<lambda>x. PStr (kind_value (co_expected x))) (so_calls s))),
      (''actual'', PList (map (\<lambda>x. PStr (kind_value (co_actual x))) (so_calls s))),
      (''passed'', PBool (so_passed s))]"

definition report_dict :: "(rat \<Rightarrow> string) \<Rightarrow> report \<Rightarrow> pydict" where
  "report_dict float_repr r =
     [(''schema_version'', PInt 1), (''kind'', PStr (rp_kind r)), (''labels'', PDict (rp_labels r)),
      (''policy_sha256'', PStr (rp_policy_sha256 r)), (''cases_sha256'', PStr (rp_cases_sha256 r)),
      (''totals'', PDict (rates_dict float_repr (rp_totals r) @
         [(''expected_counts'', counts_dict (rp_expected_counts r)),
          (''predicted_counts'', counts_dict (rp_predicted_counts r)),
          (''provenance_counts'', PDict (map (\<lambda>(k, n). (k, PInt (int n))) (rp_provenance_counts r)))])),
      (''confusion_matrix'', PDict
         [(''expected'', PList (map (PStr \<circ> kind_value) ORDER)),
          (''predicted'', PList (map (PStr \<circ> kind_value) ORDER)),
          (''counts'', PList (map (\<lambda>e. PList (map (\<lambda>a. PInt (int (rp_confusion r e a))) ORDER)) ORDER))]),
      (''per_category'', PDict (map (\<lambda>(c, s). (c, PDict (rates_dict float_repr s))) (rp_per_category r))),
      (''cases'', PList (map (PDict \<circ> case_dict) (rp_cases r)))] @
     (case rp_frozen_policy_sha256 r of None \<Rightarrow> [] | Some h \<Rightarrow> [(''frozen_policy_sha256'', PStr h)])"

definition render_json :: "(rat \<Rightarrow> string) \<Rightarrow> report \<Rightarrow> string" where
  "render_json float_repr r = json_text (compact_style False True) (PDict (report_dict float_repr r))"

section \<open>Markdown\<close>

definition heading_lines :: "report \<Rightarrow> string list" where
  "heading_lines r =
     (if rp_kind r = KIND_HOLDOUT
      then [''# Frozen internal evaluation report'', [],
            ''Separate internal evaluation split: the manifest pins the exact '' @
            ''policy and cases used and rejects later drift. The cases were '' @
            ''authored with access to the policy, and the initial results were '' @
            ''inspected before the manifest was written. This is not a blind '' @
            ''holdout, independent, or externally validated evaluation, and it '' @
            ''does not measure unseen real-world safety.'']
      else [''# Development benchmark report'', [],
            ''Internal development benchmark: selected replay coverage over '' @
            ''reconstructed incident scenarios and paired safe controls. Not an '' @
            ''external, independent, or held-out safety evaluation.''])"

text \<open>\<open>report['frozen_policy_sha256']\<close> of a holdout report without it is a \<open>KeyError\<close>.\<close>

definition summary_lines :: "report \<Rightarrow> (exc, string list) result" where
  "summary_lines r =
     bindR (if rp_kind r = KIND_HOLDOUT
            then (case rp_frozen_policy_sha256 r of
                    None \<Rightarrow> Raise (KeyError ''frozen_policy_sha256'')
                  | Some h \<Rightarrow> Return [''- frozen policy sha256: `'' @ h @ ''`''])
            else Return []) (\<lambda>frozen.
     Return
       ([[], ''- schema_version: 1'', ''- kind: '' @ rp_kind r] @ frozen @
        [''- cases: '' @ nat_text (sc_cases (rp_totals r)), ''- calls: '' @ nat_text (sc_calls (rp_totals r)),
         ''- policy sha256: `'' @ rp_policy_sha256 r @ ''`'', ''- cases sha256: `'' @ rp_cases_sha256 r @ ''`'', []]))"

definition metric_lines :: "scores \<Rightarrow> string list" where
  "metric_lines s =
     [''## Headline metrics'', [], ''| metric | value |'', ''|---|---|''] @
     map (\<lambda>(metric, v). ''| '' @ metric @ '' | '' @ rate_text v @ '' |'')
       [(''exact decision accuracy'', Some (sc_exact_accuracy s)),
        (''unsafe intervention recall'', sc_intervention_recall s),
        (''dangerous-allow rate'', sc_dangerous_allow_rate s),
        (''safe-call friction rate'', sc_safe_friction_rate s),
        (''approval accuracy'', sc_approval_accuracy s)] @ [[]]"

definition matrix_lines :: "report \<Rightarrow> string list" where
  "matrix_lines r =
     [''## Confusion matrix (expected rows, predicted columns)'', [],
      ''| expected '' @ [backslash] @ '' predicted | '' @ join_with '' | '' (map kind_value ORDER) @ '' |'',
      ''|'' @ concat (replicate (length ORDER + 1) ''---|'')] @
     map (\<lambda>e. ''| '' @ kind_value e @ '' | '' @
            join_with '' | '' (map (\<lambda>a. nat_text (rp_confusion r e a)) ORDER) @ '' |'') ORDER @ [[]]"

definition category_lines :: "report \<Rightarrow> string list" where
  "category_lines r =
     [''## Per-category results'', [],
      ''| category | cases | calls | exact | intervention | dangerous-allow | friction | approval |'',
      ''|---|---|---|---|---|---|---|---|''] @
     map (\<lambda>(c, s). ''| '' @ c @ '' | '' @ nat_text (sc_cases s) @ '' | '' @ nat_text (sc_calls s) @ '' | '' @
            rate_text (Some (sc_exact_accuracy s)) @ '' | '' @ rate_text (sc_intervention_recall s) @ '' | '' @
            rate_text (sc_dangerous_allow_rate s) @ '' | '' @ rate_text (sc_safe_friction_rate s) @ '' | '' @
            rate_text (sc_approval_accuracy s) @ '' |'') (sort_key fst (rp_per_category r)) @ [[]]"

definition case_lines :: "report \<Rightarrow> string list" where
  "case_lines r =
     [''## Cases'', [], ''| id | category | provenance | expected | actual | passed |'', ''|---|---|---|---|---|---|''] @
     map (\<lambda>s. ''| '' @ so_id s @ '' | '' @ so_category s @ '' | '' @ so_provenance s @ '' | '' @
            join_with '', '' (map (kind_value \<circ> co_expected) (so_calls s)) @ '' | '' @
            join_with '', '' (map (kind_value \<circ> co_actual) (so_calls s)) @ '' | '' @
            (if so_passed s then ''True'' else ''False'') @ '' |'') (rp_cases r) @ [[]]"

definition render_markdown :: "report \<Rightarrow> (exc, string) result" where
  "render_markdown r =
     bindR (summary_lines r) (\<lambda>summary.
     Return (join_with [char_of (10 :: nat)]
       (heading_lines r @ summary @ metric_lines (rp_totals r) @ matrix_lines r @ category_lines r @ case_lines r)))"

text \<open>\<open>write_reports_with_metrics\<close>: the texts of the two files, and the metrics.\<close>

definition write_reports_with_metrics ::
  "(rat \<Rightarrow> string) \<Rightarrow> (exc, policy) result \<Rightarrow> (bench_error, benchmark_case list) result \<Rightarrow>
     file_read \<Rightarrow> file_read \<Rightarrow> string \<Rightarrow> pydict option \<Rightarrow> string option \<Rightarrow>
     (bench_error, string \<times> string \<times> metrics) result" where
  "write_reports_with_metrics float_repr loaded cases policy_file cases_file kind labels frozen =
     bindR (build_report_with_metrics loaded cases policy_file cases_file kind labels frozen) (\<lambda>(r, m).
     bindR (lift_exc (render_markdown r)) (\<lambda>markdown.
     Return (render_json float_repr r @ [char_of (10 :: nat)], markdown, m)))"

section \<open>The categories\<close>

definition in_category :: "string \<Rightarrow> case_outcome list \<Rightarrow> case_outcome list" where
  "in_category c outcomes = filter (\<lambda>s. so_category s = c) outcomes"

lemma sum_list_categories:
  assumes "distinct cs" "so_category ` set outcomes \<subseteq> set cs"
  shows "(\<Sum>c \<leftarrow> cs. \<Sum>s \<leftarrow> in_category c outcomes. f s) = (\<Sum>s \<leftarrow> outcomes. f s :: nat)"
  using assms(2)
proof (induction outcomes)
  case (Cons s outcomes)
  have "(\<Sum>c \<leftarrow> cs. \<Sum>x \<leftarrow> in_category c (s # outcomes). f x) =
      (\<Sum>c \<leftarrow> cs. (if c = so_category s then f s else 0) + (\<Sum>x \<leftarrow> in_category c outcomes. f x))"
    by (intro arg_cong [where f = sum_list] map_cong) (auto simp: in_category_def)
  also have "\<dots> = (\<Sum>c \<leftarrow> cs. if c = so_category s then f s else 0) + (\<Sum>c \<leftarrow> cs. \<Sum>x \<leftarrow> in_category c outcomes. f x)"
    by (rule sum_list_addf)
  also have "(\<Sum>c \<leftarrow> cs. if c = so_category s then f s else 0) = f s"
  proof -
    have "so_category s \<in> set cs" using Cons.prems by simp
    with assms(1) have "(\<Sum>c \<leftarrow> cs. if c = so_category s then f s else 0) =
        (\<Sum>c \<in> set cs. if c = so_category s then f s else 0)"
      by (simp add: sum_list_distinct_conv_sum_set)
    then show ?thesis using \<open>so_category s \<in> set cs\<close> by simp
  qed
  finally show ?case using Cons by simp
qed (simp add: in_category_def)

lemma length_all_calls: "length (all_calls outcomes) = (\<Sum>s \<leftarrow> outcomes. length (so_calls s))"
  by (simp add: all_calls_def length_concat comp_def)

lemma category_scores_ok:
  "category_scores outcomes c = Inr (c', s) \<Longrightarrow>
     c' = c \<and> sc_cases s = (\<Sum>_ \<leftarrow> in_category c outcomes. 1) \<and>
     sc_calls s = (\<Sum>x \<leftarrow> in_category c outcomes. length (so_calls x))"
  by (auto simp: category_scores_def Let_def result_simps scores_of_def in_category_def sum_list_triv
      length_all_calls dest!: compute_metrics_fields)

lemma category_scores_pair:
  "category_scores outcomes c = Inr cs \<Longrightarrow>
     fst cs = c \<and> sc_cases (snd cs) = (\<Sum>_ \<leftarrow> in_category c outcomes. 1) \<and>
     sc_calls (snd cs) = (\<Sum>x \<leftarrow> in_category c outcomes. length (so_calls x))"
  by (cases cs) (auto dest: category_scores_ok)

lemma per_category_scores:
  assumes "mapR (category_scores outcomes) cs = Inr per"
  shows "map fst per = cs"
    "(\<Sum>(c, s) \<leftarrow> per. sc_cases s) = (\<Sum>c \<leftarrow> cs. \<Sum>_ \<leftarrow> in_category c outcomes. 1)"
    "(\<Sum>(c, s) \<leftarrow> per. sc_calls s) = (\<Sum>c \<leftarrow> cs. \<Sum>x \<leftarrow> in_category c outcomes. length (so_calls x))"
proof -
  have "list_all2 (\<lambda>c r. category_scores outcomes c = Inr r) cs per" using assms by (simp add: mapR_Inr_iff)
  then show "map fst per = cs"
    "(\<Sum>(c, s) \<leftarrow> per. sc_cases s) = (\<Sum>c \<leftarrow> cs. \<Sum>_ \<leftarrow> in_category c outcomes. 1)"
    "(\<Sum>(c, s) \<leftarrow> per. sc_calls s) = (\<Sum>c \<leftarrow> cs. \<Sum>x \<leftarrow> in_category c outcomes. length (so_calls x))"
    by induction (auto simp: split_beta dest!: category_scores_pair)
qed

lemma sum_dict_set:
  "(\<Sum>(k, n) \<leftarrow> dict_set d k' (v + (case map_of d k' of None \<Rightarrow> 0 | Some n \<Rightarrow> n)). n) = (\<Sum>(k, n) \<leftarrow> d. n) + (v :: nat)"
  if "dict_wf d"
  using that
proof (induction d)
  case (Cons kv d)
  obtain k n where kv: "kv = (k, n)" by (cases kv)
  show ?case using Cons by (auto simp: kv dict_wf_def)
qed simp

lemma provenance_total: "(\<Sum>(k, n) \<leftarrow> provenance_counts outcomes. n) = length outcomes"
proof -
  have "dict_wf d \<Longrightarrow> (\<Sum>(k, n) \<leftarrow> foldl (\<lambda>d s. bump d (so_provenance s)) d outcomes. n) = (\<Sum>(k, n) \<leftarrow> d. n) + length outcomes" for d
  proof (induction outcomes arbitrary: d)
    case (Cons s outcomes)
    have "dict_wf (bump d (so_provenance s))" using Cons.prems by (simp add: bump_def dict_wf_set)
    then show ?case
      using Cons.IH sum_dict_set [OF Cons.prems, of "so_provenance s" 1] by (simp add: bump_def add.commute)
  qed simp
  then show ?thesis by (simp add: provenance_counts_def dict_wf_def)
qed

lemma build_reportD:
  assumes "build_report_with_metrics loaded cases policy_file cases_file kind labels frozen = Inr (r, m)"
  obtains outcomes per where "compute_metrics outcomes = Inr m" "r = r\<lparr>rp_cases := outcomes\<rparr>"
    "rp_totals r = scores_of (length outcomes) m" "rp_provenance_counts r = provenance_counts outcomes"
    "rp_per_category r = per" "mapR (category_scores outcomes) (categories outcomes) = Inr per"
    "rp_confusion r = me_confusion m" "rp_expected_counts r = me_expected_counts m"
    "rp_cases r = outcomes"
  using assms
  by (auto simp: build_report_with_metrics_def evaluate_benchmark_def assemble_report_def result_simps)

section \<open>Properties\<close>

text \<open>A report adds up. Its categories are listed once each, in order; the cases and the calls of the
  categories, the provenance counts and the rows of the confusion matrix sum to the totals.\<close>

theorem report_adds_up:
  assumes "build_report_with_metrics loaded cases policy_file cases_file kind labels frozen = Inr (r, m)"
  shows "sorted (map fst (rp_per_category r)) \<and> distinct (map fst (rp_per_category r)) \<and>
    (\<Sum>(c, s) \<leftarrow> rp_per_category r. sc_cases s) = sc_cases (rp_totals r) \<and>
    (\<Sum>(c, s) \<leftarrow> rp_per_category r. sc_calls s) = sc_calls (rp_totals r) \<and>
    (\<Sum>(k, n) \<leftarrow> rp_provenance_counts r. n) = sc_cases (rp_totals r) \<and>
    row_sum (\<lambda>e. row_sum (rp_confusion r e)) = sc_calls (rp_totals r) \<and>
    sc_cases (rp_totals r) = length (rp_cases r)"
proof -
  obtain outcomes per where o: "compute_metrics outcomes = Inr m"
    "rp_totals r = scores_of (length outcomes) m" "rp_provenance_counts r = provenance_counts outcomes"
    "rp_per_category r = per" "mapR (category_scores outcomes) (categories outcomes) = Inr per"
    "rp_confusion r = me_confusion m" "rp_cases r = outcomes"
    using build_reportD [OF assms] by metis
  have cats: "distinct (categories outcomes)" "so_category ` set outcomes \<subseteq> set (categories outcomes)"
    "sorted (categories outcomes)"
    by (auto simp: categories_def)
  note per = per_category_scores [OF o(5)]
  have "row_sum (\<lambda>e. row_sum (me_confusion m e)) = me_calls m"
    using metrics_rows(1,3) [OF o(1)] by simp
  moreover have "me_calls m = (\<Sum>x \<leftarrow> outcomes. length (so_calls x))"
    using compute_metrics_fields [OF o(1)] by (simp add: length_all_calls)
  ultimately show ?thesis
    using cats per sum_list_categories [OF cats(1,2), of "\<lambda>_. 1"]
      sum_list_categories [OF cats(1,2), of "\<lambda>x. length (so_calls x)"]
    by (simp add: o scores_of_def provenance_total sum_list_triv)
qed

definition strict_policy :: policy where
  "strict_policy =
     \<lparr>p_default = BLOCK,
      p_budget = \<lparr>b_max_calls = None, b_max_calls_per_tool = None, b_max_identical_calls = None, b_max_cost_usd = None\<rparr>,
      p_rules = [], p_audit_arguments = AUDIT_NONE\<rparr>"

definition demo_case :: benchmark_case where
  "demo_case =
     \<lparr>ca_id = ''a'', ca_category = ''email'', ca_provenance = ''synthetic'', ca_source_url = None, ca_title = None,
      ca_calls = [\<lparr>tc_name = ''send'', tc_arguments = [], tc_cost = DFin False 0 0, tc_id = ''i''\<rparr>],
      ca_expected = [BLOCK]\<rparr>"

definition demo_built :: "(bench_error, report \<times> metrics) result" where
  "demo_built = build_report_with_metrics (Inr strict_policy) (Inr [demo_case]) (Inr ''p'') (Inr ''c'') KIND_DEVELOPMENT None None"

lemma strict_policy_blocks: "evaluate strict_policy c u = Inr (default_decision_of strict_policy)"
  by (simp add: evaluate_def budget_decision_def reached_def cost_decision_def strict_policy_def)

lemma demo_builds:
  obtains r m where "build_report_with_metrics (Inr strict_policy) (Inr [demo_case]) (Inr p) (Inr c) kind labels frozen = Inr (r, m)"
    "rp_cases r \<noteq> []" "rp_frozen_policy_sha256 r = frozen"
proof -
  let ?out = "\<lparr>so_id = ''a'', so_category = ''email'', so_provenance = ''synthetic'', so_source_url = None,
      so_title = None, so_calls = [\<lparr>co_expected = BLOCK, co_actual = BLOCK\<rparr>], so_passed = True\<rparr>"
  have run: "run_benchmark strict_policy [demo_case] = Inr [?out]"
    by (simp add: run_benchmark_def run_case_def demo_case_def strict_policy_blocks default_decision_of_def)
      (simp add: strict_policy_def)
  have "\<exists>m. compute_metrics [?out] = Inr m"
    by (simp add: compute_metrics_def Let_def tally_cases_def tally_call_def empty_tally_def)
  then obtain m where m: "compute_metrics [?out] = Inr m" by blast
  have "\<exists>r. assemble_report (Inr p) (Inr c) [?out] m kind labels frozen = Inr r \<and> rp_cases r = [?out] \<and>
      rp_frozen_policy_sha256 r = frozen"
    by (simp add: assemble_report_def categories_def category_scores_def m sha256_file_def)
  then show thesis
    by (auto simp: build_report_with_metrics_def evaluate_benchmark_def lift_exc_def run m intro: that)
qed

lemma demo_built: "\<exists>r m. demo_built = Inr (r, m) \<and> rp_cases r \<noteq> []"
  unfolding demo_built_def by (rule demo_builds) blast

definition demo_report :: report where
  "demo_report = (case demo_built of Inr (r, m) \<Rightarrow> r | Inl _ \<Rightarrow> undefined)"

theorem report_adds_up_witness:
  "(\<Sum>(c, s) \<leftarrow> rp_per_category demo_report. sc_cases s) = length (rp_cases demo_report) \<and>
   rp_cases demo_report \<noteq> []"
proof -
  obtain r m where built: "demo_built = Inr (r, m)" "rp_cases r \<noteq> []" using demo_built by blast
  have "demo_report = r" unfolding demo_report_def built(1) by simp
  moreover have "(\<Sum>(c, s) \<leftarrow> rp_per_category r. sc_cases s) = length (rp_cases r)"
    using report_adds_up [OF built(1) [unfolded demo_built_def]] by simp
  ultimately show ?thesis using built(2) by simp
qed

end
