(* ===== verification/ApprovalQueue.thy ===== *)
theory ApprovalQueue
  imports StateStore
begin

text \<open>
  \<open>approvals.py\<close>: the SQLite queue of approval requests. The table is an association list from call
  ids to rows; an operation that raises leaves it unchanged, so a database error is one before the
  commit: a decision that is committed and then cannot be read back is the decision of another process
  followed by an error. The deadline of a wait is the exact sum of the clock and a rational timeout; the
  rounding of that sum to a double gives the sum with another timeout. The waiting loop runs against a
  schedule: what the clock reads and what other processes did to the table before each poll.
  Results: a decided request never changes again, whatever operations follow; deciding is
  idempotent and a conflicting decision is refused; \<open>wait\<close> approves only a request whose row says
  approved and, once the clock passes the deadline, it returns and the request is decided.
\<close>

section \<open>The table\<close>

datatype approval_status = Pending | Approved | Denied

fun status_text :: "approval_status \<Rightarrow> string" where
  "status_text Pending = ''pending''"
| "status_text Approved = ''approved''"
| "status_text Denied = ''denied''"

record approval_record =
  ar_call_id :: string
  ar_tool :: string
  ar_reason :: string
  ar_requested_at :: string
  ar_status :: approval_status
  ar_decided_at :: "string option"

type_synonym approval_table = "(string \<times> approval_record) list"

definition approval_dict :: "approval_record \<Rightarrow> pydict" where
  "approval_dict r =
     [(''call_id'', PStr (ar_call_id r)), (''tool'', PStr (ar_tool r)),
      (''reason'', PStr (ar_reason r)), (''requested_at'', PStr (ar_requested_at r)),
      (''status'', PStr (status_text (ar_status r))),
      (''decided_at'', (case ar_decided_at r of None \<Rightarrow> PNone | Some t \<Rightarrow> PStr t))]"

section \<open>Operations\<close>

text \<open>The constructor's check of the two durations; None stands for an infinity or NaN.\<close>

definition check_durations :: "rat option \<Rightarrow> rat option \<Rightarrow> (exc, unit) result" where
  "check_durations timeout poll =
     (case (timeout, poll) of
        (Some t, Some q) \<Rightarrow>
          if t \<le> 0 \<or> q \<le> 0
          then Raise (ValueError ''approval timeout and poll interval must be positive'')
          else Return ()
      | _ \<Rightarrow> Raise (ValueError ''approval timeout and poll interval must be positive''))"

definition approval_get :: "db_outcome \<Rightarrow> string \<Rightarrow> approval_table \<Rightarrow> (exc, approval_record) result" where
  "approval_get outcome call_id db =
     (case outcome of
        DbOk \<Rightarrow> (case map_of db call_id of
                    None \<Rightarrow> Raise (ApprovalNotFound call_id)
                  | Some r \<Rightarrow> Return r)
      | _ \<Rightarrow> Raise SqliteError)"

text \<open>\<open>INSERT OR IGNORE\<close>: an existing row stays.\<close>

definition insert_request :: "string \<Rightarrow> tool_call \<Rightarrow> decision \<Rightarrow> approval_table \<Rightarrow> approval_table" where
  "insert_request now c d db =
     (if dict_has db (tc_id c) then db
      else db @ [(tc_id c,
        \<lparr>ar_call_id = tc_id c, ar_tool = tc_name c, ar_reason = d_reason d,
         ar_requested_at = now, ar_status = Pending, ar_decided_at = None\<rparr>)])"

definition approval_request ::
  "db_outcome \<Rightarrow> string \<Rightarrow> tool_call \<Rightarrow> decision \<Rightarrow> approval_table \<Rightarrow>
     (exc, approval_record) result \<times> approval_table" where
  "approval_request outcome now c d db =
     (case outcome of
        DbOk \<Rightarrow> (let db' = insert_request now c d db in (approval_get DbOk (tc_id c) db', db'))
      | _ \<Rightarrow> (Raise SqliteError, db))"

definition approval_decide ::
  "db_outcome \<Rightarrow> string \<Rightarrow> string \<Rightarrow> string \<Rightarrow> approval_table \<Rightarrow>
     (exc, approval_record) result \<times> approval_table" where
  "approval_decide outcome now call_id status db =
     (if status \<noteq> ''approved'' \<and> status \<noteq> ''denied''
      then (Raise (ValueError ''approval decision must be approved or denied''), db)
      else case outcome of
        DbOk \<Rightarrow>
          (case map_of db call_id of
             None \<Rightarrow> (Raise (ApprovalNotFound call_id), db)
           | Some r \<Rightarrow>
               if status_text (ar_status r) = status then (approval_get DbOk call_id db, db)
               else if ar_status r \<noteq> Pending
               then (Raise (ApprovalConflict (''approval was already decided as '' @
                       status_text (ar_status r))), db)
               else (let db' = dict_set db call_id
                           (r\<lparr>ar_status := (if status = ''approved'' then Approved else Denied),
                              ar_decided_at := Some now\<rparr>)
                     in (approval_get DbOk call_id db', db')))
      | _ \<Rightarrow> (Raise SqliteError, db))"

text \<open>\<open>pending\<close>: \<open>parse_time\<close> is \<open>datetime.fromisoformat\<close>, with a naive time taken as UTC; None is
  its failure. \<open>cutoff\<close> is the current time less the window, when there is one.\<close>

definition visible :: "(string \<Rightarrow> rat option) \<Rightarrow> rat option \<Rightarrow> approval_record \<Rightarrow> bool" where
  "visible parse_time cutoff r =
     (case cutoff of
        None \<Rightarrow> True
      | Some t \<Rightarrow>
          if ar_decided_at r \<noteq> None then True
          else (case parse_time (ar_requested_at r) of
                  None \<Rightarrow> True
                | Some requested_at \<Rightarrow> \<not> requested_at < t))"

definition approval_pending ::
  "(string \<Rightarrow> rat option) \<Rightarrow> rat option \<Rightarrow> approval_table \<Rightarrow> approval_record list" where
  "approval_pending parse_time cutoff db =
     filter (visible parse_time cutoff)
       (sort_key ar_requested_at (filter (\<lambda>r. ar_status r = Pending) (map snd db)))"

section \<open>Waiting\<close>

text \<open>What other processes do to the table between two steps of the loop.\<close>

datatype queue_op =
    OpRequest db_outcome string tool_call decision
  | OpDecide db_outcome string string string

fun run_op :: "queue_op \<Rightarrow> approval_table \<Rightarrow> approval_table" where
  "run_op (OpRequest outcome now c d) db = snd (approval_request outcome now c d db)"
| "run_op (OpDecide outcome now call_id status) db = snd (approval_decide outcome now call_id status db)"

definition run_ops :: "queue_op list \<Rightarrow> approval_table \<Rightarrow> approval_table" where
  "run_ops ops db = fold run_op ops db"

text \<open>One round: the reading of the monotonic clock, the operations of others before the access to
  the table and, on time-out, before the last read, and what the database does.\<close>

record round_env =
  rn_clock :: rat
  rn_others :: "queue_op list"
  rn_others_late :: "queue_op list"
  rn_db :: db_outcome
  rn_now :: string

definition finish_timeout ::
  "string \<Rightarrow> round_env \<Rightarrow> approval_table \<Rightarrow> (exc, bool) result \<times> approval_table" where
  "finish_timeout call_id rn db =
     (case approval_decide (rn_db rn) (rn_now rn) call_id ''denied'' db of
        (r, db1) \<Rightarrow>
          (let db2 = run_ops (rn_others_late rn) db1;
               final = bindR (approval_get (rn_db rn) call_id db2)
                 (\<lambda>rec. Return (ar_status rec = Approved))
           in case r of
                Inl (ApprovalConflict m) \<Rightarrow> (final, db2)
              | Inl e \<Rightarrow> (Raise e, db1)
              | Inr rec \<Rightarrow> (final, db2)))"

text \<open>None: the schedule ends before the loop does.\<close>

fun wait_loop ::
  "rat \<Rightarrow> string \<Rightarrow> round_env list \<Rightarrow> approval_table \<Rightarrow> ((exc, bool) result \<times> approval_table) option" where
  "wait_loop deadline call_id [] db = None"
| "wait_loop deadline call_id (rn # rns) db =
     (let db1 = run_ops (rn_others rn) db
      in if rn_clock rn < deadline
         then (case approval_get (rn_db rn) call_id db1 of
                 Inl e \<Rightarrow> Some (Raise e, db1)
               | Inr rec \<Rightarrow>
                   if ar_status rec \<noteq> Pending then Some (Return (ar_status rec = Approved), db1)
                   else wait_loop deadline call_id rns db1)
         else Some (finish_timeout call_id rn db1))"

definition approval_wait ::
  "db_outcome \<Rightarrow> string \<Rightarrow> rat \<Rightarrow> rat \<Rightarrow> tool_call \<Rightarrow> decision \<Rightarrow> round_env list \<Rightarrow> approval_table \<Rightarrow>
     ((exc, bool) result \<times> approval_table) option" where
  "approval_wait outcome now clock timeout c d rns db =
     (case approval_request outcome now c d db of
        (Inl e, db1) \<Rightarrow> Some (Raise e, db1)
      | (Inr _, db1) \<Rightarrow> wait_loop (clock + timeout) (tc_id c) rns db1)"

declare approval_dict_def [evals] check_durations_def [evals] approval_get_def [evals]
  insert_request_def [evals] approval_request_def [evals] approval_decide_def [evals]
  visible_def [evals] approval_pending_def [evals] run_ops_def [evals] finish_timeout_def [evals]
  approval_wait_def [evals]

section \<open>The life of a request\<close>

definition status_of :: "approval_table \<Rightarrow> string \<Rightarrow> approval_status option" where
  "status_of db call_id = map_option ar_status (map_of db call_id)"

text \<open>The abstract machine: a request is absent, then pending, then decided for good.\<close>

inductive status_step :: "approval_status option \<Rightarrow> approval_status option \<Rightarrow> bool" where
  stay: "status_step s s"
| submit: "status_step None (Some Pending)"
| approve: "status_step (Some Pending) (Some Approved)"
| deny: "status_step (Some Pending) (Some Denied)"

inductive_cases status_step_pendingE: "status_step (Some Pending) s"
inductive_simps status_step_approved: "status_step (Some Approved) s"
inductive_simps status_step_denied: "status_step (Some Denied) s"

lemma insert_request_lookup:
  "map_of (insert_request now c d db) j =
     (if map_of db j = None \<and> j = tc_id c
      then Some \<lparr>ar_call_id = tc_id c, ar_tool = tc_name c, ar_reason = d_reason d,
         ar_requested_at = now, ar_status = Pending, ar_decided_at = None\<rparr>
      else map_of db j)"
  by (auto simp: insert_request_def dict_has_def map_add_def split: option.split)

lemma run_op_step: "status_step (status_of db j) (status_of (run_op q db) j)"
proof (cases q)
  case (OpRequest outcome now c d)
  then show ?thesis
    by (cases outcome)
       (auto simp: approval_request_def Let_def status_of_def insert_request_lookup
         intro: status_step.intros)
next
  case (OpDecide outcome now i status)
  show ?thesis
  proof (cases "map_of db i")
    case None
    then show ?thesis
      using OpDecide by (cases outcome) (auto simp: approval_decide_def intro: status_step.intros)
  next
    case (Some r)
    then show ?thesis
      using OpDecide
      by (cases outcome; cases "ar_status r")
         (auto simp: approval_decide_def Let_def status_of_def intro: status_step.intros)
  qed
qed

text \<open>A decided row is never written again.\<close>

lemma run_op_decided:
  assumes "map_of db j = Some r" "ar_status r \<noteq> Pending"
  shows "map_of (run_op q db) j = Some r"
  using assms
  by (cases q; cases "map_of db (case q of OpDecide a b i t \<Rightarrow> i | _ \<Rightarrow> j)")
     (auto simp: approval_request_def approval_decide_def insert_request_lookup Let_def
       split: db_outcome.split)

lemma run_ops_decided:
  "map_of db j = Some r \<Longrightarrow> ar_status r \<noteq> Pending \<Longrightarrow> map_of (run_ops ops db) j = Some r"
  unfolding run_ops_def
  by (induction ops arbitrary: db) (auto simp: run_op_decided)

lemma run_ops_steps: "status_step\<^sup>*\<^sup>* (status_of db j) (status_of (run_ops ops db) j)"
  unfolding run_ops_def
proof (induction ops arbitrary: db)
  case (Cons q ops)
  have "status_step\<^sup>*\<^sup>* (status_of (run_op q db) j) (status_of (fold run_op ops (run_op q db)) j)"
    by (rule Cons.IH)
  with run_op_step [of db j q] show ?case by (simp add: converse_rtranclp_into_rtranclp)
qed simp

lemma decided_final: "status_step\<^sup>*\<^sup>* s t \<Longrightarrow> s = Some Approved \<or> s = Some Denied \<Longrightarrow> t = s"
  by (induction rule: rtranclp_induct) (auto simp: status_step_approved status_step_denied)

lemma run_ops_present: "map_of db j \<noteq> None \<Longrightarrow> map_of (run_ops ops db) j \<noteq> None"
proof -
  have "status_step\<^sup>*\<^sup>* s t \<Longrightarrow> s \<noteq> None \<Longrightarrow> t \<noteq> None" for s t
    by (induction rule: rtranclp_induct) (auto elim: status_step.cases)
  from this [OF run_ops_steps] show "map_of db j \<noteq> None \<Longrightarrow> map_of (run_ops ops db) j \<noteq> None"
    by (auto simp: status_of_def)
qed

section \<open>Deciding\<close>

definition decided_as :: "string \<Rightarrow> approval_status" where
  "decided_as status = (if status = ''approved'' then Approved else Denied)"

lemma status_text_inj [simp]: "status_text a = status_text b \<longleftrightarrow> a = b"
  by (cases a; cases b) simp_all

lemma decided_text: "status = ''approved'' \<or> status = ''denied'' \<Longrightarrow> status_text (decided_as status) = status"
  by (auto simp: decided_as_def)

lemma approval_decide_ok:
  assumes "approval_decide o' now j status db = (Inr r, db')"
  shows "map_of db' j = Some r" "ar_status r = decided_as status"
  using assms
  by (auto simp: approval_decide_def approval_get_def Let_def decided_as_def
      split: db_outcome.splits option.splits if_splits elim!: status_text.elims)

lemma approval_decide_conflict:
  assumes "approval_decide o' now j status db = (Inl (ApprovalConflict m), db')"
  shows "db' = db" "\<exists>r. map_of db j = Some r \<and> ar_status r \<noteq> Pending \<and> status_text (ar_status r) \<noteq> status"
  using assms
  by (auto simp: approval_decide_def approval_get_def Let_def
      split: db_outcome.splits option.splits if_splits)

lemma approval_decide_error: "approval_decide o' now j status db = (Inl e, db') \<Longrightarrow> db' = db"
  by (auto simp: approval_decide_def approval_get_def Let_def
      split: db_outcome.splits option.splits if_splits)

lemma approval_decide_pending:
  assumes "map_of db j = Some r" "ar_status r = Pending" "status = ''approved'' \<or> status = ''denied''"
  shows "\<exists>r' db'. approval_decide DbOk now j status db = (Inr r', db') \<and>
    map_of db' = (map_of db)(j \<mapsto> r') \<and> ar_status r' = decided_as status \<and>
    ar_decided_at r' = Some now \<and> ar_requested_at r' = ar_requested_at r"
  using assms by (auto simp: approval_decide_def approval_get_def Let_def decided_as_def)

lemma approval_decide_again:
  assumes "map_of db j = Some r" "ar_status r \<noteq> Pending" "status = ''approved'' \<or> status = ''denied''"
  shows "approval_decide DbOk now j status db =
    (if status_text (ar_status r) = status then (Inr r, db)
     else (Inl (ApprovalConflict (''approval was already decided as '' @ status_text (ar_status r))), db))"
  using assms by (auto simp: approval_decide_def approval_get_def)

section \<open>Waiting\<close>

lemma finish_timeout_decided:
  assumes "finish_timeout j rn db = (Inr b, db')"
  shows "\<exists>r. map_of db' j = Some r \<and> ar_status r \<noteq> Pending \<and> b = (ar_status r = Approved)"
proof -
  obtain r db1 where dec: "approval_decide (rn_db rn) (rn_now rn) j ''denied'' db = (r, db1)" by fastforce
  have kept: "\<exists>q. map_of (run_ops (rn_others_late rn) db1) j = Some q \<and> ar_status q \<noteq> Pending"
    if "map_of db1 j = Some p" "ar_status p \<noteq> Pending" for p
    using run_ops_decided [OF that] that by blast
  show ?thesis
  proof (cases r)
    case (Inr rec)
    from approval_decide_ok [OF dec [unfolded Inr]] kept [of rec] assms dec Inr show ?thesis
      by (auto simp: finish_timeout_def Let_def decided_as_def result_simps approval_get_def
          split: db_outcome.splits option.splits)
  next
    case (Inl e)
    show ?thesis
    proof (cases "\<exists>m. e = ApprovalConflict m")
      case True
      then obtain m where e: "e = ApprovalConflict m" by blast
      from approval_decide_conflict [OF dec [unfolded Inl e]] kept assms dec Inl e show ?thesis
        by (fastforce simp: finish_timeout_def Let_def result_simps approval_get_def
            split: db_outcome.splits option.splits)
    next
      case False
      with assms dec Inl show ?thesis
        by (cases e) (auto simp: finish_timeout_def Let_def)
    qed
  qed
qed

lemma wait_loop_decided:
  "wait_loop dl j rns db = Some (Inr b, db') \<Longrightarrow>
     \<exists>r. map_of db' j = Some r \<and> ar_status r \<noteq> Pending \<and> b = (ar_status r = Approved)"
proof (induction dl j rns db rule: wait_loop.induct)
  case (2 dl j rn rns db)
  then show ?case
    by (auto simp: Let_def approval_get_def dest: finish_timeout_decided
        split: if_splits db_outcome.splits option.splits)
qed simp

lemma approval_wait_decided:
  "approval_wait o' now clock timeout c d rns db = Some (Inr b, db') \<Longrightarrow>
     \<exists>r. map_of db' (tc_id c) = Some r \<and> ar_status r \<noteq> Pending \<and> b = (ar_status r = Approved)"
  by (auto simp: approval_wait_def split: prod.splits sum.splits dest: wait_loop_decided)

text \<open>The loop ends as soon as the clock passes the deadline.\<close>

lemma wait_loop_ends:
  "rn \<in> set rns \<Longrightarrow> dl \<le> rn_clock rn \<Longrightarrow> wait_loop dl j rns db \<noteq> None"
  by (induction dl j rns db rule: wait_loop.induct)
     (auto simp: Let_def split: sum.split)

definition rounds_ok :: "round_env list \<Rightarrow> bool" where
  "rounds_ok rns = list_all (\<lambda>rn. rn_db rn = DbOk) rns"

lemma finish_timeout_returns:
  assumes "rn_db rn = DbOk" "map_of db j \<noteq> None"
  shows "returns (fst (finish_timeout j rn db))"
proof -
  obtain r where r: "map_of db j = Some r" using assms(2) by blast
  obtain q db1 where dec: "approval_decide DbOk (rn_now rn) j ''denied'' db = (q, db1)" by fastforce
  have "map_of db1 j \<noteq> None" and
    q: "(\<exists>x. q = Inr x) \<or> (\<exists>m. q = Inl (ApprovalConflict m))"
    using dec r by (auto simp: approval_decide_def approval_get_def Let_def split: if_splits)
  then have "map_of (run_ops (rn_others_late rn) db1) j \<noteq> None"
    using run_ops_present by blast
  then show ?thesis
    using dec q assms(1) by (auto simp: finish_timeout_def Let_def approval_get_def)
qed

lemma wait_loop_returns:
  "rounds_ok rns \<Longrightarrow> map_of db j \<noteq> None \<Longrightarrow> wait_loop dl j rns db = Some (r, db') \<Longrightarrow> returns r"
proof (induction dl j rns db rule: wait_loop.induct)
  case (2 dl j rn rns db)
  let ?db = "run_ops (rn_others rn) db"
  have there: "map_of ?db j \<noteq> None" using run_ops_present "2.prems"(2) by blast
  have ok: "rn_db rn = DbOk" "rounds_ok rns" using "2.prems"(1) by (simp_all add: rounds_ok_def)
  obtain rec where rec: "map_of ?db j = Some rec" using there by blast
  show ?case
    using "2.IH" [of ?db rec] "2.prems"(3) there ok rec finish_timeout_returns [OF ok(1) there]
    by (auto simp: Let_def approval_get_def split: if_splits)
qed simp

lemma approval_wait_returns:
  assumes "rounds_ok rns" "approval_wait DbOk now clock timeout c d rns db = Some (r, db')"
  shows "returns r"
proof -
  let ?db = "insert_request now c d db"
  obtain rec where rec: "map_of ?db (tc_id c) = Some rec"
    by (cases "map_of db (tc_id c)") (auto simp: insert_request_lookup)
  with assms have "wait_loop (clock + timeout) (tc_id c) rns ?db = Some (r, db')"
    by (simp add: approval_wait_def approval_request_def Let_def approval_get_def)
  with wait_loop_returns [OF assms(1)] rec show ?thesis by blast
qed

section \<open>Listing\<close>

lemma approval_pending_all:
  "set (approval_pending parse_time None db) = {r \<in> snd ` set db. ar_status r = Pending}"
  "sorted (map ar_requested_at (approval_pending parse_time None db))"
  by (auto simp: approval_pending_def visible_def)

lemma approval_pending_hides:
  "r \<in> set (approval_pending parse_time None db) \<Longrightarrow>
   r \<notin> set (approval_pending parse_time (Some t) db) \<Longrightarrow>
     \<exists>q. parse_time (ar_requested_at r) = Some q \<and> q < t"
  by (auto simp: approval_pending_def visible_def split: option.splits if_splits)

section \<open>Properties\<close>

definition demo_call :: tool_call where
  "demo_call = \<lparr>tc_name = ''deploy'', tc_arguments = [], tc_cost = DFin False 0 0, tc_id = ''i''\<rparr>"

definition demo_decision :: decision where
  "demo_decision = \<lparr>d_kind = REQUIRE_APPROVAL, d_reason = ''r'', d_code = ''rule_match'', d_rule_index = Some 0\<rparr>"

definition demo_row :: "approval_status \<Rightarrow> approval_record" where
  "demo_row st = \<lparr>ar_call_id = ''i'', ar_tool = ''deploy'', ar_reason = ''r'', ar_requested_at = ''0'',
     ar_status = st, ar_decided_at = (if st = Pending then None else Some ''1'')\<rparr>"

text \<open>C27: a decision on an approval is final. A row that is not pending is never written again,
  whatever requests and decisions any processes make; and every row goes through the states
  absent, pending, and approved or denied in this order only.\<close>

theorem approval_decision_final:
  "(\<forall>j r. map_of db j = Some r \<and> ar_status r \<noteq> Pending \<longrightarrow> map_of (run_ops ops db) j = Some r) \<and>
   (\<forall>k. status_step\<^sup>*\<^sup>* (status_of db k) (status_of (run_ops ops db) k))"
  using run_ops_decided run_ops_steps by blast

theorem approval_decision_final_witness:
  "map_of (run_ops [OpDecide DbOk ''2'' ''i'' ''approved'', OpRequest DbOk ''3'' demo_call demo_decision]
     [(''i'', demo_row Denied)]) ''i'' = Some (demo_row Denied)"
proof -
  have "map_of [(''i'', demo_row Denied)] ''i'' = Some (demo_row Denied) \<and> ar_status (demo_row Denied) \<noteq> Pending"
    by (simp add: demo_row_def)
  then show ?thesis using approval_decision_final by blast
qed

text \<open>\<open>wait\<close> is sound. When it returns a truth value, the request has been decided, and it returns
  true exactly when the row says approved: also on a time-out that races with a decision, and
  whatever other processes did meanwhile.\<close>

theorem wait_sound:
  assumes "approval_wait outcome now clock timeout c d rns db = Some (Inr b, db')"
  shows "\<exists>r. map_of db' (tc_id c) = Some r \<and> ar_status r \<noteq> Pending \<and> b = (ar_status r = Approved)"
  using assms by (rule approval_wait_decided)

definition demo_round :: "rat \<Rightarrow> queue_op list \<Rightarrow> round_env" where
  "demo_round t ops = \<lparr>rn_clock = t, rn_others = ops, rn_others_late = [], rn_db = DbOk, rn_now = ''5''\<rparr>"

theorem wait_sound_witness:
  "\<exists>db' r. approval_wait DbOk ''0'' 0 300 demo_call demo_decision
     [demo_round 1 [], demo_round 2 [OpDecide DbOk ''1'' ''i'' ''approved'']] [] = Some (Inr True, db') \<and>
     map_of db' ''i'' = Some r \<and> ar_status r = Approved"
proof -
  have "\<exists>db'. approval_wait DbOk ''0'' 0 300 demo_call demo_decision
     [demo_round 1 [], demo_round 2 [OpDecide DbOk ''1'' ''i'' ''approved'']] [] = Some (Inr True, db')"
    by (simp add: evals demo_round_def demo_call_def demo_decision_def)
  then obtain db' where w: "approval_wait DbOk ''0'' 0 300 demo_call demo_decision
     [demo_round 1 [], demo_round 2 [OpDecide DbOk ''1'' ''i'' ''approved'']] [] = Some (Inr True, db')"
    by blast
  from wait_sound [OF w] w show ?thesis by (auto simp: demo_call_def)
qed

text \<open>C28: \<open>wait\<close> ends. Once the monotonic clock reads the deadline in some round, the loop has
  returned, with a truth value when the database works.\<close>

theorem wait_ends:
  assumes "rn \<in> set rns" "clock + timeout \<le> rn_clock rn" "rounds_ok rns"
  shows "\<exists>b db'. approval_wait DbOk now clock timeout c d rns db = Some (Inr b, db')"
proof -
  have "approval_wait DbOk now clock timeout c d rns db \<noteq> None"
    using wait_loop_ends [OF assms(1,2)]
    by (auto simp: approval_wait_def split: prod.split sum.split)
  then obtain r db' where w: "approval_wait DbOk now clock timeout c d rns db = Some (r, db')"
    by (cases "approval_wait DbOk now clock timeout c d rns db") auto
  with approval_wait_returns [OF assms(3) w] show ?thesis by (auto simp: returns_iff)
qed

theorem wait_ends_witness:
  "\<exists>b db'. approval_wait DbOk ''0'' 0 300 demo_call demo_decision
     [demo_round 1 [], demo_round 300 []] [] = Some (Inr b, db')"
  by (rule wait_ends [of "demo_round 300 []"]) (simp_all add: demo_round_def rounds_ok_def)

text \<open>Deciding. On a pending row \<open>decide\<close> sets the status and the time and nothing else; on a
  decided row the same decision returns the row unchanged and the other one is a conflict that
  changes nothing.\<close>

theorem decide_behaviour:
  assumes "map_of db j = Some r" "status = ''approved'' \<or> status = ''denied''"
  shows "(ar_status r = Pending \<longrightarrow>
      (\<exists>r' db'. approval_decide DbOk now j status db = (Inr r', db') \<and>
         map_of db' = (map_of db)(j \<mapsto> r') \<and> ar_status r' = decided_as status \<and>
         ar_decided_at r' = Some now \<and> ar_requested_at r' = ar_requested_at r)) \<and>
    (ar_status r \<noteq> Pending \<longrightarrow> approval_decide DbOk now j status db =
      (if status_text (ar_status r) = status then (Inr r, db)
       else (Inl (ApprovalConflict (''approval was already decided as '' @ status_text (ar_status r))), db)))"
  using approval_decide_pending [OF assms(1) _ assms(2), of now]
    approval_decide_again [OF assms(1) _ assms(2), of now] by blast

theorem decide_behaviour_witness:
  "approval_decide DbOk ''2'' ''i'' ''denied'' [(''i'', demo_row Approved)] =
     (Inl (ApprovalConflict ''approval was already decided as approved''), [(''i'', demo_row Approved)])"
  using decide_behaviour [of "[(''i'', demo_row Approved)]" "''i''" "demo_row Approved" "''denied''" "''2''"]
  by (simp add: demo_row_def)

text \<open>Listing hides nothing silently. Without a window the list is all pending rows in the order
  of their request times; a row that a window hides has a request time that parses and lies before
  the window.\<close>

theorem pending_listing:
  "set (approval_pending parse_time None db) = {r \<in> snd ` set db. ar_status r = Pending} \<and>
   sorted (map ar_requested_at (approval_pending parse_time None db)) \<and>
   (r \<in> set (approval_pending parse_time None db) \<and> r \<notin> set (approval_pending parse_time (Some t) db) \<longrightarrow>
      (\<exists>q. parse_time (ar_requested_at r) = Some q \<and> q < t))"
  using approval_pending_all [of parse_time db] approval_pending_hides [of r parse_time db t] by blast

theorem pending_listing_witness:
  "\<exists>q. (\<lambda>s. if s = ''0'' then Some (0 :: rat) else None) (ar_requested_at (demo_row Pending)) = Some q \<and> q < 5"
proof -
  let ?p = "\<lambda>s. if s = ''0'' then Some (0 :: rat) else None"
  have "demo_row Pending \<in> set (approval_pending ?p None [(''i'', demo_row Pending)])"
    "demo_row Pending \<notin> set (approval_pending ?p (Some 5) [(''i'', demo_row Pending)])"
    by (simp_all add: evals demo_row_def)
  with pending_listing [of ?p "[(''i'', demo_row Pending)]" "demo_row Pending" 5] show ?thesis by blast
qed

end
