(* ===== verification/Dashboard.thy ===== *)
theory Dashboard
  imports ApprovalQueue AuditLog UrlParse JsonParse
begin

text \<open>
  \<open>dashboard.py\<close>: the loopback web dashboard. A request is its headers, its target and what reading its
  body gives; the handlers return a response and the approval table they leave, or the exception that
  ends the request without a response. The page's text, the random nonce, \<open>unquote\<close>, \<open>int\<close> on the
  length header and the JSON reader are arguments. Results: a request changes the approval table only
  past every guard (loopback host, origin, token, content type, size, a decision), and then by one
  \<open>decide\<close>; a host that is a domain name is refused with any port; the summary counts the lines the
  firewall wrote.
\<close>

section \<open>Hosts and origins\<close>

definition is_loopback :: "string \<Rightarrow> bool" where
  "is_loopback host =
     (if host = ''localhost'' then True
      else (case ip_address_of host of Some a \<Rightarrow> is_loopback_ip a | None \<Rightarrow> False))"

definition count_char :: "char \<Rightarrow> string \<Rightarrow> nat" where
  "count_char c s = length (filter (\<lambda>x. x = c) s)"

definition host_name :: "string \<Rightarrow> string option" where
  "host_name host =
     (if starts_with ''['' host then
        (case partition_at (CHR '']'') (drop 1 host) of
           (a, found, _) \<Rightarrow> if found then Some a else None)
      else if count_char (CHR '':'') host = 1 then Some (fst (rpartition_at (CHR '':'') host))
      else Some host)"

definition host_allowed :: "string option \<Rightarrow> bool" where
  "host_allowed header =
     (case header of
        None \<Rightarrow> False
      | Some h \<Rightarrow>
          if h = [] then False
          else (case host_name (str_strip h) of None \<Rightarrow> False | Some a \<Rightarrow> is_loopback a))"

text \<open>\<open>urlparse\<close> raises \<open>ValueError\<close> on unbalanced brackets, which no handler catches.\<close>

definition origin_allowed :: "string option \<Rightarrow> (exc, bool) result" where
  "origin_allowed header =
     (case header of
        None \<Rightarrow> Return True
      | Some h \<Rightarrow>
          (case urlsplit (str_strip h) of
             None \<Rightarrow> Raise (ValueError ''Invalid IPv6 URL'')
           | Some u \<Rightarrow>
               if up_scheme u \<noteq> ''http'' then Return False
               else (case url_hostname u of
                       None \<Rightarrow> Return False
                     | Some a \<Rightarrow> Return (is_loopback a))))"

text \<open>\<open>urlparse(target).path\<close>: the path without the parameters of its last segment.\<close>

definition parameter_schemes :: "string list" where
  "parameter_schemes =
     [[], ''ftp'', ''hdl'', ''prospero'', ''http'', ''https'', ''shttp'', ''rtsp'', ''rtsps'', ''sip'',
      ''sips'', ''mms'', ''sftp'', ''tel'']"

definition split_params :: "string \<Rightarrow> string" where
  "split_params path =
     (case rpartition_at (CHR ''/'') path of
        (before, found, last_segment) \<Rightarrow>
          (if found then before @ ''/'' else []) @ before_mark (CHR '';'') last_segment)"

definition target_path :: "string \<Rightarrow> (exc, string) result" where
  "target_path target =
     (case urlsplit target of
        None \<Rightarrow> Raise (ValueError ''Invalid IPv6 URL'')
      | Some u \<Rightarrow>
          Return (if up_scheme u \<in> set parameter_schemes then split_params (up_path u) else up_path u))"

section \<open>Responses\<close>

record response =
  rs_status :: nat
  rs_headers :: "(string \<times> string) list"
  rs_body :: string

definition quoted :: "string \<Rightarrow> string" where
  "quoted s = [squote] @ s @ [squote]"

definition send :: "nat \<Rightarrow> string \<Rightarrow> string \<Rightarrow> string option \<Rightarrow> response" where
  "send status body content_type nonce =
     \<lparr>rs_status = status,
      rs_headers =
        [(''Content-Type'', content_type), (''Content-Length'', nat_text (length body)),
         (''Cache-Control'', ''no-store''), (''X-Content-Type-Options'', ''nosniff''),
         (''X-Frame-Options'', ''DENY''),
         (''Content-Security-Policy'', ''default-src '' @ quoted ''none'' @ ''; connect-src '' @ quoted ''self'' @
            (case nonce of
               None \<Rightarrow> []
             | Some n \<Rightarrow> ''; style-src '' @ quoted (''nonce-'' @ n) @ ''; script-src '' @ quoted (''nonce-'' @ n)))],
      rs_body = body\<rparr>"

definition dashboard_style :: json_style where
  "dashboard_style =
     \<lparr>js_ascii = True, js_sort = False, js_item_sep = '','', js_key_sep = '':'', js_default_str = True\<rparr>"

definition json_response :: "nat \<Rightarrow> pyval \<Rightarrow> response" where
  "json_response status v = send status (utf8 (json_text dashboard_style v)) ''application/json'' None"

definition error_reply :: "nat \<Rightarrow> string \<Rightarrow> response" where
  "error_reply status message = json_response status (PDict [(''error'', PStr message)])"

section \<open>Events and summary\<close>

text \<open>Text mode: every line ending becomes a newline; iteration gives the lines with theirs.\<close>

fun universal_newlines :: "string \<Rightarrow> string" where
  "universal_newlines [] = []"
| "universal_newlines (c # s) =
     (if code c = 13 then
        newline_char # (case s of [] \<Rightarrow> [] | d # r \<Rightarrow>
          if d = newline_char then universal_newlines r else universal_newlines s)
      else c # universal_newlines s)"

fun text_lines :: "string \<Rightarrow> string list" where
  "text_lines [] = []"
| "text_lines (c # s) =
     (if c = newline_char then [c] # text_lines s
      else case text_lines s of [] \<Rightarrow> [[c]] | l # ls \<Rightarrow> (c # l) # ls)"

text \<open>What opening and reading the log gives: its text, that there is none, or another exception.\<close>

datatype log_file = LogText string | LogMissing | LogFails exc

definition event_of :: "(string \<Rightarrow> pyval option) \<Rightarrow> string \<Rightarrow> pydict option" where
  "event_of loads l = (case loads l of Some (PDict d) \<Rightarrow> Some d | _ \<Rightarrow> None)"

definition take_last :: "nat option \<Rightarrow> 'a list \<Rightarrow> 'a list" where
  "take_last limit xs = (case limit of None \<Rightarrow> xs | Some n \<Rightarrow> drop (length xs - n) xs)"

definition read_events ::
  "(string \<Rightarrow> pyval option) \<Rightarrow> nat option \<Rightarrow> log_file \<Rightarrow> (exc, pydict list) result" where
  "read_events loads limit logfile =
     (case logfile of
        LogMissing \<Rightarrow> Return []
      | LogFails e \<Rightarrow> Raise e
      | LogText t \<Rightarrow> Return (take_last limit (List.map_filter (event_of loads) (text_lines (universal_newlines t)))))"

text \<open>\<open>Counter(event.get("event") for ...)\<close>: its keys must have a hash.\<close>

definition event_name :: "pydict \<Rightarrow> pyval" where
  "event_name d = dict_get d ''event'' PNone"

definition hashable :: "pyval \<Rightarrow> bool" where
  "hashable v = (case v of PList _ \<Rightarrow> False | PDict _ \<Rightarrow> False | _ \<Rightarrow> True)"

definition event_count :: "pydict list \<Rightarrow> string \<Rightarrow> nat" where
  "event_count events k = length (filter (\<lambda>d. event_name d = PStr k) events)"

definition summary ::
  "policy \<Rightarrow> (exc, pydict list) result \<Rightarrow> (exc, usage) result \<Rightarrow>
     (exc, approval_record list) result \<Rightarrow> (exc, approval_record list) result \<Rightarrow> (exc, pydict) result" where
  "summary p events usage visible_pending total_pending =
     bindR events (\<lambda>evs.
     bindR (requireR (list_all (\<lambda>d. hashable (event_name d)) evs) (TypeError ''unhashable type'')) (\<lambda>_.
     bindR usage (\<lambda>u.
     bindR visible_pending (\<lambda>vis.
     bindR total_pending (\<lambda>total.
     let n = (\<lambda>k. event_count evs k); b = p_budget p
     in Return
       [(''allowed'', PInt (int (n ''allowed'' + n ''approval_granted''))),
        (''blocked'', PInt (int (n ''blocked'' + n ''approval_denied''))),
        (''failed'', PInt (int (n ''failed''))),
        (''near_misses'', PInt (int (n ''approval_requested''))),
        (''pending_approvals'', PInt (int (length vis))),
        (''hidden_pending'', PInt (max (int (length total) - int (length vis)) 0)),
        (''tool_calls'', PInt (u_tool_calls u)),
        (''max_calls'', (case b_max_calls b of None \<Rightarrow> PNone | Some m \<Rightarrow> PInt m)),
        (''estimated_cost_usd'', PStr (dec_text (u_cost u))),
        (''max_cost_usd'', (case b_max_cost_usd b of None \<Rightarrow> PNone | Some m \<Rightarrow> PStr (dec_text m)))])))))"

section \<open>Handlers\<close>

record 'b dashboard_env =
  de_policy :: policy
  de_token :: string
  de_page :: string
  de_nonce :: string
  de_loads :: "string \<Rightarrow> pyval option"
  de_log :: log_file
  de_usage :: "(exc, usage) result"
  de_parse_time :: "string \<Rightarrow> rat option"
  de_cutoff :: rat
  de_db :: db_outcome
  de_now :: string
  de_unquote :: "string \<Rightarrow> string"
  de_int :: "string \<Rightarrow> int option"
  de_body :: "string \<Rightarrow> (exc, pyval) result"

record request =
  rq_host :: "string option"
  rq_origin :: "string option"
  rq_token :: "string option"
  rq_content_type :: "string option"
  rq_length :: "string option"
  rq_target :: string
  rq_read :: "nat \<Rightarrow> string"

definition is_prefix_at :: "string \<Rightarrow> string \<Rightarrow> bool" where
  "is_prefix_at k s = (k \<noteq> [] \<and> starts_with k s)"

text \<open>\<open>str.replace\<close> for a non-empty pattern.\<close>

function str_replace :: "string \<Rightarrow> string \<Rightarrow> string \<Rightarrow> string" where
  "str_replace k v s =
     (if s = [] then []
      else if is_prefix_at k s then v @ str_replace k v (drop (length k) s)
      else hd s # str_replace k v (tl s))"
  by auto
termination
  by (relation "measure (\<lambda>(k, v, s). length s)") (auto simp: is_prefix_at_def)

declare str_replace.simps [simp del]

definition pending_read :: "'b dashboard_env \<Rightarrow> rat option \<Rightarrow> approval_table \<Rightarrow> (exc, approval_record list) result" where
  "pending_read de cutoff db =
     (case de_db de of DbOk \<Rightarrow> Return (approval_pending (de_parse_time de) cutoff db) | _ \<Rightarrow> Raise SqliteError)"

definition do_GET :: "'b dashboard_env \<Rightarrow> request \<Rightarrow> approval_table \<Rightarrow> (exc, response) result" where
  "do_GET de rq db =
     (if \<not> host_allowed (rq_host rq) then Return (error_reply 421 ''invalid host header'')
      else bindR (target_path (rq_target rq)) (\<lambda>path.
        if path = ''/'' then
          Return (send 200
            (utf8 (str_replace ''__NONCE__'' (de_nonce de) (str_replace ''__TOKEN__'' (de_token de) (de_page de))))
            ''text/html; charset=utf-8'' (Some (de_nonce de)))
        else if path = ''/api/summary'' then
          bindR (summary (de_policy de) (read_events (de_loads de) None (de_log de)) (de_usage de)
              (pending_read de (Some (de_cutoff de)) db) (pending_read de None db))
            (\<lambda>d. Return (json_response 200 (PDict d)))
        else if path = ''/api/events'' then
          bindR (read_events (de_loads de) (Some 200) (de_log de))
            (\<lambda>evs. Return (json_response 200 (PDict [(''events'', PList (map PDict evs))])))
        else if path = ''/api/approvals'' then
          bindR (pending_read de (Some (de_cutoff de)) db)
            (\<lambda>rs. Return (json_response 200 (PDict [(''approvals'', PList (map (PDict \<circ> approval_dict) rs))])))
        else Return (error_reply 404 ''not found'')))"

text \<open>\<open>secrets.compare_digest\<close> on texts: only ASCII texts can be compared.\<close>

definition compare_digest :: "string \<Rightarrow> string \<Rightarrow> (exc, bool) result" where
  "compare_digest a b =
     (if list_all is_ascii a \<and> list_all is_ascii b then Return (a = b)
      else Raise (TypeError ''comparing strings with non-ASCII characters is not supported''))"

definition header_or :: "string \<Rightarrow> string option \<Rightarrow> string" where
  "header_or dflt header = (case header of None \<Rightarrow> dflt | Some h \<Rightarrow> h)"

definition approvals_prefix :: string where "approvals_prefix = ''/api/approvals/''"

text \<open>The guards of \<open>do_POST\<close>, in the order of the code: the response that refuses, or the id and the
  decision of an accepted request.\<close>

definition post_length :: "'b dashboard_env \<Rightarrow> request \<Rightarrow> int" where
  "post_length de rq = (case de_int de (header_or ''0'' (rq_length rq)) of None \<Rightarrow> 0 | Some n \<Rightarrow> n)"

definition refuse_unless :: "bool \<Rightarrow> response \<Rightarrow> (exc, response + 'a) result \<Rightarrow> (exc, response + 'a) result" where
  "refuse_unless ok refusal rest = (if ok then rest else Return (Inl refusal))"

definition post_guards :: "'b dashboard_env \<Rightarrow> request \<Rightarrow> (exc, response + string) result" where
  "post_guards de rq =
     refuse_unless (host_allowed (rq_host rq)) (error_reply 421 ''invalid host header'')
      (bindR (origin_allowed (rq_origin rq)) (\<lambda>origin_ok.
       refuse_unless origin_ok (error_reply 403 ''invalid request origin'')
        (bindR (target_path (rq_target rq)) (\<lambda>path.
         refuse_unless (starts_with approvals_prefix path) (error_reply 404 ''not found'')
          (bindR (compare_digest (header_or [] (rq_token rq)) (de_token de)) (\<lambda>same.
           refuse_unless same (error_reply 403 ''invalid dashboard token'')
            (refuse_unless (starts_with ''application/json'' (header_or [] (rq_content_type rq)))
               (error_reply 415 ''content type must be application/json'')
              (refuse_unless (\<not> (post_length de rq < 1 \<or> 1024 < post_length de rq))
                 (error_reply 400 ''invalid request size'')
                (Return (Inr (drop (length approvals_prefix) path)))))))))))"

definition body_decision :: "pyval \<Rightarrow> (exc, string) result" where
  "body_decision body =
     (case body of
        PDict d \<Rightarrow> (case dict_get d ''decision'' PNone of
                      PStr s \<Rightarrow> Return s
                    | _ \<Rightarrow> Raise (ValueError ''decision must be approved or denied''))
      | _ \<Rightarrow> Raise (ValueError ''decision must be approved or denied''))"

definition decision_error :: "exc \<Rightarrow> (exc, response) result" where
  "decision_error e =
     (case e of
        ApprovalNotFound i \<Rightarrow> Return (error_reply 404 ''approval not found'')
      | ApprovalConflict m \<Rightarrow> Return (error_reply 409 m)
      | _ \<Rightarrow> if is_value_error e then Return (error_reply 400 ''decision must be approved or denied'')
             else Raise e)"

definition do_POST ::
  "'b dashboard_env \<Rightarrow> request \<Rightarrow> approval_table \<Rightarrow> (exc, response) result \<times> approval_table" where
  "do_POST de rq db =
     (case post_guards de rq of
        Inl e \<Rightarrow> (Raise e, db)
      | Inr (Inl refused) \<Rightarrow> (Return refused, db)
      | Inr (Inr quoted_id) \<Rightarrow>
          (case bindR (de_body de (rq_read rq (nat (post_length de rq)))) body_decision of
             Inl e \<Rightarrow> (decision_error e, db)
           | Inr status \<Rightarrow>
               (case approval_decide (de_db de) (de_now de) (de_unquote de quoted_id) status db of
                  (Inl e, db') \<Rightarrow> (decision_error e, db')
                | (Inr r, db') \<Rightarrow> (Return (json_response 200 (PDict (approval_dict r))), db'))))"

text \<open>The constructor: the policy and the two stores are opened after the host is checked.\<close>

definition dashboard_init ::
  "string \<Rightarrow> string option \<Rightarrow> string \<Rightarrow> (exc, policy) result \<Rightarrow> (exc, unit) result \<Rightarrow> rat option \<Rightarrow>
     (exc, unit) result \<Rightarrow> (exc, policy \<times> string) result" where
  "dashboard_init host token fresh_token loaded opened_state approval_timeout opened_queue =
     bindR (requireR (is_loopback host) (ValueError ''dashboard host must be a loopback address'')) (\<lambda>_.
     bindR loaded (\<lambda>p.
     bindR opened_state (\<lambda>_.
     bindR (check_durations approval_timeout (Some (1 / 4))) (\<lambda>_.
     bindR opened_queue (\<lambda>_.
     Return (p, (case token of None \<Rightarrow> fresh_token | Some t \<Rightarrow> if t = [] then fresh_token else t)))))))"

definition startup_banner :: "string \<Rightarrow> string \<Rightarrow> string" where
  "startup_banner address token =
     ''Agent Firewall dashboard: '' @ address @ [newline_char] @ ''Agent Firewall dashboard token: '' @ token"

declare is_loopback_def [evals] count_char_def [evals] host_name_def [evals] host_allowed_def [evals]
  origin_allowed_def [evals] parameter_schemes_def [evals] split_params_def [evals] target_path_def [evals]
  quoted_def [evals] send_def [evals] dashboard_style_def [evals] json_response_def [evals] error_reply_def [evals]
  event_of_def [evals] take_last_def [evals] read_events_def [evals] event_name_def [evals]
  hashable_def [evals] event_count_def [evals] summary_def [evals] is_prefix_at_def [evals]
  pending_read_def [evals] do_GET_def [evals] compare_digest_def [evals] header_or_def [evals]
  approvals_prefix_def [evals] post_length_def [evals] refuse_unless_def [evals] post_guards_def [evals] body_decision_def [evals]
  decision_error_def [evals] do_POST_def [evals] dashboard_init_def [evals]

section \<open>Guards\<close>

lemma error_reply_status [simp]: "rs_status (error_reply n m) = n"
  by (simp add: error_reply_def json_response_def send_def)

lemma decision_error_status: "decision_error e = Inr resp \<Longrightarrow> rs_status resp \<in> {400, 404, 409}"
  by (auto simp: decision_error_def split: exc.splits if_splits)

lemma refuse_accept: "refuse_unless ok r m = Inr (Inr x) \<longleftrightarrow> ok \<and> m = Inr (Inr x)"
  by (simp add: refuse_unless_def)

lemma refuse_refusal: "refuse_unless ok r m = Inr (Inl x) \<longleftrightarrow> \<not> ok \<and> x = r \<or> ok \<and> m = Inr (Inl x)"
  by (auto simp: refuse_unless_def)

lemma post_guards_accept:
  assumes "post_guards de rq = Inr (Inr quoted_id)"
  shows "host_allowed (rq_host rq)" "origin_allowed (rq_origin rq) = Inr True"
    "target_path (rq_target rq) = Inr (approvals_prefix @ quoted_id)"
    "header_or [] (rq_token rq) = de_token de"
    "starts_with ''application/json'' (header_or [] (rq_content_type rq))"
    "1 \<le> post_length de rq" "post_length de rq \<le> 1024"
proof -
  obtain path where path: "host_allowed (rq_host rq)" "origin_allowed (rq_origin rq) = Inr True"
    "target_path (rq_target rq) = Inr path" "starts_with approvals_prefix path"
    "compare_digest (header_or [] (rq_token rq)) (de_token de) = Inr True"
    "starts_with ''application/json'' (header_or [] (rq_content_type rq))"
    "1 \<le> post_length de rq" "post_length de rq \<le> 1024" "quoted_id = drop (length approvals_prefix) path"
    using assms unfolding post_guards_def bindR_Inr_iff refuse_accept by (auto simp del: starts_with.simps)
  then show "host_allowed (rq_host rq)" "origin_allowed (rq_origin rq) = Inr True"
    "starts_with ''application/json'' (header_or [] (rq_content_type rq))"
    "1 \<le> post_length de rq" "post_length de rq \<le> 1024"
    by blast+
  show "target_path (rq_target rq) = Inr (approvals_prefix @ quoted_id)"
    using path(3,4,9) by (auto simp: starts_with_iff)
  show "header_or [] (rq_token rq) = de_token de"
    using path(5) by (simp add: compare_digest_def split: if_splits)
qed

text \<open>A request that changes the table, or that is answered with success.\<close>

definition takes_effect :: "(exc, response) result \<times> approval_table \<Rightarrow> approval_table \<Rightarrow> bool" where
  "takes_effect out db =
     (snd out \<noteq> db \<or> (case fst out of Inl _ \<Rightarrow> False | Inr resp \<Rightarrow> rs_status resp = 200))"

definition refusing :: "(exc, response + 'a) result \<Rightarrow> bool" where
  "refusing m = (\<forall>r. m = Inr (Inl r) \<longrightarrow> rs_status r \<noteq> 200)"

lemma refusing_unless: "n \<noteq> 200 \<Longrightarrow> refusing m \<Longrightarrow> refusing (refuse_unless ok (error_reply n msg) m)"
  by (simp add: refusing_def refuse_unless_def)

lemma refusing_bind: "(\<And>x. refusing (f x)) \<Longrightarrow> refusing (bindR m f)"
  by (auto simp: refusing_def bindR_Inr_iff)

lemma refusing_done: "refusing (Inr (Inr x))"
  by (simp add: refusing_def)

lemma post_guards_refuse: "refusing (post_guards de rq)"
  unfolding post_guards_def
  by (intro refusing_unless refusing_bind refusing_done) simp_all

lemma do_POST_effect:
  assumes "takes_effect (do_POST de rq db) db"
  obtains quoted_id status r where "post_guards de rq = Inr (Inr quoted_id)"
    "bindR (de_body de (rq_read rq (nat (post_length de rq)))) body_decision = Inr status"
    "approval_decide (de_db de) (de_now de) (de_unquote de quoted_id) status db = (Inr r, snd (do_POST de rq db))"
proof (cases "post_guards de rq")
  case (Inl e)
  then show thesis using assms by (simp add: do_POST_def takes_effect_def)
next
  case guarded: (Inr a)
  show thesis
  proof (cases a)
    case (Inl resp)
    then show thesis
      using assms post_guards_refuse [of de rq] guarded by (simp add: do_POST_def takes_effect_def refusing_def)
  next
    case (Inr quoted_id)
    show thesis
    proof (cases "bindR (de_body de (rq_read rq (nat (post_length de rq)))) body_decision")
      case (Inl e)
      then show thesis
        using assms guarded Inr
        by (auto simp: do_POST_def takes_effect_def dest: decision_error_status split: sum.splits)
    next
      case body: (Inr status)
      obtain out db' where out: "approval_decide (de_db de) (de_now de) (de_unquote de quoted_id) status db = (out, db')"
        by (rule prod.exhaust)
      show thesis
      proof (cases out)
        case (Inl e)
        then show thesis
          using assms guarded Inr body out approval_decide_error [OF out [unfolded Inl]]
          by (auto simp: do_POST_def takes_effect_def dest: decision_error_status split: sum.splits)
      next
        case decided: (Inr r)
        show thesis
          by (rule that [of quoted_id status r]) (use guarded Inr body out decided in \<open>simp_all add: do_POST_def\<close>)
      qed
    qed
  qed
qed

text \<open>Domain names are no loopback hosts.\<close>

lemma strip_no_space: "list_all (\<lambda>c. \<not> is_space c) s \<Longrightarrow> str_strip s = s"
proof -
  have "list_all (\<lambda>c. \<not> P c) t \<Longrightarrow> dropWhile P t = t" for P and t :: string by (cases t) auto
  then show "list_all (\<lambda>c. \<not> is_space c) s \<Longrightarrow> str_strip s = s"
    by (simp add: str_strip_def str_lstrip_def str_rstrip_def list_all_rev)
qed

lemma digit_not_space: "is_digit c \<Longrightarrow> \<not> is_space c"
  by (auto simp: is_digit_def is_space_def)

lemma count_char_append: "count_char c (s @ t) = count_char c s + count_char c t"
  by (simp add: count_char_def)

lemma count_char_free: "c \<notin> set s \<Longrightarrow> count_char c s = 0"
  by (simp add: count_char_def filter_empty_conv) blast

lemma not_bracketed: "CHR ''['' \<notin> set d \<Longrightarrow> d \<noteq> [] \<Longrightarrow> \<not> starts_with ''['' (d @ r)"
  by (cases d) auto

lemma host_name_plain:
  assumes "CHR '':'' \<notin> set d" "CHR ''['' \<notin> set d"
  shows "host_name d = Some d"
proof -
  have "\<not> starts_with ''['' d" using assms(2) by (cases d) auto
  then show ?thesis using count_char_free [OF assms(1)] by (simp add: host_name_def)
qed

lemma host_name_port:
  assumes "CHR '':'' \<notin> set d" "CHR ''['' \<notin> set d" "d \<noteq> []" "CHR '':'' \<notin> set p"
  shows "host_name (d @ CHR '':'' # p) = Some d"
proof -
  have "count_char (CHR '':'') (d @ CHR '':'' # p) = 1"
    using count_char_free [OF assms(1)] count_char_free [OF assms(4)]
    by (simp add: count_char_append) (simp add: count_char_def)
  moreover have "fst (rpartition_at (CHR '':'') (d @ CHR '':'' # p)) = d"
    using rpartition_at_found [of "CHR '':''" "d @ CHR '':'' # p" d p] assms(4) by simp
  ultimately show ?thesis
    using not_bracketed [OF assms(2,3), of "CHR '':'' # p"] unfolding host_name_def by simp
qed

definition name_char :: "char \<Rightarrow> bool" where
  "name_char c = (\<not> is_space c \<and> c \<noteq> CHR '':'' \<and> c \<noteq> CHR ''['')"

declare name_char_def [evals]

lemma name_chars:
  assumes "list_all name_char d"
  shows "CHR '':'' \<notin> set d" "CHR ''['' \<notin> set d" "list_all (\<lambda>c. \<not> is_space c) d"
  using assms unfolding list_all_iff name_char_def by blast+

lemma port_chars:
  assumes "all_digits p"
  shows "CHR '':'' \<notin> set p" "list_all (\<lambda>c. \<not> is_space c) p"
proof -
  have p: "is_digit c" if "c \<in> set p" for c using assms that unfolding all_digits_def list_all_iff by blast
  have "\<not> is_digit (CHR '':'')" by (simp add: is_digit_def)
  then show "CHR '':'' \<notin> set p" using p by blast
  show "list_all (\<lambda>c. \<not> is_space c) p" using p digit_not_space unfolding list_all_iff by blast
qed

text \<open>C13: 
  A request whose Host header is a name that is neither \<open>localhost\<close> nor an IP address is refused,
  GET and POST alike, with status 421 and the approval table untouched, whatever port the header carries
  and whatever else the request holds: a page that rebinds its own domain to the loopback address never
  reaches the API.
\<close>

theorem rebinding_refused:
  assumes "list_all name_char d" "d \<noteq> []" "d \<noteq> ''localhost''" "ip_address_of d = None" "all_digits p"
    "rq_host rq = Some d \<or> rq_host rq = Some (d @ CHR '':'' # p)"
  shows "do_GET de rq db = Inr (error_reply 421 ''invalid host header'') \<and>
    do_POST de rq db = (Inr (error_reply 421 ''invalid host header''), db)"
proof -
  note d = name_chars [OF assms(1)] and p = port_chars [OF assms(5)]
  have name: "\<not> is_loopback d" using assms(3,4) by (simp add: is_loopback_def)
  have colon: "\<not> is_space (CHR '':'')" by (simp add: is_space_def)
  have strip: "str_strip (d @ CHR '':'' # p) = d @ CHR '':'' # p"
    by (rule strip_no_space) (simp only: list_all_append list.pred_inject d(3) p(2) colon simp_thms)
  have "\<not> host_allowed (Some d)" "\<not> host_allowed (Some (d @ CHR '':'' # p))"
    unfolding host_allowed_def option.case strip strip_no_space [OF d(3)] host_name_plain [OF d(1,2)]
      host_name_port [OF d(1,2) assms(2) p(1)]
    using name by simp_all
  then have "\<not> host_allowed (rq_host rq)" using assms(6) by metis
  then show ?thesis
    by (simp_all add: do_GET_def do_POST_def post_guards_def refuse_unless_def)
qed

definition sample_env :: "unit dashboard_env" where
  "sample_env =
     \<lparr>de_policy = \<lparr>p_default = BLOCK, p_budget = \<lparr>b_max_calls = None, b_max_calls_per_tool = None,
        b_max_identical_calls = None, b_max_cost_usd = None\<rparr>, p_rules = [], p_audit_arguments = AUDIT_NONE\<rparr>,
      de_token = ''secret'', de_page = [], de_nonce = ''n'', de_loads = (\<lambda>_. None), de_log = LogMissing,
      de_usage = Return empty_usage, de_parse_time = (\<lambda>_. None), de_cutoff = 0, de_db = DbOk,
      de_now = ''later'', de_unquote = (\<lambda>s. s), de_int = (\<lambda>s. if s = ''23'' then Some 23 else None),
      de_body = (\<lambda>_. Return (PDict [(''decision'', PStr ''approved'')]))\<rparr>"

definition sample_post :: request where
  "sample_post =
     \<lparr>rq_host = Some ''127.0.0.1:8787'', rq_origin = None, rq_token = Some ''secret'',
      rq_content_type = Some ''application/json'', rq_length = Some ''23'',
      rq_target = ''/api/approvals/c2'', rq_read = (\<lambda>_. [])\<rparr>"

definition sample_table :: approval_table where
  "sample_table =
     [(''c2'', \<lparr>ar_call_id = ''c2'', ar_tool = ''deploy'', ar_reason = ''r'',
        ar_requested_at = ''earlier'', ar_status = Pending, ar_decided_at = None\<rparr>)]"

lemma sample_post_effect: "takes_effect (do_POST sample_env sample_post sample_table) sample_table"
proof -
  have "host_allowed (rq_host sample_post)" by (simp add: sample_post_def evals)
  moreover have "origin_allowed (rq_origin sample_post) = Inr True" by (simp add: sample_post_def evals)
  moreover have "target_path (rq_target sample_post) = Inr ''/api/approvals/c2''"
    by (simp add: sample_post_def evals)
  moreover have "post_length sample_env sample_post = 23"
    by (simp add: sample_env_def sample_post_def post_length_def header_or_def)
  moreover have "compare_digest (header_or [] (rq_token sample_post)) (de_token sample_env) = Inr True"
    by (simp add: sample_env_def sample_post_def evals)
  moreover have "starts_with ''application/json'' (header_or [] (rq_content_type sample_post))"
    by (simp add: sample_post_def header_or_def)
  ultimately have guards: "post_guards sample_env sample_post = Inr (Inr ''c2'')"
    by (simp add: post_guards_def refuse_unless_def approvals_prefix_def)
  have "bindR (de_body sample_env s) body_decision = Inr ''approved''" for s
    by (simp add: sample_env_def evals)
  moreover have "approval_decide (de_db sample_env) (de_now sample_env) (de_unquote sample_env ''c2'') ''approved'' sample_table
    = (Inr (snd (hd sample_table) \<lparr>ar_status := Approved, ar_decided_at := Some ''later''\<rparr>),
       [(''c2'', snd (hd sample_table) \<lparr>ar_status := Approved, ar_decided_at := Some ''later''\<rparr>)])"
    by (simp add: sample_env_def sample_table_def approval_decide_def approval_get_def)
  ultimately show "takes_effect (do_POST sample_env sample_post sample_table) sample_table"
    by (simp add: do_POST_def guards takes_effect_def json_response_def send_def)
qed

text \<open>C5: A POST that is answered with success, or that changes the approval table at all, has passed every
  guard: a loopback Host, no foreign Origin, a target under \<open>/api/approvals/\<close>, the process's own token,
  a JSON content type and a length of 1 to 1024 bytes. What it did is then exactly one \<open>decide\<close> of the
  request its target names, with the decision its body gives, and the row of that request is decided so.
  (A database error is one before the commit, as in \<open>ApprovalQueue\<close>.)
\<close>

theorem post_guarded:
  assumes "takes_effect (do_POST de rq db) db"
  shows "host_allowed (rq_host rq) \<and> origin_allowed (rq_origin rq) = Inr True \<and>
    header_or [] (rq_token rq) = de_token de \<and>
    starts_with ''application/json'' (header_or [] (rq_content_type rq)) \<and>
    1 \<le> post_length de rq \<and> post_length de rq \<le> 1024 \<and>
    (\<exists>quoted_id status r.
       target_path (rq_target rq) = Inr (approvals_prefix @ quoted_id) \<and>
       bindR (de_body de (rq_read rq (nat (post_length de rq)))) body_decision = Inr status \<and>
       approval_decide (de_db de) (de_now de) (de_unquote de quoted_id) status db = (Inr r, snd (do_POST de rq db)) \<and>
       map_of (snd (do_POST de rq db)) (de_unquote de quoted_id) = Some r \<and> ar_status r = decided_as status)"
proof -
  obtain quoted_id status r where effect: "post_guards de rq = Inr (Inr quoted_id)"
    "bindR (de_body de (rq_read rq (nat (post_length de rq)))) body_decision = Inr status"
    "approval_decide (de_db de) (de_now de) (de_unquote de quoted_id) status db = (Inr r, snd (do_POST de rq db))"
    by (rule do_POST_effect [OF assms])
  show ?thesis
    by (intro conjI exI [of _ quoted_id] exI [of _ status] exI [of _ r])
       (rule effect post_guards_accept [OF effect(1)] approval_decide_ok [OF effect(3)])+
qed

theorem post_guarded_witness: "header_or [] (rq_token sample_post) = ''secret''"
proof -
  have "header_or [] (rq_token sample_post) = de_token sample_env"
    using post_guarded [OF sample_post_effect] by blast
  then show ?thesis by (simp add: sample_env_def)
qed

theorem rebinding_refused_witness:
  "do_POST sample_env (sample_post\<lparr>rq_host := Some (''evil.example'' @ CHR '':'' # ''8787'')\<rparr>) sample_table
     = (Inr (error_reply 421 ''invalid host header''), sample_table)"
proof -
  have "list_all name_char ''evil.example''" "''evil.example'' \<noteq> ''localhost''" "all_digits ''8787''"
    "ip_address_of ''evil.example'' = None"
    by (simp_all add: evals)
  then show ?thesis
    using rebinding_refused [of "''evil.example''" "''8787''"
      "sample_post\<lparr>rq_host := Some (''evil.example'' @ CHR '':'' # ''8787'')\<rparr>" sample_env sample_table]
    by simp
qed

section \<open>The summary counts what was recorded\<close>

text \<open>The reader skips the lines it cannot use, but not one whose event has no hash: no handler catches
  what counting it raises.\<close>

lemma summary_unhashable:
  "d \<in> set evs \<Longrightarrow> event_name d = PList xs \<or> event_name d = PDict e \<Longrightarrow>
     summary p (Inr evs) usage shown held = Inl (TypeError ''unhashable type'')"
  by (auto simp: summary_def requireR_def list_all_iff hashable_def)

text \<open>The arguments of one \<open>AuditLog.record\<close>, and the file a run of records leaves.\<close>

record audit_write =
  aw_time :: string
  aw_event :: string
  aw_call :: tool_call
  aw_usage :: usage
  aw_decision :: "decision option"
  aw_error :: "string option"
  aw_mode :: audit_mode

definition write_entry :: "audit_write \<Rightarrow> pydict" where
  "write_entry w =
     audit_entry (aw_time w) (aw_event w) (aw_call w) (aw_usage w) (aw_decision w) (aw_error w) (aw_mode w)"

definition write_line :: "audit_write \<Rightarrow> string" where
  "write_line w =
     audit_line (aw_time w) (aw_event w) (aw_call w) (aw_usage w) (aw_decision w) (aw_error w) (aw_mode w)"

definition write_record :: "string \<Rightarrow> audit_write \<Rightarrow> string \<Rightarrow> string" where
  "write_record path w logged =
     snd (audit_record DiskOk path (aw_time w) (aw_event w) (aw_call w) (aw_usage w) (aw_decision w)
       (aw_error w) (aw_mode w) logged)"

definition write_log :: "string \<Rightarrow> audit_write list \<Rightarrow> string" where
  "write_log path ws = fold (write_record path) ws []"

definition plain_loads :: "nat \<Rightarrow> string \<Rightarrow> pyval option" where
  "plain_loads room s = (case json_loads plain_reader room s of Inl _ \<Rightarrow> None | Inr v \<Rightarrow> Some v)"

definition write_ok :: "audit_write \<Rightarrow> bool" where
  "write_ok w = (json_value (PDict (write_entry w)) \<and> call_floats_ok (aw_call w))"

lemma write_record_line:
  assumes "write_ok w" "\<not> incomplete logged"
  shows "write_record path w logged = logged @ write_line w @ [newline_char]"
    "\<not> incomplete (write_record path w logged)"
proof -
  have "audit_record DiskOk path (aw_time w) (aw_event w) (aw_call w) (aw_usage w) (aw_decision w)
      (aw_error w) (aw_mode w) logged = (Inr (), write_record path w logged)"
    using assms(2) by (simp add: write_record_def audit_record_def audit_append_def)
  note ok = audit_record_ok [OF this]
  show "write_record path w logged = logged @ write_line w @ [newline_char]"
    "\<not> incomplete (write_record path w logged)"
    using ok(1,3) assms(1) by (simp_all add: write_ok_def write_line_def)
qed

lemma write_log_lines:
  assumes "list_all write_ok ws"
  shows "write_log path ws = concat (map (\<lambda>w. write_line w @ [newline_char]) ws)"
proof -
  have "\<not> incomplete logged \<Longrightarrow> fold (write_record path) ws logged =
      logged @ concat (map (\<lambda>w. write_line w @ [newline_char]) ws)" for logged
    using assms
  proof (induction ws arbitrary: logged)
    case (Cons w ws)
    then show ?case using write_record_line [of w logged path] by simp
  qed simp
  from this [of "[]"] show ?thesis by (simp add: write_log_def incomplete_def)
qed

lemma universal_newlines_plain: "\<forall>c \<in> set s. code c \<noteq> 13 \<Longrightarrow> universal_newlines s = s"
  by (induction s) auto

lemma text_lines_line: "newline_char \<notin> set l \<Longrightarrow> text_lines (l @ newline_char # s) = (l @ [newline_char]) # text_lines s"
  by (induction l) auto

lemma text_lines_concat:
  "\<forall>l \<in> set ls. newline_char \<notin> set l \<Longrightarrow>
     text_lines (concat (map (\<lambda>l. l @ [newline_char]) ls)) = map (\<lambda>l. l @ [newline_char]) ls"
  by (induction ls) (simp_all add: text_lines_line)

lemma write_line_chars:
  assumes "write_ok w" "c \<in> set (write_line w)"
  shows "c \<noteq> newline_char" "code c \<noteq> 13"
proof -
  have "list_all printable (write_line w)"
    unfolding write_line_def using assms(1) by (intro audit_line_printable) (simp add: write_ok_def)
  then have "printable c" using assms(2) unfolding list_all_iff by blast
  then show "c \<noteq> newline_char" "code c \<noteq> 13" using printable_not_newline by (auto simp: printable_def)
qed

text \<open>How deep an entry nests: the bound on the arguments, and two.\<close>

lemma depth_items_iff: "pv_depth_items d \<le> n \<longleftrightarrow> (\<forall>kv \<in> set d. pv_depth (snd kv) < n)"
  by (induction d) auto

lemma key_sorted_depth:
  "pv_depth (key_sorted v) = pv_depth v"
  "pv_depth_list (keys_sorted xs) = pv_depth_list xs"
  "pv_depth_items (items_sorted d) = pv_depth_items d"
proof (induction v and xs and d rule: key_sorted_keys_sorted_items_sorted.induct)
  case (1 d)
  have "pv_depth_items (sort_key fst e) \<le> n \<longleftrightarrow> pv_depth_items e \<le> n" for e :: pydict and n
    by (simp add: depth_items_iff)
  then have "pv_depth_items (sort_key fst e) = pv_depth_items e" for e :: pydict
    by (metis le_antisym order_refl)
  then show ?case using 1 by simp
qed simp_all

lemma redact_depth:
  "pv_depth (redact v) \<le> pv_depth v"
  "pv_depth_list (redact_list xs) \<le> pv_depth_list xs"
  "pv_depth_items (redact_items d) \<le> pv_depth_items d"
  by (induction v and xs and d rule: redact_redact_list_redact_items.induct)
     (auto simp: REDACTED_def max_def)

lemma shown_depth: "pv_depth (bounded v) < 66" "pv_depth (redact (bounded v)) < 66"
proof -
  have "pv_depth (bounded v) \<le> 65" using bounded_depth_at(1) [of 0 v] by (simp add: bounded_def)
  moreover have "pv_depth (redact (bounded v)) \<le> pv_depth (bounded v)" by (rule redact_depth)
  ultimately show "pv_depth (bounded v) < 66" "pv_depth (redact (bounded v)) < 66" by linarith+
qed

lemma depth_items_append: "pv_depth_items (d @ e) \<le> n \<longleftrightarrow> pv_depth_items d \<le> n \<and> pv_depth_items e \<le> n"
  by (auto simp: depth_items_iff)

lemma entry_depth: "pv_depth (PDict (write_entry w)) \<le> 66"
proof -
  have "pv_depth_items (argument_entry c m) \<le> 66" for c m
    using shown_depth by (cases m) (simp_all add: argument_entry_def Suc_le_eq)
  moreover have "pv_depth_items (decision_dict d) \<le> 66" for d
    by (cases "d_rule_index d") (simp_all add: decision_dict_def)
  ultimately show ?thesis
    by (simp add: write_entry_def audit_entry_def depth_items_append split: option.split)
qed

lemma entry_keys_distinct:
  fixes a b c :: "string list"
  assumes "a \<in> {[], [''decision'', ''reason'', ''code''], [''decision'', ''reason'', ''code'', ''rule_index'']}"
    "b \<in> {[], [''error'']}" "c \<in> {[], [''call_fingerprint''], [''arguments'']}"
  shows "distinct ([''timestamp'', ''event'', ''call_id'', ''tool'', ''estimated_cost_usd'', ''usage''] @ a @ b @ c)"
  using assms by (elim insertE emptyE; hypsubst; simp)

lemma entry_keys: "dict_wf (write_entry w)"
proof -
  let ?d = "case aw_decision w of None \<Rightarrow> [] | Some x \<Rightarrow> decision_dict x"
  let ?e = "case aw_error w of None \<Rightarrow> [] | Some x \<Rightarrow> [(''error'', PStr x)]"
  let ?a = "argument_entry (aw_call w) (aw_mode w)"
  have "map fst ?d \<in> {[], [''decision'', ''reason'', ''code''], [''decision'', ''reason'', ''code'', ''rule_index'']}"
    by (simp add: decision_dict_def split: option.split)
  moreover have "map fst ?e \<in> {[], [''error'']}" by (simp split: option.split)
  moreover have "map fst ?a \<in> {[], [''call_fingerprint''], [''arguments'']}"
    by (simp add: argument_entry_def split: audit_mode.split)
  ultimately show ?thesis
    unfolding dict_wf_def write_entry_def audit_entry_def map_append list.map fst_conv
    by (rule entry_keys_distinct)
qed

definition recorded :: "audit_write \<Rightarrow> pydict" where
  "recorded w = sort_key fst (items_sorted (write_entry w))"

lemma recorded_name: "event_name (recorded w) = PStr (aw_event w)"
  by (simp add: event_name_def recorded_def dict_get_def map_of_key_sorted [OF entry_keys])
     (simp add: write_entry_def audit_entry_def)

lemma line_event:
  assumes "write_ok w" "66 < room"
  shows "event_of (plain_loads room) (write_line w @ [newline_char]) = Some (recorded w)"
proof -
  let ?v = "PDict (recorded w)"
  have v: "?v = key_sorted (PDict (write_entry w))" by (simp add: recorded_def)
  have "json_value ?v" unfolding v using assms(1) by (intro key_sorted_json(1)) (simp add: write_ok_def)
  moreover have "pv_depth ?v < room"
    unfolding v key_sorted_depth using entry_depth [of w] assms(2) by simp
  moreover have "write_line w = json_text (compact_style True True \<lparr>js_sort := False\<rparr>) ?v"
    unfolding v write_line_def audit_line_def write_entry_def
    by (rule json_text_key_sorted(1)) (simp add: compact_style_def)
  moreover have "plain_compact (compact_style True True \<lparr>js_sort := False\<rparr>)"
    by (simp add: plain_compact_def compact_style_def)
  ultimately have "json_loads plain_reader room (write_line w @ [newline_char]) = Inr ?v"
    using json_loads_line [of "compact_style True True \<lparr>js_sort := False\<rparr>" plain_reader ?v room "[newline_char]"]
    by (simp add: newline_char_def)
  then show ?thesis by (simp add: event_of_def plain_loads_def)
qed

lemma log_events:
  assumes "list_all write_ok ws" "66 < room"
  shows "read_events (plain_loads room) None (LogText (write_log path ws)) = Inr (map recorded ws)"
proof -
  have ok: "write_ok w" if "w \<in> set ws" for w using assms(1) that unfolding list_all_iff by blast
  have log: "write_log path ws = concat (map (\<lambda>l. l @ [newline_char]) (map write_line ws))"
    using write_log_lines [OF assms(1)] by (simp add: comp_def)
  have "\<forall>c \<in> set (write_log path ws). code c \<noteq> 13"
    using write_line_chars(2) ok unfolding log by (auto simp: newline_char_def)
  moreover have "text_lines (write_log path ws) = map (\<lambda>l. l @ [newline_char]) (map write_line ws)"
    unfolding log using write_line_chars(1) ok by (intro text_lines_concat) auto
  moreover have "List.map_filter (event_of (plain_loads room)) (map (\<lambda>l. l @ [newline_char]) (map write_line vs))
      = map recorded vs" if "list_all write_ok vs" for vs
    using that by (induction vs) (simp_all add: List.map_filter_simps line_event [OF _ assms(2)])
  ultimately show ?thesis
    using assms(1) by (simp add: read_events_def take_last_def universal_newlines_plain)
qed

definition writes :: "audit_write list \<Rightarrow> string \<Rightarrow> nat" where
  "writes ws k = length (filter (\<lambda>w. aw_event w = k) ws)"

lemma recorded_count: "event_count (map recorded ws) k = writes ws k"
  by (simp add: event_count_def writes_def filter_map comp_def recorded_name)

text \<open>C34: The dashboard's numbers are the firewall's records. Of the file that any run of audit records
  leaves, whose values are JSON values and whose floats print, read as a whole by a JSON reader that takes
  at least 67 levels of nesting, every line is read back, in order, as the record that was written, with its keys
  sorted; and the summary of these events shows as allowed, blocked, failed and near misses exactly how
  many records of those events were written.\<close>

theorem summary_counts_records:
  assumes "list_all write_ok ws" "66 < room"
  shows "read_events (plain_loads room) None (LogText (write_log path ws)) =
      Inr (map (\<lambda>w. sort_key fst (items_sorted (write_entry w))) ws) \<and>
    (\<exists>d. summary p (read_events (plain_loads room) None (LogText (write_log path ws))) (Inr u) (Inr shown) (Inr held) = Inr d \<and>
    dict_get d ''allowed'' PNone = PInt (int (writes ws ''allowed'' + writes ws ''approval_granted'')) \<and>
    dict_get d ''blocked'' PNone = PInt (int (writes ws ''blocked'' + writes ws ''approval_denied'')) \<and>
    dict_get d ''failed'' PNone = PInt (int (writes ws ''failed'')) \<and>
    dict_get d ''near_misses'' PNone = PInt (int (writes ws ''approval_requested'')))"
proof -
  have "list_all (\<lambda>d. hashable (event_name d)) (map recorded ws)"
    by (simp add: list_all_iff recorded_name hashable_def)
  then show ?thesis
    unfolding log_events [OF assms] summary_def Let_def recorded_def [symmetric]
    by (simp add: requireR_def dict_get_def recorded_count)
qed

definition sample_writes :: "audit_write list" where
  "sample_writes =
     [\<lparr>aw_time = ''t0'', aw_event = ''allowed'', aw_call = demo_read, aw_usage = empty_usage,
       aw_decision = None, aw_error = None, aw_mode = AUDIT_REDACTED\<rparr>,
      \<lparr>aw_time = ''t1'', aw_event = ''blocked'', aw_call = demo_read, aw_usage = empty_usage,
       aw_decision = None, aw_error = Some ''e'', aw_mode = AUDIT_NONE\<rparr>]"

lemma sample_writes_ok: "list_all write_ok sample_writes"
  by (simp add: sample_writes_def write_ok_def write_entry_def audit_entry_def argument_entry_def
      plain_reader_def call_floats_ok_def demo_read_def empty_usage_def bounded_def REDACTED_def evals)

theorem summary_counts_records_witness:
  "\<exists>d es. read_events (plain_loads 900) None (LogText (write_log ''a'' sample_writes)) = Inr es \<and> length es = 2 \<and>
    summary (de_policy sample_env) (Inr es) (Inr empty_usage) (Inr []) (Inr []) = Inr d \<and>
    dict_get d ''allowed'' PNone = PInt 1 \<and> dict_get d ''blocked'' PNone = PInt 1"
proof -
  have n: "writes sample_writes ''allowed'' = 1" "writes sample_writes ''approval_granted'' = 0"
    "writes sample_writes ''blocked'' = 1" "writes sample_writes ''approval_denied'' = 0"
    by (simp_all add: sample_writes_def writes_def)
  have room: "66 < (900 :: nat)" by simp
  have len: "length sample_writes = 2" by (simp add: sample_writes_def)
  show ?thesis
    using summary_counts_records [OF sample_writes_ok room, of "''a''" "de_policy sample_env" empty_usage "[]" "[]"] len
    unfolding n by auto
qed

end
