(* ===== verification/Cli.thy ===== *)
theory Cli
  imports Explain Doctor BenchmarkReport Dashboard FirewallCore
begin

text \<open>
  \<open>cli.py\<close>: the commands. A command is what it prints and how it ends: an exit code, or an exception, which
  \<open>main\<close> turns into exit code 2 when it is one it catches. The parsed arguments are values; files, the
  JSON reader, \<open>int\<close> and \<open>float\<close> are what they give. Results: the exit code of \<open>check\<close> tells what a firewall
  just made from the policy does with the call, \<open>policy explain\<close> exits as \<open>check\<close> does, \<open>replay\<close> decides a benchmark case as the benchmark does and
  exits 0 only if every scenario passes, and a benchmark with a freeze reports only on the frozen files.
\<close>

section \<open>Argument types\<close>

text \<open>\<open>float\<close> of a text; argparse turns the error of a type function into a usage error.\<close>

datatype float_parse = NotNumber | NotFinite | Number rat

definition rate_threshold :: "(string \<Rightarrow> float_parse) \<Rightarrow> string \<Rightarrow> (string, rat) result" where
  "rate_threshold to_float s =
     (let outside = Raise ''threshold must be between 0 and 1 inclusive''
      in case to_float s of
           NotNumber \<Rightarrow> Raise (str_repr s @ '' is not a number'')
         | NotFinite \<Rightarrow> outside
         | Number x \<Rightarrow> if 0 \<le> x \<and> x \<le> 1 then Return x else outside)"

definition positive_integer :: "(string \<Rightarrow> int option) \<Rightarrow> string \<Rightarrow> (string, int) result" where
  "positive_integer to_int s =
     (case to_int s of
        None \<Rightarrow> Raise (str_repr s @ '' is not an integer'')
      | Some n \<Rightarrow> if n \<le> 0 then Raise ''value must be a positive integer'' else Return n)"

definition finite_positive_float :: "(string \<Rightarrow> float_parse) \<Rightarrow> string \<Rightarrow> (string, rat) result" where
  "finite_positive_float to_float s =
     (let refused = Raise ''must be a finite positive number''
      in case to_float s of
           NotNumber \<Rightarrow> Raise (str_repr s @ '' is not a number'')
         | NotFinite \<Rightarrow> refused
         | Number x \<Rightarrow> if x \<le> 0 then refused else Return x)"

definition port_number :: "(string \<Rightarrow> int option) \<Rightarrow> string \<Rightarrow> (string, int) result" where
  "port_number to_int s =
     (case to_int s of
        None \<Rightarrow> Raise (str_repr s @ '' is not an integer'')
      | Some n \<Rightarrow>
          if 0 \<le> n \<and> n \<le> 65535 then Return n else Raise ''port must be between 0 and 65535'')"

section \<open>How a command ends\<close>

definition exit_by_decision :: "decision_kind \<Rightarrow> nat" where
  "exit_by_decision k = (case k of ALLOW \<Rightarrow> 0 | REQUIRE_APPROVAL \<Rightarrow> 3 | BLOCK \<Rightarrow> 4)"

definition EXIT_THRESHOLDS :: nat where
  "EXIT_THRESHOLDS = 5"

type_synonym cli_run = "string list \<times> (bench_error, nat) result"

definition caught :: "bench_error \<Rightarrow> bool" where
  "caught e =
     (case e of
        BenchmarkConfigError m \<Rightarrow> True
      | Other x \<Rightarrow> is_value_error x \<or> is_storage_error x \<or> x = OSError)"

datatype cli_exit = Exited nat | Uncaught bench_error

text \<open>The handler of \<open>main\<close>: standard output, standard error, and the end.\<close>

definition run_main :: "(bench_error \<Rightarrow> string) \<Rightarrow> cli_run \<Rightarrow> string list \<times> string list \<times> cli_exit" where
  "run_main exc_text run =
     (case run of
        (out, Inr n) \<Rightarrow> (out, [], Exited n)
      | (out, Inl e) \<Rightarrow>
          if caught e then (out, [''error: '' @ exc_text e], Exited 2) else (out, [], Uncaught e))"

definition exit_of :: "cli_run \<Rightarrow> cli_exit" where
  "exit_of run = snd (snd (run_main (\<lambda>_. []) run))"

section \<open>Check and explain\<close>

definition cli_style :: json_style where
  "cli_style =
     \<lparr>js_ascii = True, js_sort = True, js_item_sep = '', '', js_key_sep = '': '', js_default_str = False\<rparr>"

definition cli_json :: "pydict \<Rightarrow> string" where
  "cli_json d = json_text cli_style (PDict d)"

record cli_env =
  ce_loads :: "string \<Rightarrow> (json_error, pyval) result"
  ce_syntax_text :: "nat \<Rightarrow> nat \<Rightarrow> string"
  ce_policy_path :: string
  ce_policy :: "(exc, policy) result"
  ce_ids :: "nat \<Rightarrow> nat \<Rightarrow> string"

text \<open>\<open>json.loads\<close>: what is raised instead of \<open>RecursionError\<close> is the caller's.\<close>

definition cli_loads :: "cli_env \<Rightarrow> string \<Rightarrow> string \<Rightarrow> (exc, pyval) result" where
  "cli_loads env too_deep t =
     (case ce_loads env t of
        Inl (JsonSyntax row col) \<Rightarrow> Raise (ValueError (ce_syntax_text env row col))
      | Inl (JsonValueError m) \<Rightarrow> Raise (ValueError m)
      | Inl JsonTooDeep \<Rightarrow> Raise (ValueError too_deep)
      | Inr v \<Rightarrow> Return v)"

definition parse_json_object :: "cli_env \<Rightarrow> string \<Rightarrow> string \<Rightarrow> (exc, pydict) result" where
  "parse_json_object env t flag =
     bindR (cli_loads env (flag @ '' is nested too deeply'') t) (\<lambda>v.
       case v of
         PDict d \<Rightarrow> Return d
       | _ \<Rightarrow> Raise (ValueError (flag @ '' must decode to a JSON object'')))"

record call_args =
  ck_tool :: string
  ck_arguments :: string
  ck_cost :: string
  ck_as_text :: bool

text \<open>The steps \<open>_check\<close> and \<open>_policy_explain\<close> share.\<close>

definition proposed_call :: "cli_env \<Rightarrow> call_args \<Rightarrow> (exc, policy \<times> tool_call) result" where
  "proposed_call env a =
     bindR (parse_json_object env (ck_arguments a) ''--arguments'') (\<lambda>arguments.
     bindR (ce_policy env) (\<lambda>p.
     bindR (create_call (ce_ids env 0 0) (PStr (ck_tool a)) (Some arguments) (PStr (ck_cost a))) (\<lambda>c.
     Return (p, c))))"

definition pad_right :: "nat \<Rightarrow> string \<Rightarrow> string" where
  "pad_right n s = s @ replicate (n - length s) (CHR '' '')"

definition format_decision :: "string \<Rightarrow> decision \<Rightarrow> string" where
  "format_decision tool d =
     pad_right 16 (kind_value (d_kind d)) @ ''  '' @ tool @ [char_of (10 :: nat)] @ replicate 18 (CHR '' '') @
     d_reason d @
     (case d_rule_index d of None \<Rightarrow> [] | Some i \<Rightarrow> '' (rule '' @ nat_text i @ '')'')"

definition finish :: "(exc, string list \<times> nat) result \<Rightarrow> cli_run" where
  "finish m = (case m of Inl e \<Rightarrow> ([], Raise (Other e)) | Inr (out, n) \<Rightarrow> (out, Return n))"

definition cli_check :: "cli_env \<Rightarrow> call_args \<Rightarrow> cli_run" where
  "cli_check env a =
     finish (bindR (proposed_call env a) (\<lambda>(p, c).
       bindR (evaluate p c empty_usage) (\<lambda>d.
       Return ([if ck_as_text a then format_decision (tc_name c) d else cli_json (decision_dict d)],
               exit_by_decision (d_kind d)))))"

definition cli_explain :: "cli_env \<Rightarrow> call_args \<Rightarrow> cli_run" where
  "cli_explain env a =
     finish (bindR (proposed_call env a) (\<lambda>(p, c).
       bindR (explain_call p c empty_usage) (\<lambda>x.
       Return ([if ck_as_text a then explain_text x else json_text cli_style (explanation_dict x)],
               exit_by_decision (d_kind (cx_decision x))))))"

section \<open>Lint and doctor\<close>

definition cli_lint :: "cli_env \<Rightarrow> bool \<Rightarrow> cli_run" where
  "cli_lint env as_text =
     finish (bindR (ce_policy env) (\<lambda>p.
       let fs = lint_policy p
       in Return
         ([if as_text then lint_text (ce_policy_path env) fs else cli_json (lint_dict (ce_policy_path env) fs)],
          if severity_count ''error'' fs \<noteq> 0 then 1 else 0)))"

definition cli_doctor :: "doctor_env \<Rightarrow> bool \<Rightarrow> cli_run" where
  "cli_doctor env as_text =
     finish (bindR (run_checks env) (\<lambda>checks.
       Return ([if as_text then doctor_text checks else cli_json (doctor_dict checks)],
               if list_all dk_ok checks then 0 else 1)))"

section \<open>Replay\<close>

record scenario_result =
  sr_id :: string
  sr_title :: pyval
  sr_source_url :: pyval
  sr_expected :: "pyval list"
  sr_actual :: "string list"
  sr_passed :: bool

definition scenario_dict :: "scenario_result \<Rightarrow> pydict" where
  "scenario_dict r =
     [(''id'', PStr (sr_id r)), (''title'', sr_title r), (''source_url'', sr_source_url r),
      (''expected'', PList (sr_expected r)), (''actual'', PList (map PStr (sr_actual r))),
      (''passed'', PBool (sr_passed r))]"

text \<open>One round of the loop over the calls of a scenario; they share one usage.\<close>

definition scenario_call :: "string \<Rightarrow> string \<Rightarrow> pyval \<Rightarrow> (exc, tool_call) result" where
  "scenario_call new_id call_where raw_call =
     (case raw_call of
        PDict d \<Rightarrow>
          bindR (case dict_get d ''arguments'' PNone of
                   PNone \<Rightarrow> Return None
                 | PDict x \<Rightarrow> Return (Some x)
                 | _ \<Rightarrow> Raise (ValueError (call_where @ '': arguments must be an object''))) (\<lambda>arguments.
          map_errorR (\<lambda>e. if is_value_error e then ValueError (call_where @ '': '' @ exc_message e) else e)
            (create_call new_id (dict_get d ''tool'' PNone) arguments (dict_get d ''estimated_cost_usd'' (PInt 0))))
      | _ \<Rightarrow> Raise (ValueError (call_where @ '' must be an object'')))"

fun scenario_calls ::
  "policy \<Rightarrow> (nat \<Rightarrow> string) \<Rightarrow> string \<Rightarrow> nat \<Rightarrow> pyval list \<Rightarrow> usage \<Rightarrow> (exc, string list) result" where
  "scenario_calls p ids scenario_id i [] u = Return []"
| "scenario_calls p ids scenario_id i (raw # raws) u =
     bindR (scenario_call (ids i) (indexed (scenario_id @ '': calls'') i) raw) (\<lambda>c.
     bindR (evaluate p c u) (\<lambda>d.
     bindR (if d_kind d = ALLOW
            then (case usage_record u c of (Inl e, _) \<Rightarrow> Raise e | (Inr _, u') \<Rightarrow> Return u')
            else Return u) (\<lambda>u'.
     bindR (scenario_calls p ids scenario_id (i + 1) raws u') (\<lambda>rest.
     Return (kind_value (d_kind d) # rest)))))"

definition text_or_none :: "pyval \<Rightarrow> string \<Rightarrow> (exc, unit) result" where
  "text_or_none v what =
     (case v of PNone \<Rightarrow> Return () | PStr _ \<Rightarrow> Return () | _ \<Rightarrow> Raise (ValueError (what @ '' must be a string'')))"

definition run_scenario :: "policy \<Rightarrow> (nat \<Rightarrow> string) \<Rightarrow> pyval \<Rightarrow> (exc, scenario_result) result" where
  "run_scenario p ids scenario =
     (case scenario of
        PDict d \<Rightarrow>
          bindR (case dict_get d ''id'' PNone of
                   PStr s \<Rightarrow> if s = [] then Raise (ValueError ''scenario id must be a non-empty string'') else Return s
                 | _ \<Rightarrow> Raise (ValueError ''scenario id must be a non-empty string'')) (\<lambda>scenario_id.
          (case (dict_get d ''calls'' PNone, dict_get d ''expected_decisions'' PNone) of
             (PList calls, PList expected) \<Rightarrow>
               bindR (requireR (length calls = length expected)
                 (ValueError (scenario_id @ '': each call needs an expected decision''))) (\<lambda>_.
               bindR (text_or_none (dict_get d ''title'' PNone) (scenario_id @ '': title'')) (\<lambda>_.
               bindR (text_or_none (dict_get d ''source_url'' PNone) (scenario_id @ '': source_url'')) (\<lambda>_.
               bindR (scenario_calls p ids scenario_id 0 calls empty_usage) (\<lambda>actual.
               Return \<lparr>sr_id = scenario_id, sr_title = dict_get d ''title'' PNone,
                       sr_source_url = dict_get d ''source_url'' PNone, sr_expected = expected,
                       sr_actual = actual, sr_passed = (map PStr actual = expected)\<rparr>))))
           | _ \<Rightarrow> Raise (ValueError (scenario_id @ '': calls and expected_decisions must be lists''))))
      | _ \<Rightarrow> Raise (ValueError ''each scenario must be a JSON object''))"

definition remove_prefix :: "string \<Rightarrow> string \<Rightarrow> string" where
  "remove_prefix k s = (if starts_with k s then drop (length k) s else s)"

definition short_source :: "pyval \<Rightarrow> string" where
  "short_source v =
     (case v of
        PStr url \<Rightarrow>
          if url = [] then ''no upstream report''
          else (let rest = remove_prefix ''github.com/'' (remove_prefix ''http://'' (remove_prefix ''https://'' url))
                in case split_on (CHR ''/'') rest of
                     [owner, repo, kind, number] \<Rightarrow>
                       if owner \<noteq> [] \<and> repo \<noteq> [] \<and> kind \<in> {''issues'', ''discussions'', ''pull''} \<and>
                          number \<noteq> [] \<and> all_digits number
                       then owner @ ''/'' @ repo @ ''#'' @ number else rest
                   | _ \<Rightarrow> rest)
      | _ \<Rightarrow> ''no upstream report'')"

definition format_scenario :: "scenario_result \<Rightarrow> string" where
  "format_scenario r =
     (if sr_passed r then ''CAUGHT'' else ''MISSED'') @ ''  '' @
     (case sr_title r of PStr t \<Rightarrow> if t = [] then sr_id r else t | _ \<Rightarrow> sr_id r) @
     [char_of (10 :: nat)] @ replicate 8 (CHR '' '') @ join_with '', '' (sr_actual r) @ ''  '' @
     short_source (sr_source_url r)"

definition scenario_line :: "bool \<Rightarrow> scenario_result \<Rightarrow> string" where
  "scenario_line as_text r = (if as_text then format_scenario r else cli_json (scenario_dict r))"

text \<open>The loop over the scenarios prints as it goes: what it printed stays when a later one raises.\<close>

fun replay_loop ::
  "policy \<Rightarrow> (nat \<Rightarrow> nat \<Rightarrow> string) \<Rightarrow> bool \<Rightarrow> nat \<Rightarrow> pyval list \<Rightarrow> string list \<times> (exc, nat) result" where
  "replay_loop p ids as_text i [] = ([], Return 0)"
| "replay_loop p ids as_text i (s # ss) =
     (case run_scenario p (ids i) s of
        Inl e \<Rightarrow> ([], Raise e)
      | Inr r \<Rightarrow>
          (case replay_loop p ids as_text (i + 1) ss of
             (out, m) \<Rightarrow>
               (scenario_line as_text r # out,
                bindR m (\<lambda>failures. Return (if sr_passed r then failures else failures + 1)))))"

definition replay_summary :: "bool \<Rightarrow> nat \<Rightarrow> nat \<Rightarrow> string" where
  "replay_summary as_text failures count =
     (if as_text
      then nat_text (count - failures) @ '' caught, '' @ nat_text failures @ '' missed of '' @ nat_text count @ '' scenarios''
      else cli_json [(''summary'', PDict
        [(''passed'', PInt (int count - int failures)), (''failed'', PInt (int failures)),
         (''total'', PInt (int count))])])"

definition load_scenarios :: "cli_env \<Rightarrow> (exc, string) result \<Rightarrow> (exc, pyval list) result" where
  "load_scenarios env text_read =
     bindR text_read (\<lambda>t.
     bindR (cli_loads env ''scenario file is nested too deeply'' t) (\<lambda>v.
       case v of
         PList items \<Rightarrow> Return items
       | _ \<Rightarrow> Raise (ValueError ''scenario file must contain a JSON list'')))"

definition cli_replay :: "cli_env \<Rightarrow> (exc, string) result \<Rightarrow> bool \<Rightarrow> cli_run" where
  "cli_replay env text_read as_text =
     (case bindR (ce_policy env) (\<lambda>p. bindR (load_scenarios env text_read) (\<lambda>items. Return (p, items))) of
        Inl e \<Rightarrow> ([], Raise (Other e))
      | Inr (p, items) \<Rightarrow>
          (case replay_loop p (ce_ids env) as_text 0 items of
             (out, Inl e) \<Rightarrow> (out, Raise (Other e))
           | (out, Inr failures) \<Rightarrow>
               (out @ [replay_summary as_text failures (length items)],
                Return (if failures \<noteq> 0 then 1 else 0))))"

section \<open>Benchmark\<close>

record benchmark_args =
  bm_freeze :: "file_read option"
  bm_policy_file :: file_read
  bm_cases_file :: file_read
  bm_cases :: "(bench_error, benchmark_case list) result"
  bm_writes :: "(exc, unit) result"
  bm_json_path :: string
  bm_markdown_path :: string
  bm_thresholds :: thresholds

definition benchmark_reports ::
  "(rat \<Rightarrow> string) \<Rightarrow> (string \<Rightarrow> (json_error, pyval) result) \<Rightarrow> cli_env \<Rightarrow> benchmark_args \<Rightarrow>
     (bench_error, string \<times> string \<times> metrics) result" where
  "benchmark_reports float_repr strict_loads env a =
     (case bm_freeze a of
        Some manifest_file \<Rightarrow>
          bindR (verify_freeze strict_loads manifest_file (bm_policy_file a) (bm_cases_file a)) (\<lambda>manifest.
          write_reports_with_metrics float_repr (ce_policy env) (bm_cases a) (bm_policy_file a) (bm_cases_file a)
            KIND_HOLDOUT (Some HOLDOUT_LABELS) (Some (frozen_text manifest ''policy_sha256'')))
      | None \<Rightarrow>
          write_reports_with_metrics float_repr (ce_policy env) (bm_cases a) (bm_policy_file a) (bm_cases_file a)
            KIND_DEVELOPMENT None None)"

definition threshold_lines :: "string list \<Rightarrow> string list" where
  "threshold_lines failures =
     map (\<lambda>f. ''threshold failed: '' @ f) failures @
     (if failures \<noteq> [] then [nat_text (length failures) @ '' threshold(s) failed''] else [])"

definition cli_benchmark ::
  "(rat \<Rightarrow> string) \<Rightarrow> (string \<Rightarrow> (json_error, pyval) result) \<Rightarrow> cli_env \<Rightarrow> benchmark_args \<Rightarrow> cli_run" where
  "cli_benchmark float_repr strict_loads env a =
     (case bindR (benchmark_reports float_repr strict_loads env a) (\<lambda>(j, md, m).
           bindR (lift_exc (bm_writes a)) (\<lambda>_. Return m)) of
        Inl e \<Rightarrow> ([], Raise e)
      | Inr m \<Rightarrow>
          (let wrote = [''wrote '' @ bm_json_path a, ''wrote '' @ bm_markdown_path a];
               failures = check_thresholds float_repr m (bm_thresholds a)
           in if \<not> any_set (bm_thresholds a) then (wrote, Return 0)
              else (wrote @ threshold_lines failures, Return (if failures \<noteq> [] then EXIT_THRESHOLDS else 0))))"

section \<open>Main\<close>

text \<open>The dashboard serves until it is interrupted; the proxy's exit code is its own.\<close>

definition cli_dashboard :: "(exc, policy \<times> string) result \<Rightarrow> cli_run" where
  "cli_dashboard opened = finish (bindR opened (\<lambda>_. Return ([], 0)))"

datatype command =
    CmdCheck call_args
  | CmdDashboard "(exc, policy \<times> string) result"
  | CmdMcp "(exc, nat) result"
  | CmdBenchmark benchmark_args
  | CmdPolicyLint bool
  | CmdPolicyExplain call_args
  | CmdDoctor doctor_env bool
  | CmdReplay "(exc, string) result" bool

definition run_command ::
  "(rat \<Rightarrow> string) \<Rightarrow> (string \<Rightarrow> (json_error, pyval) result) \<Rightarrow> cli_env \<Rightarrow> command \<Rightarrow> cli_run" where
  "run_command float_repr strict_loads env cmd =
     (case cmd of
        CmdCheck a \<Rightarrow> cli_check env a
      | CmdDashboard opened \<Rightarrow> cli_dashboard opened
      | CmdMcp m \<Rightarrow> finish (bindR m (\<lambda>n. Return ([], n)))
      | CmdBenchmark a \<Rightarrow> cli_benchmark float_repr strict_loads env a
      | CmdPolicyLint as_text \<Rightarrow> cli_lint env as_text
      | CmdPolicyExplain a \<Rightarrow> cli_explain env a
      | CmdDoctor d as_text \<Rightarrow> cli_doctor d as_text
      | CmdReplay text_read as_text \<Rightarrow> cli_replay env text_read as_text)"

definition main_exit ::
  "(rat \<Rightarrow> string) \<Rightarrow> (string \<Rightarrow> (json_error, pyval) result) \<Rightarrow> cli_env \<Rightarrow> command \<Rightarrow> cli_exit" where
  "main_exit float_repr strict_loads env cmd = exit_of (run_command float_repr strict_loads env cmd)"

declare exit_by_decision_def [evals] EXIT_THRESHOLDS_def [evals] caught_def [evals] run_main_def [evals]
  exit_of_def [evals] cli_loads_def [evals] parse_json_object_def [evals] proposed_call_def [evals]
  finish_def [evals] cli_check_def [evals] cli_explain_def [evals] cli_lint_def [evals] cli_doctor_def [evals]
  scenario_call_def [evals] text_or_none_def [evals] run_scenario_def [evals] remove_prefix_def [evals]
  short_source_def [evals] format_scenario_def [evals] scenario_line_def [evals] load_scenarios_def [evals]
  cli_replay_def [evals] benchmark_reports_def [evals] threshold_lines_def [evals] cli_benchmark_def [evals]
  cli_dashboard_def [evals] run_command_def [evals] main_exit_def [evals]

section \<open>Exit codes\<close>

lemma exit_by_decision_inject [simp]: "exit_by_decision j = exit_by_decision k \<longleftrightarrow> j = k"
  by (cases j; cases k) (simp_all add: exit_by_decision_def)

lemma exit_by_decision_error [simp]: "exit_by_decision k \<noteq> 2" "2 \<noteq> exit_by_decision k"
  by (cases k; simp add: exit_by_decision_def)+

lemma exit_of_simps [simp]:
  "exit_of (out, Inr n) = Exited n"
  "exit_of (out, Inl e) = (if caught e then Exited 2 else Uncaught e)"
  by (simp_all add: exit_of_def run_main_def)

lemma finish_simps [simp]: "finish (Inl e) = ([], Inl (Other e))" "finish (Inr (out, n)) = (out, Inr n)"
  by (simp_all add: finish_def)

lemma finish_exit:
  "n \<noteq> 2 \<Longrightarrow> exit_of (finish m) = Exited n \<longleftrightarrow> (\<exists>out. m = Inr (out, n))"
  by (cases m) (auto simp: finish_def)

lemma check_exit_iff:
  "exit_of (cli_check env a) = Exited (exit_by_decision k) \<longleftrightarrow>
     (\<exists>p c d. proposed_call env a = Inr (p, c) \<and> evaluate p c empty_usage = Inr d \<and> d_kind d = k)"
  unfolding cli_check_def finish_exit [OF exit_by_decision_error(1)]
  by (fastforce simp: result_simps split_beta)

section \<open>The loops of replay and benchmark\<close>

lemma case_call_scenario: "case_call i loc raw = Inr c \<Longrightarrow> scenario_call i loc' raw = Inr c"
  by (auto simp: case_call_def scenario_call_def result_simps split: pyval.splits sum.splits if_splits)

lemma decision_kind_of_text: "decision_kind_of v loc = Inr k \<Longrightarrow> v = PStr (kind_value k)"
  by (auto simp: decision_kind_of_def Let_def split: pyval.splits if_splits)

lemma scenario_calls_case:
  assumes "case_calls ids loc i raws es = Inr pairs" "length raws = length es"
    "run_case_calls p pairs u = Inr outs"
  shows "scenario_calls p ids sid i raws u = Inr (map (kind_value \<circ> co_actual) outs) \<and>
    es = map (PStr \<circ> kind_value \<circ> co_expected) outs"
  using assms
proof (induction ids loc i raws es arbitrary: pairs u outs rule: case_calls.induct)
  case (1 ids loc i raw raws e es)
  from "1.prems"(1) obtain c k rest where c: "case_call (ids i) (indexed (loc @ ''.calls'') i) raw = Inr c"
    and k: "decision_kind_of e (indexed (loc @ ''.expected_decisions'') i) = Inr k"
    and rest: "case_calls ids loc (i + 1) raws es = Inr rest" "pairs = (c, k) # rest"
    by (auto simp: result_simps)
  from "1.prems"(3) rest obtain d u' outs' where d: "evaluate p c u = Inr d"
    and u': "(if d_kind d = ALLOW
            then (case usage_record u c of (Inl e, _) \<Rightarrow> Raise e | (Inr _, u') \<Rightarrow> Return u')
            else Return u) = Inr u'"
    and outs: "run_case_calls p rest u' = Inr outs'"
      "outs = \<lparr>co_expected = k, co_actual = d_kind d\<rparr> # outs'"
    by (auto simp: result_simps)
  have "length raws = length es" using "1.prems"(2) by simp
  note IH = "1.IH" [OF rest(1) this outs(1)]
  show ?case
    using IH d u' outs(2) decision_kind_of_text [OF k]
    by (simp add: case_call_scenario [OF c])
qed simp_all

lemma actual_is_expected:
  "map (PStr \<circ> kind_value \<circ> co_actual) outs = map (PStr \<circ> kind_value \<circ> co_expected) outs \<longleftrightarrow>
     list_all (\<lambda>x. co_expected x = co_actual x) outs"
proof -
  have "kind_value j = kind_value k \<longleftrightarrow> j = k" for j k by (cases j; cases k) simp_all
  then show ?thesis by (induction outs) auto
qed

lemma replay_loop_exit:
  "(\<exists>out failures. replay_loop p ids as_text i items = (out, Inr failures) \<and> failures = 0) \<longleftrightarrow>
     list_all (\<lambda>(j, s). case run_scenario p (ids j) s of Inl e \<Rightarrow> False | Inr r \<Rightarrow> sr_passed r) (enumerate i items)"
proof (induction items arbitrary: i)
  case (Cons s items)
  show ?case
    using Cons [of "i + 1"]
    by (cases "run_scenario p (ids i) s"; cases "replay_loop p ids as_text (i + 1) items")
       (auto simp: result_simps)
qed simp

section \<open>Properties\<close>

text \<open>The call of the arguments, made with \<open>call_with_arguments\<close> on a firewall that was just made from the
  policy, without state store, log or approver.\<close>

definition fresh_run ::
  "cli_env \<Rightarrow> call_args \<Rightarrow> (unit, 'r) call_env \<Rightarrow> pydict \<Rightarrow> policy \<Rightarrow> (exc, 'r) result \<times> usage world" where
  "fresh_run env a ce arguments p =
     call_with_arguments (memory_firewall p None) ce (ce_ids env 0 0) (PStr (ck_tool a)) arguments
       (PStr (ck_cost a)) (start_world empty_usage)"

text \<open>The first cost is always recorded: an accepted cost is too small to overflow.\<close>

lemma first_cost_added:
  assumes "cost_ok (Some MAX_CALL_COST_USD) x"
  shows "\<exists>y. dec_add dec_zero x = Inr y"
proof -
  obtain s c e where x: "x = DFin s c e" using assms by (cases x) (simp_all add: cost_ok_def)
  define e0 where "e0 = min 0 e"
  define n where "n = c * 10 ^ nat (e - e0)"
  have "dec_value x \<le> 10 ^ 12" "0 \<le> dec_value x"
    using assms by (simp_all add: cost_ok_def MAX_CALL_COST_USD_def PyDecimal.signed_def)
  then have "\<bar>dec_value x\<bar> \<le> 10 ^ 12" by simp
  moreover have "\<bar>dec_value x\<bar> = of_nat n * 10 powi e0"
    using powi_split [of e0 e] by (simp add: x e0_def n_def PyDecimal.signed_def abs_mult)
  ultimately have "of_nat n * (10::rat) powi e0 \<le> 10 ^ 12" by simp
  then have "of_nat n * (10::rat) powi e0 * 10 ^ nat (- e0) \<le> 10 ^ 12 * 10 ^ nat (- e0)"
    by (rule mult_right_mono) simp
  moreover have "(10::rat) powi e0 * 10 ^ nat (- e0) = 1"
    using powi_split [of e0 0] by (simp add: e0_def mult.commute)
  ultimately have "of_nat n \<le> (10::rat) ^ (12 + nat (- e0))"
    by (simp add: power_add mult.assoc)
  then have le: "n \<le> 10 ^ (12 + nat (- e0))"
    by (metis of_nat_le_iff of_nat_numeral of_nat_power)
  have "(10::nat) ^ (12 + nat (- e0)) < 10 ^ (13 + nat (- e0))"
    by (rule power_strict_increasing) simp_all
  with le have "n < 10 ^ (13 + nat (- e0))" by linarith
  then have "ndigits n \<le> 13 + nat (- e0)" by (rule ndigits_le [rotated]) simp
  then have small: "int (ndigits n) + e0 \<le> 13" by (simp add: e0_def min_def split: if_splits)
  have "\<exists>y. dec_fix b n e0 = Inr y" for b
    using small by (auto simp: dec_fix_def Let_def dec_prec_def dec_etop_def dec_etiny_def)
  moreover have "nat \<bar>scale_to e0 False 0 0 + scale_to e0 s c e\<bar> = n"
    by (simp add: scale_to_def PyDecimal.signed_def n_def nat_mult_distrib nat_power_eq abs_mult)
  ultimately show ?thesis by (simp add: x dec_zero_def Let_def e0_def)
qed

lemma fresh_run_effects:
  fixes ce :: "(unit, 'r) call_env"
  assumes "ce_approver ce = None"
  shows "create_call (ce_ids env 0 0) (PStr (ck_tool a)) (Some arguments) (PStr (ck_cost a)) = Inl e \<Longrightarrow>
      fresh_run env a ce arguments p = (Inl e, start_world empty_usage)"
    and "create_call (ce_ids env 0 0) (PStr (ck_tool a)) (Some arguments) (PStr (ck_cost a)) = Inr c \<Longrightarrow>
      evaluate p c empty_usage = Inl e \<Longrightarrow>
      fresh_run env a ce arguments p = (Inl e, start_world empty_usage)"
    and "create_call (ce_ids env 0 0) (PStr (ck_tool a)) (Some arguments) (PStr (ck_cost a)) = Inr c \<Longrightarrow>
      evaluate p c empty_usage = Inr d \<Longrightarrow> d_kind d = BLOCK \<Longrightarrow>
      fst (fresh_run env a ce arguments p) = Inl (ToolCallBlocked (d_reason d) c d) \<and>
      w_effects (snd (fresh_run env a ce arguments p)) = [EReserved False d]"
    and "create_call (ce_ids env 0 0) (PStr (ck_tool a)) (Some arguments) (PStr (ck_cost a)) = Inr c \<Longrightarrow>
      evaluate p c empty_usage = Inr d \<Longrightarrow> d_kind d = REQUIRE_APPROVAL \<Longrightarrow>
      fst (fresh_run env a ce arguments p) = Inl (ApprovalRequired (d_reason d) c d) \<and>
      w_effects (snd (fresh_run env a ce arguments p)) = [EReserved False d]"
    and "create_call (ce_ids env 0 0) (PStr (ck_tool a)) (Some arguments) (PStr (ck_cost a)) = Inr c \<Longrightarrow>
      evaluate p c empty_usage = Inr d \<Longrightarrow> d_kind d = ALLOW \<Longrightarrow>
      w_effects (snd (fresh_run env a ce arguments p)) = [EReserved False d, EToolRan]"
proof -
  note run = fresh_run_def call_with_arguments_def execute_def authorize_def approve_def reserve_step_def
    audit_step_def memory_firewall_def mem_evaluate_and_reserve_def step_defs start_world_def reserves_usage_def
  show "create_call (ce_ids env 0 0) (PStr (ck_tool a)) (Some arguments) (PStr (ck_cost a)) = Inl e \<Longrightarrow>
      fresh_run env a ce arguments p = (Inl e, start_world empty_usage)"
    by (simp add: run)
  show "create_call (ce_ids env 0 0) (PStr (ck_tool a)) (Some arguments) (PStr (ck_cost a)) = Inr c \<Longrightarrow>
      evaluate p c empty_usage = Inl e \<Longrightarrow>
      fresh_run env a ce arguments p = (Inl e, start_world empty_usage)"
    by (simp add: run)
  show "create_call (ce_ids env 0 0) (PStr (ck_tool a)) (Some arguments) (PStr (ck_cost a)) = Inr c \<Longrightarrow>
      evaluate p c empty_usage = Inr d \<Longrightarrow> d_kind d = BLOCK \<Longrightarrow>
      fst (fresh_run env a ce arguments p) = Inl (ToolCallBlocked (d_reason d) c d) \<and>
      w_effects (snd (fresh_run env a ce arguments p)) = [EReserved False d]"
    by (simp add: run)
  show "create_call (ce_ids env 0 0) (PStr (ck_tool a)) (Some arguments) (PStr (ck_cost a)) = Inr c \<Longrightarrow>
      evaluate p c empty_usage = Inr d \<Longrightarrow> d_kind d = REQUIRE_APPROVAL \<Longrightarrow>
      fst (fresh_run env a ce arguments p) = Inl (ApprovalRequired (d_reason d) c d) \<and>
      w_effects (snd (fresh_run env a ce arguments p)) = [EReserved False d]"
    by (simp add: run assms(1))
  assume c: "create_call (ce_ids env 0 0) (PStr (ck_tool a)) (Some arguments) (PStr (ck_cost a)) = Inr c" and d: "evaluate p c empty_usage = Inr d" "d_kind d = ALLOW"
  obtain y where "dec_add (u_cost empty_usage) (tc_cost c) = Inr y"
    using first_cost_added [of "tc_cost c"] create_call_ok [of _ _ _ _ c] c
    by (auto simp: call_ok_def empty_usage_def)
  then obtain u where "usage_record empty_usage c = (Inr (), u)" by (simp add: usage_record_def Let_def)
  with c d show "w_effects (snd (fresh_run env a ce arguments p)) = [EReserved False d, EToolRan]"
    by (simp add: run run_operation_def run_tool_def audit_terminal_def split: sum.split prod.split)
qed

text \<open>C36: The exit code of \<open>check\<close> tells what the firewall would do. When \<open>--arguments\<close> is a JSON object and the
  policy loads, the code is 0 exactly when a firewall just made from the policy, with no approver, runs
  the tool on that call, 3 exactly when it decides and raises \<open>ApprovalRequired\<close>, and 4 exactly when it
  decides and raises \<open>ToolCallBlocked\<close>, whatever the tool does; in every other case, a refused call or an
  error of any kind, the code is none of these.\<close>

theorem check_exit_faithful:
  fixes ce :: "(unit, 'r) call_env"
  assumes "ce_approver ce = None"
  shows "(exit_of (cli_check env a) = Exited 0 \<longleftrightarrow>
      (\<exists>arguments p. parse_json_object env (ck_arguments a) ''--arguments'' = Inr arguments \<and> ce_policy env = Inr p \<and>
         EToolRan \<in> set (w_effects (snd (fresh_run env a ce arguments p))))) \<and>
    (exit_of (cli_check env a) = Exited 3 \<longleftrightarrow>
      (\<exists>arguments p c d. parse_json_object env (ck_arguments a) ''--arguments'' = Inr arguments \<and> ce_policy env = Inr p \<and>
         fst (fresh_run env a ce arguments p) = Inl (ApprovalRequired (d_reason d) c d) \<and>
         w_effects (snd (fresh_run env a ce arguments p)) = [EReserved False d])) \<and>
    (exit_of (cli_check env a) = Exited 4 \<longleftrightarrow>
      (\<exists>arguments p c d. parse_json_object env (ck_arguments a) ''--arguments'' = Inr arguments \<and> ce_policy env = Inr p \<and>
         fst (fresh_run env a ce arguments p) = Inl (ToolCallBlocked (d_reason d) c d) \<and>
         w_effects (snd (fresh_run env a ce arguments p)) = [EReserved False d]))"
    (is "?allows \<and> ?holds \<and> ?blocks")
proof (cases "proposed_call env a")
  case (Inl e)
  then have no: "exit_of (cli_check env a) \<noteq> Exited n" if "n \<noteq> 2" for n
    using that by (simp add: cli_check_def)
  have "fresh_run env a ce arguments p = (Inl e, start_world empty_usage)"
    if "parse_json_object env (ck_arguments a) ''--arguments'' = Inr arguments" "ce_policy env = Inr p" for arguments p
    using Inl that fresh_run_effects(1) [OF assms] by (auto simp: proposed_call_def result_simps)
  then show ?thesis using no by (auto simp: start_world_def)
next
  case (Inr pc)
  then obtain arguments p c where made: "parse_json_object env (ck_arguments a) ''--arguments'' = Inr arguments"
    "ce_policy env = Inr p" "create_call (ce_ids env 0 0) (PStr (ck_tool a)) (Some arguments) (PStr (ck_cost a)) = Inr c"
    "pc = (p, c)"
    by (auto simp: proposed_call_def result_simps)
  show ?thesis
  proof (cases "evaluate p c empty_usage")
    case (Inl e)
    then show ?thesis
      using Inr made fresh_run_effects(2) [OF assms made(3) Inl]
      by (auto simp: cli_check_def start_world_def)
  next
    case d: (Inr d)
    have code: "exit_of (cli_check env a) = Exited (exit_by_decision (d_kind d))"
      using Inr made(4) d by (simp add: cli_check_def)
    note effects = fresh_run_effects(3-5) [OF assms made(3) d]
    show ?thesis
      using code made(1,2) effects by (cases "d_kind d") (auto simp: exit_by_decision_def)
  qed
qed

text \<open>\<open>policy explain\<close> and \<open>check\<close> never disagree: when an explanation ends with the exit code of a decision,
  the check of the same call ends with the same code.\<close>

theorem explain_exit_agrees:
  assumes "exit_of (cli_explain env a) = Exited (exit_by_decision k)"
  shows "exit_of (cli_check env a) = Exited (exit_by_decision k)"
proof -
  obtain p c x where "proposed_call env a = Inr (p, c)" "explain_call p c empty_usage = Inr x"
    "d_kind (cx_decision x) = k"
    using assms unfolding cli_explain_def finish_exit [OF exit_by_decision_error(1)]
    by (fastforce simp: result_simps split_beta)
  moreover from this(2) have "evaluate p c empty_usage = Inr (cx_decision x)"
    by (rule explain_call_Inr)
  ultimately show ?thesis unfolding check_exit_iff by blast
qed

definition sample_cli :: cli_env where
  "sample_cli =
     \<lparr>ce_loads = (\<lambda>_. Inr (PDict [])), ce_syntax_text = (\<lambda>_ _. []), ce_policy_path = ''p.json'',
      ce_policy = Inr sample_policy, ce_ids = (\<lambda>_ _. ''c2'')\<rparr>"

definition sample_deploy :: call_args where
  "sample_deploy = \<lparr>ck_tool = ''deploy'', ck_arguments = ''{}'', ck_cost = ''0'', ck_as_text = True\<rparr>"

lemma sample_proposed: "proposed_call sample_cli sample_deploy = Inr (sample_policy, deploy_call)"
  by (simp add: proposed_call_def parse_json_object_def cli_loads_def sample_cli_def sample_deploy_def
      deploy_call_def evals)

theorem check_exit_faithful_witness:
  "exit_of (cli_check sample_cli sample_deploy) = Exited 3 \<and>
   exit_of (cli_check sample_cli (sample_deploy\<lparr>ck_tool := ''shell''\<rparr>)) = Exited 4"
proof -
  let ?ce = "calm_env () None" and ?shell = "sample_deploy\<lparr>ck_tool := ''shell''\<rparr>"
  have none: "ce_approver ?ce = None" by (simp add: calm_env_def)
  have parsed: "parse_json_object sample_cli (ck_arguments a) ''--arguments'' = Inr []" "ce_policy sample_cli = Inr sample_policy"
    for a by (simp_all add: parse_json_object_def cli_loads_def sample_cli_def)
  have deploy: "create_call (ce_ids sample_cli 0 0) (PStr (ck_tool sample_deploy)) (Some []) (PStr (ck_cost sample_deploy)) =
      Inr deploy_call"
    by (simp add: sample_cli_def sample_deploy_def deploy_call_def evals)
  have shell: "create_call (ce_ids sample_cli 0 0) (PStr (ck_tool ?shell)) (Some []) (PStr (ck_cost ?shell)) =
      Inr (other_call\<lparr>tc_id := ''c2''\<rparr>)"
    by (simp add: sample_cli_def sample_deploy_def other_call_def evals)
  have blocks: "evaluate sample_policy (other_call\<lparr>tc_id := ''c2''\<rparr>) empty_usage = Inr (default_decision_of sample_policy)"
    by (simp add: sample_policy_def other_call_def evals get_count_def PyDecimal.signed_def
        scale_to_def dec_zero_def dec_fix_def)
  have kinds: "d_kind (rule_decision 1 (p_rules sample_policy ! 1)) = REQUIRE_APPROVAL"
    "d_kind (default_decision_of sample_policy) = BLOCK"
    by (simp_all add: rule_decision_def default_decision_of_def sample_policy_def)
  note held = fresh_run_effects(4) [OF none deploy sample_decisions(2) kinds(1)]
  note blocked = fresh_run_effects(3) [OF none shell blocks kinds(2)]
  show ?thesis
  proof
    show "exit_of (cli_check sample_cli sample_deploy) = Exited 3"
      by (rule iffD2 [OF check_exit_faithful [OF none, THEN conjunct2, THEN conjunct1]], intro exI conjI,
          rule parsed(1), rule parsed(2), rule conjunct1 [OF held], rule conjunct2 [OF held])
    show "exit_of (cli_check sample_cli ?shell) = Exited 4"
      by (rule iffD2 [OF check_exit_faithful [OF none, THEN conjunct2, THEN conjunct2]], intro exI conjI,
          rule parsed(1), rule parsed(2), rule conjunct1 [OF blocked], rule conjunct2 [OF blocked])
  qed
qed

theorem explain_exit_agrees_witness: "exit_of (cli_check sample_cli sample_deploy) = Exited 3"
proof -
  obtain x where x: "explain_call sample_policy deploy_call empty_usage = Inr x"
    by (simp add: sample_policy_def deploy_call_def evals get_count_def PyDecimal.signed_def
        scale_to_def dec_zero_def dec_fix_def)
  have "evaluate sample_policy deploy_call empty_usage = Inr (cx_decision x)"
    using x by (rule explain_call_Inr)
  then have "d_kind (cx_decision x) = REQUIRE_APPROVAL"
    using sample_decisions(2) by (simp add: rule_decision_def sample_policy_def)
  then have "exit_of (cli_explain sample_cli sample_deploy) = Exited (exit_by_decision REQUIRE_APPROVAL)"
    by (simp add: cli_explain_def sample_proposed x)
  then have "exit_of (cli_check sample_cli sample_deploy) = Exited (exit_by_decision REQUIRE_APPROVAL)"
    by (rule explain_exit_agrees)
  then show ?thesis by (simp add: exit_by_decision_def)
qed

text \<open>C37: 
  \<open>replay\<close> and the benchmark decide alike, although each has its own loop. A case the benchmark accepts and
  runs is a scenario that \<open>replay\<close> runs to the same decisions, call by call, and that passes in one
  exactly when it passes in the other.
\<close>

theorem replay_agrees_with_benchmark:
  assumes "parse_case ids index seen item = Inr ca" "run_case p ca = Inr outcome"
  shows "\<exists>r. run_scenario p ids item = Inr r \<and> sr_id r = so_id outcome \<and>
    sr_actual r = map (kind_value \<circ> co_actual) (so_calls outcome) \<and>
    sr_expected r = map (PStr \<circ> kind_value \<circ> co_expected) (so_calls outcome) \<and>
    sr_passed r = so_passed outcome"
proof -
  obtain d where item: "item = PDict d" using assms(1) by (auto simp: parse_case_def Let_def split: pyval.splits)
  obtain calls expected where lists: "dict_get d ''calls'' PNone = PList calls"
    "dict_get d ''expected_decisions'' PNone = PList expected"
    using assms(1) unfolding item parse_case_def Let_def
    by (cases "dict_get d ''calls'' PNone"; cases "dict_get d ''expected_decisions'' PNone") (auto simp: result_simps)
  obtain s where id: "dict_get d ''id'' PNone = PStr s" "s \<noteq> []"
    using assms(1) unfolding item parse_case_def Let_def
    by (cases "dict_get d ''id'' PNone") (auto simp: result_simps split: if_splits)
  obtain category where category: "dict_get d ''category'' PNone = PStr category" "\<not> blank category"
    using assms(1) unfolding item parse_case_def Let_def
    by (cases "dict_get d ''category'' PNone") (auto simp: result_simps id split: if_splits)
  have "\<exists>pairs provenance url title loc. case_calls ids loc 0 calls expected = Inr pairs \<and>
      length calls = length expected \<and> text_or_null (dict_get d ''source_url'' PNone) (loc @ ''.source_url'') = Inr url \<and>
      text_or_null (dict_get d ''title'' PNone) (loc @ ''.title'') = Inr title \<and>
      ca = \<lparr>ca_id = s, ca_category = category, ca_provenance = provenance, ca_source_url = url, ca_title = title,
             ca_calls = map fst pairs, ca_expected = map snd pairs\<rparr>"
    using assms(1) unfolding item parse_case_def Let_def
    by (simp add: lists id category result_simps) blast
  then obtain pairs url title loc where ca: "case_calls ids loc 0 calls expected = Inr pairs" "length calls = length expected"
    "ca_id ca = s" "zip (ca_calls ca) (ca_expected ca) = pairs"
    "text_or_null (dict_get d ''source_url'' PNone) (loc @ ''.source_url'') = Inr url"
    "text_or_null (dict_get d ''title'' PNone) (loc @ ''.title'') = Inr title"
    by (auto simp: zip_map_fst_snd)
  have texts: "text_or_none (dict_get d ''source_url'' PNone) w = Inr ()" "text_or_none (dict_get d ''title'' PNone) w = Inr ()" for w
    using ca(5,6) by (auto simp: text_or_null_def text_or_none_def split: pyval.splits)
  obtain outs where outs: "run_case_calls p pairs empty_usage = Inr outs" "so_calls outcome = outs" "so_id outcome = s"
    "so_passed outcome = list_all (\<lambda>x. co_expected x = co_actual x) outs"
    using assms(2) ca(3,4) by (auto simp: run_case_def result_simps)
  show ?thesis
    using scenario_calls_case [OF ca(1,2) outs(1)] actual_is_expected [of outs]
    by (simp add: run_scenario_def item lists id ca(2) texts outs comp_assoc)
qed

definition sample_item :: pyval where
  "sample_item = PDict
     [(''id'', PStr ''a''), (''category'', PStr ''email''), (''provenance'', PStr ''synthetic''),
      (''calls'', PList [PDict [(''tool'', PStr ''send'')], PDict [(''tool'', PStr ''move'')]]),
      (''expected_decisions'', PList [PStr ''block'', PStr ''allow''])]"

theorem replay_agrees_with_benchmark_witness:
  "\<exists>r. run_scenario strict_policy (\<lambda>_. ''i'') sample_item = Inr r \<and> sr_actual r = [''block'', ''block''] \<and> \<not> sr_passed r"
proof -
  obtain ca where ca: "parse_case (\<lambda>_. ''i'') 0 [] sample_item = Inr ca" "length (ca_calls ca) = 2"
    "ca_expected ca = [BLOCK, ALLOW]"
    by (simp add: sample_item_def evals)
  then obtain c d where calls: "ca_calls ca = [c, d]" by (auto simp: length_Suc_conv numeral_2_eq_2)
  have blocks: "d_kind (default_decision_of strict_policy) = BLOCK"
    by (simp add: default_decision_of_def strict_policy_def)
  obtain out where "run_case strict_policy ca = Inr out"
    "so_calls out = [\<lparr>co_expected = BLOCK, co_actual = BLOCK\<rparr>, \<lparr>co_expected = ALLOW, co_actual = BLOCK\<rparr>]"
    "\<not> so_passed out"
    by (simp add: run_case_def calls ca(3) strict_policy_blocks blocks)
  then show ?thesis using replay_agrees_with_benchmark [OF ca(1)] by fastforce
qed

text \<open>
  \<open>replay\<close> exits with 0 exactly when the policy and the scenarios load and every one of the scenarios runs
  and passes; nothing that stops it midway reads as success.
\<close>

theorem replay_exit_faithful:
  "exit_of (cli_replay env text_read as_text) = Exited 0 \<longleftrightarrow>
     (\<exists>p items. ce_policy env = Inr p \<and> load_scenarios env text_read = Inr items \<and>
        list_all (\<lambda>(i, s). case run_scenario p (ce_ids env i) s of Inl e \<Rightarrow> False | Inr r \<Rightarrow> sr_passed r)
          (enumerate 0 items))"
proof -
  have "exit_of (cli_replay env text_read as_text) = Exited 0 \<longleftrightarrow>
      (\<exists>p items. ce_policy env = Inr p \<and> load_scenarios env text_read = Inr items \<and>
         (\<exists>out failures. replay_loop p (ce_ids env) as_text 0 items = (out, Inr failures) \<and> failures = 0))"
    by (cases "ce_policy env"; cases "load_scenarios env text_read")
       (auto simp: cli_replay_def split: prod.splits sum.splits)
  then show ?thesis unfolding replay_loop_exit .
qed

text \<open>
  A benchmark under a freeze reports on the frozen files only. When it ends with the code of a passed or a
  failed gate, the policy and the cases have the hashes the manifest states, and the report that was
  written carries them.
\<close>

theorem frozen_benchmark_reports:
  assumes "bm_freeze a = Some manifest_file" "benchmark_reports float_repr strict_loads env a = Inr (json, markdown, m)"
  shows "\<exists>manifest r policy_bytes cases_bytes.
    load_freeze strict_loads manifest_file = Inr manifest \<and>
    bm_policy_file a = Inr policy_bytes \<and> bm_cases_file a = Inr cases_bytes \<and>
    json = render_json float_repr r @ [char_of (10 :: nat)] \<and>
    rp_policy_sha256 r = sha256_hex policy_bytes \<and> rp_policy_sha256 r = frozen_text manifest ''policy_sha256'' \<and>
    rp_frozen_policy_sha256 r = Some (rp_policy_sha256 r) \<and>
    rp_cases_sha256 r = sha256_hex cases_bytes \<and> rp_cases_sha256 r = frozen_text manifest ''holdout_cases_sha256''"
proof -
  obtain manifest where v: "verify_freeze strict_loads manifest_file (bm_policy_file a) (bm_cases_file a) = Inr manifest"
    and w: "write_reports_with_metrics float_repr (ce_policy env) (bm_cases a) (bm_policy_file a) (bm_cases_file a)
            KIND_HOLDOUT (Some HOLDOUT_LABELS) (Some (frozen_text manifest ''policy_sha256'')) = Inr (json, markdown, m)"
    using assms by (auto simp: benchmark_reports_def result_simps)
  obtain policy_bytes cases_bytes where bytes: "bm_policy_file a = Inr policy_bytes" "bm_cases_file a = Inr cases_bytes"
    "load_freeze strict_loads manifest_file = Inr manifest"
    "frozen_text manifest ''policy_sha256'' = sha256_hex policy_bytes"
    "frozen_text manifest ''holdout_cases_sha256'' = sha256_hex cases_bytes"
    using v by (auto simp: verify_freeze_def sha256_file_def drift_def result_simps requireR_def split: sum.splits if_splits)
  obtain r where "json = render_json float_repr r @ [char_of (10 :: nat)]"
    "rp_policy_sha256 r = sha256_hex policy_bytes" "rp_cases_sha256 r = sha256_hex cases_bytes"
    "rp_frozen_policy_sha256 r = Some (frozen_text manifest ''policy_sha256'')"
    using w by (auto simp: write_reports_with_metrics_def build_report_with_metrics_def assemble_report_def
        sha256_file_def bytes(1,2) result_simps)
  then show ?thesis using bytes by metis
qed

definition sample_frozen :: benchmark_args where
  "sample_frozen =
     \<lparr>bm_freeze = Some (Inr ''m''), bm_policy_file = Inr ''p'', bm_cases_file = Inr ''h'', bm_cases = Inr [demo_case],
      bm_writes = Inr (), bm_json_path = ''report.json'', bm_markdown_path = ''report.md'',
      bm_thresholds = \<lparr>th_max_dangerous_allow_rate = None, th_max_safe_friction_rate = None,
        th_min_intervention_recall = None, th_min_approval_accuracy = None, th_min_exact_accuracy = None\<rparr>\<rparr>"

abbreviation sample_reports :: "(bench_error, string \<times> string \<times> metrics) result" where
  "sample_reports \<equiv>
     benchmark_reports (\<lambda>_. ''0.0'') (\<lambda>_. Inr (PDict demo_manifest)) (sample_cli\<lparr>ce_policy := Inr strict_policy\<rparr>) sample_frozen"

lemma sample_reports: "\<exists>json markdown m. sample_reports = Inr (json, markdown, m)"
proof -
  have m: "demo_manifest =
      [(''schema_version'', PInt 1), (''kind'', PStr ''policy-freeze''), (''label'', PStr FREEZE_LABEL),
       (''policy_sha256'', PStr (sha256_hex ''p'')), (''dev_cases_sha256'', PStr (sha256_hex ''d'')),
       (''holdout_cases_sha256'', PStr (sha256_hex ''h''))]"
    by (simp add: demo_manifest_def freeze_manifest_def sha256_file_def)
  have load: "load_freeze (\<lambda>_. Inr (PDict demo_manifest)) (Inr ''m'') = Inr demo_manifest"
    by (simp add: load_freeze_def read_strict_def m case_reject_unknown_def dict_get_def sha256_hex_nonempty)
  have texts: "frozen_text demo_manifest ''policy_sha256'' = sha256_hex ''p''"
    "frozen_text demo_manifest ''holdout_cases_sha256'' = sha256_hex ''h''"
    by (simp_all add: m frozen_text_def dict_get_def)
  obtain r k where r: "build_report_with_metrics (Inr strict_policy) (Inr [demo_case]) (Inr ''p'') (Inr ''h'') KIND_HOLDOUT
      (Some HOLDOUT_LABELS) (Some (sha256_hex ''p'')) = Inr (r, k)" "rp_frozen_policy_sha256 r = Some (sha256_hex ''p'')"
    by (rule demo_builds) blast
  have "\<exists>t. render_markdown r = Inr t" by (simp add: render_markdown_def summary_lines_def r(2))
  then show ?thesis
    by (auto simp: benchmark_reports_def sample_frozen_def sample_cli_def verify_freeze_def load sha256_file_def texts
        drift_def write_reports_with_metrics_def r(1) lift_exc_def)
qed

theorem frozen_benchmark_reports_witness:
  "\<exists>json markdown m r. sample_reports = Inr (json, markdown, m) \<and>
     json = render_json (\<lambda>_. ''0.0'') r @ [char_of (10 :: nat)] \<and> rp_policy_sha256 r = sha256_hex ''p''"
proof -
  obtain json markdown m where out: "sample_reports = Inr (json, markdown, m)" using sample_reports by blast
  have "bm_freeze sample_frozen = Some (Inr ''m'')" "bm_policy_file sample_frozen = Inr ''p''"
    by (simp_all add: sample_frozen_def)
  then show ?thesis using frozen_benchmark_reports [OF _ out] out by fastforce
qed

end
