(* ===== verification/JsonRpc.thy ===== *)
theory JsonRpc
  imports JsonParse Policy
begin

text \<open>
  \<open>jsonrpc.py\<close>: one JSON-RPC message per line. Lines are byte strings; what \<open>json.loads\<close> makes of a line
  whose text the model's strings cannot hold (another encoding, a character above 255, or bytes
  that are no text) is an argument, as are the room on the stack and the reading of floats.
  Results: an encoded message is one line and decodes to itself; an accepted message has no duplicate
  key at any depth; the keys of two request ids are equal only for equal ids.
\<close>

section \<open>Lines\<close>

text \<open>\<open>_reject_duplicate_keys\<close>.\<close>

fun rpc_duplicates_from :: "pydict \<Rightarrow> pydict \<Rightarrow> (string, pydict) result" where
  "rpc_duplicates_from result [] = Return result"
| "rpc_duplicates_from result ((k, v) # pairs) =
     (if dict_has result k then Raise (''duplicate key '' @ str_repr k)
      else rpc_duplicates_from (dict_set result k v) pairs)"

definition rpc_reject_duplicates :: "pydict \<Rightarrow> (string, pydict) result" where
  "rpc_reject_duplicates pairs = rpc_duplicates_from [] pairs"

record wire =
  wr_room :: nat
  wr_float :: "string \<Rightarrow> string"
  wr_other :: "string json_reader \<Rightarrow> string \<Rightarrow> (string json_failure, pyval) result"

definition rpc_reader :: "wire \<Rightarrow> string json_reader" where
  "rpc_reader W = \<lparr>jr_hook = rpc_reject_duplicates, jr_float = wr_float W\<rparr>"

text \<open>\<open>json.detect_encoding\<close> answers UTF-8 without a mark.\<close>

definition utf8_line :: "string \<Rightarrow> bool" where
  "utf8_line b =
     (char_of (0 :: nat) \<notin> set (take 2 b) \<and>
      \<not> starts_with [char_of (254 :: nat), char_of (255 :: nat)] b \<and>
      \<not> starts_with [char_of (255 :: nat), char_of (254 :: nat)] b \<and>
      \<not> starts_with [char_of (239 :: nat), char_of (187 :: nat), char_of (191 :: nat)] b)"

text \<open>UTF-8, for the characters of the model.\<close>

fun utf8_decode :: "string \<Rightarrow> string option" where
  "utf8_decode [] = Some []"
| "utf8_decode (a # r) =
     (if code a < 128 then map_option (\<lambda>s. a # s) (utf8_decode r)
      else (case r of
              [] \<Rightarrow> None
            | b # r' \<Rightarrow>
                if (code a = 194 \<or> code a = 195) \<and> 128 \<le> code b \<and> code b < 192
                then map_option (\<lambda>s. char_of ((code a - 192) * 64 + (code b - 128)) # s) (utf8_decode r')
                else None))"

definition loads_bytes :: "wire \<Rightarrow> string json_reader \<Rightarrow> string \<Rightarrow> (string json_failure, pyval) result" where
  "loads_bytes W R line =
     (case (if utf8_line line then utf8_decode line else None) of
        None \<Rightarrow> wr_other W R line
      | Some t \<Rightarrow>
          (case json_loads R (wr_room W) t of
             Inl JsBeyond \<Rightarrow> wr_other W R line
           | r \<Rightarrow> r))"

section \<open>Messages\<close>

definition big_integer_text :: "nat \<Rightarrow> string" where
  "big_integer_text n =
     ''Exceeds the limit (4300 digits) for integer string conversion: value has '' @ nat_text n @
     '' digits; use sys.set_int_max_str_digits() to increase the limit''"

text \<open>None is a line that is no JSON object.\<close>

definition decode_message :: "wire \<Rightarrow> string \<Rightarrow> (exc, pydict option) result" where
  "decode_message W line =
     (case loads_bytes W (rpc_reader W) line of
        Inl JsTooDeep \<Rightarrow> Raise (ValueError ''JSON message is nested too deeply'')
      | Inl (JsHook m) \<Rightarrow> Raise (ValueError m)
      | Inl (JsBigInteger n) \<Rightarrow> Raise (ValueError (big_integer_text n))
      | Inl _ \<Rightarrow> Return None
      | Inr (PDict d) \<Rightarrow> Return (Some d)
      | Inr _ \<Rightarrow> Return None)"

text \<open>How many containers enclose the innermost value: what the encoder's recursion needs.\<close>

fun nesting :: "pyval \<Rightarrow> nat" and nestings :: "pyval list \<Rightarrow> nat" and item_nestings :: "pydict \<Rightarrow> nat" where
  "nesting (PList xs) = Suc (nestings xs)"
| "nesting (PTuple xs) = Suc (nestings xs)"
| "nesting (PDict d) = Suc (item_nestings d)"
| "nesting _ = 0"
| "nestings [] = 0"
| "nestings (x # xs) = max (nesting x) (nestings xs)"
| "item_nestings [] = 0"
| "item_nestings (kv # d) = max (nesting (snd kv)) (item_nestings d)"

definition encode_message :: "wire \<Rightarrow> pydict \<Rightarrow> (exc, string) result" where
  "encode_message W m =
     (if wr_room W < nesting (PDict m) then Raise (ValueError ''JSON message is nested too deeply'')
      else Return (utf8 (json_text (compact_style False False) (PDict m) @ [char_of (10 :: nat)])))"

definition request_key :: "pyval \<Rightarrow> string" where
  "request_key request_id = json_text (compact_style True True) request_id"

declare rpc_reject_duplicates_def [evals] rpc_reader_def [evals] utf8_line_def [evals]
  loads_bytes_def [evals] big_integer_text_def [evals] decode_message_def [evals]
  encode_message_def [evals] request_key_def [evals]

section \<open>Lemmas\<close>

lemma rpc_duplicates_from_Inr:
  "rpc_duplicates_from acc pairs = Inr d \<longleftrightarrow>
     d = acc @ pairs \<and> distinct (map fst pairs) \<and> fst ` set acc \<inter> fst ` set pairs = {}"
proof (induction acc pairs rule: rpc_duplicates_from.induct)
  case (2 acc k v pairs)
  then show ?case by (cases "dict_has acc k") (auto simp: dict_set_new dict_has_iff)
qed auto

lemma rpc_reject_duplicates_Inr:
  "rpc_reject_duplicates pairs = Inr d \<longleftrightarrow> d = pairs \<and> dict_wf pairs"
  by (simp add: rpc_reject_duplicates_def rpc_duplicates_from_Inr dict_wf_def)

lemma utf8_decode_char: "utf8_decode (utf8 [c] @ r) = map_option (\<lambda>s. c # s) (utf8_decode r)"
proof (cases "code c < 128")
  case False
  define q where "q = code c div 64"
  have c: "code c = 64 * q + code c mod 64" "q = 2 \<or> q = 3" "code c mod 64 < 64"
  proof -
    have "2 \<le> q" using False by (simp add: q_def less_eq_div_iff_mult_less_eq)
    moreover have "q < 4" using code_bound [of c] by (simp add: q_def div_less_iff_less_mult)
    ultimately show "q = 2 \<or> q = 3" by auto
  qed (simp_all add: q_def)
  have "char_of ((code (char_of (192 + q) :: char) - 192) * 64 + (code (char_of (128 + code c mod 64) :: char) - 128)) = c"
    using c by (auto simp: char_of_char)
  then show ?thesis
    using False c by (auto simp: utf8_def q_def [symmetric] Let_def)
qed (simp add: utf8_def)

lemma utf8_append: "utf8 (a @ b) = utf8 a @ utf8 b"
  by (simp add: utf8_def)

lemma utf8_decode_utf8: "utf8_decode (utf8 s) = Some s"
proof (induction s)
  case (Cons c s)
  have "utf8 (c # s) = utf8 [c] @ utf8 s" using utf8_append [of "[c]" s] by simp
  then show ?case using Cons.IH by (simp add: utf8_decode_char)
qed (simp add: utf8_def)

subsection \<open>No control characters\<close>

definition visible_text :: "string \<Rightarrow> bool" where
  "visible_text s = list_all (\<lambda>c. 32 \<le> code c) s"

lemma visible_append [simp]: "visible_text (a @ b) = (visible_text a \<and> visible_text b)"
  by (simp add: visible_text_def)

lemma visible_simps [simp]: "visible_text []" "visible_text (c # s) = (32 \<le> code c \<and> visible_text s)"
  by (simp_all add: visible_text_def)

lemma visible_digits: "list_all is_digit s \<Longrightarrow> visible_text s"
  by (auto simp: visible_text_def list_all_iff is_digit_def)

lemma digits_takeWhile: "list_all is_digit (takeWhile is_digit s)"
  by (induction s) auto

lemma scan_parts_visible:
  "scan_int_part r = Some (i, r1) \<Longrightarrow> visible_text i"
  "scan_fraction r = (f, r2) \<Longrightarrow> visible_text f"
  "scan_exponent r = (e, r3) \<Longrightarrow> visible_text e"
  using visible_digits [OF digits_takeWhile]
  by (auto simp: scan_int_part_def scan_fraction_def scan_exponent_def Let_def is_digit_def
      split: list.splits if_splits)

lemma float_visible:
  assumes "float_numeral r"
  shows "visible_text r"
proof -
  from assms obtain i r1 where 1: "scan_int_part r = Some (i, r1)"
    by (auto simp: float_numeral_def split: option.splits)
  obtain f r2 where 2: "scan_fraction r1 = (f, r2)" by fastforce
  obtain e r3 where 3: "scan_exponent r2 = (e, r3)" by fastforce
  have "r3 = []" using assms 1 2 3 by (simp add: float_numeral_def)
  then have "r = i @ f @ e"
    using scan_parts(1) [OF 1] scan_parts(2) [OF 2] scan_parts(3) [OF 3] by simp
  with scan_parts_visible(1) [OF 1] scan_parts_visible(2) [OF 2] scan_parts_visible(3) [OF 3]
  show ?thesis by simp
qed

lemma hex_digit_visible: "d < 16 \<Longrightarrow> 32 \<le> code (hex_digit d)"
  by (auto simp: hex_digit_def)

lemma json_char_visible: "visible_text (json_char a c)"
  using code_div_bound [of c] dquote_backslash_codes
  by (auto simp: json_char_def hex2_def hex_digit_visible)

lemma json_string_visible: "visible_text (json_string a s)"
  using json_char_visible dquote_backslash_codes
  by (induction s) (auto simp: json_string_def)

lemma int_text_visible: "visible_text (int_text i)"
  using visible_digits [of "nat_text n" for n] by (simp add: int_text_def list_all_iff nat_text_digits)

lemma join_visible:
  "list_all visible_text ws \<Longrightarrow> visible_text (join_with '','' ws)"
  by (induction ws) (auto simp: join_with_Cons)

lemma json_text_visible:
  "plain_compact st \<Longrightarrow> readable R v \<Longrightarrow> visible_text (json_text st v)"
  "plain_compact st \<Longrightarrow> readables R xs \<Longrightarrow> list_all visible_text (map (json_text st) xs)"
  "plain_compact st \<Longrightarrow> readable_items R ps \<Longrightarrow> list_all visible_text (map (member_text st) ps)"
proof (induction R v and R xs and R ps rule: readable_readables_readable_items.induct)
  case (2 R r)
  then show ?case by (auto simp: json_float_def float_visible)
next
  case (3 R xs)
  then show ?case
    using join_visible [of "map (json_text st) xs"]
    unfolding json_text_containers [OF 3(2)] by simp
next
  case (5 R ps)
  then show ?case
    using join_visible [of "map (member_text st) ps"]
    unfolding json_text_containers [OF 5(2)] by simp
next
  case (11 R kv d)
  then show ?case using json_string_visible by (simp add: member_text_def)
qed (auto simp: json_string_visible int_text_visible)

lemma utf8_control: "b \<in> set (utf8 s) \<Longrightarrow> code b < 32 \<Longrightarrow> b \<in> set s"
proof (induction s)
  case (Cons c s)
  have "b = c" if "b \<in> set (utf8 [c])"
  proof (cases "code c < 128")
    case False
    define q where "q = code c div 64"
    have "q < 4" using code_bound [of c] by (simp add: q_def div_less_iff_less_mult)
    have "b = char_of (192 + q) \<or> b = char_of (128 + code c mod 64)"
      using that False by (simp add: utf8_def q_def)
    with \<open>q < 4\<close> Cons.prems(2) show ?thesis by auto
  qed (use that in \<open>simp add: utf8_def\<close>)
  with Cons show ?case using utf8_append [of "[c]" s] by auto
qed (simp add: utf8_def)

section \<open>Properties\<close>

lemma message_text_start:
  "\<exists>t. json_text (compact_style a False) (PDict m) = CHR ''{'' # CHR ''}'' # t \<or>
       json_text (compact_style a False) (PDict m) = CHR ''{'' # dquote # t"
proof (cases m)
  case (Cons kv d)
  have "plain_compact (compact_style a False)" by (simp add: plain_compact_def compact_style_def)
  moreover obtain t where "member_text (compact_style a False) kv = dquote # t"
    using member_text_quote by blast
  ultimately show ?thesis
    unfolding json_text_containers(2) [OF \<open>plain_compact (compact_style a False)\<close>] Cons
    by (auto simp: join_with_Cons)
qed (auto simp: compact_style_def)

lemma utf8_ascii: "code c < 128 \<Longrightarrow> utf8 (c # s) = c # utf8 s"
  by (simp add: utf8_def)

lemma message_utf8_line: "utf8_line (utf8 (json_text (compact_style a False) (PDict m) @ x))"
proof -
  obtain b t where "json_text (compact_style a False) (PDict m) = CHR ''{'' # b # t"
    and b: "b = CHR ''}'' \<or> b = dquote"
    using message_text_start [of a m] by blast
  then have "utf8 (json_text (compact_style a False) (PDict m) @ x) = CHR ''{'' # b # utf8 (t @ x)"
    using dquote_backslash_codes by (auto simp: utf8_ascii)
  then show ?thesis
    using b dquote_backslash_codes by (auto simp: utf8_line_def char_of_def dquote_def)
qed

lemma compact_plain: "plain_compact (compact_style a False)"
  by (simp add: plain_compact_def compact_style_def)

lemma message_reads_back:
  assumes "readable (rpc_reader W) (PDict m)" "pv_depth (PDict m) < wr_room W"
    "nesting (PDict m) \<le> wr_room W"
  shows "\<exists>line. encode_message W m = Inr (line @ [char_of (10 :: nat)]) \<and>
    char_of (10 :: nat) \<notin> set line \<and> decode_message W (line @ [char_of (10 :: nat)]) = Inr (Some m)"
proof -
  define nl :: char where "nl = char_of (10 :: nat)"
  define t where "t = json_text (compact_style False False) (PDict m)"
  have nl: "utf8 [nl] = [nl]" "code nl = 10" by (simp_all add: utf8_def nl_def)
  have enc: "encode_message W m = Inr (utf8 t @ [nl])"
    using assms(3) utf8_append [of t "[nl]"] nl(1) by (simp add: encode_message_def t_def nl_def)
  have t: "visible_text t"
    unfolding t_def by (rule json_text_visible(1) [OF compact_plain assms(1)])
  have visible: "nl \<notin> set (utf8 t)"
  proof
    assume "nl \<in> set (utf8 t)"
    then have "nl \<in> set t" using utf8_control [of nl t] nl(2) by simp
    with t have "32 \<le> code nl" by (simp add: visible_text_def list_all_iff)
    with nl(2) show False by simp
  qed
  have read: "json_loads (rpc_reader W) (wr_room W) (t @ [nl]) = Inr (PDict m)"
    unfolding t_def by (rule json_loads_line [OF compact_plain assms(1,2)]) (simp add: nl_def)
  have "utf8_line (utf8 (t @ [nl]))"
    unfolding t_def by (rule message_utf8_line)
  then have "decode_message W (utf8 t @ [nl]) = Inr (Some m)"
    using read utf8_decode_utf8 [of "t @ [nl]"] utf8_append [of t "[nl]"] nl(1)
    by (simp add: decode_message_def loads_bytes_def)
  with enc visible show ?thesis unfolding nl_def by blast
qed

text \<open>C19: messages round-trip. A message of JSON values without duplicate keys, within the stack, is
  encoded as one line, whose only newline is its last character, and the line decodes to the same
  message.\<close>

theorem message_roundtrip:
  assumes "readable (rpc_reader W) (PDict m)" "pv_depth (PDict m) < wr_room W"
    "nesting (PDict m) \<le> wr_room W"
  shows "\<exists>line. encode_message W m = Inr (line @ [char_of (10 :: nat)]) \<and>
    char_of (10 :: nat) \<notin> set line \<and> decode_message W (line @ [char_of (10 :: nat)]) = Inr (Some m)"
  by (rule message_reads_back [OF assms])

lemma message_roundtrip_witness:
  "\<exists>line. encode_message \<lparr>wr_room = 9, wr_float = (\<lambda>r. r), wr_other = (\<lambda>_ _. Inl JsMalformed)\<rparr>
       [(''id'', PInt 7), (''params'', PDict [(''x'', PList [PStr ''a'', PFloat ''1.5''])])] =
     Inr (line @ [char_of (10 :: nat)]) \<and> char_of (10 :: nat) \<notin> set line"
proof -
  let ?W = "\<lparr>wr_room = 9, wr_float = (\<lambda>r. r), wr_other = (\<lambda>_ _. Inl JsMalformed)\<rparr> :: wire"
  let ?m = "[(''id'', PInt 7), (''params'', PDict [(''x'', PList [PStr ''a'', PFloat ''1.5''])])]"
  have "readable (rpc_reader ?W) (PDict ?m)"
    by (simp add: rpc_reader_def rpc_reject_duplicates_Inr dict_wf_def nat_text_numeral
        float_numeral_def scan_int_part_def scan_fraction_def scan_exponent_def is_digit_def)
  from message_roundtrip [OF this] show ?thesis by auto
qed

text \<open>One view of every message. An accepted line has no duplicate key in any object, at any depth,
  so no other parser can read another message out of it; for lines the model's strings cannot hold,
  this is the documented behaviour of \<open>json.loads\<close> with the program's hook.\<close>

theorem message_one_view:
  assumes "decode_message W line = Inr (Some m)" "\<And>v. wr_other W (rpc_reader W) line = Inr v \<Longrightarrow> unique_keys v"
  shows "unique_keys (PDict m)"
proof -
  have hook: "strict_hook (rpc_reader W)"
    by (simp add: strict_hook_def rpc_reader_def rpc_reject_duplicates_Inr)
  have "loads_bytes W (rpc_reader W) line = Inr (PDict m)"
    using assms(1) by (auto simp: decode_message_def split: sum.splits pyval.splits json_failure.splits)
  then show ?thesis
    using assms(2) json_loads_unique [OF hook]
    by (auto simp: loads_bytes_def simp del: unique_keys.simps
        split: option.splits sum.splits json_failure.splits)
qed

text \<open>Two ids with the same key are the same JSON value, up to the order of keys: the text \<open>"1"\<close> and the
  number \<open>1\<close> have different keys.\<close>

lemma request_key_inject:
  "json_value i \<Longrightarrow> json_value j \<Longrightarrow> request_key i = request_key j \<Longrightarrow> key_sorted i = key_sorted j"
  by (rule sorted_text_inject [of "compact_style True True"])
     (simp_all add: request_key_def, simp_all add: compact_style_def)

lemma message_one_view_witness:
  "decode_message \<lparr>wr_room = 9, wr_float = (\<lambda>r. r), wr_other = (\<lambda>_ _. Inl JsMalformed)\<rparr>
     (CHR ''{'' # dquote # ''id'' @ dquote # '':10}'') = Inr (Some [(''id'', PInt 10)]) \<and>
   unique_keys (PDict [(''id'', PInt 10)])"
proof -
  let ?W = "\<lparr>wr_room = 9, wr_float = (\<lambda>r. r), wr_other = (\<lambda>_ _. Inl JsMalformed)\<rparr> :: wire"
  have "decode_message ?W (CHR ''{'' # dquote # ''id'' @ dquote # '':10}'') = Inr (Some [(''id'', PInt 10)])"
    by (simp add: evals is_digit_def text_nat_def digit_val_def dict_has_def)
  moreover from this have "unique_keys (PDict [(''id'', PInt 10)])"
    by (rule message_one_view) simp
  ultimately show ?thesis by blast
qed

end
