(* ===== verification/LineReaders.thy ===== *)
theory LineReaders
  imports PyText
begin

text \<open>
  The two bounded line readers of \<open>mcp_proxy.py\<close>: \<open>_read_line\<close> on the client's blocking stream and
  \<open>_read_child_line\<close> on the server's asynchronous one, whose reads return what happens to be there.
  Both are compared with a reference: cut the input at its newlines, and replace a line that is too
  long by a mark. Results: the client's reader is the reference; so is the server's reader, however
  the bytes arrive, when the limit is at least 65535; below that limit it can lose a short line.
\<close>

section \<open>The reference\<close>

definition newline :: char where
  "newline = char_of (10 :: nat)"

text \<open>A text up to its first newline, which stays with the line, and what follows.\<close>

fun split_line :: "string \<Rightarrow> string \<times> string" where
  "split_line [] = ([], [])"
| "split_line (c # s) =
     (if c = newline then ([c], s) else (c # fst (split_line s), snd (split_line s)))"

definition frame :: "nat \<Rightarrow> string \<Rightarrow> (string \<times> bool) \<times> string" where
  "frame limit s =
     ((if length (fst (split_line s)) \<le> limit then (fst (split_line s), False) else ([], True)),
      snd (split_line s))"

lemma split_line_join: "fst (split_line s) @ snd (split_line s) = s"
  by (induction s) auto

lemma split_line_shorter: "s \<noteq> [] \<Longrightarrow> length (snd (split_line s)) < length s"
proof (induction s)
  case (Cons c s)
  then show ?case by (cases s) auto
qed simp

lemma split_line_no_newline: "newline \<notin> set s \<Longrightarrow> split_line s = (s, [])"
  by (induction s) auto

lemma split_line_append:
  "newline \<notin> set a \<Longrightarrow> split_line (a @ s) = (a @ fst (split_line s), snd (split_line s))"
  by (induction a) auto

lemma split_line_prefix:
  "newline \<in> set a \<Longrightarrow> split_line (a @ s) = (fst (split_line a), snd (split_line a) @ s)"
  by (induction a) auto

lemma split_line_take:
  "newline \<notin> set (take n (fst (split_line s))) \<or> length (fst (split_line s)) \<le> n"
proof (induction s arbitrary: n)
  case (Cons c s)
  then show ?case by (cases n) auto
qed simp

lemma split_line_last: "newline \<in> set (fst (split_line s)) \<Longrightarrow> last (fst (split_line s)) = newline"
  by (induction s) (auto split: if_splits)

lemma split_line_missing: "newline \<notin> set (fst (split_line s)) \<Longrightarrow> snd (split_line s) = []"
  by (induction s) (auto split: if_splits)

section \<open>The client's reader\<close>

text \<open>\<open>readline(n)\<close> of a blocking stream with the given input: through the first newline, at most \<open>n\<close>
  bytes.\<close>

definition stream_readline :: "nat \<Rightarrow> string \<Rightarrow> string \<times> string" where
  "stream_readline n s = (take n (fst (split_line s)), drop n (fst (split_line s)) @ snd (split_line s))"

text \<open>The loop that drains an oversized line.\<close>

function drain_line :: "string \<Rightarrow> string \<Rightarrow> string" where
  "drain_line line s =
     (if line \<noteq> [] \<and> last line \<noteq> newline
      then (let (chunk, r) = stream_readline 65536 s in if chunk = [] then r else drain_line chunk r)
      else s)"
  by pat_completeness auto

lemma stream_readline_join: "fst (stream_readline n s) @ snd (stream_readline n s) = s"
  by (simp add: stream_readline_def split_line_join flip: append_assoc)

lemma stream_readline_shorter:
  assumes "stream_readline n s = (chunk, r)" "chunk \<noteq> []"
  shows "length r < length s"
proof -
  have "s = chunk @ r" using stream_readline_join [of n s] assms(1) by (metis fst_conv snd_conv)
  with assms(2) show ?thesis by simp
qed

termination drain_line
  by (relation "measure (\<lambda>(line, s). length s)") (auto dest: stream_readline_shorter split: prod.split)

definition read_line :: "nat \<Rightarrow> string \<Rightarrow> (string \<times> bool) \<times> string" where
  "read_line limit s =
     (let (line, r) = stream_readline (limit + 1) s
      in if length line \<le> limit then ((line, False), r) else (([], True), drain_line line r))"

section \<open>The server's reader\<close>

text \<open>A stream of which each read returns at least one byte and at most what is asked for and what has
  arrived: the list says how much beyond one byte has arrived at each read; when it is used up,
  everything has.\<close>

type_synonym arrivals = "nat list \<times> string"

fun read_some :: "nat \<Rightarrow> arrivals \<Rightarrow> string \<times> arrivals" where
  "read_some n ([], s) = (take n s, ([], drop n s))"
| "read_some n (k # ks, s) = (take (min n (Suc k)) s, (ks, drop (min n (Suc k)) s))"

lemma read_some_join: "fst (read_some n st) @ snd (snd (read_some n st)) = snd st"
  by (cases "(n, st)" rule: read_some.cases) auto

lemma read_some_bound: "length (fst (read_some n st)) \<le> n"
  by (cases "(n, st)" rule: read_some.cases) auto

lemma read_some_empty: "0 < n \<Longrightarrow> fst (read_some n st) = [] \<longleftrightarrow> snd st = []"
  by (cases "(n, st)" rule: read_some.cases) auto

lemma read_some_shorter:
  assumes "read_some n st = (chunk, st')" "chunk \<noteq> []"
  shows "length (snd st') < length (snd st)"
proof -
  have "snd st = chunk @ snd st'" using read_some_join [of n st] assms(1) by (metis fst_conv snd_conv)
  with assms(2) show ?thesis by simp
qed

text \<open>The result: the line, whether it was oversized, the bytes read beyond it, and the stream.\<close>

type_synonym child_read = "((string \<times> bool) \<times> string) \<times> arrivals"

function child_loop :: "nat \<Rightarrow> string \<Rightarrow> arrivals \<Rightarrow> child_read" where
  "child_loop limit line st =
     (if limit < length line then
        (let (drain, st') = read_some 65536 st
         in if drain = [] then ((([], True), []), st')
            else if newline \<in> set drain then ((([], True), snd (split_line drain)), st')
            else child_loop limit line st')
      else
        (let (chunk, st') = read_some (limit + 1 - length line) st
         in if chunk = [] then
              (if limit < length line then ((([], True), []), st') else (((line, False), []), st'))
            else if newline \<in> set chunk then
              (if limit < length (line @ fst (split_line chunk))
               then ((([], True), snd (split_line chunk)), st')
               else (((line @ fst (split_line chunk), False), snd (split_line chunk)), st'))
            else child_loop limit (line @ chunk) st'))"
  by pat_completeness auto

termination child_loop
  by (relation "measure (\<lambda>(limit, line, st). length (snd st))") (auto dest!: read_some_shorter [OF sym])

declare child_loop.simps [simp del] drain_line.simps [simp del]

definition read_child_line :: "nat \<Rightarrow> string \<Rightarrow> arrivals \<Rightarrow> child_read" where
  "read_child_line limit remainder st =
     (if remainder \<noteq> [] \<and> newline \<in> set remainder then
        (if limit < length remainder then ((([], True), snd (split_line remainder)), st)
         else (((fst (split_line remainder), False), snd (split_line remainder)), st))
      else child_loop limit remainder st)"

section \<open>The client's reader is the reference\<close>

lemma drain_line_rest:
  "line \<noteq> [] \<Longrightarrow> drain_line line s = (if last line = newline then s else snd (split_line s))"
proof (induction line s rule: drain_line.induct)
  case (1 line s)
  obtain chunk r where cr: "stream_readline 65536 s = (chunk, r)" by fastforce
  show ?case
  proof (cases "last line = newline \<or> chunk = []")
    case True
    moreover have "r = snd (split_line s)" if "chunk = []"
      using that cr by (auto simp: stream_readline_def)
    ultimately show ?thesis using 1(2) cr by (auto simp: drain_line.simps [of line])
  next
    case False
    have ih: "drain_line chunk r = (if last chunk = newline then r else snd (split_line r))"
      using 1(1) [OF _ cr [symmetric]] 1(2) False cr by simp
    have chunk: "chunk = take 65536 (fst (split_line s))"
      "r = drop 65536 (fst (split_line s)) @ snd (split_line s)"
      using cr by (auto simp: stream_readline_def)
    have "(if last chunk = newline then r else snd (split_line r)) = snd (split_line s)"
    proof (cases "newline \<in> set chunk")
      case True
      then have "length (fst (split_line s)) \<le> 65536"
        using split_line_take [of 65536 s] chunk(1) by auto
      then have "chunk = fst (split_line s)" "r = snd (split_line s)" using chunk by auto
      then show ?thesis using split_line_last [of s] True by simp
    next
      case no: False
      have "s = chunk @ r" using stream_readline_join [of 65536 s] cr by simp
      moreover have "last chunk \<noteq> newline" using no False by (metis last_in_set)
      ultimately show ?thesis using split_line_append [OF no] by simp
    qed
    then show ?thesis using 1(2) False cr ih by (simp add: drain_line.simps [of line])
  qed
qed

lemma read_line_frame: "read_line limit s = frame limit s"
proof -
  define l where "l = fst (split_line s)"
  define line where "line = take (limit + 1) l"
  have read: "stream_readline (limit + 1) s = (line, drop (limit + 1) l @ snd (split_line s))"
    by (simp add: stream_readline_def l_def line_def)
  show ?thesis
  proof (cases "length l \<le> limit")
    case True
    then show ?thesis
      using read by (cases "split_line s") (simp add: read_line_def frame_def l_def line_def)
  next
    case False
    then have long: "\<not> length line \<le> limit" "line \<noteq> []" by (auto simp: line_def)
    have "drain_line line (drop (limit + 1) l @ snd (split_line s)) = snd (split_line s)"
    proof (cases "newline \<in> set line")
      case True
      then have "length l \<le> limit + 1" using split_line_take [of "limit + 1" s] by (auto simp: l_def line_def)
      then have "line = l" "drop (limit + 1) l = []" by (simp_all add: line_def)
      then show ?thesis
        using True split_line_last [of s] long by (simp add: l_def drain_line_rest)
    next
      case no: False
      have "s = line @ drop (limit + 1) l @ snd (split_line s)"
        using split_line_join [of s] by (simp add: line_def l_def flip: append_assoc)
      then have "snd (split_line s) = snd (split_line (drop (limit + 1) l @ snd (split_line s)))"
        using split_line_append [OF no] by (metis snd_conv)
      moreover have "last line \<noteq> newline" using no long(2) by (metis last_in_set)
      ultimately show ?thesis using long(2) by (simp add: drain_line_rest)
    qed
    then show ?thesis using read long False by (simp add: read_line_def frame_def l_def)
  qed
qed

section \<open>The server's reader is the reference, above a limit\<close>

lemma frame_oversized: "frame limit (a @ s) = ((([], True), snd (split_line s)))"
  if "newline \<notin> set a" "limit < length a"
  using that by (simp add: frame_def split_line_append)

definition child_read_ok :: "nat \<Rightarrow> string \<Rightarrow> string \<Rightarrow> child_read \<Rightarrow> bool" where
  "child_read_ok limit line s res =
     (frame limit (line @ s) = (fst (fst res), snd (fst res) @ snd (snd res)) \<and>
      length (snd (fst res)) \<le> max limit 65535)"

lemma after_newline_bound:
  "newline \<in> set a \<Longrightarrow> length a \<le> n + 1 \<Longrightarrow> length (snd (split_line a)) \<le> n"
  using split_line_shorter [of a] by (cases a) auto

lemma child_loop_draining:
  assumes "newline \<notin> set line" "limit < length line" "read_some 65536 st = (drain, st')"
    "drain \<noteq> [] \<Longrightarrow> newline \<notin> set drain \<Longrightarrow>
       child_read_ok limit line (snd st') (child_loop limit line st')"
  shows "child_read_ok limit line (snd st) (child_loop limit line st)"
proof -
  have join: "snd st = drain @ snd st'" and bound: "length drain \<le> 65536"
    and empty: "drain = [] \<longleftrightarrow> snd st = []"
    using read_some_join [of 65536 st] read_some_bound [of 65536 st] read_some_empty [of 65536 st]
      assms(3) by simp_all
  consider "drain = []" | "newline \<in> set drain" | "drain \<noteq> []" "newline \<notin> set drain" by blast
  then show ?thesis
  proof cases
    case 1
    then have "child_loop limit line st = ((([], True), []), st')"
      using assms(2,3) by (subst child_loop.simps) simp
    moreover have "snd st = []" using 1 empty by blast
    moreover from this have "snd st' = []" using join by (metis append_is_Nil_conv)
    ultimately show ?thesis
      using assms(1,2) frame_oversized [of line limit "[]"] by (simp add: child_read_ok_def)
  next
    case 2
    then have "drain \<noteq> []" by auto
    moreover have "length (snd (split_line drain)) \<le> 65535"
      using after_newline_bound [OF 2, of 65535] bound by simp
    moreover from this 2 have "child_loop limit line st = ((([], True), snd (split_line drain)), st')"
      using assms(2,3) by (subst child_loop.simps) simp
    ultimately show ?thesis
      using assms(1,2) join 2 by (simp add: child_read_ok_def frame_oversized split_line_prefix)
  next
    case 3
    then have "child_loop limit line st = child_loop limit line st'"
      using assms(2,3) by (subst child_loop.simps) simp
    then show ?thesis
      using assms(4) [OF 3] assms(1,2) join 3
      by (simp add: child_read_ok_def frame_oversized split_line_append)
  qed
qed

lemma child_loop_reading:
  assumes "newline \<notin> set line" "length line \<le> limit"
    "read_some (limit + 1 - length line) st = (chunk, st')"
    "chunk \<noteq> [] \<Longrightarrow> newline \<notin> set chunk \<Longrightarrow>
       child_read_ok limit (line @ chunk) (snd st') (child_loop limit (line @ chunk) st')"
  shows "child_read_ok limit line (snd st) (child_loop limit line st)"
proof -
  let ?n = "limit + 1 - length line"
  have join: "snd st = chunk @ snd st'" and bound: "length chunk \<le> ?n"
    and empty: "chunk = [] \<longleftrightarrow> snd st = []"
    using read_some_join [of ?n st] read_some_bound [of ?n st] read_some_empty [of ?n st]
      assms(2,3) by simp_all
  consider "chunk = []" | "newline \<in> set chunk" | "chunk \<noteq> []" "newline \<notin> set chunk" by blast
  then show ?thesis
  proof cases
    case 1
    then have "child_loop limit line st = (((line, False), []), st')"
      using assms(2,3) by (subst child_loop.simps) simp
    moreover have "snd st = []" using 1 empty by blast
    moreover from this have "snd st' = []" using join by (metis append_is_Nil_conv)
    ultimately show ?thesis
      using assms(1,2) by (simp add: child_read_ok_def frame_def split_line_no_newline)
  next
    case 2
    then have "chunk \<noteq> []" by auto
    moreover have "length (snd (split_line chunk)) \<le> limit"
      using after_newline_bound [OF 2, of limit] bound by simp
    moreover from this 2 have "child_loop limit line st =
        (if limit < length (line @ fst (split_line chunk))
         then ((([], True), snd (split_line chunk)), st')
         else (((line @ fst (split_line chunk), False), snd (split_line chunk)), st'))"
      using assms(2,3) by (subst child_loop.simps) simp
    ultimately show ?thesis
      using assms(1,2) join 2
      by (simp add: child_read_ok_def frame_def split_line_prefix split_line_append)
  next
    case 3
    then have "child_loop limit line st = child_loop limit (line @ chunk) st'"
      using assms(2,3) by (subst child_loop.simps) simp
    then show ?thesis
      using assms(4) [OF 3] join by (simp add: child_read_ok_def)
  qed
qed

lemma child_loop_frame:
  "newline \<notin> set line \<Longrightarrow> child_read_ok limit line (snd st) (child_loop limit line st)"
proof (induction limit line st rule: child_loop.induct)
  case (1 limit line st)
  show ?case
  proof (cases "limit < length line")
    case True
    obtain drain st' where d: "read_some 65536 st = (drain, st')" by (cases "read_some 65536 st")
    show ?thesis
      by (rule child_loop_draining [OF 1(3) True d]) (use 1(1) [OF True d [symmetric] refl] 1(3) in simp)
  next
    case False
    obtain chunk st' where c: "read_some (limit + 1 - length line) st = (chunk, st')"
      by (cases "read_some (limit + 1 - length line) st")
    show ?thesis
      by (rule child_loop_reading [OF 1(3) _ c])
         (use False 1(2) [OF False c [symmetric] refl] 1(3) in simp_all)
  qed
qed

lemma read_child_line_frame:
  assumes "length remainder \<le> limit"
  shows "child_read_ok limit remainder (snd st) (read_child_line limit remainder st)"
proof (cases "newline \<in> set remainder")
  case True
  then have "remainder \<noteq> []" by auto
  moreover have "length (fst (split_line remainder)) + length (snd (split_line remainder)) = length remainder"
    using arg_cong [OF split_line_join [of remainder], of length] by simp
  ultimately show ?thesis
    using assms True by (simp add: read_child_line_def child_read_ok_def frame_def split_line_prefix)
next
  case False
  then show ?thesis using child_loop_frame [OF False] by (simp add: read_child_line_def)
qed

text \<open>Every read consumes something, until the end of the input.\<close>

lemma read_child_line_shorter:
  assumes "read_child_line limit remainder st = (((line, over), rest), st')" "(line, over) \<noteq> ([], False)"
  shows "length rest + length (snd st') < length remainder + length (snd st)"
proof (cases "newline \<in> set remainder")
  case True
  then have "remainder \<noteq> []" by auto
  then show ?thesis
    using assms(1) True split_line_shorter [of remainder]
    by (auto simp: read_child_line_def split: if_splits)
next
  case False
  then have read: "frame limit (remainder @ snd st) = ((line, over), rest @ snd st')"
    using child_loop_frame [OF False, of limit st] assms(1)
    by (simp add: read_child_line_def child_read_ok_def)
  then have "remainder @ snd st \<noteq> []" using assms(2) by (auto simp: frame_def)
  from split_line_shorter [OF this] read show ?thesis by (simp add: frame_def)
qed

text \<open>The reading loop of \<open>_read_child\<close>: all the lines until the end of the input, and the reference.\<close>

function child_frames :: "nat \<Rightarrow> string \<Rightarrow> arrivals \<Rightarrow> (string \<times> bool) list" where
  "child_frames limit remainder st =
     (let r = read_child_line limit remainder st
      in if fst (fst r) = ([], False) then []
         else fst (fst r) # child_frames limit (snd (fst r)) (snd r))"
  by pat_completeness auto

termination child_frames
  by (relation "measure (\<lambda>(limit, remainder, st). length remainder + length (snd st))")
     (simp_all, metis prod.collapse read_child_line_shorter)

function frames :: "nat \<Rightarrow> string \<Rightarrow> (string \<times> bool) list" where
  "frames limit s =
     (if s = [] then [] else fst (frame limit s) # frames limit (snd (frame limit s)))"
  by pat_completeness auto

termination frames
  by (relation "measure (\<lambda>(limit, s). length s)") (auto simp: frame_def dest: split_line_shorter)

declare child_frames.simps [simp del] frames.simps [simp del]

lemma frame_end: "fst (frame limit s) = ([], False) \<longleftrightarrow> s = []"
  by (cases s) (auto simp: frame_def)

lemma child_frames_frames:
  "65535 \<le> limit \<Longrightarrow> length remainder \<le> limit \<Longrightarrow>
     child_frames limit remainder st = frames limit (remainder @ snd st)"
proof (induction limit remainder st rule: child_frames.induct)
  case (1 limit remainder st)
  obtain line over rest st' where read: "read_child_line limit remainder st = (((line, over), rest), st')"
    by (metis prod.exhaust)
  have ok: "frame limit (remainder @ snd st) = ((line, over), rest @ snd st')" "length rest \<le> max limit 65535"
    using read_child_line_frame [OF 1(3), of st] read by (simp_all add: child_read_ok_def)
  from ok(2) 1(2) have rest: "length rest \<le> limit" by simp
  show ?case
  proof (cases "(line, over) = ([], False)")
    case True
    then have "remainder @ snd st = []" using ok(1) frame_end [of limit "remainder @ snd st"] by simp
    then show ?thesis using True read by (subst child_frames.simps) (simp add: frames.simps)
  next
    case False
    then have "remainder @ snd st \<noteq> []" using ok(1) frame_end [of limit "remainder @ snd st"] by auto
    then have "frames limit (remainder @ snd st) = (line, over) # frames limit (rest @ snd st')"
      using ok(1) by (simp add: frames.simps [of limit "remainder @ snd st"])
    moreover have "child_frames limit rest st' = frames limit (rest @ snd st')"
      using 1(1) [OF refl] read rest 1(2) False by simp
    ultimately show ?thesis
      using read False by (auto simp: child_frames.simps [of limit remainder st] Let_def)
  qed
qed

section \<open>Properties\<close>

text \<open>C20: framing does not depend on timing. With a limit of at least 65535 bytes (the default is 64 MB)
  the lines the proxy reads from the server are those of the reference, and those its other reader
  finds: however the bytes arrive, no line is lost, joined or split, and an oversized line costs only
  itself.\<close>

theorem child_reader_frames:
  assumes "65535 \<le> limit"
  shows "child_frames limit [] (ks, s) = frames limit s \<and> read_line limit s = frame limit s"
  using child_frames_frames [OF assms, of "[]" "(ks, s)"] read_line_frame [of limit s] by simp

lemma child_reader_frames_witness:
  "child_frames 65536 [] ([0, 3], ''ab'' @ [newline] @ ''c'') = [(''ab'' @ [newline], False), (''c'', False)]"
proof -
  have "child_frames 65536 [] ([0, 3], ''ab'' @ [newline] @ ''c'') = frames 65536 (''ab'' @ [newline] @ ''c'')"
    using child_reader_frames [of 65536 "[0, 3]" "''ab'' @ [newline] @ ''c''"] by simp
  also have "\<dots> = [(''ab'' @ [newline], False), (''c'', False)]"
    by (simp add: frames.simps frame_def newline_def char_of_def)
  finally show ?thesis .
qed

text \<open>Below that limit a line can be lost: after an oversized line, the bytes read beyond it are compared
  with the limit as a whole, and the short line they begin with is dropped.\<close>

lemma small_limit_loses_line:
  "child_frames 4 [] ([], ''xxxxxx'' @ [newline] @ ''ab'' @ [newline] @ ''cdef'') =
     [([], True), ([], True), (''cdef'', False)]"
  "frames 4 (''xxxxxx'' @ [newline] @ ''ab'' @ [newline] @ ''cdef'') =
     [([], True), (''ab'' @ [newline], False), (''cdef'', False)]"
  by (simp_all add: frames.simps frame_def child_frames.simps read_child_line_def child_loop.simps
      newline_def char_of_def)

end
