(* ===== verification/ProxyMessages.thy ===== *)
theory ProxyMessages
  imports JsonRpc LineReaders
begin

text \<open>
  The part of \<open>mcp_proxy.py\<close> that computes without waiting: the responses the proxy writes itself, the
  refusal of batches, the reading of a call's cost, what a line of the client asks for, and the
  prompt of the terminal approver. Results: a line that asks for a tool, in any spelling the proxy
  knows, is never classified as one to pass through, and the prompt shows every argument.
\<close>

section \<open>Responses\<close>

definition POLICY_ERROR :: int where "POLICY_ERROR = - 32001"
definition DUPLICATE_ID_ERROR :: int where "DUPLICATE_ID_ERROR = - 32600"
definition INVALID_REQUEST_ERROR :: int where "INVALID_REQUEST_ERROR = - 32600"
definition INVALID_PARAMS_ERROR :: int where "INVALID_PARAMS_ERROR = - 32602"
definition INTERNAL_ERROR :: int where "INTERNAL_ERROR = - 32603"
definition REQUEST_TIMEOUT_ERROR :: int where "REQUEST_TIMEOUT_ERROR = - 32002"
definition CHILD_UNAVAILABLE_ERROR :: int where "CHILD_UNAVAILABLE_ERROR = - 32003"
definition PARSE_ERROR :: int where "PARSE_ERROR = - 32700"
definition METHOD_NOT_FOUND_ERROR :: int where "METHOD_NOT_FOUND_ERROR = - 32601"

definition error_response :: "pyval \<Rightarrow> pydict \<Rightarrow> pydict" where
  "error_response request_id error =
     [(''jsonrpc'', PStr ''2.0''), (''id'', request_id), (''error'', PDict error)]"

definition plain_error :: "int \<Rightarrow> string \<Rightarrow> pydict" where
  "plain_error number text = [(''code'', PInt number), (''message'', PStr text)]"

text \<open>\<open>_write_error\<close>: a message without an id gets no answer.\<close>

definition error_answer :: "pydict \<Rightarrow> int \<Rightarrow> string \<Rightarrow> pydict option" where
  "error_answer m number text =
     (case map_of m ''id'' of
        None \<Rightarrow> None
      | Some i \<Rightarrow> Some (error_response i (plain_error number text)))"

definition parse_error_response :: "string \<Rightarrow> pydict" where
  "parse_error_response text = error_response PNone (plain_error PARSE_ERROR text)"

definition timeout_response :: "pyval \<Rightarrow> pydict" where
  "timeout_response i =
     error_response i (plain_error REQUEST_TIMEOUT_ERROR ''timed out waiting for wrapped MCP server'')"

definition child_unavailable_response :: "pyval \<Rightarrow> pydict" where
  "child_unavailable_response i =
     error_response i (plain_error CHILD_UNAVAILABLE_ERROR
       ''wrapped MCP server is unavailable after a stalled write'')"

definition duplicate_response :: "pyval \<Rightarrow> pydict" where
  "duplicate_response i =
     error_response i (plain_error DUPLICATE_ID_ERROR ''Duplicate in-flight JSON-RPC id'')"

text \<open>What \<open>_handle_client_line\<close> answers when \<open>acall_with_arguments\<close> raises.\<close>

definition policy_response :: "pyval \<Rightarrow> string \<Rightarrow> decision \<Rightarrow> pydict" where
  "policy_response i text d =
     error_response i (plain_error POLICY_ERROR text @ [(''data'', PDict (decision_dict d))])"

fun exception_answer :: "pydict \<Rightarrow> exc \<Rightarrow> pydict option" where
  "exception_answer m (ApprovalRequired r c d) =
     map_option (\<lambda>i. policy_response i ''tool call requires approval but no approver is configured'' d)
       (map_of m ''id'')"
| "exception_answer m (ToolCallBlocked r c d) =
     map_option (\<lambda>i. policy_response i ''Tool call blocked by Agent Firewall'' d) (map_of m ''id'')"
| "exception_answer m (AuditWriteError r after_execution) =
     error_answer m INTERNAL_ERROR
       (if after_execution then ''tool ran or was attempted but its audit record could not be written''
        else ''internal firewall error; call not executed'')"
| "exception_answer m e = error_answer m INTERNAL_ERROR ''internal firewall error; call not executed''"

text \<open>\<open>_write_client\<close>: the bytes of a message, of the fallback when it is nested too deeply, or none.\<close>

definition client_line :: "wire \<Rightarrow> pydict \<Rightarrow> string option" where
  "client_line W m =
     (case encode_message W m of
        Inr l \<Rightarrow> Some l
      | Inl _ \<Rightarrow>
          (case encode_message W (error_response (dict_get m ''id'' PNone)
                  (plain_error PARSE_ERROR ''response too deeply nested to encode'')) of
             Inr l \<Rightarrow> Some l
           | Inl _ \<Rightarrow> None))"

section \<open>Batches\<close>

text \<open>\<open>json.loads\<close> without a hook: the last of several equal keys wins, at the place of the first.\<close>

definition default_reader :: "wire \<Rightarrow> string json_reader" where
  "default_reader W =
     \<lparr>jr_hook = (\<lambda>ps. Return (foldl (\<lambda>d kv. dict_set d (fst kv) (snd kv)) [] ps)), jr_float = wr_float W\<rparr>"

definition ascii_space :: "char \<Rightarrow> bool" where
  "ascii_space c = (9 \<le> code c \<and> code c \<le> 13 \<or> code c = 32)"

text \<open>The list of a batch. An integer of too many digits raises an exception that is not among those
  the two functions catch.\<close>

definition batch_items :: "wire \<Rightarrow> string \<Rightarrow> (exc, pyval list option) result" where
  "batch_items W line =
     (case loads_bytes W (default_reader W) line of
        Inr (PList xs) \<Rightarrow> Return (Some xs)
      | Inr _ \<Rightarrow> Return None
      | Inl (JsBigInteger n) \<Rightarrow> Raise (ValueError (big_integer_text n))
      | Inl _ \<Rightarrow> Return None)"

definition is_batch :: "wire \<Rightarrow> string \<Rightarrow> (exc, bool) result" where
  "is_batch W line =
     (if \<not> starts_with ''['' (str_lstrip ascii_space line) then Return False
      else bindR (batch_items W line) (\<lambda>b. Return (b \<noteq> None)))"

fun batch_error :: "pyval \<Rightarrow> pyval list" where
  "batch_error (PDict item) =
     (case map_of item ''id'' of
        None \<Rightarrow> []
      | Some i \<Rightarrow> [PDict (error_response i (plain_error (- 32600) ''batch requests are not supported''))])"
| "batch_error v = []"

text \<open>The payload that answers a batch, when it has a request to answer.\<close>

definition reject_batch :: "wire \<Rightarrow> string \<Rightarrow> (exc, string option) result" where
  "reject_batch W line =
     bindR (batch_items W line) (\<lambda>b.
       case b of
         None \<Rightarrow> Return None
       | Some batch \<Rightarrow>
           (let errors = concat (map batch_error batch)
            in if errors = [] then Return None
               else if wr_room W < nesting (PList errors) then Raise (ToolError ''RecursionError'')
               else Return (Some (utf8 (json_text (compact_style False False) (PList errors) @ [newline])))))"

section \<open>The lines of the client\<close>

definition extract_cost :: "pyval \<Rightarrow> (exc, decimal) result" where
  "extract_cost meta =
     (case meta of
        PDict d \<Rightarrow>
          (case map_of d ''estimated_cost_usd'' of
             None \<Rightarrow> Return (DFin False 0 0)
           | Some v \<Rightarrow> money v (Some MAX_CALL_COST_USD))
      | _ \<Rightarrow> Return (DFin False 0 0))"

text \<open>\<open>CALL_LIKE_METHOD.fullmatch\<close>; its parts have no character in common, so a greedy reading finds the
  match if there is one.\<close>

definition drop_word :: "string \<Rightarrow> string \<Rightarrow> string option" where
  "drop_word word s =
     (if map lower_ascii_char (take (length word) s) = word then Some (drop (length word) s) else None)"

definition call_like_method :: "string \<Rightarrow> bool" where
  "call_like_method s =
     (case drop_word ''tools'' (dropWhile ascii_space s) of
        None \<Rightarrow> False
      | Some r \<Rightarrow>
          (case dropWhile ascii_space r of
             [] \<Rightarrow> False
           | c # r1 \<Rightarrow>
               c = CHR ''/'' \<and>
               (case drop_word ''call'' (dropWhile ascii_space (dropWhile (\<lambda>c. c = CHR ''/'') r1)) of
                  None \<Rightarrow> False
                | Some r2 \<Rightarrow> dropWhile ascii_space r2 = [])))"

text \<open>What \<open>_handle_client_line\<close> does with a line before it first waits: nothing, an answer of its own,
  bytes that answer a batch, an exception of the handler, the message to the server, or a tool call
  with its name, arguments and cost.\<close>

datatype verdict =
    Nothing
  | Answer pydict
  | AnswerBytes string
  | Crash exc
  | Pass pydict
  | Call pydict string pydict decimal

definition answer_verdict :: "pydict option \<Rightarrow> verdict" where
  "answer_verdict a = (case a of None \<Rightarrow> Nothing | Some m \<Rightarrow> Answer m)"

definition undecoded_line :: "wire \<Rightarrow> string \<Rightarrow> verdict" where
  "undecoded_line W line =
     (case is_batch W line of
        Inl e \<Rightarrow> Crash e
      | Inr True \<Rightarrow>
          (case reject_batch W line of
             Inl e \<Rightarrow> Crash e
           | Inr None \<Rightarrow> Nothing
           | Inr (Some payload) \<Rightarrow> AnswerBytes payload)
      | Inr False \<Rightarrow>
          if list_all ascii_space line then Nothing
          else Answer (parse_error_response ''invalid JSON-RPC message''))"

definition tool_request :: "pydict \<Rightarrow> verdict" where
  "tool_request m =
     (let params = (case map_of m ''params'' of Some (PDict d) \<Rightarrow> Some d | _ \<Rightarrow> None);
          name = (case params of None \<Rightarrow> PNone | Some d \<Rightarrow> dict_get d ''name'' PNone)
      in case (params, name) of
           (Some d, PStr tool_name) \<Rightarrow>
             if blank tool_name
             then answer_verdict (error_answer m INVALID_PARAMS_ERROR ''tools/call requires a string tool name'')
             else (case dict_get d ''arguments'' (PDict []) of
                     PDict arguments \<Rightarrow>
                       (case extract_cost (dict_get d ''_meta'' PNone) of
                          Inl _ \<Rightarrow> answer_verdict (error_answer m INVALID_PARAMS_ERROR
                            ''params._meta.estimated_cost_usd must be a non-negative finite number'')
                        | Inr cost \<Rightarrow> Call m tool_name arguments cost)
                   | _ \<Rightarrow> answer_verdict (error_answer m INVALID_PARAMS_ERROR
                       ''tools/call arguments must be an object''))
         | _ \<Rightarrow> answer_verdict (error_answer m INVALID_PARAMS_ERROR ''tools/call requires a string tool name''))"

definition classify_message :: "pydict \<Rightarrow> verdict" where
  "classify_message m =
     (case dict_get m ''method'' PNone of
        PStr method \<Rightarrow>
          if method \<noteq> ''tools/call''
          then (if call_like_method method
                then answer_verdict (error_answer m METHOD_NOT_FOUND_ERROR
                       ''unsupported tools/call alias; use exact tools/call'')
                else Pass m)
          else tool_request m
      | _ \<Rightarrow>
          if \<not> dict_has m ''method'' \<and> (dict_has m ''result'' \<or> dict_has m ''error'') then Pass m
          else answer_verdict (error_answer m INVALID_REQUEST_ERROR ''JSON-RPC method must be a string''))"

definition classify_line :: "wire \<Rightarrow> string \<Rightarrow> verdict" where
  "classify_line W line =
     (case decode_message W line of
        Inl e \<Rightarrow> Answer (parse_error_response (''invalid JSON-RPC message: '' @ exc_message e))
      | Inr None \<Rightarrow> undecoded_line W line
      | Inr (Some m) \<Rightarrow> classify_message m)"

end
