(* ===== verification/Proxy.thy ===== *)
theory Proxy
  imports ProxyMessages FirewallCore
begin

text \<open>
  The session of \<open>McpStdioProxy\<close>: the tasks that handle the lines of the client, the reader of the
  server's lines, and the tables they share. A task runs without interruption from one \<open>await\<close> to the
  next, and each such run is one step of the session; the events that resume the tasks come in any
  order, with any timing, and other processes use the store and the log between them.
  The steps of the firewall are those of \<open>FirewallCore\<close>, cut where \<open>acall_with_arguments\<close> waits: for the
  approver and for the server.
\<close>

section \<open>The state\<close>

text \<open>How an exchange with the server ends: \<open>forward\<close> returns, or raises one of the exceptions of the
  module, or another one.\<close>

datatype exchange_outcome =
    Replied "pydict option"
  | ToolReportedError pydict
  | TimedOut
  | ChildUnavailable
  | OtherError string

text \<open>Where a write to the server stands: it waits for the lock, the line is handed over and drains, it
  timed out and the server is being stopped, or the reply is awaited.\<close>

datatype exchange_stage = Queued | Draining | Aborting | Awaiting

datatype purpose = Passing | Calling tool_call decision

text \<open>The handler of a line: it is executing, it waits for the approver, it exchanges a line with the server, under a key
  of the pending table when a reply is expected, it has returned, or an exception has left it.\<close>

datatype stage =
    Running
  | Asking tool_call decision
  | Exchanging purpose string "string option" exchange_stage
  | Ended
  | Escaped exc

record task =
  tk_line :: string
  tk_message :: pydict
  tk_claim :: "string option"
  tk_stage :: stage
  tk_effects :: "effect list"

text \<open>A future of the pending table: unset, with its result, or with the exception the end of the
  server sets.\<close>

datatype future = Unset | Result pydict | Abandoned

text \<open>What is written to the client: a message or a batch payload by a task, a message by the reading
  loop, or a line of the server as it is.\<close>

datatype client_output =
    FromTask nat pydict
  | BytesFromTask nat string
  | FromLoop pydict
  | Relayed string

record 's session =
  ss_store :: 's
  ss_log :: string
  ss_tasks :: "task list"
  ss_claims :: "string list"
  ss_sequence :: nat
  ss_pending :: "string \<rightharpoonup> future"
  ss_failure :: bool
  ss_hint_shown :: bool
  ss_reading :: bool
  ss_client :: "client_output list"
  ss_server :: "(nat \<times> string) list"

record ('e, 's) proxy =
  px_firewall :: "('e, 's) firewall"
  px_wire :: wire
  px_approver :: bool
  px_hint :: "string option"
  px_prefix :: string

definition new_session :: "'s \<Rightarrow> 's session" where
  "new_session s =
     \<lparr>ss_store = s, ss_log = [], ss_tasks = [], ss_claims = [], ss_sequence = 0,
      ss_pending = Map.empty, ss_failure = False, ss_hint_shown = False, ss_reading = True,
      ss_client = [], ss_server = []\<rparr>"

text \<open>The bytes an output puts on the client's stream.\<close>

fun output_bytes :: "wire \<Rightarrow> client_output \<Rightarrow> string" where
  "output_bytes W (FromTask t m) = (case client_line W m of None \<Rightarrow> [] | Some l \<Rightarrow> l)"
| "output_bytes W (BytesFromTask t b) = b"
| "output_bytes W (FromLoop m) = (case client_line W m of None \<Rightarrow> [] | Some l \<Rightarrow> l)"
| "output_bytes W (Relayed l) = l"

definition client_stream :: "wire \<Rightarrow> 's session \<Rightarrow> string" where
  "client_stream W st = concat (map (output_bytes W) (ss_client st))"

section \<open>Small steps on the state\<close>

definition task_update :: "nat \<Rightarrow> (task \<Rightarrow> task) \<Rightarrow> 's session \<Rightarrow> 's session" where
  "task_update t f st = st\<lparr>ss_tasks := (ss_tasks st)[t := f (ss_tasks st ! t)]\<rparr>"

definition to_client :: "client_output \<Rightarrow> 's session \<Rightarrow> 's session" where
  "to_client out st = st\<lparr>ss_client := ss_client st @ [out]\<rparr>"

text \<open>A step of the firewall, taken by a task; the task keeps its own effects.\<close>

definition in_world :: "nat \<Rightarrow> ('s, 'a) step \<Rightarrow> 's session \<Rightarrow> (exc, 'a) result \<times> 's session" where
  "in_world t m st =
     (let (r, w) = m \<lparr>w_store = ss_store st, w_log = ss_log st, w_effects = tk_effects (ss_tasks st ! t)\<rparr>
      in (r, task_update t (\<lambda>k. k\<lparr>tk_effects := w_effects w\<rparr>)
               (st\<lparr>ss_store := w_store w, ss_log := w_log w\<rparr>)))"

text \<open>A handler ends: its answer is written and its \<open>finally\<close> block discards the claimed id.\<close>

definition leave :: "nat \<Rightarrow> stage \<Rightarrow> pydict option \<Rightarrow> 's session \<Rightarrow> 's session" where
  "leave t how answer st =
     task_update t (\<lambda>k. k\<lparr>tk_stage := how, tk_claim := None\<rparr>)
       (st\<lparr>ss_claims := (case tk_claim (ss_tasks st ! t) of
                           None \<Rightarrow> ss_claims st
                         | Some key \<Rightarrow> filter (\<lambda>x. x \<noteq> key) (ss_claims st)),
           ss_client := ss_client st @ (case answer of None \<Rightarrow> [] | Some m \<Rightarrow> [FromTask t m])\<rparr>)"

text \<open>A handler goes on after a wait.\<close>

definition resume :: "nat \<Rightarrow> 's session \<Rightarrow> 's session" where
  "resume t st = task_update t (\<lambda>k. k\<lparr>tk_stage := Running\<rparr>) st"

definition message_of :: "'s session \<Rightarrow> nat \<Rightarrow> pydict" where
  "message_of st t = tk_message (ss_tasks st ! t)"

text \<open>\<open>_claim_client_id\<close>; False when the id is in use, which has been answered.\<close>

definition claim_client_id :: "nat \<Rightarrow> 's session \<Rightarrow> bool \<times> 's session" where
  "claim_client_id t st =
     (case map_of (message_of st t) ''id'' of
        None \<Rightarrow> (True, st)
      | Some i \<Rightarrow>
          if request_key i \<in> set (ss_claims st) then (False, leave t Ended (Some (duplicate_response i)) st)
          else (True, task_update t (\<lambda>k. k\<lparr>tk_claim := Some (request_key i)\<rparr>)
                        (st\<lparr>ss_claims := ss_claims st @ [request_key i]\<rparr>)))"

section \<open>How a call ends\<close>

text \<open>The exception \<open>forward\<close> raises, by the name of its type.\<close>

fun outcome_error :: "exchange_outcome \<Rightarrow> string option" where
  "outcome_error (Replied r) = None"
| "outcome_error (ToolReportedError r) = Some ''McpToolResponseError''"
| "outcome_error TimedOut = Some ''McpRequestTimeoutError''"
| "outcome_error ChildUnavailable = Some ''McpChildUnavailableError''"
| "outcome_error (OtherError n) = Some n"

text \<open>The rest of \<open>_execute_async\<close> once the operation is over: the terminal audit.\<close>

definition conclude ::
  "('e, 's) firewall \<Rightarrow> 'e access \<Rightarrow> tool_call \<Rightarrow> decision \<Rightarrow> exchange_outcome \<Rightarrow> ('s, unit) step" where
  "conclude f ac c d out =
     (case outcome_error out of
        None \<Rightarrow> audit_terminal f ac ''executed'' c d None
      | Some n \<Rightarrow> audit_terminal f ac ''failed'' c d (Some n))"

text \<open>What \<open>_handle_client_line\<close> writes when \<open>acall_with_arguments\<close> returns, or raises the exception of
  the exchange.\<close>

fun call_answer :: "pydict \<Rightarrow> exchange_outcome \<Rightarrow> pydict option" where
  "call_answer m (Replied r) = r"
| "call_answer m (ToolReportedError r) = Some r"
| "call_answer m TimedOut = map_option timeout_response (map_of m ''id'')"
| "call_answer m ChildUnavailable = map_option child_unavailable_response (map_of m ''id'')"
| "call_answer m (OtherError n) =
     error_answer m INTERNAL_ERROR ''internal firewall error; call not executed''"

text \<open>Only a request, with a method and an id, waits for a reply.\<close>

definition expects_reply :: "pydict \<Rightarrow> bool" where
  "expects_reply m = (dict_has m ''method'' \<and> dict_has m ''id'')"

text \<open>What \<open>_passthrough_client_message\<close> writes; it catches the two exceptions of the proxy only.\<close>

definition passing_answer :: "pydict \<Rightarrow> exchange_outcome \<Rightarrow> pydict option" where
  "passing_answer m out = (if expects_reply m then call_answer m out else None)"

text \<open>An exception of \<open>acall_with_arguments\<close>; a held call shows its hint once.\<close>

fun needs_hint :: "exc \<Rightarrow> bool" where
  "needs_hint (ApprovalRequired r c d) = True"
| "needs_hint e = False"

definition fail_call :: "('e, 's) proxy \<Rightarrow> nat \<Rightarrow> exc \<Rightarrow> 's session \<Rightarrow> 's session" where
  "fail_call p t e st =
     leave t Ended (exception_answer (message_of st t) e)
       (st\<lparr>ss_hint_shown := ss_hint_shown st \<or> needs_hint e \<and> px_hint p \<noteq> None\<rparr>)"

definition finish_exchange ::
  "('e, 's) proxy \<Rightarrow> nat \<Rightarrow> 'e access \<Rightarrow> purpose \<Rightarrow> exchange_outcome \<Rightarrow> 's session \<Rightarrow> 's session" where
  "finish_exchange p t ac pu out st =
     (case pu of
        Passing \<Rightarrow>
          (case out of
             OtherError n \<Rightarrow> leave t (Escaped (ToolError n)) None st
           | _ \<Rightarrow> leave t Ended (passing_answer (message_of st t) out) st)
      | Calling c d \<Rightarrow>
          (case in_world t (conclude (px_firewall p) ac c d out) st of
             (Inl e, st') \<Rightarrow> fail_call p t e st'
           | (Inr _, st') \<Rightarrow> leave t Ended (call_answer (message_of st t) out) st'))"

section \<open>Exchanges with the server\<close>

definition internal_id :: "('e, 's) proxy \<Rightarrow> nat \<Rightarrow> string" where
  "internal_id p n = px_prefix p @ nat_text n"

definition internal_key :: "('e, 's) proxy \<Rightarrow> nat \<Rightarrow> string" where
  "internal_key p n = request_key (PStr (internal_id p n))"

text \<open>\<open>_forward_request\<close> up to its first wait.\<close>

definition forward_request ::
  "('e, 's) proxy \<Rightarrow> nat \<Rightarrow> 'e access \<Rightarrow> purpose \<Rightarrow> 's session \<Rightarrow> 's session" where
  "forward_request p t ac pu st =
     (if ss_failure st then finish_exchange p t ac pu ChildUnavailable st
      else
        (let n = ss_sequence st + 1;
             st1 = st\<lparr>ss_sequence := n\<rparr>
         in case encode_message (px_wire p)
                   (dict_set (message_of st t) ''id'' (PStr (internal_id p n))) of
              Inl _ \<Rightarrow> finish_exchange p t ac pu (OtherError ''ValueError'') st1
            | Inr l \<Rightarrow>
                task_update t (\<lambda>k. k\<lparr>tk_stage := Exchanging pu l (Some (internal_key p n)) Queued\<rparr>)
                  (st1\<lparr>ss_pending := (ss_pending st)(internal_key p n \<mapsto> Unset)\<rparr>)))"

text \<open>\<open>_write_child_with_timeout(line)\<close> up to its first wait: the line of the client as it is.\<close>

definition forward_line ::
  "('e, 's) proxy \<Rightarrow> nat \<Rightarrow> 'e access \<Rightarrow> purpose \<Rightarrow> 's session \<Rightarrow> 's session" where
  "forward_line p t ac pu st =
     (if ss_failure st then finish_exchange p t ac pu ChildUnavailable st
      else task_update t
             (\<lambda>k. k\<lparr>tk_stage := Exchanging pu (tk_line (ss_tasks st ! t)) None Queued\<rparr>) st)"

definition forward ::
  "('e, 's) proxy \<Rightarrow> nat \<Rightarrow> 'e access \<Rightarrow> purpose \<Rightarrow> 's session \<Rightarrow> 's session" where
  "forward p t ac pu st =
     (if expects_reply (message_of st t) then forward_request p t ac pu st
      else forward_line p t ac pu st)"

text \<open>The firewall runs the operation of an authorized call, which is \<open>forward\<close>.\<close>

definition run_call ::
  "('e, 's) proxy \<Rightarrow> nat \<Rightarrow> 'e access \<Rightarrow> tool_call \<Rightarrow> decision \<Rightarrow> 's session \<Rightarrow> 's session" where
  "run_call p t ac c d st =
     forward p t ac (Calling c d) (task_update t (\<lambda>k. k\<lparr>tk_effects := tk_effects k @ [EToolRan]\<rparr>) st)"

text \<open>A tool's failure, in the reply of the server, and what becomes of the reply.\<close>

definition reports_failure :: "pydict \<Rightarrow> bool" where
  "reports_failure r =
     (dict_has r ''error'' \<or>
      (case map_of r ''result'' of
         Some (PDict result) \<Rightarrow> map_of result ''isError'' = Some (PBool True)
       | _ \<Rightarrow> False))"

definition reply_outcome :: "purpose \<Rightarrow> pydict \<Rightarrow> pydict \<Rightarrow> exchange_outcome" where
  "reply_outcome pu m r =
     (let r' = dict_set r ''id'' (dict_get m ''id'' PNone)
      in case pu of
           Passing \<Rightarrow> Replied (Some r')
         | Calling c d \<Rightarrow> if reports_failure r' then ToolReportedError r' else Replied (Some r'))"

text \<open>The \<open>finally\<close> block of \<open>_forward_request\<close>, then the end of the exchange.\<close>

definition end_exchange ::
  "('e, 's) proxy \<Rightarrow> nat \<Rightarrow> 'e access \<Rightarrow> purpose \<Rightarrow> string option \<Rightarrow> exchange_outcome \<Rightarrow>
     's session \<Rightarrow> 's session" where
  "end_exchange p t ac pu key out st =
     finish_exchange p t ac pu out
       (resume t (case key of
                    None \<Rightarrow> st
                  | Some k \<Rightarrow> st\<lparr>ss_pending := (ss_pending st)(k := None)\<rparr>))"

section \<open>The lines of the client\<close>

definition begin_call ::
  "('e, 's) proxy \<Rightarrow> nat \<Rightarrow> string \<Rightarrow> string \<Rightarrow> pydict \<Rightarrow> decimal \<Rightarrow> 'e access \<Rightarrow> 'e access \<Rightarrow>
     's session \<Rightarrow> 's session" where
  "begin_call p t new_id name arguments cost ac ac_end st =
     (case claim_client_id t st of
        (False, st1) \<Rightarrow> st1
      | (True, st1) \<Rightarrow>
          (case create_call new_id (PStr name) (Some arguments)
                  (PObj (dec_text cost) (''Decimal('' @ str_repr (dec_text cost) @ '')'')) of
             Inl e \<Rightarrow> fail_call p t e st1
           | Inr c \<Rightarrow>
               (case in_world t (authorize (px_firewall p) ac c) st1 of
                  (Inl e, st2) \<Rightarrow> fail_call p t e st2
                | (Inr d, st2) \<Rightarrow>
                    if d_kind d \<noteq> REQUIRE_APPROVAL then run_call p t ac_end c d st2
                    else if \<not> px_approver p then fail_call p t (ApprovalRequired (d_reason d) c d) st2
                    else task_update t
                           (\<lambda>k. k\<lparr>tk_stage := Asking c d, tk_effects := tk_effects k @ [EApproverAsked]\<rparr>) st2)))"

text \<open>\<open>_passthrough_client_message\<close>: a request claims its id, anything else is written as it is.\<close>

definition begin_pass :: "('e, 's) proxy \<Rightarrow> nat \<Rightarrow> 'e access \<Rightarrow> 's session \<Rightarrow> 's session" where
  "begin_pass p t ac st =
     (if expects_reply (message_of st t)
      then (case claim_client_id t st of
              (False, st1) \<Rightarrow> st1
            | (True, st1) \<Rightarrow> forward p t ac Passing st1)
      else forward p t ac Passing st)"

fun verdict_message :: "verdict \<Rightarrow> pydict" where
  "verdict_message (Pass m) = m"
| "verdict_message (Call m name arguments cost) = m"
| "verdict_message v = []"

text \<open>\<open>_handle_client_line\<close> up to its first wait: a new task.\<close>

definition client_line_step ::
  "('e, 's) proxy \<Rightarrow> string \<Rightarrow> string \<Rightarrow> 'e access \<Rightarrow> 'e access \<Rightarrow> 's session \<Rightarrow> 's session" where
  "client_line_step p bytes new_id ac ac_end st =
     (let t = length (ss_tasks st);
          v = classify_line (px_wire p) bytes;
          st0 = st\<lparr>ss_tasks := ss_tasks st @
                  [\<lparr>tk_line = bytes, tk_message = verdict_message v, tk_claim = None, tk_stage = Running,
                    tk_effects = []\<rparr>]\<rparr>
      in case v of
           Nothing \<Rightarrow> leave t Ended None st0
         | Answer m \<Rightarrow> leave t Ended (Some m) st0
         | AnswerBytes b \<Rightarrow> leave t Ended None (to_client (BytesFromTask t b) st0)
         | Crash e \<Rightarrow> leave t (Escaped e) None st0
         | Pass m \<Rightarrow> begin_pass p t ac_end st0
         | Call m name arguments cost \<Rightarrow> begin_call p t new_id name arguments cost ac ac_end st0)"

section \<open>The events that resume a task\<close>

text \<open>The approver answers, or raises.\<close>

definition approver_replies ::
  "('e, 's) proxy \<Rightarrow> nat \<Rightarrow> string + bool \<Rightarrow> 'e access \<Rightarrow> 'e access \<Rightarrow> 's session \<Rightarrow> 's session" where
  "approver_replies p t reply ac ac_end st =
     (case tk_stage (ss_tasks st ! t) of
        Asking c d \<Rightarrow>
          (case reply of
             Inl n \<Rightarrow> fail_call p t (ToolError n) (resume t st)
           | Inr approved \<Rightarrow>
               (case in_world t (finish_approval (px_firewall p) ac c d approved) (resume t st) of
                  (Inl e, st1) \<Rightarrow> fail_call p t e st1
                | (Inr _, st1) \<Rightarrow> run_call p t ac_end c d st1))
      | _ \<Rightarrow> st)"

text \<open>\<open>_write_child\<close>: the task that has the lock hands its line to the transport, which drops it when
  the server's input is closed; the lock is held until the line has drained.\<close>

definition lock_free :: "'s session \<Rightarrow> bool" where
  "lock_free st = list_all (\<lambda>k. \<forall>pu l key. tk_stage k \<noteq> Exchanging pu l key Draining) (ss_tasks st)"

definition set_exchange_stage :: "nat \<Rightarrow> exchange_stage \<Rightarrow> 's session \<Rightarrow> 's session" where
  "set_exchange_stage t x st =
     task_update t (\<lambda>k. k\<lparr>tk_stage := (case tk_stage k of
         Exchanging pu l key y \<Rightarrow> Exchanging pu l key x
       | other \<Rightarrow> other)\<rparr>) st"

definition write_begins :: "nat \<Rightarrow> 's session \<Rightarrow> 's session" where
  "write_begins t st =
     (case tk_stage (ss_tasks st ! t) of
        Exchanging pu l key Queued \<Rightarrow>
          if \<not> lock_free st then st
          else set_exchange_stage t Draining
                 (if ss_failure st then st else st\<lparr>ss_server := ss_server st @ [(t, l)]\<rparr>)
      | _ \<Rightarrow> st)"

definition write_drained :: "('e, 's) proxy \<Rightarrow> nat \<Rightarrow> 'e access \<Rightarrow> 's session \<Rightarrow> 's session" where
  "write_drained p t ac st =
     (case tk_stage (ss_tasks st ! t) of
        Exchanging pu l None Draining \<Rightarrow> end_exchange p t ac pu None (Replied None) st
      | Exchanging pu l (Some key) Draining \<Rightarrow> set_exchange_stage t Awaiting st
      | _ \<Rightarrow> st)"

definition write_fails :: "('e, 's) proxy \<Rightarrow> nat \<Rightarrow> string \<Rightarrow> 'e access \<Rightarrow> 's session \<Rightarrow> 's session" where
  "write_fails p t n ac st =
     (case tk_stage (ss_tasks st ! t) of
        Exchanging pu l key Draining \<Rightarrow> end_exchange p t ac pu key (OtherError n) st
      | _ \<Rightarrow> st)"

text \<open>A stalled write: \<open>_abort_child\<close> marks the server as failed and closes its input at once, and the
  task goes on when the server is gone.\<close>

definition write_times_out :: "nat \<Rightarrow> 's session \<Rightarrow> 's session" where
  "write_times_out t st =
     (case tk_stage (ss_tasks st ! t) of
        Exchanging pu l key x \<Rightarrow>
          if x = Queued \<or> x = Draining then set_exchange_stage t Aborting (st\<lparr>ss_failure := True\<rparr>) else st
      | _ \<Rightarrow> st)"

definition abort_done :: "('e, 's) proxy \<Rightarrow> nat \<Rightarrow> 'e access \<Rightarrow> 's session \<Rightarrow> 's session" where
  "abort_done p t ac st =
     (case tk_stage (ss_tasks st ! t) of
        Exchanging pu l key Aborting \<Rightarrow> end_exchange p t ac pu key TimedOut st
      | _ \<Rightarrow> st)"

definition deadline_passes :: "('e, 's) proxy \<Rightarrow> nat \<Rightarrow> 'e access \<Rightarrow> 's session \<Rightarrow> 's session" where
  "deadline_passes p t ac st =
     (case tk_stage (ss_tasks st ! t) of
        Exchanging pu l key Awaiting \<Rightarrow> end_exchange p t ac pu key TimedOut st
      | _ \<Rightarrow> st)"

definition reply_ready :: "('e, 's) proxy \<Rightarrow> nat \<Rightarrow> 'e access \<Rightarrow> 's session \<Rightarrow> 's session" where
  "reply_ready p t ac st =
     (case tk_stage (ss_tasks st ! t) of
        Exchanging pu l (Some key) Awaiting \<Rightarrow>
          (case ss_pending st key of
             Some (Result r) \<Rightarrow>
               end_exchange p t ac pu (Some key) (reply_outcome pu (message_of st t) r) st
           | Some Abandoned \<Rightarrow> end_exchange p t ac pu (Some key) ChildUnavailable st
           | _ \<Rightarrow> st)
      | _ \<Rightarrow> st)"

section \<open>The reader of the server\<close>

text \<open>\<open>_read_child\<close>, for one line and at the end of its output.\<close>

definition server_line :: "('e, 's) proxy \<Rightarrow> string \<Rightarrow> 's session \<Rightarrow> 's session" where
  "server_line p bytes st =
     (if \<not> ss_reading st then st
      else (case decode_message (px_wire p) bytes of
              Inl _ \<Rightarrow> st
            | Inr None \<Rightarrow> to_client (Relayed bytes) st
            | Inr (Some m) \<Rightarrow>
                (case (dict_has m ''method'', map_of m ''id'') of
                   (False, Some i) \<Rightarrow>
                     if ss_pending st (request_key i) = Some Unset
                     then st\<lparr>ss_pending := (ss_pending st)(request_key i \<mapsto> Result m)\<rparr>
                     else (case i of
                             PStr s \<Rightarrow>
                               if starts_with (px_prefix p) s then st else to_client (Relayed bytes) st
                           | _ \<Rightarrow> to_client (Relayed bytes) st)
                 | _ \<Rightarrow> to_client (Relayed bytes) st)))"

definition server_ends :: "'s session \<Rightarrow> 's session" where
  "server_ends st =
     st\<lparr>ss_reading := False,
        ss_pending := (\<lambda>key. map_option (\<lambda>x. if x = Unset then Abandoned else x) (ss_pending st key))\<rparr>"

section \<open>The session\<close>

datatype 'e event =
    ClientLine string string "'e access" "'e access"
  | ClientOversized
  | ApproverReplies nat "string + bool" "'e access" "'e access"
  | WriteBegins nat
  | WriteDrained nat "'e access"
  | WriteFails nat string "'e access"
  | WriteTimesOut nat
  | AbortDone nat "'e access"
  | DeadlinePasses nat "'e access"
  | ReplyReady nat "'e access"
  | ServerLine string
  | ServerEnds
  | OtherProcesses "'e meanwhile"

definition other_processes :: "('e, 's) proxy \<Rightarrow> 'e meanwhile \<Rightarrow> 's session \<Rightarrow> 's session" where
  "other_processes p mw st =
     st\<lparr>ss_store := run_requests (f_reserve (px_firewall p)) (f_policy (px_firewall p))
                      (mw_requests mw) (ss_store st),
        ss_log := ss_log st @ mw_log mw\<rparr>"

text \<open>The task an event resumes; an event of a task that does not exist changes nothing.\<close>

fun event_task :: "'e event \<Rightarrow> nat option" where
  "event_task (ApproverReplies t r ac ac_end) = Some t"
| "event_task (WriteBegins t) = Some t"
| "event_task (WriteDrained t ac) = Some t"
| "event_task (WriteFails t n ac) = Some t"
| "event_task (WriteTimesOut t) = Some t"
| "event_task (AbortDone t ac) = Some t"
| "event_task (DeadlinePasses t ac) = Some t"
| "event_task (ReplyReady t ac) = Some t"
| "event_task _ = None"

fun handle_event :: "('e, 's) proxy \<Rightarrow> 'e event \<Rightarrow> 's session \<Rightarrow> 's session" where
  "handle_event p (ClientLine bytes new_id ac ac_end) st = client_line_step p bytes new_id ac ac_end st"
| "handle_event p ClientOversized st = to_client (FromLoop (parse_error_response ''request too large'')) st"
| "handle_event p (ApproverReplies t r ac ac_end) st = approver_replies p t r ac ac_end st"
| "handle_event p (WriteBegins t) st = write_begins t st"
| "handle_event p (WriteDrained t ac) st = write_drained p t ac st"
| "handle_event p (WriteFails t n ac) st = write_fails p t n ac st"
| "handle_event p (WriteTimesOut t) st = write_times_out t st"
| "handle_event p (AbortDone t ac) st = abort_done p t ac st"
| "handle_event p (DeadlinePasses t ac) st = deadline_passes p t ac st"
| "handle_event p (ReplyReady t ac) st = reply_ready p t ac st"
| "handle_event p (ServerLine bytes) st = server_line p bytes st"
| "handle_event p ServerEnds st = server_ends st"
| "handle_event p (OtherProcesses mw) st = other_processes p mw st"

definition proxy_step :: "('e, 's) proxy \<Rightarrow> 'e event \<Rightarrow> 's session \<Rightarrow> 's session" where
  "proxy_step p ev st =
     (case event_task ev of
        Some t \<Rightarrow> if t < length (ss_tasks st) then handle_event p ev st else st
      | None \<Rightarrow> handle_event p ev st)"

text \<open>The sessions that any order of events leads to, and the run of a given list of events.\<close>

inductive reachable :: "('e, 's) proxy \<Rightarrow> 's session \<Rightarrow> bool" for p :: "('e, 's) proxy" where
  new: "reachable p (new_session s)"
| step: "reachable p st \<Longrightarrow> reachable p (proxy_step p ev st)"

definition run_session :: "('e, 's) proxy \<Rightarrow> 'e event list \<Rightarrow> 's session \<Rightarrow> 's session" where
  "run_session p evs st = foldl (\<lambda>st ev. proxy_step p ev st) st evs"

lemma reachable_run: "reachable p st \<Longrightarrow> reachable p (run_session p evs st)"
  unfolding run_session_def by (induction evs arbitrary: st) (auto intro: reachable.step)

declare POLICY_ERROR_def [evals] DUPLICATE_ID_ERROR_def [evals] INVALID_REQUEST_ERROR_def [evals]
  INVALID_PARAMS_ERROR_def [evals] INTERNAL_ERROR_def [evals] REQUEST_TIMEOUT_ERROR_def [evals]
  CHILD_UNAVAILABLE_ERROR_def [evals] PARSE_ERROR_def [evals] METHOD_NOT_FOUND_ERROR_def [evals]
  error_response_def [evals] plain_error_def [evals] error_answer_def [evals]
  parse_error_response_def [evals] timeout_response_def [evals]
  child_unavailable_response_def [evals] duplicate_response_def [evals] policy_response_def [evals]
  client_line_def [evals] classify_line_def [evals] classify_message_def [evals]
  tool_request_def [evals] extract_cost_def [evals] answer_verdict_def [evals]
  new_session_def [evals] client_stream_def [evals] resume_def [evals] task_update_def [evals] to_client_def [evals]
  in_world_def [evals] leave_def [evals] message_of_def [evals] claim_client_id_def [evals]
  conclude_def [evals] expects_reply_def [evals] passing_answer_def [evals] fail_call_def [evals]
  finish_exchange_def [evals] internal_id_def [evals] internal_key_def [evals]
  forward_request_def [evals] forward_line_def [evals] forward_def [evals] run_call_def [evals]
  reports_failure_def [evals] reply_outcome_def [evals] end_exchange_def [evals]
  begin_call_def [evals] begin_pass_def [evals] client_line_step_def [evals]
  approver_replies_def [evals] lock_free_def [evals] set_exchange_stage_def [evals]
  write_begins_def [evals] write_drained_def [evals] write_fails_def [evals]
  write_times_out_def [evals] abort_done_def [evals] deadline_passes_def [evals]
  reply_ready_def [evals] server_line_def [evals] server_ends_def [evals]
  other_processes_def [evals] proxy_step_def [evals] run_session_def [evals]

end
