(* ===== verification/ProxySetup.thy ===== *)
theory ProxySetup
  imports Proxy ApprovalQueue ShellLexer
begin

text \<open>
  \<open>mcp_proxy.py\<close>, what surrounds a session: the approval prompt on the controlling terminal
  (\<open>_value_preview\<close>, \<open>_args_preview\<close>, \<open>TerminalApprover\<close>), the checks of \<open>McpStdioProxy.__init__\<close>,
  the dashboard command a web-approving proxy prints, and the choice of the approver in
  \<open>run_mcp_proxy\<close>. Results: the terminal consents exactly when the operator types yes, at once or
  after one undecided answer; every argument of the call has a line of its own in the prompt, which no
  value can break; the printed command splits into the words it was made of.
\<close>

section \<open>The approval prompt\<close>

definition ARGS_VALUE_PREVIEW_LIMIT :: nat where "ARGS_VALUE_PREVIEW_LIMIT = 200"

text \<open>\<open>json.dumps(value, ensure_ascii=False, default=repr)\<close>. Arguments have string keys and no
  cycles, so the fallback to \<open>repr\<close> is never taken.\<close>

definition preview_style :: json_style where
  "preview_style =
     \<lparr>js_ascii = False, js_sort = False, js_item_sep = '', '', js_key_sep = '': '', js_default_str = False\<rparr>"

definition value_preview :: "pyval \<Rightarrow> string" where
  "value_preview v =
     (let full = json_text preview_style v
      in if ARGS_VALUE_PREVIEW_LIMIT < length full
         then take ARGS_VALUE_PREVIEW_LIMIT full @ ''... ['' @
              nat_text (length full - ARGS_VALUE_PREVIEW_LIMIT) @ '' more chars]''
         else full)"

definition preview_line :: "string \<times> pyval \<Rightarrow> string" where
  "preview_line kv = ''    '' @ json_string False (fst kv) @ '': '' @ value_preview (snd kv)"

definition args_preview :: "tool_call \<Rightarrow> string" where
  "args_preview c =
     (if tc_arguments c = [] then '' {}''
      else concat (map (\<lambda>kv. [newline_char] @ preview_line kv) (tc_arguments c)))"

definition approval_prompt :: "tool_call \<Rightarrow> decision \<Rightarrow> string" where
  "approval_prompt c d =
     ''agent-firewall approval'' @ [newline_char] @
     ''  tool: '' @ tc_name c @ [newline_char] @
     ''  arguments:'' @ args_preview c @ [newline_char] @
     ''  reason: '' @ d_reason d @ [newline_char] @
     ''  Approve? [y/N] ''"

text \<open>What one round at the terminal comes to: the line read (empty at the end of the input), an
  \<open>EOFError\<close>, an \<open>OSError\<close> of the terminal, or another exception by its type's name.\<close>

datatype terminal_round =
    Typed string
  | InputEnds
  | TerminalFails
  | TerminalRaises string

definition retry_prompt :: string where
  "retry_prompt = ''Answer y or n. Approve? [y/N] ''"

text \<open>\<open>_prompt\<close>: the prompts written, and the answer. \<open>Inl None\<close> is the \<open>OSError\<close> that \<open>_decide\<close>
  catches.\<close>

fun prompt_rounds ::
  "nat \<Rightarrow> string \<Rightarrow> terminal_round list \<Rightarrow> (string option + bool) \<times> string list" where
  "prompt_rounds 0 prompt rounds = (Inr False, [])"
| "prompt_rounds (Suc n) prompt rounds =
     (case (case rounds of [] \<Rightarrow> Typed [] | r # _ \<Rightarrow> r) of
        TerminalFails \<Rightarrow> (Inl None, [prompt])
      | TerminalRaises e \<Rightarrow> (Inl (Some e), [prompt])
      | InputEnds \<Rightarrow> (Inr False, [prompt])
      | Typed reply \<Rightarrow>
          (let answer = str_lower (str_strip reply)
           in if answer = ''y'' \<or> answer = ''yes'' then (Inr True, [prompt])
              else if answer = ''n'' \<or> answer = ''no'' then (Inr False, [prompt])
              else if answer = [] then (Inr False, [prompt])
              else (case prompt_rounds n retry_prompt (tl rounds) of
                      (r, written) \<Rightarrow> (r, prompt # written))))"

text \<open>\<open>_decide\<close>: without a terminal the answer is no. The reply reaches the firewall as that of an
  awaitable approver.\<close>

definition terminal_decide ::
  "terminal_round list option \<Rightarrow> tool_call \<Rightarrow> decision \<Rightarrow> (string + bool) \<times> string list" where
  "terminal_decide terminal c d =
     (case terminal of
        None \<Rightarrow> (Inr False, [])
      | Some rounds \<Rightarrow>
          (case prompt_rounds 2 (approval_prompt c d) rounds of
             (Inl None, written) \<Rightarrow> (Inr False, written)
           | (Inl (Some e), written) \<Rightarrow> (Inl e, written)
           | (Inr b, written) \<Rightarrow> (Inr b, written)))"

definition terminal_reply :: "terminal_round list option \<Rightarrow> tool_call \<Rightarrow> decision \<Rightarrow> approver_reply" where
  "terminal_reply terminal c d = ReplyAwaitable (fst (terminal_decide terminal c d))"

section \<open>Configuration\<close>

text \<open>\<open>McpStdioProxy.__init__\<close>: the command that is run.\<close>

definition proxy_command :: "string list \<Rightarrow> rat \<Rightarrow> int \<Rightarrow> (exc, string list) result" where
  "proxy_command command request_timeout max_line_bytes =
     (let command' = (case command of c # cs \<Rightarrow> if c = ''--'' then cs else c # cs | [] \<Rightarrow> [])
      in bindR (requireR (command' \<noteq> []) (ValueError ''MCP server command is required after --'')) (\<lambda>_.
         bindR (requireR (\<not> request_timeout \<le> 0) (ValueError ''request timeout must be positive'')) (\<lambda>_.
         bindR (requireR (\<not> max_line_bytes \<le> 0) (ValueError ''max line bytes must be positive'')) (\<lambda>_.
         Return command'))))"

definition DEFAULT_APPROVAL_TIMEOUT :: rat where "DEFAULT_APPROVAL_TIMEOUT = 300"

text \<open>The text of a float that is not a whole number is the argument \<open>float_repr\<close>.\<close>

definition seconds_text :: "(rat \<Rightarrow> string) \<Rightarrow> rat \<Rightarrow> string" where
  "seconds_text float_repr seconds =
     (if of_int \<lfloor>seconds\<rfloor> = seconds then int_text \<lfloor>seconds\<rfloor> else float_repr seconds)"

definition dashboard_command ::
  "(rat \<Rightarrow> string) \<Rightarrow> string \<Rightarrow> string \<Rightarrow> string \<Rightarrow> rat \<Rightarrow> string list" where
  "dashboard_command float_repr policy_path audit_path state_path approval_timeout =
     [''agent-firewall'', ''dashboard'', ''--policy'', policy_path, ''--audit'', audit_path,
      ''--state'', state_path] @
     (if approval_timeout \<noteq> DEFAULT_APPROVAL_TIMEOUT
      then [''--approval-timeout'', seconds_text float_repr approval_timeout] else [])"

text \<open>\<open>shlex.quote\<close> and \<open>shlex.join\<close> of the standard library.\<close>

definition shell_safe :: "char \<Rightarrow> bool" where
  "shell_safe c = (is_alpha_ascii c \<or> is_digit c \<or> c \<in> set ''_@%+=:,./-'')"

definition shlex_quote :: "string \<Rightarrow> string" where
  "shlex_quote s =
     (if s = [] then [lex_squote, lex_squote]
      else if list_all shell_safe s then s
      else [lex_squote] @
           concat (map (\<lambda>c. if c = lex_squote
                            then [lex_squote, lex_dquote, lex_squote, lex_dquote, lex_squote] else [c]) s) @
           [lex_squote])"

definition shlex_join :: "string list \<Rightarrow> string" where
  "shlex_join words = join_with '' '' (map shlex_quote words)"

datatype approver_choice = NoApprover | TerminalPrompt | WebQueue

record mcp_options =
  mo_policy :: string
  mo_command :: "string list"
  mo_audit :: "string option"
  mo_state :: "string option"
  mo_terminal :: bool
  mo_web :: bool
  mo_approval_timeout :: "rat option"
  mo_request_timeout :: rat
  mo_max_line_bytes :: int

record mcp_setup =
  su_policy :: policy
  su_audit :: "string option"
  su_state :: "string option"
  su_approver :: approver_choice
  su_hint :: "string option"
  su_command :: "string list"
  su_printed :: "string list"

definition hold_hint_text :: string where
  "hold_hint_text = ''call held but no approver is configured; restart with --approve-terminal or --approve-web''"

text \<open>\<open>run_mcp_proxy\<close> up to \<open>run\<close>. The arguments: what opening the approval queue and the state database
  comes to, and what loading the policy gives.\<close>

definition choose_approver ::
  "(rat \<Rightarrow> string) \<Rightarrow> (exc, unit) result \<Rightarrow> mcp_options \<Rightarrow>
     (exc, approver_choice \<times> string option \<times> string list) result" where
  "choose_approver float_repr opened_queue mo =
     (if mo_web mo then
        (case (mo_state mo, mo_audit mo) of
           (Some state_path, Some audit_path) \<Rightarrow>
             bindR (check_durations (mo_approval_timeout mo) (Some (1 / 4))) (\<lambda>_.
             bindR opened_queue (\<lambda>_.
             Return (WebQueue, None,
               [''agent-firewall: approvals come from the dashboard; start it with: '' @
                shlex_join (dashboard_command float_repr (mo_policy mo) audit_path state_path
                  (the (mo_approval_timeout mo)))])))
         | _ \<Rightarrow> Raise (ValueError ''--approve-web requires --audit and --state''))
      else if mo_terminal mo then Return (TerminalPrompt, None, [])
      else Return (NoApprover, Some hold_hint_text, []))"

definition mcp_configure ::
  "(rat \<Rightarrow> string) \<Rightarrow> (exc, unit) result \<Rightarrow> (exc, unit) result \<Rightarrow> (exc, policy) result \<Rightarrow>
     mcp_options \<Rightarrow> (exc, mcp_setup) result" where
  "mcp_configure float_repr opened_queue opened_state loaded mo =
     bindR (requireR (\<not> (mo_terminal mo \<and> mo_web mo))
       (ValueError ''choose either terminal or web approval'')) (\<lambda>_.
     bindR (choose_approver float_repr opened_queue mo) (\<lambda>(approver, hint, printed).
     bindR (if mo_state mo \<noteq> None then opened_state else Return ()) (\<lambda>_.
     bindR loaded (\<lambda>p.
     bindR (proxy_command (mo_command mo) (mo_request_timeout mo) (mo_max_line_bytes mo)) (\<lambda>command.
     Return \<lparr>su_policy = p, su_audit = mo_audit mo, su_state = mo_state mo, su_approver = approver,
             su_hint = hint, su_command = command, su_printed = printed\<rparr>)))))"

declare ARGS_VALUE_PREVIEW_LIMIT_def [evals] preview_style_def [evals] value_preview_def [evals]
  preview_line_def [evals] args_preview_def [evals] approval_prompt_def [evals] retry_prompt_def [evals]
  terminal_decide_def [evals] terminal_reply_def [evals] proxy_command_def [evals]
  DEFAULT_APPROVAL_TIMEOUT_def [evals] seconds_text_def [evals] dashboard_command_def [evals]
  shell_safe_def [evals] shlex_quote_def [evals] shlex_join_def [evals] hold_hint_text_def [evals]
  choose_approver_def [evals] mcp_configure_def [evals]

section \<open>The printed command\<close>

lemma shell_safe_plain: "shell_safe c \<Longrightarrow> lex_plain c"
  by (auto simp: shell_safe_def lex_plain_def lex_blank_def lex_punct_def lex_quote_def lex_dquote_def
      lex_squote_def lex_escape_def is_alpha_ascii_def is_digit_def char_of_def bit_Suc_0_nat)

lemma quoted_run:
  "shlex_run (LexQuote lex_squote) tok
     (concat (map (\<lambda>c. if c = lex_squote
        then [lex_squote, lex_dquote, lex_squote, lex_dquote, lex_squote] else [c]) s) @ lex_squote # r) =
   shlex_run LexWord (tok @ s) r"
proof (induction s arbitrary: tok)
  case (Cons c s)
  have ne: "lex_squote \<noteq> lex_dquote" "lex_dquote \<noteq> lex_squote" "\<not> lex_blank lex_dquote"
      "\<not> lex_blank lex_squote" "lex_quote lex_dquote" "lex_quote lex_squote" "lex_squote \<noteq> lex_escape"
    by (simp_all add: evals char_of_def)
  show ?case
    using Cons.IH [of "tok @ [c]"] by (auto simp: ne)
qed simp

lemma quoted_word_run: "shlex_run LexStart tok (shlex_quote w @ r) = shlex_run LexWord w r"
proof -
  have q: "\<not> lex_blank lex_squote" "lex_squote \<noteq> lex_escape" "\<not> lex_punct lex_squote" "lex_quote lex_squote"
    by (simp_all add: evals char_of_def)
  show ?thesis
  proof (cases "w \<noteq> [] \<and> list_all shell_safe w")
    case True
    then have "list_all lex_plain w" using shell_safe_plain by (auto simp: list_all_iff)
    then show ?thesis using True by (simp add: shlex_quote_def shlex_start_plain)
  next
    case False
    then show ?thesis using quoted_run [of "[]" w r] by (auto simp: shlex_quote_def q)
  qed
qed

lemma shlex_join_tokens:
  assumes "ws \<noteq> []"
  shows "shlex_tokens (shlex_join ws) = Some ws"
proof -
  have "shlex_run LexStart tok (join_with '' '' (map shlex_quote ws)) = Some ws" for tok
    using assms
  proof (induction ws arbitrary: tok rule: induct_list012)
    case (2 w)
    then show ?case using quoted_word_run [of tok w "[]"] by simp
  next
    case (3 w v ws)
    have "lex_blank (CHR '' '')" by (simp add: lex_blank_def)
    with 3 show ?case by (simp add: quoted_word_run)
  qed simp
  then show ?thesis by (simp add: shlex_tokens_def shlex_join_def)
qed


section \<open>The lines of the prompt\<close>

text \<open>No control character: nothing below the blank.\<close>

definition no_control :: "string \<Rightarrow> bool" where
  "no_control s = list_all (\<lambda>c. 32 \<le> code c) s"

lemma no_control_simps [simp]:
  "no_control []" "no_control (c # s) \<longleftrightarrow> 32 \<le> code c \<and> no_control s"
  "no_control (s @ t) \<longleftrightarrow> no_control s \<and> no_control t"
  by (simp_all add: no_control_def)

lemma printable_no_control: "list_all printable s \<Longrightarrow> no_control s"
  by (auto simp: no_control_def list_all_iff printable_def)

lemma no_control_newline: "no_control s \<Longrightarrow> newline_char \<notin> set s"
  by (auto simp: no_control_def list_all_iff newline_char_def)

lemma json_char_no_control: "no_control (json_char False c)"
proof -
  have "code c < 256" by (rule code_lt)
  then have "code c div 16 < 16" by linarith
  then have "list_all printable (hex2 (code c))" by (simp add: hex2_def printable_hex)
  then have "no_control (hex2 (code c))" by (rule printable_no_control)
  moreover have "32 \<le> code backslash" "32 \<le> code dquote" by (simp_all add: backslash_def dquote_def)
  ultimately show ?thesis by (auto simp: json_char_def)
qed

lemma json_string_no_control: "no_control (json_string False s)"
proof -
  have "no_control (concat (map (json_char False) s))"
    by (induction s) (auto simp: json_char_no_control)
  moreover have "32 \<le> code dquote" by (simp add: dquote_def)
  ultimately show ?thesis by (simp add: json_string_def)
qed

lemma join_no_control:
  "no_control sep \<Longrightarrow> list_all no_control ws \<Longrightarrow> no_control (join_with sep ws)"
  by (induction sep ws rule: join_with.induct) auto

lemma preview_no_control:
  "st = preview_style \<Longrightarrow> floats_printable v \<Longrightarrow> no_control (json_text st v)"
  "st = preview_style \<Longrightarrow> floats_printable_list xs \<Longrightarrow> list_all no_control (json_texts st xs)"
  "st = preview_style \<Longrightarrow> floats_printable_items d \<Longrightarrow>
     list_all (\<lambda>kt. no_control (snd kt)) (json_items st d)"
proof (induction st v and st xs and st d rule: json_text_json_texts_json_items.induct)
  case (8 st d)
  then have "list_all (\<lambda>kt. no_control (snd kt)) (json_items st d)" by (simp add: preview_style_def)
  then show ?case
    using 8 by (auto simp: preview_style_def list_all_iff json_string_no_control intro!: join_no_control)
qed (auto simp: preview_style_def json_string_no_control int_text_def json_float_def
    printable_no_control digits_printable intro!: join_no_control)

lemma no_control_take: "no_control s \<Longrightarrow> no_control (take n s)"
  by (auto simp: no_control_def list_all_iff dest: in_set_takeD)

lemma value_preview_no_control: "floats_printable v \<Longrightarrow> no_control (value_preview v)"
  using preview_no_control(1) [of preview_style v]
  by (simp add: value_preview_def Let_def no_control_take printable_no_control digits_printable)

lemma preview_line_no_control:
  assumes "call_floats_ok c" "kv \<in> set (tc_arguments c)"
  shows "no_control (preview_line kv)"
proof -
  have "floats_printable_items d \<Longrightarrow> kv \<in> set d \<Longrightarrow> floats_printable (snd kv)" for d
    by (induction d) auto
  then show ?thesis
    using assms by (simp add: preview_line_def call_floats_ok_def json_string_no_control value_preview_no_control)
qed

lemma preview_line_no_newline:
  "call_floats_ok c \<Longrightarrow> kv \<in> set (tc_arguments c) \<Longrightarrow> newline_char \<notin> set (preview_line kv)"
  by (rule no_control_newline [OF preview_line_no_control])

lemma split_lines:
  "newline_char \<notin> set s \<Longrightarrow> (\<And>l. l \<in> set ls \<Longrightarrow> newline_char \<notin> set l) \<Longrightarrow>
     split_on newline_char (s @ concat (map (\<lambda>l. newline_char # l) ls)) = s # ls"
proof (induction ls arbitrary: s)
  case (Cons l ls)
  then show ?case using Cons.IH [of l] by (simp add: split_on_sep split_on_single)
qed (simp add: split_on_single)

section \<open>Properties\<close>

definition answer_at :: "terminal_round list \<Rightarrow> nat \<Rightarrow> string option" where
  "answer_at rounds i =
     (if i < length rounds then (case rounds ! i of Typed t \<Rightarrow> Some (str_lower (str_strip t)) | _ \<Rightarrow> None)
      else Some [])"

definition says_yes :: "string option \<Rightarrow> bool" where
  "says_yes a = (a = Some ''y'' \<or> a = Some ''yes'')"

definition undecided :: "string option \<Rightarrow> bool" where
  "undecided a = (a \<noteq> None \<and> a \<notin> {Some ''y'', Some ''yes'', Some ''n'', Some ''no'', Some []})"

text \<open>The terminal approves a call exactly when there is a terminal and the operator answers y or
  yes to the prompt that shows the call, or gives an answer that is no decision and then y or yes to
  the second one. An empty line, the end of the input, a failing terminal and every other text deny.\<close>

theorem terminal_consent:
  "fst (terminal_decide terminal c d) = Inr True \<longleftrightarrow>
     (case terminal of None \<Rightarrow> False
      | Some rounds \<Rightarrow>
          says_yes (answer_at rounds 0) \<or> undecided (answer_at rounds 0) \<and> says_yes (answer_at rounds 1))"
proof (cases terminal)
  case (Some rounds)
  have "str_lower (str_strip []) = []" by (simp add: evals str_lstrip_def str_rstrip_def)
  then show ?thesis
    by (cases rounds; cases "tl rounds")
      (auto simp: Some terminal_decide_def answer_at_def says_yes_def undecided_def numeral_2_eq_2 Let_def
        split: terminal_round.splits)
qed (simp add: terminal_decide_def)

text \<open>C31: For a call the firewall created, with arguments, whose floats print, and a reason of one line, the first text written to the terminal,
  split at its line feeds, is: a heading, the tool's name, the arguments one to a line in the order of
  the call, each by its key and the first 200 characters of its value, the reason, and the question.
  The line of an argument puts no character below the blank on the terminal, so no key or value
  starts a line of its own, goes back in one with a carriage return or a backspace, or sends the escape
  character (the control characters above 127 are not excluded); the line of the name holds no line feed
  and no carriage return, of other control characters in it nothing is said.\<close>

theorem prompt_lists_arguments:
  assumes "create_call new_id nm (Some arguments) cost = Inr c" "call_floats_ok c" "arguments \<noteq> []"
    and "newline_char \<notin> set (d_reason d)"
  shows "split_on newline_char (hd (snd (terminal_decide (Some rounds) c d))) =
    [''agent-firewall approval'', ''  tool: '' @ tc_name c, ''  arguments:''] @
    map preview_line arguments @ [''  reason: '' @ d_reason d, ''  Approve? [y/N] ''] \<and>
    (\<forall>kv \<in> set arguments. no_control (preview_line kv)) \<and>
    newline_char \<notin> set (tc_name c) \<and> char_of (13 :: nat) \<notin> set (tc_name c)"
proof -
  have c: "newline_char \<notin> set (tc_name c)" "char_of (13 :: nat) \<notin> set (tc_name c)" "tc_arguments c = arguments"
    using assms(1) by (auto simp: create_call_def newline_char_def result_simps split: pyval.splits if_splits)
  have first: "hd (snd (terminal_decide (Some rounds) c d)) = approval_prompt c d"
    by (auto simp: terminal_decide_def numeral_2_eq_2 Let_def
        split: terminal_round.splits prod.splits list.splits sum.splits option.splits)
  have prompt: "approval_prompt c d = ''agent-firewall approval'' @ concat (map (\<lambda>l. newline_char # l)
      ([''  tool: '' @ tc_name c, ''  arguments:''] @ map preview_line arguments @
       [''  reason: '' @ d_reason d, ''  Approve? [y/N] '']))"
    using assms(3) c(3) by (simp add: approval_prompt_def args_preview_def comp_def)
  have lines: "newline_char \<notin> set l"
    if "l \<in> set ([''  tool: '' @ tc_name c, ''  arguments:''] @ map preview_line arguments @
      [''  reason: '' @ d_reason d, ''  Approve? [y/N] ''])" for l
    using that c assms(4) preview_line_no_newline [OF assms(2)]
    by (auto simp: newline_char_def char_of_def bit_Suc_0_nat)
  have "newline_char \<notin> set ''agent-firewall approval''"
    by (simp add: newline_char_def char_of_def bit_Suc_0_nat)
  from trans [OF split_lines [OF this lines] append_Cons [symmetric]]
  have "split_on newline_char (hd (snd (terminal_decide (Some rounds) c d))) =
    [''agent-firewall approval'', ''  tool: '' @ tc_name c, ''  arguments:''] @
    map preview_line arguments @ [''  reason: '' @ d_reason d, ''  Approve? [y/N] '']"
    unfolding first prompt .
  moreover have "\<forall>kv \<in> set arguments. no_control (preview_line kv)"
    using preview_line_no_control [OF assms(2)] c(3) by simp
  ultimately show ?thesis using c(1,2) by (intro conjI)
qed

definition demo_transfer :: tool_call where
  "demo_transfer = \<lparr>tc_name = ''pay'', tc_arguments = [(''to'', PStr ''x''), (''amount'', PInt 5)],
     tc_cost = DFin False 0 0, tc_id = ''i''\<rparr>"

definition demo_hold :: decision where
  "demo_hold = \<lparr>d_kind = REQUIRE_APPROVAL, d_reason = ''check'', d_code = ''rule'', d_rule_index = None\<rparr>"

theorem prompt_lists_arguments_witness:
  "split_on newline_char (hd (snd (terminal_decide (Some []) demo_transfer demo_hold))) =
     [''agent-firewall approval'', ''  tool: pay'', ''  arguments:'',
      ''    '' @ json_string False ''to'' @ '': '' @ json_string False ''x'',
      ''    '' @ json_string False ''amount'' @ '': 5'', ''  reason: check'', ''  Approve? [y/N] ''] \<and>
   no_control (preview_line (''to'', PStr ''x''))"
proof -
  have "split_on newline_char (hd (snd (terminal_decide (Some []) demo_transfer demo_hold))) =
    [''agent-firewall approval'', ''  tool: '' @ tc_name demo_transfer, ''  arguments:''] @
    map preview_line [(''to'', PStr ''x''), (''amount'', PInt 5)] @
    [''  reason: '' @ d_reason demo_hold, ''  Approve? [y/N] ''] \<and>
    (\<forall>kv \<in> set [(''to'', PStr ''x''), (''amount'', PInt 5)]. no_control (preview_line kv)) \<and>
    newline_char \<notin> set (tc_name demo_transfer) \<and> char_of (13 :: nat) \<notin> set (tc_name demo_transfer)"
    by (rule prompt_lists_arguments [where nm = "PStr ''pay''" and cost = "PInt 0" and new_id = "''i''"])
      (simp_all add: demo_transfer_def demo_hold_def call_floats_ok_def evals char_of_def)
  then show ?thesis by (simp add: demo_transfer_def demo_hold_def evals)
qed

text \<open>The dashboard command that a web-approving proxy prints splits, by the rules of the shell, into
  the words it was made of, whatever characters the paths hold.\<close>

theorem printed_command_roundtrip:
  "shlex_tokens (shlex_join (dashboard_command float_repr policy_path audit_path state_path timeout)) =
     Some (dashboard_command float_repr policy_path audit_path state_path timeout)"
  by (rule shlex_join_tokens) (simp add: dashboard_command_def)


text \<open>A tool's name may hold an escape character, which the prompt passes to the terminal as it is,
  where the keys and values of the arguments are escaped.\<close>

definition escape_char :: char where "escape_char = char_of (27 :: nat)"

lemma escape_reaches_terminal:
  "create_call ''i'' (PStr (''pay'' @ [escape_char])) None (PInt 0) =
     Inr \<lparr>tc_name = ''pay'' @ [escape_char], tc_arguments = [], tc_cost = DFin False 0 0, tc_id = ''i''\<rparr>"
  "approval_prompt \<lparr>tc_name = ''pay'' @ [escape_char], tc_arguments = [], tc_cost = DFin False 0 0, tc_id = ''i''\<rparr> d =
     (''agent-firewall approval'' @ [newline_char] @ ''  tool: pay'') @ [escape_char] @ [newline_char] @
     ''  arguments: {}'' @ [newline_char] @ ''  reason: '' @ d_reason d @ [newline_char] @ ''  Approve? [y/N] ''"
  by (simp_all add: create_call_def escape_char_def approval_prompt_def args_preview_def evals char_of_def bit_Suc_0_nat)

lemma proxy_command_accepted:
  "proxy_command command timeout bytes = Inr command' \<Longrightarrow>
     command' \<noteq> [] \<and> (command = command' \<or> command = ''--'' # command') \<and> 0 < timeout \<and> 0 < bytes"
  by (cases command) (auto simp: proxy_command_def Let_def result_simps split: if_splits)

lemma accepted_setup:
  assumes "mcp_configure float_repr opened_queue opened_state loaded mo = Inr su"
  shows "loaded = Inr (su_policy su) \<and> su_command su \<noteq> [] \<and> \<not> (mo_terminal mo \<and> mo_web mo) \<and>
    su_approver su = (if mo_web mo then WebQueue else if mo_terminal mo then TerminalPrompt else NoApprover) \<and>
    (su_hint su \<noteq> None \<longleftrightarrow> su_approver su = NoApprover) \<and>
    (su_approver su = WebQueue \<longrightarrow> su_audit su \<noteq> None \<and> su_state su \<noteq> None)"
  using assms
  by (auto simp: mcp_configure_def choose_approver_def result_simps dest!: proxy_command_accepted
      split: if_splits option.splits)

end
