(* ===== verification/CommandLine.thy ===== *)
theory CommandLine
  imports Cli ProxySetup
begin

text \<open>
  The command line of \<open>cli.py\<close>: the parser \<open>build_parser\<close> declares, as data, and what \<open>argparse\<close> (of CPython
  3.11) does with it: abbreviated options, \<open>--option=value\<close>, the separator \<open>--\<close>, \<open>nargs='+'\<close>, \<open>REMAINDER\<close>,
  exclusive groups and subcommands. A run of the parser ends with a request, with a usage error (exit code
  2), or by showing the help or the version (exit code 0); the texts of the messages are not modelled.
  \<open>int\<close>, \<open>float\<close> and the text of a \<open>Path\<close> are arguments. Results: no word of the wrapped server's command
  is read as an option of the firewall; after \<open>--\<close> the command is handed over as it is; numbers that are
  accepted are in range; the dashboard command that the proxy prints is accepted as it was meant.
\<close>

section \<open>Parsers\<close>

datatype value_type = AnyText | PathName | Choice "string list" | Rate | Seconds | PositiveInt | Port

datatype option_action = StoreOne | StoreMany | StoreTrue | ShowHelp | ShowVersion

record option_spec =
  op_names :: "string list"
  op_dest :: string
  op_action :: option_action
  op_type :: value_type
  op_required :: bool

text \<open>A parser has options, groups of destinations that exclude each other, and at most one positional
  argument, which takes all that is left.\<close>

datatype parser = Parser "option_spec list" "string list list" positional
  and positional = NoPositional | Commands string "(string \<times> parser) list" | Remainder string

datatype parse_stop = UsageError | Shown

text \<open>\<open>float\<close> and \<open>int\<close> of a text.\<close>

record word_types =
  wt_float :: "string \<Rightarrow> float_parse"
  wt_int :: "string \<Rightarrow> int option"

definition type_accepts :: "word_types \<Rightarrow> value_type \<Rightarrow> string \<Rightarrow> bool" where
  "type_accepts wt ty w =
     (case ty of
        AnyText \<Rightarrow> True
      | PathName \<Rightarrow> True
      | Choice ws \<Rightarrow> w \<in> set ws
      | Rate \<Rightarrow> returns (rate_threshold (wt_float wt) w)
      | Seconds \<Rightarrow> returns (finite_positive_float (wt_float wt) w)
      | PositiveInt \<Rightarrow> returns (positive_integer (wt_int wt) w)
      | Port \<Rightarrow> returns (port_number (wt_int wt) w))"

section \<open>Words\<close>

text \<open>What a word is: plain, the separator, or an option, with the name it was found under and the value
  in the same word, if any (and whether an equals sign precedes it). An option may be unknown.\<close>

datatype word_class =
    Plain
  | Dashes
  | Opt "option_spec option" string "(bool \<times> string) option"

fun find_option :: "option_spec list \<Rightarrow> string \<Rightarrow> option_spec option" where
  "find_option [] w = None"
| "find_option (o' # os) w = (if w \<in> set (op_names o') then Some o' else find_option os w)"

definition option_names :: "option_spec list \<Rightarrow> (option_spec \<times> string) list" where
  "option_names os = concat (map (\<lambda>o'. map (Pair o') (op_names o')) os)"

text \<open>\<open>_get_option_tuples\<close>: abbreviations of long options; a short option with its tail.\<close>

definition option_tuples :: "option_spec list \<Rightarrow> string \<Rightarrow> word_class list" where
  "option_tuples os w =
     (case partition_at (CHR ''='') w of
        (nm, found, v) \<Rightarrow>
          if starts_with ''--'' w
          then map (\<lambda>(o', n). Opt (Some o') n (if found then Some (True, v) else None))
                 (filter (\<lambda>(o', n). starts_with nm n) (option_names os))
          else concat (map (\<lambda>(o', n).
                 if n = take 2 w then [Opt (Some o') n (Some (False, drop 2 w))]
                 else if starts_with w n then [Opt (Some o') n None] else []) (option_names os)))"

text \<open>The pattern of negative numbers: a minus sign and digits, or digits, a point and digits; a line break
  may follow.\<close>

definition negative_number :: "string \<Rightarrow> bool" where
  "negative_number w =
     (let body = (if w \<noteq> [] \<and> last w = newline_char then butlast w else w)
      in case body of
           [] \<Rightarrow> False
         | c # r \<Rightarrow> c = CHR ''-'' \<and>
             (r \<noteq> [] \<and> list_all is_digit r \<or>
              (case dropWhile is_digit r of
                 d # t \<Rightarrow> d = CHR ''.'' \<and> t \<noteq> [] \<and> list_all is_digit t
               | [] \<Rightarrow> False)))"

text \<open>\<open>_parse_optional\<close>.\<close>

definition classify_word :: "option_spec list \<Rightarrow> string \<Rightarrow> (parse_stop, word_class) result" where
  "classify_word os w =
     (if \<not> starts_with ''-'' w then Return Plain
      else case find_option os w of
        Some o' \<Rightarrow> Return (Opt (Some o') w None)
      | None \<Rightarrow>
          if length w = 1 then Return Plain
          else (case partition_at (CHR ''='') w of
            (nm, found, v) \<Rightarrow>
              (case if found then find_option os nm else None of
                 Some o' \<Rightarrow> Return (Opt (Some o') nm (Some (True, v)))
               | None \<Rightarrow>
                   (case option_tuples os w of
                      [] \<Rightarrow> if negative_number w \<or> CHR '' '' \<in> set w then Return Plain
                            else Return (Opt None w None)
                    | [c] \<Rightarrow> Return c
                    | _ \<Rightarrow> Raise UsageError))))"

fun classify_words :: "option_spec list \<Rightarrow> string list \<Rightarrow> (parse_stop, (word_class \<times> string) list) result" where
  "classify_words os [] = Return []"
| "classify_words os (w # ws) =
     (if w = ''--'' then Return ((Dashes, w) # map (Pair Plain) ws)
      else bindR (classify_word os w) (\<lambda>c.
           bindR (classify_words os ws) (\<lambda>rest. Return ((c, w) # rest))))"

section \<open>Options\<close>

type_synonym namespace = "(string \<times> string list) list"

text \<open>\<open>take_action\<close>: the values are converted, then the groups are checked, then the action runs.\<close>

definition conflicts :: "string list list \<Rightarrow> string \<Rightarrow> namespace \<Rightarrow> bool" where
  "conflicts groups dest ns =
     list_ex (\<lambda>g. dest \<in> set g \<and> list_ex (\<lambda>d. d \<noteq> dest \<and> dict_has ns d) g) groups"

definition take_action ::
  "word_types \<Rightarrow> string list list \<Rightarrow> option_spec \<Rightarrow> string list \<Rightarrow> namespace \<Rightarrow> (parse_stop, namespace) result" where
  "take_action wt groups o' values ns =
     (if \<not> list_all (type_accepts wt (op_type o')) values then Raise UsageError
      else if conflicts groups (op_dest o') ns then Raise UsageError
      else if op_action o' = ShowHelp \<or> op_action o' = ShowVersion then Raise Shown
      else Return (dict_set ns (op_dest o') values))"

definition is_plain :: "word_class \<times> string \<Rightarrow> bool" where
  "is_plain cw = (fst cw = Plain)"

definition is_option :: "word_class \<times> string \<Rightarrow> bool" where
  "is_option cw = (case fst cw of Opt _ _ _ \<Rightarrow> True | _ \<Rightarrow> False)"

text \<open>The words an option takes from those behind it, and what is left.\<close>

definition take_words ::
  "option_action \<Rightarrow> (word_class \<times> string) list \<Rightarrow>
     (parse_stop, string list \<times> (word_class \<times> string) list) result" where
  "take_words act xs =
     (case act of
        StoreOne \<Rightarrow>
          (case xs of
             cw # r \<Rightarrow> if is_plain cw then Return ([snd cw], r) else Raise UsageError
           | [] \<Rightarrow> Raise UsageError)
      | StoreMany \<Rightarrow>
          (let taken = takeWhile is_plain xs
           in if taken = [] then Raise UsageError else Return (map snd taken, dropWhile is_plain xs))
      | _ \<Rightarrow> Return ([], xs))"

text \<open>A cluster of short options behind \<open>-h\<close>, the only short option there is: every other letter is an
  extra word, which the help never gets to report.\<close>

fun short_cluster :: "string \<Rightarrow> parse_stop" where
  "short_cluster [] = Shown"
| "short_cluster (c # t) =
     (if c = CHR ''-'' then UsageError
      else if c \<noteq> CHR ''h'' then Shown
      else if starts_with ''='' t then UsageError
      else short_cluster t)"

text \<open>\<open>consume_optional\<close>: the namespace, whether the word is an extra one, and what is left.\<close>

definition consume_option ::
  "word_types \<Rightarrow> string list list \<Rightarrow> word_class \<Rightarrow> (word_class \<times> string) list \<Rightarrow> namespace \<Rightarrow>
     (parse_stop, namespace \<times> bool \<times> (word_class \<times> string) list) result" where
  "consume_option wt groups c xs ns =
     (case c of
        Opt (Some o') nm None \<Rightarrow>
          bindR (take_words (op_action o') xs) (\<lambda>(values, r).
          bindR (take_action wt groups o' values ns) (\<lambda>ns'. Return (ns', False, r)))
      | Opt (Some o') nm (Some (eq, v)) \<Rightarrow>
          if op_action o' = StoreOne \<or> op_action o' = StoreMany
          then bindR (take_action wt groups o' [v] ns) (\<lambda>ns'. Return (ns', False, xs))
          else if \<not> starts_with ''--'' nm \<and> v \<noteq> [] \<and> \<not> eq then Raise (short_cluster v)
          else Raise UsageError
      | _ \<Rightarrow> Return (ns, True, xs))"

text \<open>An option consumes words next to it, and the same ones whatever part of the rest is there.\<close>

lemma take_words_used:
  assumes "take_words act xs = Inr (vs, r)"
  shows "\<exists>used. xs = used @ r \<and> (\<forall>pre suf. r = pre @ suf \<longrightarrow> take_words act (used @ pre) = Inr (vs, pre))"
proof (cases "act = StoreMany")
  case True
  with assms have r: "r = dropWhile is_plain xs" "vs = map snd (takeWhile is_plain xs)" "takeWhile is_plain xs \<noteq> []"
    by (auto simp: take_words_def Let_def split: if_splits)
  have taken: "takeWhile is_plain (takeWhile is_plain xs @ pre) = takeWhile is_plain xs"
      "dropWhile is_plain (takeWhile is_plain xs @ pre) = pre" if "r = pre @ suf" for pre suf
  proof -
    have plain: "\<And>x. x \<in> set (takeWhile is_plain xs) \<Longrightarrow> is_plain x" using set_takeWhileD by fastforce
    have "r = [] \<or> \<not> is_plain (hd r)" unfolding r using hd_dropWhile by blast
    then have "pre = [] \<or> \<not> is_plain (hd pre)" using that by (cases pre) auto
    then show "takeWhile is_plain (takeWhile is_plain xs @ pre) = takeWhile is_plain xs"
        "dropWhile is_plain (takeWhile is_plain xs @ pre) = pre"
      using plain by (cases pre; simp add: takeWhile_append2 dropWhile_append2)+
  qed
  show ?thesis
    by (rule exI [of _ "takeWhile is_plain xs"]) (use True r taken in \<open>auto simp: take_words_def Let_def\<close>)
next
  case False
  show ?thesis
  proof (cases "act = StoreOne")
    case True
    with assms obtain cw where "xs = cw # r" "is_plain cw" "vs = [snd cw]"
      by (auto simp: take_words_def split: list.splits if_splits)
    with True show ?thesis by (intro exI [of _ "[cw]"]) (simp add: take_words_def)
  next
    case False
    with assms \<open>act \<noteq> StoreMany\<close> have "xs = r" "vs = []"
      by (cases act; simp add: take_words_def)+
    with False \<open>act \<noteq> StoreMany\<close> show ?thesis by (intro exI [of _ "[]"]) (cases act; simp add: take_words_def)
  qed
qed

lemma consume_option_used:
  assumes "consume_option wt groups c xs ns = Inr (ns', x, r)"
  shows "\<exists>used. xs = used @ r \<and>
    (\<forall>pre suf. r = pre @ suf \<longrightarrow> consume_option wt groups c (used @ pre) ns = Inr (ns', x, pre))"
proof (cases "\<exists>o' nm. c = Opt (Some o') nm None")
  case True
  then obtain o' nm where c: "c = Opt (Some o') nm None" by blast
  from assms obtain vs where "take_words (op_action o') xs = Inr (vs, r)"
      "take_action wt groups o' vs ns = Inr ns'" "\<not> x"
    unfolding c by (auto simp: consume_option_def result_simps)
  with take_words_used [OF this(1)] show ?thesis unfolding c by (auto simp: consume_option_def)
next
  case False
  then show ?thesis
    using assms by (intro exI [of _ "[]"])
      (auto simp: consume_option_def result_simps split: word_class.splits option.splits if_splits)
qed

lemma consume_option_more:
  assumes "consume_option wt groups c xs ns = Inr (ns', x, r)" "suf = [] \<or> \<not> is_plain (hd suf)"
  shows "consume_option wt groups c (xs @ suf) ns = Inr (ns', x, r @ suf)"
proof -
  have more: "take_words act (xs @ suf) = Inr (vs, r @ suf)" if "take_words act xs = Inr (vs, r)" for act vs
  proof (cases "suf = []")
    case True
    then show ?thesis using that by simp
  next
    case False
    then have suf: "takeWhile is_plain suf = []" "dropWhile is_plain suf = suf"
      using assms(2) by (cases suf; simp)+
    have "takeWhile is_plain (xs @ suf) = takeWhile is_plain xs" "dropWhile is_plain (xs @ suf) = dropWhile is_plain xs @ suf"
      by (induction xs) (simp_all add: suf)
    with that show ?thesis
      by (auto simp: take_words_def Let_def simp del: takeWhile_eq_Nil_iff
          split: option_action.splits list.splits if_splits)
  qed
  show ?thesis
  proof (cases "\<exists>o' nm. c = Opt (Some o') nm None")
    case True
    then obtain o' nm where c: "c = Opt (Some o') nm None" by blast
    from assms(1) obtain vs where "take_words (op_action o') xs = Inr (vs, r)"
        "take_action wt groups o' vs ns = Inr ns'" "\<not> x"
      unfolding c by (auto simp: consume_option_def result_simps)
    with more [OF this(1)] show ?thesis unfolding c by (simp add: consume_option_def)
  next
    case False
    then show ?thesis
      using assms(1)
      by (auto simp: consume_option_def result_simps split: word_class.splits option.splits if_splits)
  qed
qed

section \<open>Parsing\<close>

text \<open>The loop of \<open>_parse_known_args\<close>: the namespace, whether there was an extra word, and the words for the
  positional argument. A positional argument that takes the rest takes it, options included, as soon as a
  word stands where no option does; a parser without one passes over the words before the next option.\<close>

function option_loop ::
  "word_types \<Rightarrow> string list list \<Rightarrow> bool \<Rightarrow> (word_class \<times> string) list \<Rightarrow> namespace \<Rightarrow> bool \<Rightarrow>
     (parse_stop, namespace \<times> bool \<times> string list) result" where
  "option_loop wt groups takes_rest xs ns extra =
     (case dropWhile (\<lambda>x. \<not> is_option x) xs of
        [] \<Rightarrow> Return (ns, extra, map snd xs)
      | cw # r \<Rightarrow>
          if takes_rest \<and> \<not> is_option (hd xs) then Return (ns, extra, map snd xs)
          else (case consume_option wt groups (fst cw) r ns of
                  Inl e \<Rightarrow> Raise e
                | Inr (ns', unknown, r') \<Rightarrow>
                    option_loop wt groups takes_rest r' ns' (extra \<or> unknown \<or> \<not> is_option (hd xs))))"
  by pat_completeness auto
termination
proof (relation "measure (\<lambda>(wt, groups, takes_rest, xs, ns, extra). length xs)", goal_cases)
  case (2 wt groups takes_rest xs ns extra cw r y ns' z unknown r')
  have "length (cw # r) \<le> length xs" using 2(1) by (metis length_dropWhile_le)
  moreover have "length r' \<le> length r"
    using consume_option_used [of wt groups "fst cw" r ns ns' unknown r'] 2 by auto
  ultimately show ?case by simp
qed simp

declare option_loop.simps [simp del]

text \<open>The required options, and the positional argument: the parser of a subcommand, or the rest as it is.
  What the parser of a subcommand sets replaces what was there.\<close>

definition missing_option :: "option_spec list \<Rightarrow> namespace \<Rightarrow> bool" where
  "missing_option os ns = list_ex (\<lambda>o'. op_required o' \<and> \<not> dict_has ns (op_dest o')) os"

definition run_subcommand ::
  "string \<Rightarrow> (string \<times> (string list \<Rightarrow> (parse_stop, namespace \<times> bool) result)) list \<Rightarrow> string list \<Rightarrow>
     (parse_stop, namespace \<times> bool) result" where
  "run_subcommand dest subs rest =
     (case rest of
        [] \<Rightarrow> Raise UsageError
      | name # ws \<Rightarrow>
          (case map_of subs name of
             None \<Rightarrow> Raise UsageError
           | Some run \<Rightarrow> bindR (run ws) (\<lambda>(ns, extra). Return ((dest, [name]) # ns, extra))))"

primrec takes_rest :: "positional \<Rightarrow> bool" where
  "takes_rest NoPositional = False"
| "takes_rest (Commands dest subs) = True"
| "takes_rest (Remainder dest) = True"

primrec parse_known :: "word_types \<Rightarrow> parser \<Rightarrow> string list \<Rightarrow> (parse_stop, namespace \<times> bool) result"
  and parse_positional :: "word_types \<Rightarrow> positional \<Rightarrow> string list \<Rightarrow> (parse_stop, namespace \<times> bool) result" where
  "parse_known wt (Parser os groups pos) =
     (\<lambda>ws.
        bindR (classify_words os ws) (\<lambda>xs.
        bindR (option_loop wt groups (takes_rest pos) xs [] False) (\<lambda>(ns, extra, rest).
        bindR (parse_positional wt pos rest) (\<lambda>(ns', extra').
        if missing_option os ns then Raise UsageError else Return (ns' @ ns, extra \<or> extra')))))"
| "parse_positional wt NoPositional = (\<lambda>rest. Return ([], rest \<noteq> []))"
| "parse_positional wt (Commands dest subs) =
     run_subcommand dest (map (map_prod id (parse_known wt)) subs)"
| "parse_positional wt (Remainder dest) = (\<lambda>rest. Return ([(dest, rest)], False))"

text \<open>\<open>parse_args\<close>: an extra word is an error.\<close>

definition parse_args :: "word_types \<Rightarrow> parser \<Rightarrow> string list \<Rightarrow> (parse_stop, namespace) result" where
  "parse_args wt p ws =
     bindR (parse_known wt p ws) (\<lambda>(ns, extra). if extra then Raise UsageError else Return ns)"

section \<open>The parser of the firewall\<close>

text \<open>\<open>add_argument\<close> of a long option: its destination is its name without the dashes in front, with
  underscores for the others. Every parser has the option for the help.\<close>

definition add_option :: "string \<Rightarrow> option_action \<Rightarrow> value_type \<Rightarrow> bool \<Rightarrow> option_spec" where
  "add_option nm act ty required =
     \<lparr>op_names = [''--'' @ nm], op_dest = map (\<lambda>c. if c = CHR ''-'' then CHR ''_'' else c) nm,
      op_action = act, op_type = ty, op_required = required\<rparr>"

definition help_option :: option_spec where
  "help_option =
     \<lparr>op_names = [''-h'', ''--help''], op_dest = ''help'', op_action = ShowHelp, op_type = AnyText,
      op_required = False\<rparr>"

definition output_formats :: value_type where
  "output_formats = Choice [''json'', ''text'']"

definition check_parser :: parser where
  "check_parser = Parser
     [help_option,
      add_option ''policy'' StoreOne PathName True,
      add_option ''tool'' StoreOne AnyText True,
      add_option ''arguments'' StoreOne AnyText False,
      add_option ''cost'' StoreOne AnyText False,
      add_option ''format'' StoreOne output_formats False] [] NoPositional"

definition replay_parser :: parser where
  "replay_parser = Parser
     [help_option,
      add_option ''policy'' StoreOne PathName True,
      add_option ''scenarios'' StoreOne PathName True,
      add_option ''format'' StoreOne output_formats False] [] NoPositional"

definition benchmark_parser :: parser where
  "benchmark_parser = Parser
     [help_option,
      add_option ''policy'' StoreOne PathName True,
      add_option ''cases'' StoreOne PathName True,
      add_option ''output'' StoreOne PathName True,
      add_option ''max-dangerous-allow-rate'' StoreOne Rate False,
      add_option ''max-safe-friction-rate'' StoreOne Rate False,
      add_option ''min-intervention-recall'' StoreOne Rate False,
      add_option ''min-approval-accuracy'' StoreOne Rate False,
      add_option ''min-exact-accuracy'' StoreOne Rate False,
      add_option ''freeze'' StoreOne PathName False] [] NoPositional"

definition lint_parser :: parser where
  "lint_parser = Parser
     [help_option,
      add_option ''policy'' StoreOne PathName True,
      add_option ''format'' StoreOne output_formats False] [] NoPositional"

definition explain_parser :: parser where
  "explain_parser = Parser
     [help_option,
      add_option ''policy'' StoreOne PathName True,
      add_option ''tool'' StoreOne AnyText True,
      add_option ''arguments'' StoreOne AnyText False,
      add_option ''cost'' StoreOne AnyText False,
      add_option ''format'' StoreOne output_formats False] [] NoPositional"

definition policy_parser :: parser where
  "policy_parser = Parser [help_option] []
     (Commands ''policy_command'' [(''lint'', lint_parser), (''explain'', explain_parser)])"

definition doctor_parser :: parser where
  "doctor_parser = Parser
     [help_option,
      add_option ''policy'' StoreOne PathName True,
      add_option ''state'' StoreOne PathName False,
      add_option ''audit'' StoreOne PathName False,
      add_option ''mcp'' StoreMany AnyText False,
      add_option ''format'' StoreOne output_formats False] [] NoPositional"

definition mcp_spec :: "option_spec list" where
  "mcp_spec =
     [help_option,
      add_option ''policy'' StoreOne PathName True,
      add_option ''audit'' StoreOne PathName False,
      add_option ''state'' StoreOne PathName False,
      add_option ''approve-terminal'' StoreTrue AnyText False,
      add_option ''approve-web'' StoreTrue AnyText False,
      add_option ''approval-timeout'' StoreOne Seconds False,
      add_option ''request-timeout'' StoreOne Seconds False,
      add_option ''max-line-bytes'' StoreOne PositiveInt False]"

definition approval_groups :: "string list list" where
  "approval_groups = [[''approve_terminal'', ''approve_web'']]"

definition mcp_parser :: parser where
  "mcp_parser = Parser mcp_spec approval_groups (Remainder ''server_command'')"

definition dashboard_spec :: "option_spec list" where
  "dashboard_spec =
     [help_option,
      add_option ''policy'' StoreOne PathName True,
      add_option ''audit'' StoreOne PathName True,
      add_option ''state'' StoreOne PathName True,
      add_option ''host'' StoreOne AnyText False,
      add_option ''port'' StoreOne Port False,
      add_option ''token'' StoreOne AnyText False,
      add_option ''approval-timeout'' StoreOne Seconds False]"

definition dashboard_parser :: parser where
  "dashboard_parser = Parser dashboard_spec [] NoPositional"

definition program_options :: "option_spec list" where
  "program_options = [help_option, add_option ''version'' ShowVersion AnyText False]"

definition program_commands :: "(string \<times> parser) list" where
  "program_commands =
     [(''check'', check_parser), (''replay'', replay_parser), (''benchmark'', benchmark_parser),
      (''policy'', policy_parser), (''doctor'', doctor_parser), (''mcp'', mcp_parser),
      (''dashboard'', dashboard_parser)]"

definition build_parser :: parser where
  "build_parser = Parser program_options [] (Commands ''command'' program_commands)"

section \<open>Requests\<close>

text \<open>\<open>str\<close> of a \<open>pathlib\<close> path.\<close>

definition path_text :: "string \<Rightarrow> string" where
  "path_text p =
     (let t = replicate (initial_slashes p) (CHR ''/'') @
              join_with ''/'' (filter (\<lambda>c. c \<noteq> [] \<and> c \<noteq> ''.'') (split_on (CHR ''/'') p))
      in if t = [] then ''.'' else t)"

record benchmark_request =
  br_policy :: string
  br_cases :: string
  br_output :: string
  br_freeze :: "string option"
  br_thresholds :: thresholds

record doctor_request =
  dq_policy :: string
  dq_state :: "string option"
  dq_audit :: "string option"
  dq_mcp :: "string list option"
  dq_as_text :: bool

record dashboard_request =
  da_policy :: string
  da_audit :: string
  da_state :: string
  da_host :: string
  da_port :: int
  da_token :: "string option"
  da_approval_timeout :: rat

datatype cli_request =
    RqCheck string call_args
  | RqReplay string string bool
  | RqBenchmark benchmark_request
  | RqLint string bool
  | RqExplain string call_args
  | RqDoctor doctor_request
  | RqMcp mcp_options
  | RqDashboard dashboard_request

text \<open>Reading the namespace: an option that was not given has its default.\<close>

definition arg_text :: "namespace \<Rightarrow> string \<Rightarrow> string option" where
  "arg_text ns d = (case map_of ns d of Some [v] \<Rightarrow> Some v | _ \<Rightarrow> None)"

definition arg_or :: "namespace \<Rightarrow> string \<Rightarrow> string \<Rightarrow> string" where
  "arg_or ns d dflt = (case arg_text ns d of None \<Rightarrow> dflt | Some v \<Rightarrow> v)"

definition arg_path :: "namespace \<Rightarrow> string \<Rightarrow> string option" where
  "arg_path ns d = map_option path_text (arg_text ns d)"

definition path_arg :: "namespace \<Rightarrow> string \<Rightarrow> string" where
  "path_arg ns d = path_text (arg_or ns d [])"

definition arg_number :: "(string \<Rightarrow> (string, 'a) result) \<Rightarrow> namespace \<Rightarrow> string \<Rightarrow> 'a option" where
  "arg_number read ns d =
     (case arg_text ns d of
        None \<Rightarrow> None
      | Some v \<Rightarrow> (case read v of Inl _ \<Rightarrow> None | Inr x \<Rightarrow> Some x))"

definition number_or :: "'a \<Rightarrow> 'a option \<Rightarrow> 'a" where
  "number_or dflt x = (case x of None \<Rightarrow> dflt | Some v \<Rightarrow> v)"

definition call_of :: "namespace \<Rightarrow> string \<Rightarrow> call_args" where
  "call_of ns default_format =
     \<lparr>ck_tool = arg_or ns ''tool'' [], ck_arguments = arg_or ns ''arguments'' ''{}'',
      ck_cost = arg_or ns ''cost'' ''0'', ck_as_text = (arg_or ns ''format'' default_format = ''text'')\<rparr>"

definition mcp_of :: "word_types \<Rightarrow> namespace \<Rightarrow> mcp_options" where
  "mcp_of wt ns =
     (let seconds = arg_number (finite_positive_float (wt_float wt)) ns
      in \<lparr>mo_policy = path_arg ns ''policy'',
          mo_command = (case map_of ns ''server_command'' of Some ws \<Rightarrow> ws | None \<Rightarrow> []),
          mo_audit = arg_path ns ''audit'',
          mo_state = arg_path ns ''state'',
          mo_terminal = dict_has ns ''approve_terminal'',
          mo_web = dict_has ns ''approve_web'',
          mo_approval_timeout = Some (number_or 300 (seconds ''approval_timeout'')),
          mo_request_timeout = number_or 300 (seconds ''request_timeout''),
          mo_max_line_bytes =
            number_or (64 * 1024 * 1024) (arg_number (positive_integer (wt_int wt)) ns ''max_line_bytes'')\<rparr>)"

definition dashboard_of :: "word_types \<Rightarrow> namespace \<Rightarrow> dashboard_request" where
  "dashboard_of wt ns =
     \<lparr>da_policy = path_arg ns ''policy'', da_audit = path_arg ns ''audit'', da_state = path_arg ns ''state'',
      da_host = arg_or ns ''host'' ''127.0.0.1'',
      da_port = number_or 8787 (arg_number (port_number (wt_int wt)) ns ''port''),
      da_token = arg_text ns ''token'',
      da_approval_timeout =
        number_or 300 (arg_number (finite_positive_float (wt_float wt)) ns ''approval_timeout'')\<rparr>"

definition benchmark_of :: "word_types \<Rightarrow> namespace \<Rightarrow> benchmark_request" where
  "benchmark_of wt ns =
     (let rate = arg_number (rate_threshold (wt_float wt)) ns
      in \<lparr>br_policy = path_arg ns ''policy'', br_cases = path_arg ns ''cases'', br_output = path_arg ns ''output'',
          br_freeze = arg_path ns ''freeze'',
          br_thresholds =
            \<lparr>th_max_dangerous_allow_rate = rate ''max_dangerous_allow_rate'',
             th_max_safe_friction_rate = rate ''max_safe_friction_rate'',
             th_min_intervention_recall = rate ''min_intervention_recall'',
             th_min_approval_accuracy = rate ''min_approval_accuracy'',
             th_min_exact_accuracy = rate ''min_exact_accuracy''\<rparr>\<rparr>)"

definition doctor_of :: "namespace \<Rightarrow> doctor_request" where
  "doctor_of ns =
     \<lparr>dq_policy = path_arg ns ''policy'', dq_state = arg_path ns ''state'', dq_audit = arg_path ns ''audit'',
      dq_mcp = map_of ns ''mcp'', dq_as_text = (arg_or ns ''format'' ''text'' = ''text'')\<rparr>"

text \<open>The dispatch of \<open>main\<close>, in its order.\<close>

definition request_of :: "word_types \<Rightarrow> namespace \<Rightarrow> cli_request" where
  "request_of wt ns =
     (let command = arg_or ns ''command'' []
      in if command = ''check'' then RqCheck (path_arg ns ''policy'') (call_of ns ''json'')
         else if command = ''dashboard'' then RqDashboard (dashboard_of wt ns)
         else if command = ''mcp'' then RqMcp (mcp_of wt ns)
         else if command = ''benchmark'' then RqBenchmark (benchmark_of wt ns)
         else if command = ''policy'' then
           (if arg_or ns ''policy_command'' [] = ''lint''
            then RqLint (path_arg ns ''policy'') (arg_or ns ''format'' ''text'' = ''text'')
            else RqExplain (path_arg ns ''policy'') (call_of ns ''text''))
         else if command = ''doctor'' then RqDoctor (doctor_of ns)
         else RqReplay (path_arg ns ''policy'') (path_arg ns ''scenarios'') (arg_or ns ''format'' ''json'' = ''text''))"

definition command_line :: "word_types \<Rightarrow> string list \<Rightarrow> (parse_stop, cli_request) result" where
  "command_line wt argv = bindR (parse_args wt build_parser argv) (\<lambda>ns. Return (request_of wt ns))"

declare type_accepts_def [evals] option_names_def [evals] option_tuples_def [evals] negative_number_def [evals]
  classify_word_def [evals] conflicts_def [evals] take_action_def [evals] is_plain_def [evals] is_option_def [evals]
  take_words_def [evals] consume_option_def [evals] option_loop.simps [evals] missing_option_def [evals]
  run_subcommand_def [evals] parse_args_def [evals] add_option_def [evals] help_option_def [evals]
  output_formats_def [evals] check_parser_def [evals] replay_parser_def [evals] benchmark_parser_def [evals]
  lint_parser_def [evals] explain_parser_def [evals] policy_parser_def [evals] doctor_parser_def [evals]
  mcp_spec_def [evals] approval_groups_def [evals] program_options_def [evals] program_commands_def [evals]
  mcp_parser_def [evals] dashboard_spec_def [evals] dashboard_parser_def [evals] build_parser_def [evals] path_text_def [evals]
  arg_text_def [evals] arg_or_def [evals] arg_path_def [evals] path_arg_def [evals] arg_number_def [evals]
  number_or_def [evals] call_of_def [evals] mcp_of_def [evals] dashboard_of_def [evals] benchmark_of_def [evals]
  doctor_of_def [evals] finite_positive_float_def [evals] positive_integer_def [evals] port_number_def [evals]
  rate_threshold_def [evals] request_of_def [evals] command_line_def [evals]

section \<open>Words and the loop\<close>

lemma classify_words_snd: "classify_words os ws = Inr xs \<Longrightarrow> map snd xs = ws"
  by (induction ws arbitrary: xs) (auto simp: result_simps comp_def split: if_splits)

lemma classify_words_append:
  "classify_words os (ws @ vs) = Inr xs \<Longrightarrow> classify_words os ws = Inr (take (length ws) xs)"
  by (induction ws arbitrary: xs) (auto simp: result_simps take_map split: if_splits)

lemma classify_words_separator:
  "''--'' \<notin> set ws \<Longrightarrow> classify_words os ws = Inr xs \<Longrightarrow>
     classify_words os (ws @ ''--'' # vs) = Inr (xs @ (Dashes, ''--'') # map (Pair Plain) vs)"
  by (induction ws arbitrary: xs) (auto simp: result_simps)

text \<open>Where a word stands in front of all options, the positional argument takes everything.\<close>

lemma option_loop_hands_over:
  assumes "xs = [] \<or> \<not> is_option (hd xs)"
  shows "option_loop wt groups True xs ns extra = Inr (ns, extra, map snd xs)"
  using assms by (subst option_loop.simps) (auto split: list.splits)

lemma option_loop_option:
  "is_option cw \<Longrightarrow>
     option_loop wt groups rest_taken (cw # r) ns extra =
       bindR (consume_option wt groups (fst cw) r ns) (\<lambda>(ns', unknown, r').
         option_loop wt groups rest_taken r' ns' (extra \<or> unknown))"
  by (subst option_loop.simps) (auto simp: bindR_def split: sum.splits)

lemma option_loop_split:
  assumes "option_loop wt groups True xs ns extra = Inr (ns', extra', rest)"
  shows "\<exists>pre suf. xs = pre @ suf \<and> rest = map snd suf \<and>
    option_loop wt groups True pre ns extra = Inr (ns', extra', [])"
  using assms
proof (induction xs arbitrary: ns extra rule: length_induct)
  case (1 xs)
  show ?case
  proof (cases "xs = [] \<or> \<not> is_option (hd xs)")
    case True
    with 1(2) have "ns' = ns" "extra' = extra" "rest = map snd xs"
      using option_loop_hands_over [OF True] by auto
    then show ?thesis
      using option_loop_hands_over [of "[]"] by (intro exI [of _ "[]"] exI [of _ xs]) simp
  next
    case False
    then obtain cw r where xs: "xs = cw # r" "is_option cw" by (cases xs) auto
    with 1(2) obtain ns1 unknown r' where step:
      "consume_option wt groups (fst cw) r ns = Inr (ns1, unknown, r')"
      "option_loop wt groups True r' ns1 (extra \<or> unknown) = Inr (ns', extra', rest)"
      by (auto simp: option_loop_option result_simps)
    from consume_option_used [OF step(1)] obtain used where used: "r = used @ r'"
      "\<And>pre suf. r' = pre @ suf \<Longrightarrow> consume_option wt groups (fst cw) (used @ pre) ns = Inr (ns1, unknown, pre)"
      by blast
    have "length r' < length xs" using xs used(1) by simp
    with 1(1) step(2) obtain pre suf where pre: "r' = pre @ suf" "rest = map snd suf"
      "option_loop wt groups True pre ns1 (extra \<or> unknown) = Inr (ns', extra', [])" by blast
    from xs(2) used(2) [OF pre(1)] pre(3)
    have "option_loop wt groups True (cw # used @ pre) ns extra = Inr (ns', extra', [])"
      by (simp add: option_loop_option)
    with xs used(1) pre(1,2) show ?thesis
      by (intro exI [of _ "cw # used @ pre"] exI [of _ suf]) simp
  qed
qed

lemma option_loop_more:
  assumes "option_loop wt groups True xs ns extra = Inr (ns', extra', [])"
    and "suf = [] \<or> \<not> is_plain (hd suf) \<and> \<not> is_option (hd suf)"
  shows "option_loop wt groups True (xs @ suf) ns extra = Inr (ns', extra', map snd suf)"
  using assms(1)
proof (induction xs arbitrary: ns extra rule: length_induct)
  case (1 xs)
  show ?case
  proof (cases "xs = [] \<or> \<not> is_option (hd xs)")
    case True
    with 1(2) have "xs = []" "ns' = ns" "extra' = extra"
      using option_loop_hands_over [OF True] by auto
    then show ?thesis using assms(2) option_loop_hands_over by auto
  next
    case False
    then obtain cw r where xs: "xs = cw # r" "is_option cw" by (cases xs) auto
    with 1(2) obtain ns1 unknown r' where step:
      "consume_option wt groups (fst cw) r ns = Inr (ns1, unknown, r')"
      "option_loop wt groups True r' ns1 (extra \<or> unknown) = Inr (ns', extra', [])"
      by (auto simp: option_loop_option result_simps)
    from consume_option_used [OF step(1)] have "length r' < length xs" using xs by auto
    with 1(1) step(2)
    have "option_loop wt groups True (r' @ suf) ns1 (extra \<or> unknown) = Inr (ns', extra', map snd suf)"
      by blast
    with xs consume_option_more [OF step(1), of suf] assms(2) show ?thesis
      by (auto simp: option_loop_option)
  qed
qed

section \<open>The server's command\<close>

lemma classify_plain: "\<not> starts_with ''-'' w \<Longrightarrow> classify_word os w = Inr Plain"
  by (simp add: classify_word_def)

text \<open>The first word names the command: the options of the program have no say about the others, except that
  none of them may be an ambiguous abbreviation of one.\<close>

lemma program_words:
  assumes "\<not> starts_with ''-'' name" "map_of program_commands name = Some p"
  shows "parse_known wt build_parser (name # ws) =
    bindR (classify_words program_options ws) (\<lambda>xs.
    bindR (parse_known wt p ws) (\<lambda>(ns, extra). Return ((''command'', [name]) # ns, extra)))"
proof -
  have "name \<noteq> ''--''" using assms by auto
  with assms have line: "classify_words program_options (name # ws) =
      bindR (classify_words program_options ws) (\<lambda>xs. Inr ((Plain, name) # xs))"
    by (simp add: classify_plain)
  have loop: "option_loop wt [] True ((Plain, name) # xs) [] False = Inr ([], False, name # map snd xs)" for xs
    by (subst option_loop_hands_over) (simp_all add: is_option_def)
  have none: "\<not> missing_option program_options []" by (simp add: evals)
  have sub: "map_of (map (map_prod id (parse_known wt)) program_commands) name = Some (parse_known wt p)"
    using assms(2) map_of_map [of "parse_known wt" program_commands]
    by (simp add: map_prod_def id_def comp_def)
  show ?thesis
    by (cases "classify_words program_options ws")
      (auto simp: build_parser_def line loop none classify_words_snd run_subcommand_def sub bindR_def
        simp del: classify_words.simps split: sum.splits)
qed

lemma command_words:
  assumes "\<not> starts_with ''-'' name" "map_of program_commands name = Some p"
  shows "command_line wt (name # ws) = Inr rq \<longleftrightarrow>
    (\<exists>seen ns. classify_words program_options ws = Inr seen \<and> parse_known wt p ws = Inr (ns, False) \<and>
       rq = request_of wt ((''command'', [name]) # ns))"
  by (auto simp: command_line_def parse_args_def program_words [OF assms] result_simps)

lemma mcp_line:
  "command_line wt (''mcp'' # args) = Inr rq \<longleftrightarrow>
     (\<exists>seen xs ns rest. classify_words program_options args = Inr seen \<and> classify_words mcp_spec args = Inr xs \<and>
        option_loop wt approval_groups True xs [] False = Inr (ns, False, rest) \<and> \<not> missing_option mcp_spec ns \<and>
        rq = RqMcp ((mcp_of wt ns)\<lparr>mo_command := rest\<rparr>))"
proof -
  have req: "request_of wt ((''command'', [''mcp'']) # (''server_command'', rest) # ns) =
      RqMcp ((mcp_of wt ns)\<lparr>mo_command := rest\<rparr>)" for ns rest
    by (simp add: request_of_def mcp_of_def arg_or_def arg_text_def arg_path_def path_arg_def arg_number_def
        dict_has_def Let_def)
  have "parse_known wt mcp_parser args = Inr (m, extra) \<longleftrightarrow>
      (\<exists>xs ns rest. classify_words mcp_spec args = Inr xs \<and>
        option_loop wt approval_groups True xs [] False = Inr (ns, extra, rest) \<and> \<not> missing_option mcp_spec ns \<and>
        m = (''server_command'', rest) # ns)" for m extra
    by (auto simp: mcp_parser_def result_simps)
  note known = this
  have "map_of program_commands ''mcp'' = Some mcp_parser" by (simp add: program_commands_def)
  then have "command_line wt (''mcp'' # args) = Inr rq \<longleftrightarrow>
    (\<exists>seen ns. classify_words program_options args = Inr seen \<and> parse_known wt mcp_parser args = Inr (ns, False) \<and>
       rq = request_of wt ((''command'', [''mcp'']) # ns))"
    by (intro command_words) simp_all
  then show ?thesis unfolding known using req by auto
qed

section \<open>The printed command is accepted\<close>

lemma path_text_idem: "path_text (path_text p) = path_text p"
proof -
  let ?n = "initial_slashes p" and ?ok = "\<lambda>c. c \<noteq> [] \<and> c \<noteq> ''.''"
  define cs where "cs = filter ?ok (split_on (CHR ''/'') p)"
  let ?t = "replicate ?n (CHR ''/'') @ join_with ''/'' cs"
  have cs: "\<And>c. c \<in> set cs \<Longrightarrow> c \<noteq> [] \<and> c \<noteq> ''.'' \<and> CHR ''/'' \<notin> set c"
    using split_on_no_sep by (auto simp: cs_def)
  have shown: "path_text p = (if ?t = [] then ''.'' else ?t)" by (simp add: path_text_def cs_def)
  show ?thesis
  proof (cases "?t = []")
    case True
    then show ?thesis by (simp add: shown) (simp add: evals)
  next
    case False
    have "split_on (CHR ''/'') (replicate k (CHR ''/'') @ r) = replicate k [] @ split_on (CHR ''/'') r" for k r
      by (induction k) auto
    moreover have "filter ?ok (split_on (CHR ''/'') (join_with ''/'' cs)) = cs"
    proof (cases "cs = []")
      case False
      with cs have "split_on (CHR ''/'') (join_with ''/'' cs) = cs" by (intro split_join) auto
      with cs show ?thesis by (simp add: filter_id_conv)
    qed simp
    ultimately have parts: "filter ?ok (split_on (CHR ''/'') ?t) = cs" by simp
    have "\<not> starts_with ''/'' (join_with ''/'' cs)"
    proof (cases cs)
      case (Cons c r)
      with cs [of c] obtain a b where "c = a # b" "a \<noteq> CHR ''/''" by (cases c) auto
      with Cons show ?thesis by (cases r) auto
    qed simp
    moreover have "?n \<in> {0, 1, 2}" by (simp add: initial_slashes_def)
    ultimately have "initial_slashes ?t = ?n"
      by (cases "join_with ''/'' cs") (auto simp: initial_slashes_def numeral_2_eq_2)
    with parts have "path_text ?t = (if ?t = [] then ''.'' else ?t)" by (simp only: path_text_def Let_def)
    with False show ?thesis by (simp only: shown if_False)
  qed
qed

lemma dashboard_line:
  assumes "\<not> starts_with ''-'' p" "\<not> starts_with ''-'' a" "\<not> starts_with ''-'' s"
  shows "command_line wt [''dashboard'', ''--policy'', p, ''--audit'', a, ''--state'', s] =
      Inr (RqDashboard \<lparr>da_policy = path_text p, da_audit = path_text a, da_state = path_text s,
        da_host = ''127.0.0.1'', da_port = 8787, da_token = None, da_approval_timeout = 300\<rparr>)"
    and "\<not> starts_with ''-'' t \<Longrightarrow> wt_float wt t = Number x \<Longrightarrow> 0 < x \<Longrightarrow>
      command_line wt [''dashboard'', ''--policy'', p, ''--audit'', a, ''--state'', s, ''--approval-timeout'', t] =
      Inr (RqDashboard \<lparr>da_policy = path_text p, da_audit = path_text a, da_state = path_text s,
        da_host = ''127.0.0.1'', da_port = 8787, da_token = None, da_approval_timeout = x\<rparr>)"
proof -
  have sep: "w \<noteq> ''--''" if "\<not> starts_with ''-'' w" for w using that by auto
  have ne: "p \<noteq> ''--''" "a \<noteq> ''--''" "s \<noteq> ''--''" using assms sep by blast+
  show "command_line wt [''dashboard'', ''--policy'', p, ''--audit'', a, ''--state'', s] =
      Inr (RqDashboard \<lparr>da_policy = path_text p, da_audit = path_text a, da_state = path_text s,
        da_host = ''127.0.0.1'', da_port = 8787, da_token = None, da_approval_timeout = 300\<rparr>)"
    using assms ne by (simp add: evals del: path_text_def)
  assume t: "\<not> starts_with ''-'' t" "wt_float wt t = Number x" "0 < x"
  then have "t \<noteq> ''--''" using sep by blast
  with t show "command_line wt
        [''dashboard'', ''--policy'', p, ''--audit'', a, ''--state'', s, ''--approval-timeout'', t] =
      Inr (RqDashboard \<lparr>da_policy = path_text p, da_audit = path_text a, da_state = path_text s,
        da_host = ''127.0.0.1'', da_port = 8787, da_token = None, da_approval_timeout = x\<rparr>)"
    using assms ne by (simp add: evals del: path_text_def)
qed

lemma mcp_of_limits:
  "\<exists>x. mo_approval_timeout (mcp_of wt ns) = Some x \<and> 0 < x"
  "0 < mo_request_timeout (mcp_of wt ns)"
  "0 < mo_max_line_bytes (mcp_of wt ns)"
  by (auto simp: mcp_of_def number_or_def arg_number_def finite_positive_float_def positive_integer_def Let_def
      split: option.splits sum.splits float_parse.splits if_splits)

lemma mcp_of_paths:
  "path_text (mo_policy (mcp_of wt ns)) = mo_policy (mcp_of wt ns)"
  "mo_audit (mcp_of wt ns) = Some a \<Longrightarrow> path_text a = a"
  "mo_state (mcp_of wt ns) = Some a \<Longrightarrow> path_text a = a"
  by (auto simp: mcp_of_def path_arg_def arg_path_def path_text_idem Let_def)


section \<open>Exclusive options\<close>

text \<open>Of the options of a group at most one is ever in the namespace.\<close>

definition exclusive :: "string list list \<Rightarrow> namespace \<Rightarrow> bool" where
  "exclusive groups ns =
     (\<forall>g \<in> set groups. \<forall>d \<in> set g. \<forall>e \<in> set g. dict_has ns d \<and> dict_has ns e \<longrightarrow> d = e)"

lemma dict_has_set: "dict_has (dict_set ns d v) e \<longleftrightarrow> e = d \<or> dict_has ns e"
  by (induction ns d v rule: dict_set.induct) (auto simp: dict_has_def)

lemma take_action_exclusive:
  assumes "take_action wt groups o' vs ns = Inr ns'" "exclusive groups ns"
  shows "exclusive groups ns'"
proof -
  from assms(1) have free: "\<not> conflicts groups (op_dest o') ns" and ns': "ns' = dict_set ns (op_dest o') vs"
    by (auto simp: take_action_def split: if_splits)
  have alone: "d = op_dest o'"
    if "g \<in> set groups" "op_dest o' \<in> set g" "d \<in> set g" "dict_has ns' d" for g d
  proof (rule ccontr)
    assume d: "d \<noteq> op_dest o'"
    with that(4) have "dict_has ns d" by (simp add: ns' dict_has_set)
    with d that free show False unfolding conflicts_def list_ex_iff by blast
  qed
  show ?thesis
    unfolding exclusive_def
  proof (intro ballI impI)
    fix g d e
    assume g: "g \<in> set groups" "d \<in> set g" "e \<in> set g" "dict_has ns' d \<and> dict_has ns' e"
    show "d = e"
    proof (cases "op_dest o' \<in> set g")
      case True
      then show ?thesis using alone g by metis
    next
      case False
      with g have "dict_has ns d \<and> dict_has ns e" unfolding ns' dict_has_set by metis
      then show ?thesis using assms(2) g unfolding exclusive_def by blast
    qed
  qed
qed

lemma option_loop_exclusive:
  assumes "option_loop wt groups b xs ns extra = Inr (ns', extra', rest)" "exclusive groups ns"
  shows "exclusive groups ns'"
  using assms
proof (induction xs arbitrary: ns extra rule: length_induct)
  case (1 xs)
  show ?case
  proof (cases "dropWhile (\<lambda>x. \<not> is_option x) xs")
    case Nil
    with 1(2,3) show ?thesis by (subst (asm) option_loop.simps) simp
  next
    case (Cons cw r)
    show ?thesis
    proof (cases "b \<and> \<not> is_option (hd xs)")
      case True
      with 1(2,3) Cons show ?thesis by (subst (asm) option_loop.simps) simp
    next
      case False
      with 1(2) Cons obtain ns1 unknown r' extra1 where step:
        "consume_option wt groups (fst cw) r ns = Inr (ns1, unknown, r')"
        "option_loop wt groups b r' ns1 extra1 = Inr (ns', extra', rest)"
        by (subst (asm) option_loop.simps) (auto split: sum.splits)
      from step(1) 1(3) have "exclusive groups ns1"
        by (auto simp: consume_option_def result_simps intro: take_action_exclusive
            split: word_class.splits option.splits if_splits)
      moreover have "length (cw # r) \<le> length xs" using Cons by (metis length_dropWhile_le)
      then have "length r' < length xs" using consume_option_used [OF step(1)] by auto
      ultimately show ?thesis using 1(1) step(2) by blast
    qed
  qed
qed

lemma accepted_modes:
  assumes "command_line wt (''mcp'' # args) = Inr (RqMcp mo)"
  shows "\<not> (mo_terminal mo \<and> mo_web mo)"
proof -
  from assms obtain xs ns rest where ns: "option_loop wt approval_groups True xs [] False = Inr (ns, False, rest)"
    "mo = (mcp_of wt ns)\<lparr>mo_command := rest\<rparr>" unfolding mcp_line by auto
  have "exclusive approval_groups []" by (simp add: exclusive_def dict_has_def)
  from option_loop_exclusive [OF ns(1) this]
  have "\<not> (dict_has ns ''approve_terminal'' \<and> dict_has ns ''approve_web'')"
    by (auto simp: exclusive_def approval_groups_def)
  with ns(2) show ?thesis by (simp add: mcp_of_def Let_def)
qed

section \<open>Samples\<close>

definition sample_types :: word_types where
  "sample_types =
     \<lparr>wt_float = (\<lambda>s. if s = ''60'' then Number 60 else if s = ''nan'' then NotFinite else NotNumber),
      wt_int = (\<lambda>s. if s = ''8080'' then Some 8080 else None)\<rparr>"

definition sample_own :: "string list" where
  "sample_own = [''--pol'', ''p.json'', ''--audit=a.log'', ''--state'', ''s.db'', ''--approve-web'',
     ''--approval-timeout=60'']"

definition sample_mcp :: mcp_options where
  "sample_mcp =
     \<lparr>mo_policy = ''p.json'', mo_command = [], mo_audit = Some ''a.log'', mo_state = Some ''s.db'',
      mo_terminal = False, mo_web = True, mo_approval_timeout = Some 60, mo_request_timeout = 300,
      mo_max_line_bytes = 67108864\<rparr>"

lemma sample_line: "command_line sample_types (''mcp'' # sample_own) = Inr (RqMcp sample_mcp)"
  by (simp add: evals sample_types_def sample_own_def sample_mcp_def)

text \<open>Without a \<open>--\<close>, a word of the server's command that abbreviates two options of the firewall is refused,
  though it would not have been read as one; every other word is handed over.\<close>

lemma abbreviation_refused:
  "command_line sample_types (''mcp'' # sample_own @ [''server'', ''--a'']) = Inl UsageError"
  "command_line sample_types (''mcp'' # sample_own @ [''server'', ''--approve-terminal'']) =
     Inr (RqMcp (sample_mcp\<lparr>mo_command := [''server'', ''--approve-terminal'']\<rparr>))"
  "command_line sample_types (''mcp'' # sample_own @ [''--approve-terminal'', ''server'']) = Inl UsageError"
  by (simp_all add: evals sample_types_def sample_own_def sample_mcp_def)

text \<open>A path that starts with a dash is accepted in the form \<open>--policy=-p\<close>, but the command that is printed
  for it is not.\<close>

lemma dashed_path_rejected:
  "command_line sample_types [''mcp'', ''--policy=-p'', ''--audit'', ''a'', ''--state'', ''s'', ''--approve-web'', ''x''] =
     Inr (RqMcp (sample_mcp\<lparr>mo_policy := ''-p'', mo_audit := Some ''a'', mo_state := Some ''s'',
       mo_approval_timeout := Some 300, mo_command := [''x'']\<rparr>))"
  "command_line sample_types (tl (dashboard_command float_repr ''-p'' ''a'' ''s'' 300)) = Inl UsageError"
  by (simp_all add: evals sample_types_def sample_mcp_def)

section \<open>Properties\<close>

text \<open>C32: What \<open>agent-firewall mcp\<close> does not read as its own words it hands over, in order and without a
  loss, as the command of the wrapped server; and no word of that command has a part in the policy, the
  audit log, the state, the kind of approval or a limit: the words before it, alone, give the same options
  with an empty command.\<close>

theorem server_command_verbatim:
  assumes "command_line wt (''mcp'' # args) = Inr (RqMcp mo)"
  shows "\<exists>own. args = own @ mo_command mo \<and>
    command_line wt (''mcp'' # own) = Inr (RqMcp (mo\<lparr>mo_command := []\<rparr>))"
proof -
  from assms obtain seen xs ns rest where parsed:
    "classify_words program_options args = Inr seen" "classify_words mcp_spec args = Inr xs"
    "option_loop wt approval_groups True xs [] False = Inr (ns, False, rest)" "\<not> missing_option mcp_spec ns"
    "mo = (mcp_of wt ns)\<lparr>mo_command := rest\<rparr>"
    unfolding mcp_line by blast
  from option_loop_split [OF parsed(3)] obtain pre suf where split: "xs = pre @ suf" "rest = map snd suf"
    "option_loop wt approval_groups True pre [] False = Inr (ns, False, [])" by blast
  have args: "args = map snd pre @ rest" using classify_words_snd [OF parsed(2)] split by simp
  have "classify_words mcp_spec (map snd pre) = Inr pre"
    using classify_words_append [of mcp_spec "map snd pre" rest xs] parsed(2) args split(1) by simp
  moreover have "\<exists>seen'. classify_words program_options (map snd pre) = Inr seen'"
    using classify_words_append [of program_options "map snd pre" rest seen] parsed(1) args by blast
  ultimately have "command_line wt (''mcp'' # map snd pre) = Inr (RqMcp ((mcp_of wt ns)\<lparr>mo_command := []\<rparr>))"
    unfolding mcp_line using split(3) parsed(4) by blast
  with args parsed(5) show ?thesis by (intro exI [of _ "map snd pre"]) simp
qed

text \<open>After a \<open>--\<close> anything goes: whatever words stand behind it, those that look like options of the
  firewall and those that would be ambiguous included, are the command of the server, and nothing else
  changes. The proxy runs exactly these words.\<close>

theorem separator_hands_over:
  assumes "command_line wt (''mcp'' # own) = Inr (RqMcp mo)" "mo_command mo = []" "''--'' \<notin> set own"
    and "ws \<noteq> []" "0 < timeout" "0 < bytes"
  shows "command_line wt (''mcp'' # own @ ''--'' # ws) = Inr (RqMcp (mo\<lparr>mo_command := ''--'' # ws\<rparr>)) \<and>
    proxy_command (''--'' # ws) timeout bytes = Inr ws"
proof -
  from assms(1,2) obtain seen xs ns where parsed:
    "classify_words program_options own = Inr seen" "classify_words mcp_spec own = Inr xs"
    "option_loop wt approval_groups True xs [] False = Inr (ns, False, [])" "\<not> missing_option mcp_spec ns"
    "mo = (mcp_of wt ns)\<lparr>mo_command := []\<rparr>"
    unfolding mcp_line by auto
  let ?suf = "(Dashes, ''--'') # map (Pair Plain) ws"
  note classified = parsed(1,2) [THEN classify_words_separator [OF assms(3), of _ _ ws]]
  have "option_loop wt approval_groups True (xs @ ?suf) [] False = Inr (ns, False, ''--'' # ws)"
    using option_loop_more [OF parsed(3), of ?suf] by (simp add: is_plain_def is_option_def comp_def)
  with classified parsed(4)
  have "command_line wt (''mcp'' # own @ ''--'' # ws) = Inr (RqMcp ((mcp_of wt ns)\<lparr>mo_command := ''--'' # ws\<rparr>))"
    unfolding mcp_line by blast
  moreover have "proxy_command (''--'' # ws) timeout bytes = Inr ws"
    using assms(4-6) by (simp add: proxy_command_def)
  ultimately show ?thesis using parsed(5) by simp
qed

text \<open>C40: Options that the command line accepts are refused later only for what the command line cannot
  know: the store or the policy cannot be opened, no command of a server was given, or approval by the
  dashboard was chosen without an audit log and a state database. The checks of the approval mode, of the
  two timeouts and of the line limit, which the proxy repeats, never fail for them.\<close>

theorem accepted_options_refused:
  assumes "command_line wt (''mcp'' # args) = Inr (RqMcp mo)"
    and "mcp_configure float_repr opened_queue opened_state loaded mo = Inl e"
  shows "opened_queue = Inl e \<or> opened_state = Inl e \<or> loaded = Inl e \<or>
    e = ValueError ''MCP server command is required after --'' \<and> mo_command mo \<in> {[], [''--'']} \<or>
    e = ValueError ''--approve-web requires --audit and --state'' \<and> mo_web mo \<and>
      (mo_state mo = None \<or> mo_audit mo = None)"
proof -
  from assms(1) obtain ns rest where mo: "mo = (mcp_of wt ns)\<lparr>mo_command := rest\<rparr>" unfolding mcp_line by auto
  then have "\<exists>x. mo_approval_timeout mo = Some x \<and> 0 < x" "0 < mo_request_timeout mo" "0 < mo_max_line_bytes mo"
    using mcp_of_limits [of wt ns] by simp_all
  then have modes: "mo_approval_timeout mo = Some x \<Longrightarrow> check_durations (Some x) (Some (1 / 4)) = Inr ()"
      "proxy_command (mo_command mo) (mo_request_timeout mo) (mo_max_line_bytes mo) = Inl d \<Longrightarrow>
        d = ValueError ''MCP server command is required after --'' \<and> mo_command mo \<in> {[], [''--'']}"
      "\<exists>x. mo_approval_timeout mo = Some x" for x d
    by (auto simp: check_durations_def proxy_command_def requireR_def Let_def split: list.splits if_splits)
  show ?thesis
    using assms(2) accepted_modes [OF assms(1)] modes
    by (auto simp: mcp_configure_def choose_approver_def result_simps split: option.splits if_splits)
qed

text \<open>C33: When \<open>agent-firewall mcp --approve-web\<close> starts, the command it prints for the operator, split by
  the rules of the shell, is accepted by the program's own parser, and the dashboard it starts reads the
  policy, the audit log and the state of the proxy and waits as long as the proxy does, on the loopback
  address: provided no path starts with a dash, and \<open>float\<close> reads what was written of the time.\<close>

theorem printed_command_accepted:
  assumes "command_line wt (''mcp'' # args) = Inr (RqMcp mo)" "mo_web mo"
    and "mcp_configure float_repr opened_queue opened_state loaded mo = Inr su"
    and "\<not> starts_with ''-'' (mo_policy mo)" "\<not> starts_with ''-'' (the (mo_audit mo))"
    and "\<not> starts_with ''-'' (the (mo_state mo))"
    and "\<not> starts_with ''-'' (seconds_text float_repr (the (mo_approval_timeout mo)))"
    and "wt_float wt (seconds_text float_repr (the (mo_approval_timeout mo))) = Number (the (mo_approval_timeout mo))"
  shows "\<exists>printed argv da.
    su_printed su = [''agent-firewall: approvals come from the dashboard; start it with: '' @ printed] \<and>
    shlex_tokens printed = Some (''agent-firewall'' # argv) \<and>
    command_line wt argv = Inr (RqDashboard da) \<and>
    da_policy da = mo_policy mo \<and> Some (da_audit da) = mo_audit mo \<and> Some (da_state da) = mo_state mo \<and>
    Some (da_approval_timeout da) = mo_approval_timeout mo \<and> da_host da = ''127.0.0.1''"
proof -
  from assms(1) obtain ns rest where "mo = (mcp_of wt ns)\<lparr>mo_command := rest\<rparr>" unfolding mcp_line by auto
  then have paths: "path_text (mo_policy mo) = mo_policy mo" "\<And>a. mo_audit mo = Some a \<Longrightarrow> path_text a = a"
      "\<And>a. mo_state mo = Some a \<Longrightarrow> path_text a = a" "\<exists>x. mo_approval_timeout mo = Some x \<and> 0 < x"
    using mcp_of_paths [of wt ns] mcp_of_limits(1) [of wt ns] by simp_all
  from paths(4) obtain x where x: "mo_approval_timeout mo = Some x" "0 < x" by blast
  from assms(2,3) obtain a st where opts: "mo_audit mo = Some a" "mo_state mo = Some st"
    "su_printed su = [''agent-firewall: approvals come from the dashboard; start it with: '' @
      shlex_join (dashboard_command float_repr (mo_policy mo) a st x)]"
    by (auto simp: mcp_configure_def choose_approver_def result_simps x split: option.splits)
  let ?c = "dashboard_command float_repr (mo_policy mo) a st x"
  have split: "shlex_tokens (shlex_join ?c) = Some (''agent-firewall'' # tl ?c)"
    by (subst shlex_join_tokens) (simp_all add: dashboard_command_def)
  have "command_line wt (tl ?c) = Inr (RqDashboard \<lparr>da_policy = mo_policy mo, da_audit = a, da_state = st,
      da_host = ''127.0.0.1'', da_port = 8787, da_token = None, da_approval_timeout = x\<rparr>)"
    using dashboard_line(1) [of "mo_policy mo" a st wt]
      dashboard_line(2) [of "mo_policy mo" a st "seconds_text float_repr x" wt x] assms(4-8) opts(1,2) x paths(1-3)
    by (auto simp: dashboard_command_def DEFAULT_APPROVAL_TIMEOUT_def)
  with split opts x(1) show ?thesis by fastforce
qed

theorem server_command_verbatim_witness:
  "\<exists>own. sample_own @ [''server'', ''--approve-terminal''] = own @ [''server'', ''--approve-terminal''] \<and>
     command_line sample_types (''mcp'' # own) = Inr (RqMcp sample_mcp)"
  using server_command_verbatim [OF abbreviation_refused(2)] by (simp add: sample_mcp_def)

theorem separator_hands_over_witness:
  "command_line sample_types (''mcp'' # sample_own @ ''--'' # [''server'', ''--a'']) =
     Inr (RqMcp (sample_mcp\<lparr>mo_command := ''--'' # [''server'', ''--a'']\<rparr>)) \<and>
   proxy_command (''--'' # [''server'', ''--a'']) 300 1 = Inr [''server'', ''--a'']"
  by (rule separator_hands_over [OF sample_line]) (simp_all add: sample_mcp_def sample_own_def)

theorem printed_command_accepted_witness:
  "\<exists>su printed argv da.
    mcp_configure (\<lambda>_. []) (Return ()) (Return ()) (Return sample_policy) (sample_mcp\<lparr>mo_command := [''x'']\<rparr>) = Inr su \<and>
    su_printed su = [''agent-firewall: approvals come from the dashboard; start it with: '' @ printed] \<and>
    shlex_tokens printed = Some (''agent-firewall'' # argv) \<and>
    command_line sample_types argv = Inr (RqDashboard da) \<and>
    da_policy da = ''p.json'' \<and> da_audit da = ''a.log'' \<and> da_state da = ''s.db'' \<and>
    da_approval_timeout da = 60 \<and> da_host da = ''127.0.0.1''"
proof -
  let ?mo = "sample_mcp\<lparr>mo_command := [''x'']\<rparr>"
  have line: "command_line sample_types (''mcp'' # sample_own @ [''x'']) = Inr (RqMcp ?mo)"
    by (simp add: evals sample_types_def sample_own_def sample_mcp_def)
  have "\<exists>su. mcp_configure (\<lambda>_. []) (Return ()) (Return ()) (Return sample_policy) ?mo = Inr su"
    by (simp add: mcp_configure_def choose_approver_def proxy_command_def sample_mcp_def check_durations_def
        requireR_def result_simps)
  then obtain su where su: "mcp_configure (\<lambda>_. []) (Return ()) (Return ()) (Return sample_policy) ?mo = Inr su" by blast
  have secs: "seconds_text (\<lambda>_. []) 60 = ''60''" by (simp add: evals)
  show ?thesis
    using printed_command_accepted [OF line _ su] su secs
    by (simp add: sample_mcp_def sample_types_def)
qed

theorem accepted_options_refused_witness:
  "mcp_configure (\<lambda>_. []) (Return ()) (Return ()) (Return sample_policy) sample_mcp =
     Inl (ValueError ''MCP server command is required after --'') \<and>
   mo_command sample_mcp \<in> {[], [''--'']}"
proof -
  have "mcp_configure (\<lambda>_. []) (Return ()) (Return ()) (Return sample_policy) sample_mcp =
      Inl (ValueError ''MCP server command is required after --'')"
    by (simp add: mcp_configure_def choose_approver_def proxy_command_def sample_mcp_def check_durations_def
        requireR_def result_simps)
  with accepted_options_refused [OF sample_line this] show ?thesis by simp
qed

end
