(* ===== verification/ProxyInvariants.thy ===== *)
theory ProxyInvariants
  imports Proxy
begin

text \<open>
  The invariants of the proxy's session: what the stage of a task says of its effects, its claim and
  its line; the claimed ids and the pending table as the union of what the tasks hold; what was
  written to the client and to the server, task by task. Each primitive step of the session keeps
  them, hence every event does.
\<close>

section \<open>The invariants\<close>

text \<open>The id a line is answered under.\<close>

definition line_id :: "wire \<Rightarrow> string \<Rightarrow> pyval" where
  "line_id W l =
     (case decode_message W l of Inr (Some m) \<Rightarrow> dict_get m ''id'' PNone | _ \<Rightarrow> PNone)"

definition is_request :: "wire \<Rightarrow> string \<Rightarrow> bool" where
  "is_request W l =
     (case decode_message W l of Inr (Some m) \<Rightarrow> expects_reply m | _ \<Rightarrow> False)"

definition is_call :: "wire \<Rightarrow> task \<Rightarrow> bool" where
  "is_call W k =
     (\<exists>name arguments cost. classify_line W (tk_line k) = Call (tk_message k) name arguments cost)"

definition is_pass :: "wire \<Rightarrow> task \<Rightarrow> bool" where
  "is_pass W k = (classify_line W (tk_line k) = Pass (tk_message k))"

text \<open>A request holds the key of its id, any other message holds none.\<close>

definition claimed :: "task \<Rightarrow> bool" where
  "claimed k =
     (tk_claim k =
        (if expects_reply (tk_message k) then map_option request_key (map_of (tk_message k) ''id'') else None))"

definition accepted :: "('e, 's) proxy \<Rightarrow> phase \<Rightarrow> task \<Rightarrow> bool" where
  "accepted p ph k = (accepts (audited (px_firewall p)) PhStart (tk_effects k) = Some ph)"

text \<open>The line an exchange sends: the client's own, or its message under an internal id.\<close>

definition payload_ok :: "('e, 's) proxy \<Rightarrow> task \<Rightarrow> string \<Rightarrow> string option \<Rightarrow> bool" where
  "payload_ok p k l key =
     (case key of
        None \<Rightarrow> l = tk_line k \<and> \<not> expects_reply (tk_message k)
      | Some key \<Rightarrow> expects_reply (tk_message k) \<and>
          (\<exists>n. key = internal_key p n \<and>
             encode_message (px_wire p) (dict_set (tk_message k) ''id'' (PStr (internal_id p n))) = Inr l))"

definition purpose_ok :: "('e, 's) proxy \<Rightarrow> task \<Rightarrow> purpose \<Rightarrow> bool" where
  "purpose_ok p k pu =
     (case pu of
        Passing \<Rightarrow> is_pass (px_wire p) k
      | Calling c d \<Rightarrow> is_call (px_wire p) k \<and> accepted p PhRan k)"

definition stage_ok :: "('e, 's) proxy \<Rightarrow> task \<Rightarrow> bool" where
  "stage_ok p k =
     (case tk_stage k of
        Running \<Rightarrow> True
      | Asking c d \<Rightarrow> is_call (px_wire p) k \<and> accepted p (PhAsked d) k \<and> claimed k
      | Exchanging pu l key x \<Rightarrow> purpose_ok p k pu \<and> claimed k \<and> payload_ok p k l key
      | _ \<Rightarrow> tk_claim k = None)"

definition task_ok :: "('e, 's) proxy \<Rightarrow> task \<Rightarrow> bool" where
  "task_ok p k =
     (tk_message k = verdict_message (classify_line (px_wire p) (tk_line k)) \<and>
      (\<exists>ph. accepted p ph k) \<and> stage_ok p k)"

fun exchange_key :: "stage \<Rightarrow> string option" where
  "exchange_key (Exchanging pu l key x) = key"
| "exchange_key s = None"

fun finished :: "stage \<Rightarrow> bool" where
  "finished Ended = True"
| "finished (Escaped e) = True"
| "finished s = False"

fun may_send :: "stage \<Rightarrow> bool" where
  "may_send (Asking c d) = True"
| "may_send (Exchanging pu l key x) = (x = Queued)"
| "may_send s = False"

definition held :: "'s session \<Rightarrow> nat \<Rightarrow> string \<Rightarrow> bool" where
  "held st u key = (u < length (ss_tasks st) \<and> tk_claim (ss_tasks st ! u) = Some key)"

definition claims_ok :: "'s session \<Rightarrow> bool" where
  "claims_ok st =
     ((\<forall>u v key. held st u key \<longrightarrow> held st v key \<longrightarrow> u = v) \<and>
      (\<forall>key. key \<in> set (ss_claims st) \<longleftrightarrow> (\<exists>u. held st u key)))"

definition keyed :: "'s session \<Rightarrow> nat \<Rightarrow> string \<Rightarrow> bool" where
  "keyed st u key = (u < length (ss_tasks st) \<and> exchange_key (tk_stage (ss_tasks st ! u)) = Some key)"

definition pending_ok :: "('e, 's) proxy \<Rightarrow> 's session \<Rightarrow> bool" where
  "pending_ok p st =
     ((\<forall>u v key. keyed st u key \<longrightarrow> keyed st v key \<longrightarrow> u = v) \<and>
      (\<forall>key. ss_pending st key \<noteq> None \<longleftrightarrow> (\<exists>u. keyed st u key)) \<and>
      (\<forall>u key. keyed st u key \<longrightarrow> (\<exists>n \<le> ss_sequence st. key = internal_key p n)) \<and>
      (\<forall>key r. ss_pending st key = Some (Result r) \<longrightarrow>
         (\<exists>i. map_of r ''id'' = Some i \<and> request_key i = key)))"

fun from_task :: "nat \<Rightarrow> client_output \<Rightarrow> bool" where
  "from_task u (FromTask t m) = (t = u)"
| "from_task u (BytesFromTask t b) = (t = u)"
| "from_task u out = False"

definition answers :: "'s session \<Rightarrow> nat \<Rightarrow> nat" where
  "answers st u = length (filter (from_task u) (ss_client st))"

definition outputs_ok :: "('e, 's) proxy \<Rightarrow> 's session \<Rightarrow> bool" where
  "outputs_ok p st =
     ((\<forall>u. answers st u \<le> (if u < length (ss_tasks st) \<and> finished (tk_stage (ss_tasks st ! u)) then 1 else 0)) \<and>
      (\<forall>u m. FromTask u m \<in> set (ss_client st) \<longrightarrow>
         map_of m ''id'' = Some (line_id (px_wire p) (tk_line (ss_tasks st ! u)))) \<and>
      (\<forall>u < length (ss_tasks st). tk_stage (ss_tasks st ! u) = Ended \<longrightarrow>
         is_request (px_wire p) (tk_line (ss_tasks st ! u)) \<longrightarrow> answers st u = 1))"

definition sent_ok :: "('e, 's) proxy \<Rightarrow> task \<Rightarrow> string \<Rightarrow> bool" where
  "sent_ok p k l =
     ((\<exists>key. payload_ok p k l key) \<and>
      (is_pass (px_wire p) k \<or> is_call (px_wire p) k \<and> EToolRan \<in> set (tk_effects k)))"

definition server_ok :: "('e, 's) proxy \<Rightarrow> 's session \<Rightarrow> bool" where
  "server_ok p st =
     (distinct (map fst (ss_server st)) \<and>
      (\<forall>u l. (u, l) \<in> set (ss_server st) \<longrightarrow>
         u < length (ss_tasks st) \<and> \<not> may_send (tk_stage (ss_tasks st ! u)) \<and>
         sent_ok p (ss_tasks st ! u) l))"

text \<open>A response of the server to a request of the proxy.\<close>

definition internal_response :: "('e, 's) proxy \<Rightarrow> string \<Rightarrow> bool" where
  "internal_response p l =
     (\<exists>m s. decode_message (px_wire p) l = Inr (Some m) \<and> \<not> dict_has m ''method'' \<and>
        map_of m ''id'' = Some (PStr s) \<and> starts_with (px_prefix p) s)"

definition relay_ok :: "('e, 's) proxy \<Rightarrow> 's session \<Rightarrow> bool" where
  "relay_ok p st = (\<forall>l. Relayed l \<in> set (ss_client st) \<longrightarrow> \<not> internal_response p l)"

definition session_ok :: "('e, 's) proxy \<Rightarrow> 's session \<Rightarrow> bool" where
  "session_ok p st =
     ((\<forall>u < length (ss_tasks st). task_ok p (ss_tasks st ! u)) \<and> claims_ok st \<and> pending_ok p st \<and>
      outputs_ok p st \<and> server_ok p st \<and> relay_ok p st)"

lemma session_okI:
  assumes "\<And>u. u < length (ss_tasks st) \<Longrightarrow> task_ok p (ss_tasks st ! u)" "claims_ok st"
    "pending_ok p st" "outputs_ok p st" "server_ok p st" "relay_ok p st"
  shows "session_ok p st"
  using assms by (simp add: session_ok_def)

lemma session_okD:
  assumes "session_ok p st"
  shows "u < length (ss_tasks st) \<Longrightarrow> task_ok p (ss_tasks st ! u)" "claims_ok st" "pending_ok p st"
    "outputs_ok p st" "server_ok p st" "relay_ok p st"
  using assms by (simp_all add: session_ok_def)

lemmas inv_defs = claims_ok_def held_def pending_ok_def keyed_def outputs_ok_def answers_def
  server_ok_def relay_ok_def

section \<open>Updates\<close>

lemma task_update_fields [simp]:
  "ss_store (task_update t f st) = ss_store st" "ss_log (task_update t f st) = ss_log st"
  "ss_claims (task_update t f st) = ss_claims st" "ss_sequence (task_update t f st) = ss_sequence st"
  "ss_pending (task_update t f st) = ss_pending st" "ss_failure (task_update t f st) = ss_failure st"
  "ss_hint_shown (task_update t f st) = ss_hint_shown st"
  "ss_reading (task_update t f st) = ss_reading st" "ss_client (task_update t f st) = ss_client st"
  "ss_server (task_update t f st) = ss_server st"
  "length (ss_tasks (task_update t f st)) = length (ss_tasks st)"
  by (simp_all add: task_update_def)

lemma task_update_nth [simp]:
  "u < length (ss_tasks st) \<Longrightarrow>
     ss_tasks (task_update t f st) ! u = (if u = t then f (ss_tasks st ! t) else ss_tasks st ! u)"
  by (auto simp: task_update_def nth_list_update)

text \<open>The invariants do not look at the store, the log, the failure and the hint; and they allow the
  sequence to grow.\<close>

lemma session_ok_frame [simp]:
  "session_ok p (st\<lparr>ss_store := s\<rparr>) = session_ok p st"
  "session_ok p (st\<lparr>ss_log := l\<rparr>) = session_ok p st"
  "session_ok p (st\<lparr>ss_failure := b\<rparr>) = session_ok p st"
  "session_ok p (st\<lparr>ss_hint_shown := b\<rparr>) = session_ok p st"
  by (simp_all add: session_ok_def inv_defs)

lemma session_ok_sequence:
  "session_ok p st \<Longrightarrow> ss_sequence st \<le> n \<Longrightarrow> session_ok p (st\<lparr>ss_sequence := n\<rparr>)"
  by (simp add: session_ok_def inv_defs) (meson order.trans)

lemma answers_bound:
  assumes "outputs_ok p st"
  shows "answers st u \<le> (if u < length (ss_tasks st) \<and> finished (tk_stage (ss_tasks st ! u)) then 1 else 0)"
  using assms unfolding outputs_ok_def by blast

lemma no_answer:
  assumes "outputs_ok p st" "\<not> u < length (ss_tasks st) \<or> \<not> finished (tk_stage (ss_tasks st ! u))"
  shows "answers st u = 0" "FromTask u m \<notin> set (ss_client st)" "BytesFromTask u b \<notin> set (ss_client st)"
proof -
  show "answers st u = 0" using answers_bound [OF assms(1), of u] assms(2) by auto
  then show "FromTask u m \<notin> set (ss_client st)" "BytesFromTask u b \<notin> set (ss_client st)"
    by (auto simp: answers_def filter_empty_conv)
qed

lemma outputs_ok_cong:
  assumes "outputs_ok p st" "ss_client st' = ss_client st" "length (ss_tasks st') = length (ss_tasks st)"
    "\<And>u. u < length (ss_tasks st) \<Longrightarrow> tk_line (ss_tasks st' ! u) = tk_line (ss_tasks st ! u) \<and>
       finished (tk_stage (ss_tasks st' ! u)) = finished (tk_stage (ss_tasks st ! u)) \<and>
       (tk_stage (ss_tasks st' ! u) = Ended \<longrightarrow> tk_stage (ss_tasks st ! u) = Ended)"
  shows "outputs_ok p st'"
proof -
  have same: "answers st' u = answers st u" for u by (simp add: answers_def assms(2))
  show ?thesis
    unfolding outputs_ok_def same assms(2,3)
  proof (intro conjI allI impI)
    fix u
    show "answers st u \<le> (if u < length (ss_tasks st) \<and> finished (tk_stage (ss_tasks st' ! u)) then 1 else 0)"
      using answers_bound [OF assms(1), of u] assms(4) [of u] by (cases "u < length (ss_tasks st)") simp_all
  next
    fix u m
    assume m: "FromTask u m \<in> set (ss_client st)"
    then have "u < length (ss_tasks st)" using no_answer(2) [OF assms(1)] by blast
    with m assms(1,4) show "map_of m ''id'' = Some (line_id (px_wire p) (tk_line (ss_tasks st' ! u)))"
      by (simp add: outputs_ok_def)
  qed (use assms(1,4) in \<open>simp add: outputs_ok_def\<close>)
qed

text \<open>A change of one task that leaves its claim, its key in the table and its answers alone.\<close>

lemma session_ok_update:
  assumes "session_ok p st" "t < length (ss_tasks st)"
    "tk_line (f (ss_tasks st ! t)) = tk_line (ss_tasks st ! t)"
    "tk_claim (f (ss_tasks st ! t)) = tk_claim (ss_tasks st ! t)"
    "exchange_key (tk_stage (f (ss_tasks st ! t))) = exchange_key (tk_stage (ss_tasks st ! t))"
    "\<not> finished (tk_stage (f (ss_tasks st ! t)))" "\<not> finished (tk_stage (ss_tasks st ! t))"
    "task_ok p (f (ss_tasks st ! t))"
    "\<And>l. (t, l) \<in> set (ss_server st) \<Longrightarrow>
       \<not> may_send (tk_stage (f (ss_tasks st ! t))) \<and> sent_ok p (f (ss_tasks st ! t)) l"
  shows "session_ok p (task_update t f st)"
proof (rule session_okI)
  let ?st = "task_update t f st"
  have held: "held ?st u key = held st u key" for u key
    using assms(2,4) by (auto simp: held_def split: if_splits)
  have keyed: "keyed ?st u key = keyed st u key" for u key
    using assms(2,5) by (auto simp: keyed_def split: if_splits)
  show "task_ok p (ss_tasks ?st ! u)" if "u < length (ss_tasks ?st)" for u
    using that session_okD(1) [OF assms(1)] assms(8) by simp
  show "claims_ok ?st" using session_okD(2) [OF assms(1)] by (simp add: claims_ok_def held)
  show "pending_ok p ?st" using session_okD(3) [OF assms(1)] by (simp add: pending_ok_def keyed)
  show "relay_ok p ?st" using session_okD(6) [OF assms(1)] by (simp add: relay_ok_def)
  show "outputs_ok p ?st"
    by (rule outputs_ok_cong [OF session_okD(4) [OF assms(1)]]) (use assms(3,6,7) in \<open>auto split: if_splits\<close>)
  show "server_ok p ?st"
    using session_okD(5) [OF assms(1)] assms(9) by (auto simp: server_ok_def)
qed

lemma task_okD:
  assumes "session_ok p st" "t < length (ss_tasks st)"
  shows "tk_message (ss_tasks st ! t) = verdict_message (classify_line (px_wire p) (tk_line (ss_tasks st ! t)))"
    "\<exists>ph. accepted p ph (ss_tasks st ! t)" "stage_ok p (ss_tasks st ! t)"
  using session_okD(1) [OF assms] by (simp_all add: task_ok_def)

text \<open>The local predicates do not look at the stage.\<close>

lemma stage_frame [simp]:
  "accepted p ph (k\<lparr>tk_stage := s\<rparr>) = accepted p ph k" "is_call W (k\<lparr>tk_stage := s\<rparr>) = is_call W k"
  "is_pass W (k\<lparr>tk_stage := s\<rparr>) = is_pass W k" "claimed (k\<lparr>tk_stage := s\<rparr>) = claimed k"
  "payload_ok p (k\<lparr>tk_stage := s\<rparr>) = payload_ok p k" "purpose_ok p (k\<lparr>tk_stage := s\<rparr>) pu = purpose_ok p k pu"
  "sent_ok p (k\<lparr>tk_stage := s\<rparr>) l = sent_ok p k l"
  "is_call W (k\<lparr>tk_effects := es\<rparr>) = is_call W k" "is_pass W (k\<lparr>tk_effects := es\<rparr>) = is_pass W k"
  "claimed (k\<lparr>tk_effects := es\<rparr>) = claimed k" "payload_ok p (k\<lparr>tk_effects := es\<rparr>) = payload_ok p k"
  "is_call W (k\<lparr>tk_claim := c\<rparr>) = is_call W k" "is_pass W (k\<lparr>tk_claim := c\<rparr>) = is_pass W k"
  "payload_ok p (k\<lparr>tk_claim := c\<rparr>) = payload_ok p k" "accepted p ph (k\<lparr>tk_claim := c\<rparr>) = accepted p ph k"
  "sent_ok p (k\<lparr>tk_claim := c\<rparr>) l = sent_ok p k l"
  by (auto simp: accepted_def is_call_def is_pass_def claimed_def payload_ok_def purpose_ok_def
      sent_ok_def fun_eq_iff split: purpose.split option.split)

text \<open>What a running handler knows of itself; its effects have reached the phase \<open>ph\<close>.\<close>

definition running :: "('e, 's) proxy \<Rightarrow> phase \<Rightarrow> nat \<Rightarrow> 's session \<Rightarrow> bool" where
  "running p ph t st =
     (session_ok p st \<and> t < length (ss_tasks st) \<and> tk_stage (ss_tasks st ! t) = Running \<and>
      accepted p ph (ss_tasks st ! t))"

lemma running_effects:
  assumes "running p ph t st" "accepts (audited (px_firewall p)) PhStart es = Some ph'"
    "ran ph \<Longrightarrow> ran ph'"
  shows "running p ph' t (task_update t (\<lambda>k. k\<lparr>tk_effects := es\<rparr>) st)"
proof -
  have st: "session_ok p st" "t < length (ss_tasks st)" "tk_stage (ss_tasks st ! t) = Running"
    "accepted p ph (ss_tasks st ! t)"
    using assms(1) by (simp_all add: running_def)
  have tool: "EToolRan \<in> set es" if "EToolRan \<in> set (tk_effects (ss_tasks st ! t))"
  proof -
    have "ran ph" using that st(4) accepts_not_ran unfolding accepted_def by blast
    then show ?thesis using assms(2,3) accepts_run_trace run_trace_ran by blast
  qed
  have "session_ok p (task_update t (\<lambda>k. k\<lparr>tk_effects := es\<rparr>) st)"
  proof (rule session_ok_update [OF st(1,2)])
    show "task_ok p ((ss_tasks st ! t)\<lparr>tk_effects := es\<rparr>)"
      using task_okD(1) [OF st(1,2)] assms(2) st(3)
      by (auto simp: task_ok_def stage_ok_def accepted_def)
    show "\<not> may_send (tk_stage ((ss_tasks st ! t)\<lparr>tk_effects := es\<rparr>)) \<and>
        sent_ok p ((ss_tasks st ! t)\<lparr>tk_effects := es\<rparr>) l" if "(t, l) \<in> set (ss_server st)" for l
      using that session_okD(5) [OF st(1)] tool st(3) by (auto simp: server_ok_def sent_ok_def)
  qed (use st(3) in simp_all)
  then show ?thesis using st assms(2) by (simp add: running_def accepted_def)
qed

text \<open>A step of the firewall.\<close>

lemma running_in_world:
  assumes "running p ph t st" "in_world t m st = (r, st')"
    "moves (audited (px_firewall p)) ph m Q E"
    "\<And>x q. Q x q \<Longrightarrow> ran ph \<Longrightarrow> ran q" "\<And>e q. E e q \<Longrightarrow> ran ph \<Longrightarrow> ran q"
  obtains ph' es s l where "running p ph' t st'"
    "st' = task_update t (\<lambda>k. k\<lparr>tk_effects := es\<rparr>) (st\<lparr>ss_store := s, ss_log := l\<rparr>)"
    "\<And>x. r = Inr x \<Longrightarrow> Q x ph'" "\<And>e. r = Inl e \<Longrightarrow> E e ph'"
proof -
  let ?es = "tk_effects (ss_tasks st ! t)"
  define w0 where "w0 = \<lparr>w_store = ss_store st, w_log = ss_log st, w_effects = ([] :: effect list)\<rparr>"
  define w where "w = \<lparr>w_store = ss_store st, w_log = ss_log st, w_effects = ?es\<rparr>"
  obtain w' where w': "m w = (r, w')"
    "st' = task_update t (\<lambda>k. k\<lparr>tk_effects := w_effects w'\<rparr>) (st\<lparr>ss_store := w_store w', ss_log := w_log w'\<rparr>)"
    using assms(2) by (auto simp: in_world_def w_def split: prod.splits)
  have "at_phase (audited (px_firewall p)) ph w0 w"
    using assms(1) by (simp add: at_phase_def w0_def w_def running_def accepted_def)
  from movesD [OF assms(3) this w'(1)] obtain ph' where ph':
    "at_phase (audited (px_firewall p)) ph' w0 w'" "\<And>e. r = Inl e \<Longrightarrow> E e ph'" "\<And>x. r = Inr x \<Longrightarrow> Q x ph'"
    by blast
  have "running p ph t (st\<lparr>ss_store := w_store w', ss_log := w_log w'\<rparr>)"
    using assms(1) by (simp add: running_def)
  moreover have "accepts (audited (px_firewall p)) PhStart (w_effects w') = Some ph'"
    using ph'(1) by (simp add: at_phase_def w0_def)
  moreover have "ran ph \<Longrightarrow> ran ph'" using ph'(2,3) assms(4,5) by (cases r) auto
  ultimately have "running p ph' t st'" unfolding w'(2) by (rule running_effects)
  with w'(2) ph'(2,3) that show ?thesis by blast
qed

section \<open>The primitive steps\<close>

lemma runningD:
  assumes "running p ph t st"
  shows "session_ok p st" "t < length (ss_tasks st)" "tk_stage (ss_tasks st ! t) = Running"
    "accepted p ph (ss_tasks st ! t)"
  using assms by (simp_all add: running_def)

text \<open>A handler ends.\<close>

lemma leave_nth:
  "u < length (ss_tasks st) \<Longrightarrow>
     ss_tasks (leave t how ans st) ! u =
       (if u = t then (ss_tasks st ! t)\<lparr>tk_stage := how, tk_claim := None\<rparr> else ss_tasks st ! u)"
  by (simp add: leave_def)

lemma leave_fields [simp]:
  "length (ss_tasks (leave t how ans st)) = length (ss_tasks st)"
  "ss_pending (leave t how ans st) = ss_pending st" "ss_sequence (leave t how ans st) = ss_sequence st"
  "ss_server (leave t how ans st) = ss_server st" "ss_failure (leave t how ans st) = ss_failure st"
  "ss_client (leave t how ans st) =
     ss_client st @ (case ans of None \<Rightarrow> [] | Some m \<Rightarrow> [FromTask t m])"
  by (simp_all add: leave_def)

lemma claims_leave: "claims_ok st \<Longrightarrow> t < length (ss_tasks st) \<Longrightarrow> claims_ok (leave t how ans st)"
proof -
  assume ok: "claims_ok st" and t: "t < length (ss_tasks st)"
  have held: "held (leave t how ans st) u key \<longleftrightarrow> u \<noteq> t \<and> held st u key" for u key
    using t by (auto simp: held_def leave_nth split: if_splits)
  have claims: "set (ss_claims (leave t how ans st)) = {key \<in> set (ss_claims st). \<not> held st t key}"
    using t by (auto simp: leave_def held_def split: option.split)
  have "key \<in> set (ss_claims st) \<and> \<not> held st t key \<longleftrightarrow> (\<exists>u. u \<noteq> t \<and> held st u key)" for key
    using ok unfolding claims_ok_def by metis
  with ok show ?thesis by (auto simp: claims_ok_def held claims)
qed

lemma pending_leave:
  assumes "pending_ok p st" "t < length (ss_tasks st)" "exchange_key (tk_stage (ss_tasks st ! t)) = None"
    "exchange_key how = None"
  shows "pending_ok p (leave t how ans st)"
proof -
  have "keyed (leave t how ans st) u key \<longleftrightarrow> keyed st u key" for u key
    using assms(2-4) by (auto simp: keyed_def leave_nth split: if_splits)
  with assms(1) show ?thesis by (simp add: pending_ok_def)
qed

lemma answers_leave:
  "answers (leave t how ans st) u = answers st u + (if u = t \<and> ans \<noteq> None then 1 else 0)"
  by (auto simp: answers_def split: option.split)

lemma outputs_leave:
  assumes "outputs_ok p st" "t < length (ss_tasks st)" "tk_stage (ss_tasks st ! t) = Running"
    "finished how" "\<And>m. ans = Some m \<Longrightarrow> map_of m ''id'' = Some (line_id (px_wire p) (tk_line (ss_tasks st ! t)))"
    "how = Ended \<Longrightarrow> is_request (px_wire p) (tk_line (ss_tasks st ! t)) \<Longrightarrow> ans \<noteq> None"
  shows "outputs_ok p (leave t how ans st)"
  unfolding outputs_ok_def
proof (intro conjI allI impI)
  fix u
  show "answers (leave t how ans st) u \<le>
      (if u < length (ss_tasks (leave t how ans st)) \<and> finished (tk_stage (ss_tasks (leave t how ans st) ! u))
       then 1 else 0)"
    using answers_bound [OF assms(1), of u] assms(2-4)
    by (cases "u < length (ss_tasks st)") (auto simp: answers_leave leave_nth split: if_splits)
next
  fix u m
  assume "FromTask u m \<in> set (ss_client (leave t how ans st))"
  then consider "FromTask u m \<in> set (ss_client st)" | "u = t" "ans = Some m" by (auto split: option.splits)
  then show "map_of m ''id'' = Some (line_id (px_wire p) (tk_line (ss_tasks (leave t how ans st) ! u)))"
  proof cases
    case 1
    then have "u < length (ss_tasks st)" "u \<noteq> t"
      using no_answer(2) [OF assms(1)] assms(3) by (metis finished.simps(3))+
    with 1 assms(1) show ?thesis by (simp add: outputs_ok_def leave_nth)
  qed (use assms(2,5) in \<open>simp add: leave_nth\<close>)
next
  fix u
  assume u: "u < length (ss_tasks (leave t how ans st))" "tk_stage (ss_tasks (leave t how ans st) ! u) = Ended"
    "is_request (px_wire p) (tk_line (ss_tasks (leave t how ans st) ! u))"
  show "answers (leave t how ans st) u = 1"
  proof (cases "u = t")
    case True
    with u assms(2,6) no_answer(1) [OF assms(1), of t] assms(3) show ?thesis
      by (simp add: leave_nth answers_leave)
  next
    case False
    with u assms(1) show ?thesis by (simp add: leave_nth answers_leave outputs_ok_def)
  qed
qed

lemma leave_ok:
  assumes "running p ph t st" "finished how"
    "\<And>m. ans = Some m \<Longrightarrow> map_of m ''id'' = Some (line_id (px_wire p) (tk_line (ss_tasks st ! t)))"
    "how = Ended \<Longrightarrow> is_request (px_wire p) (tk_line (ss_tasks st ! t)) \<Longrightarrow> ans \<noteq> None"
  shows "session_ok p (leave t how ans st)"
proof (rule session_okI)
  note st = runningD [OF assms(1)]
  show "task_ok p (ss_tasks (leave t how ans st) ! u)" if "u < length (ss_tasks (leave t how ans st))" for u
    using that session_okD(1) [OF st(1)] task_okD(1,2) [OF st(1,2)] assms(2)
    by (cases how) (auto simp: leave_nth task_ok_def stage_ok_def)
  show "claims_ok (leave t how ans st)" using claims_leave session_okD(2) [OF st(1)] st(2) by blast
  show "pending_ok p (leave t how ans st)"
    using assms(2) st(3) by (intro pending_leave session_okD(3) [OF st(1)] st(2)) (cases how; simp)+
  show "outputs_ok p (leave t how ans st)"
    by (rule outputs_leave [OF session_okD(4) [OF st(1)] st(2,3) assms(2-4)])
  show "server_ok p (leave t how ans st)"
    using session_okD(5) [OF st(1)] assms(2)
    by (cases how) (auto simp: server_ok_def leave_nth)
  show "relay_ok p (leave t how ans st)"
    using session_okD(6) [OF st(1)] by (auto simp: relay_ok_def split: option.splits)
qed

text \<open>A handler claims its id.\<close>

text \<open>Everything but the invariants that a handler knows of itself and that the steps before it sends
  anything leave alone.\<close>

definition ready :: "('e, 's) proxy \<Rightarrow> phase \<Rightarrow> nat \<Rightarrow> 's session \<Rightarrow> bool" where
  "ready p ph t st =
     (running p ph t st \<and> claimed (ss_tasks st ! t) \<and> t \<notin> fst ` set (ss_server st))"

lemma readyD:
  assumes "ready p ph t st"
  shows "running p ph t st" "claimed (ss_tasks st ! t)" "t \<notin> fst ` set (ss_server st)"
  using assms by (simp_all add: ready_def)

lemma claim_ok:
  assumes "running p ph t st" "tk_claim (ss_tasks st ! t) = None" "request_key i \<notin> set (ss_claims st)"
    "map_of (message_of st t) ''id'' = Some i" "t \<notin> fst ` set (ss_server st)" "expects_reply (message_of st t)"
  shows "ready p ph t (task_update t (\<lambda>k. k\<lparr>tk_claim := Some (request_key i)\<rparr>)
    (st\<lparr>ss_claims := ss_claims st @ [request_key i]\<rparr>))"
proof -
  note st = runningD [OF assms(1)]
  define k where "k = (ss_tasks st ! t)\<lparr>tk_claim := Some (request_key i)\<rparr>"
  define st' where "st' = task_update t (\<lambda>k. k\<lparr>tk_claim := Some (request_key i)\<rparr>)
    (st\<lparr>ss_claims := ss_claims st @ [request_key i]\<rparr>)"
  have fields: "length (ss_tasks st') = length (ss_tasks st)" "ss_claims st' = ss_claims st @ [request_key i]"
    "ss_pending st' = ss_pending st" "ss_sequence st' = ss_sequence st" "ss_server st' = ss_server st"
    "ss_client st' = ss_client st"
    by (simp_all add: st'_def)
  have nth: "ss_tasks st' ! u = (if u = t then k else ss_tasks st ! u)" if "u < length (ss_tasks st)" for u
    using that by (simp add: st'_def k_def task_update_def nth_list_update)
  have k: "tk_line k = tk_line (ss_tasks st ! t)" "tk_message k = tk_message (ss_tasks st ! t)"
    "tk_stage k = Running" "accepted p ph k" "tk_claim k = Some (request_key i)"
    "sent_ok p k l = sent_ok p (ss_tasks st ! t) l" for l
    using st by (simp_all add: k_def)
  have held: "held st' u key \<longleftrightarrow> (if u = t then key = request_key i else held st u key)" for u key
    using st(2) k(5) by (auto simp: held_def fields nth)
  have new: "\<not> held st u (request_key i)" for u
    using session_okD(2) [OF st(1)] assms(3) by (auto simp: claims_ok_def)
  have keyed: "keyed st' u key = keyed st u key" for u key
    using st(3) k(3) by (auto simp: keyed_def fields nth split: if_splits)
  have "session_ok p st'"
  proof (rule session_okI)
    show "task_ok p (ss_tasks st' ! u)" if "u < length (ss_tasks st')" for u
      using that session_okD(1) [OF st(1)] task_okD(1) [OF st(1,2)] k
      by (auto simp: fields nth task_ok_def stage_ok_def)
    have "\<not> held st t key" for key using assms(2) by (simp add: held_def)
    then have "key = request_key i \<or> (\<exists>u. held st u key) \<longleftrightarrow> (\<exists>u. held st' u key)" for key
      unfolding held by metis
    then show "claims_ok st'"
      using session_okD(2) [OF st(1)] new by (auto simp: claims_ok_def held fields split: if_splits)
    show "pending_ok p st'" using session_okD(3) [OF st(1)] by (simp add: pending_ok_def keyed fields)
    show "server_ok p st'"
      using session_okD(5) [OF st(1)] k by (auto simp: server_ok_def fields nth)
    show "relay_ok p st'" using session_okD(6) [OF st(1)] by (simp add: relay_ok_def fields)
    show "outputs_ok p st'"
      by (rule outputs_ok_cong [OF session_okD(4) [OF st(1)]]) (use st(3) k in \<open>auto simp: fields nth\<close>)
  qed
  then show ?thesis
    using st assms(4-6) k unfolding st'_def [symmetric]
    by (auto simp: ready_def running_def claimed_def message_of_def nth fields)
qed

text \<open>A handler waits, or goes on: only its stage and the pending table change.\<close>

lemma session_ok_stage:
  assumes "session_ok p st" "t < length (ss_tasks st)" "\<not> finished (tk_stage (ss_tasks st ! t))" "\<not> finished s"
    "ss_tasks st' = (ss_tasks st)[t := (ss_tasks st ! t)\<lparr>tk_stage := s\<rparr>]"
    "ss_claims st' = ss_claims st" "ss_server st' = ss_server st" "ss_client st' = ss_client st"
    "stage_ok p ((ss_tasks st ! t)\<lparr>tk_stage := s\<rparr>)" "pending_ok p st'"
    "\<And>l. (t, l) \<in> set (ss_server st) \<Longrightarrow> \<not> may_send s"
  shows "session_ok p st'"
proof (rule session_okI)
  have len: "length (ss_tasks st') = length (ss_tasks st)" by (simp add: assms(5))
  have nth: "ss_tasks st' ! u = (if u = t then (ss_tasks st ! t)\<lparr>tk_stage := s\<rparr> else ss_tasks st ! u)"
    if "u < length (ss_tasks st)" for u using that by (simp add: assms(5) nth_list_update)
  show "task_ok p (ss_tasks st' ! u)" if "u < length (ss_tasks st')" for u
    using that session_okD(1) [OF assms(1)] task_okD(1,2) [OF assms(1,2)] assms(9)
    by (auto simp: len nth task_ok_def)
  have "held st' u key = held st u key" for u key
    by (auto simp: held_def len nth split: if_splits)
  with session_okD(2) [OF assms(1)] show "claims_ok st'" by (simp add: claims_ok_def assms(6))
  show "pending_ok p st'" by fact
  show "outputs_ok p st'"
    by (rule outputs_ok_cong [OF session_okD(4) [OF assms(1)] assms(8) len]) (use assms(3,4) in \<open>auto simp: nth\<close>)
  show "server_ok p st'"
    using session_okD(5) [OF assms(1)] assms(11) by (auto simp: server_ok_def assms(7) len nth)
  show "relay_ok p st'" using session_okD(6) [OF assms(1)] by (simp add: relay_ok_def assms(8))
qed

lemma internal_key_inject: "internal_key p a = internal_key p b \<longleftrightarrow> a = b"
proof
  assume "internal_key p a = internal_key p b"
  then have "key_sorted (PStr (internal_id p a)) = key_sorted (PStr (internal_id p b))"
    unfolding internal_key_def by (intro request_key_inject) simp_all
  then show "a = b" by (simp add: internal_id_def)
qed simp

lemma keyed_stage:
  assumes "t < length (ss_tasks st)" "ss_tasks st' = (ss_tasks st)[t := (ss_tasks st ! t)\<lparr>tk_stage := s\<rparr>]"
  shows "keyed st' u key \<longleftrightarrow> (if u = t then exchange_key s = Some key else keyed st u key)"
  using assms by (auto simp: keyed_def nth_list_update)

lemma pending_unkeyed:
  assumes "pending_ok p st" "t < length (ss_tasks st)"
    "exchange_key (tk_stage (ss_tasks st ! t)) = exchange_key s"
    "ss_tasks st' = (ss_tasks st)[t := (ss_tasks st ! t)\<lparr>tk_stage := s\<rparr>]"
    "ss_pending st' = ss_pending st" "ss_sequence st' = ss_sequence st"
  shows "pending_ok p st'"
proof -
  have "keyed st' u key = keyed st u key" for u key
    unfolding keyed_stage [OF assms(2,4)] using assms(2,3) by (auto simp: keyed_def)
  with assms(1,5,6) show ?thesis by (simp add: pending_ok_def)
qed

lemma pending_new_key:
  assumes "pending_ok p st" "t < length (ss_tasks st)" "exchange_key (tk_stage (ss_tasks st ! t)) = None"
    "ss_tasks st' = (ss_tasks st)[t := (ss_tasks st ! t)\<lparr>tk_stage := s\<rparr>]"
    "exchange_key s = Some (internal_key p (ss_sequence st + 1))"
    "ss_pending st' = (ss_pending st)(internal_key p (ss_sequence st + 1) \<mapsto> Unset)"
    "ss_sequence st' = ss_sequence st + 1"
  shows "pending_ok p st'"
proof -
  let ?key = "internal_key p (ss_sequence st + 1)"
  have keyed: "keyed st' u key \<longleftrightarrow> (if u = t then key = ?key else keyed st u key)" for u key
    unfolding keyed_stage [OF assms(2,4)] using assms(5) by auto
  have t: "\<not> keyed st t key" for key using assms(3) by (simp add: keyed_def)
  have old: "\<exists>n \<le> ss_sequence st. key = internal_key p n" if "keyed st u key" for u key
    using assms(1) that by (auto simp: pending_ok_def)
  have fresh: "\<not> keyed st u ?key" for u
    using old [of u ?key] by (auto simp: internal_key_inject)
  have 1: "\<forall>u v key. keyed st' u key \<longrightarrow> keyed st' v key \<longrightarrow> u = v"
    using assms(1) fresh unfolding keyed pending_ok_def by metis
  have 2: "ss_pending st' key \<noteq> None \<longleftrightarrow> (\<exists>u. keyed st' u key)" for key
    using assms(1) t unfolding keyed pending_ok_def assms(6) by (cases "key = ?key") (simp, metis, simp, metis)
  have 3: "\<exists>n \<le> ss_sequence st'. key = internal_key p n" if "keyed st' u key" for u key
    using that old [of u key] unfolding keyed assms(7) Suc_eq_plus1 [symmetric]
    by (cases "u = t") (simp, blast, metis le_SucI)
  have 4: "\<exists>i. map_of r ''id'' = Some i \<and> request_key i = key" if "ss_pending st' key = Some (Result r)" for key r
    using that assms(1) by (auto simp: pending_ok_def assms(6) split: if_splits)
  show ?thesis unfolding pending_ok_def using 1 2 3 4 by blast
qed

lemma pending_drop_key:
  assumes "pending_ok p st" "t < length (ss_tasks st)" "exchange_key (tk_stage (ss_tasks st ! t)) = Some k"
    "ss_tasks st' = (ss_tasks st)[t := (ss_tasks st ! t)\<lparr>tk_stage := s\<rparr>]" "exchange_key s = None"
    "ss_pending st' = (ss_pending st)(k := None)" "ss_sequence st' = ss_sequence st"
  shows "pending_ok p st'"
proof -
  have keyed: "keyed st' u key \<longleftrightarrow> u \<noteq> t \<and> keyed st u key" for u key
    unfolding keyed_stage [OF assms(2,4)] using assms(5) by auto
  have t: "keyed st t key \<longleftrightarrow> key = k" for key using assms(2,3) by (auto simp: keyed_def)
  have 1: "\<forall>u v key. keyed st' u key \<longrightarrow> keyed st' v key \<longrightarrow> u = v"
    using assms(1) unfolding keyed pending_ok_def by blast
  have 2: "ss_pending st' key \<noteq> None \<longleftrightarrow> (\<exists>u. keyed st' u key)" for key
    using assms(1) t unfolding keyed pending_ok_def assms(6) by (cases "key = k") (simp, metis, simp, metis)
  have 3: "\<exists>n \<le> ss_sequence st'. key = internal_key p n" if "keyed st' u key" for u key
    using that assms(1) unfolding keyed pending_ok_def assms(7) by blast
  have 4: "\<exists>i. map_of r ''id'' = Some i \<and> request_key i = key" if "ss_pending st' key = Some (Result r)" for key r
    using that assms(1) by (auto simp: pending_ok_def assms(6) split: if_splits)
  show ?thesis unfolding pending_ok_def using 1 2 3 4 by blast
qed

section \<open>The end of a handler\<close>

text \<open>A handler waits for the approver, or sends a line.\<close>

lemma ready_unsent: "ready p ph t st \<Longrightarrow> (t, l) \<notin> set (ss_server st)"
  by (force simp: ready_def)

lemma exchange_raw_ok:
  assumes "ready p ph t st" "purpose_ok p (ss_tasks st ! t) pu" "\<not> expects_reply (message_of st t)"
  shows "session_ok p (task_update t
    (\<lambda>k. k\<lparr>tk_stage := Exchanging pu (tk_line (ss_tasks st ! t)) None Queued\<rparr>) st)"
proof -
  note st = runningD [OF readyD(1) [OF assms(1)]]
  let ?s = "Exchanging pu (tk_line (ss_tasks st ! t)) None Queued"
  show ?thesis
  proof (rule session_ok_stage [OF st(1,2), of ?s])
    show "pending_ok p (task_update t (\<lambda>k. k\<lparr>tk_stage := ?s\<rparr>) st)"
      by (rule pending_unkeyed [OF session_okD(3) [OF st(1)] st(2), of ?s])
        (simp_all add: st(3) task_update_def)
  qed (use st(3) assms(2,3) readyD(2) [OF assms(1)] ready_unsent [OF assms(1)] in
      \<open>auto simp: stage_ok_def payload_ok_def message_of_def task_update_def\<close>)
qed

lemma exchange_request_ok:
  assumes "ready p ph t st" "purpose_ok p (ss_tasks st ! t) pu" "expects_reply (message_of st t)"
    "encode_message (px_wire p) (dict_set (message_of st t) ''id'' (PStr (internal_id p (ss_sequence st + 1)))) = Inr l"
  shows "session_ok p (task_update t
    (\<lambda>k. k\<lparr>tk_stage := Exchanging pu l (Some (internal_key p (ss_sequence st + 1))) Queued\<rparr>)
    (st\<lparr>ss_sequence := ss_sequence st + 1,
        ss_pending := (ss_pending st)(internal_key p (ss_sequence st + 1) \<mapsto> Unset)\<rparr>))"
proof -
  note st = runningD [OF readyD(1) [OF assms(1)]]
  let ?key = "internal_key p (ss_sequence st + 1)"
  let ?s = "Exchanging pu l (Some ?key) Queued"
  let ?st = "task_update t (\<lambda>k. k\<lparr>tk_stage := ?s\<rparr>)
    (st\<lparr>ss_sequence := ss_sequence st + 1, ss_pending := (ss_pending st)(?key \<mapsto> Unset)\<rparr>)"
  show ?thesis
  proof (rule session_ok_stage [OF st(1,2), of ?s])
    show "pending_ok p ?st"
      by (rule pending_new_key [OF session_okD(3) [OF st(1)] st(2), of ?st ?s])
        (simp_all add: st(3) task_update_def)
    have "payload_ok p (ss_tasks st ! t) l (Some ?key)"
      using assms(3,4) by (auto simp: payload_ok_def message_of_def)
    then show "stage_ok p ((ss_tasks st ! t)\<lparr>tk_stage := ?s\<rparr>)"
      using assms(2) readyD(2) [OF assms(1)] by (simp add: stage_ok_def)
  qed (use st(3) ready_unsent [OF assms(1)] in \<open>simp_all add: task_update_def\<close>)
qed

text \<open>What a message is classified as, and the id its answers carry.\<close>

lemma classified_message:
  assumes "classify_line W l = Pass m \<or> classify_line W l = Call m name arguments cost"
  shows "decode_message W l = Inr (Some m)"
  using assms
  by (auto simp: classify_line_def undecoded_line_def classify_message_def tool_request_def
      answer_verdict_def Let_def split: sum.splits option.splits pyval.splits if_splits bool.splits)

lemma call_has_method:
  assumes "classify_line W l = Call m name arguments cost"
  shows "map_of m ''method'' = Some (PStr ''tools/call'')"
  using assms
  by (auto simp: classify_line_def undecoded_line_def classify_message_def tool_request_def dict_get_def
      answer_verdict_def Let_def split: sum.splits option.splits pyval.splits if_splits bool.splits)

lemma call_expects_reply:
  assumes "is_call W k"
  shows "expects_reply (tk_message k) \<longleftrightarrow> dict_has (tk_message k) ''id''"
  using assms call_has_method by (auto simp: is_call_def expects_reply_def dict_has_def)

lemma message_decoded:
  assumes "is_call W k \<or> is_pass W k"
  shows "decode_message W (tk_line k) = Inr (Some (tk_message k))"
  using assms classified_message unfolding is_call_def is_pass_def by blast

lemma message_id:
  assumes "is_call W k \<or> is_pass W k"
  shows "line_id W (tk_line k) = dict_get (tk_message k) ''id'' PNone"
    "is_request W (tk_line k) = expects_reply (tk_message k)"
  using message_decoded [OF assms] by (simp_all add: line_id_def is_request_def)

definition answer_ok :: "pydict \<Rightarrow> pydict option \<Rightarrow> bool" where
  "answer_ok m ans =
     ((\<forall>a. ans = Some a \<longrightarrow> map_of a ''id'' = Some (dict_get m ''id'' PNone)) \<and>
      (expects_reply m \<longrightarrow> ans \<noteq> None))"

lemma leave_message_ok:
  assumes "running p ph t st" "is_call (px_wire p) (ss_tasks st ! t) \<or> is_pass (px_wire p) (ss_tasks st ! t)"
    "answer_ok (message_of st t) ans"
  shows "session_ok p (leave t Ended ans st)"
  using assms(3) message_id [OF assms(2)]
  by (intro leave_ok [OF assms(1)]) (auto simp: answer_ok_def message_of_def)

lemma error_answers_ok:
  "answer_ok m (error_answer m n msg)"
  "answer_ok m (exception_answer m e)"
proof -
  show "answer_ok m (error_answer m n msg)" for n msg
    by (auto simp: answer_ok_def error_answer_def error_response_def dict_get_def dict_has_def expects_reply_def split: option.splits)
  then show "answer_ok m (exception_answer m e)"
    by (cases e) (auto simp: answer_ok_def policy_response_def error_response_def dict_get_def dict_has_def expects_reply_def)
qed

definition outcome_ok :: "pydict \<Rightarrow> exchange_outcome \<Rightarrow> bool" where
  "outcome_ok m out =
     ((\<forall>r. out = Replied (Some r) \<or> out = ToolReportedError r \<longrightarrow>
         map_of r ''id'' = Some (dict_get m ''id'' PNone)) \<and>
      (out = Replied None \<longrightarrow> \<not> expects_reply m))"

lemma outcome_answers_ok:
  assumes "outcome_ok m out"
  shows "answer_ok m (call_answer m out)" "answer_ok m (passing_answer m out)"
proof -
  show "answer_ok m (call_answer m out)"
  proof (cases out)
    case (Replied r)
    then show ?thesis using assms by (cases r) (auto simp: answer_ok_def outcome_ok_def)
  next
    case (OtherError n)
    then show ?thesis using error_answers_ok(1) by simp
  qed (use assms in \<open>auto simp: answer_ok_def outcome_ok_def timeout_response_def
      child_unavailable_response_def error_response_def dict_get_def dict_has_def expects_reply_def\<close>)
  then show "answer_ok m (passing_answer m out)"
    by (simp add: passing_answer_def answer_ok_def)
qed

lemma reply_outcome_ok: "outcome_ok m (reply_outcome pu m r)"
  by (auto simp: outcome_ok_def reply_outcome_def Let_def split: purpose.splits if_splits)

lemma running_hint [simp]:
  "running p ph t (st\<lparr>ss_hint_shown := b\<rparr>) = running p ph t st"
  "running p ph t (st\<lparr>ss_failure := b\<rparr>) = running p ph t st"
  by (simp_all add: running_def)

lemma fail_call_ok:
  assumes "running p ph t st" "is_call (px_wire p) (ss_tasks st ! t)"
  shows "session_ok p (fail_call p t e st)"
  unfolding fail_call_def
  by (rule leave_message_ok) (use assms error_answers_ok(2) in \<open>simp_all add: message_of_def\<close>)

lemma conclude_moves:
  "moves (audited f) PhRan (conclude f ac c d out) (\<lambda>_ ph. ran ph) (\<lambda>_ ph. ran ph)"
proof -
  have "moves (audited f) PhRan (audit_terminal f ac ev c d err) (\<lambda>_ ph. ran ph) (\<lambda>_ ph. ran ph)"
    if "ev = ''executed'' \<or> ev = ''failed''" for ev err
    using audit_terminal_moves [of False f c ev ac d err] that
    unfolding moves_def by (fastforce simp: after_run_def final_phase_def ran_def split: sum.splits)
  then show ?thesis by (auto simp: conclude_def split: option.split)
qed

lemma purpose_running:
  assumes "running p ph t st" "purpose_ok p (ss_tasks st ! t) (Calling c d)"
  shows "running p PhRan t st"
  using assms by (simp add: running_def purpose_ok_def)

lemma finish_exchange_ok:
  assumes "running p ph t st" "purpose_ok p (ss_tasks st ! t) pu" "outcome_ok (message_of st t) out"
  shows "session_ok p (finish_exchange p t ac pu out st)"
proof (cases pu)
  case Passing
  have pass: "is_pass (px_wire p) (ss_tasks st ! t)" using assms(2) Passing by (simp add: purpose_ok_def)
  show ?thesis
  proof (cases "\<exists>n. out = OtherError n")
    case True
    then show ?thesis
      using Passing by (auto simp: finish_exchange_def intro!: leave_ok [OF assms(1)])
  next
    case False
    then have "finish_exchange p t ac pu out st = leave t Ended (passing_answer (message_of st t) out) st"
      using Passing by (cases out) (simp_all add: finish_exchange_def)
    then show ?thesis
      using leave_message_ok [OF assms(1) _ outcome_answers_ok(2) [OF assms(3)]] pass by simp
  qed
next
  case (Calling c d)
  have call: "is_call (px_wire p) (ss_tasks st ! t)" using assms(2) Calling by (simp add: purpose_ok_def)
  obtain r st' where r: "in_world t (conclude (px_firewall p) ac c d out) st = (r, st')" by fastforce
  obtain ph' es s l where st': "running p ph' t st'"
    "st' = task_update t (\<lambda>k. k\<lparr>tk_effects := es\<rparr>) (st\<lparr>ss_store := s, ss_log := l\<rparr>)"
    by (rule running_in_world [OF purpose_running [OF assms(1) assms(2) [unfolded Calling]] r conclude_moves])
  have t: "t < length (ss_tasks st)" using assms(1) by (simp add: running_def)
  have same: "is_call (px_wire p) (ss_tasks st' ! t)" "message_of st' t = message_of st t"
    using call t by (simp_all add: st'(2) message_of_def)
  show ?thesis
  proof (cases r)
    case (Inl e)
    then show ?thesis using fail_call_ok [OF st'(1) same(1)] r Calling by (simp add: finish_exchange_def)
  next
    case (Inr x)
    then show ?thesis
      using leave_message_ok [OF st'(1) disjI1 [OF same(1)]] outcome_answers_ok(1) [OF assms(3)] same(2) r Calling
      by (simp add: finish_exchange_def)
  qed
qed

lemma ready_frame:
  assumes "ready p ph t st" "st' = task_update t (\<lambda>k. k\<lparr>tk_effects := es\<rparr>) (st\<lparr>ss_store := s, ss_log := l\<rparr>)"
    "running p ph' t st'"
  shows "ready p ph' t st'" "message_of st' t = message_of st t"
    "is_call W (ss_tasks st' ! t) = is_call W (ss_tasks st ! t)"
  using assms by (auto simp: ready_def running_def message_of_def)

lemma forward_ok:
  assumes "ready p ph t st" "purpose_ok p (ss_tasks st ! t) pu"
  shows "session_ok p (forward p t ac pu st)"
proof -
  have run: "running p ph t st" using assms(1) by (simp add: ready_def)
  have failed: "session_ok p (finish_exchange p t ac pu ChildUnavailable st)"
    by (rule finish_exchange_ok [OF run assms(2)]) (simp add: outcome_ok_def)
  have "running p ph t (st\<lparr>ss_sequence := ss_sequence st + 1\<rparr>)"
    using run by (auto simp: running_def intro: session_ok_sequence)
  then have unencoded: "session_ok p (finish_exchange p t ac pu (OtherError n) (st\<lparr>ss_sequence := ss_sequence st + 1\<rparr>))" for n
    using assms(2) by (intro finish_exchange_ok) (auto simp: outcome_ok_def message_of_def)
  show ?thesis
  proof (cases "expects_reply (message_of st t)")
    case True
    then show ?thesis
      using failed unencoded exchange_request_ok [OF assms True]
      by (auto simp: forward_def forward_request_def Let_def split: sum.split)
  next
    case False
    then show ?thesis
      using failed exchange_raw_ok [OF assms False] by (simp add: forward_def forward_line_def)
  qed
qed

lemma run_call_ok:
  assumes "ready p PhCleared t st" "is_call (px_wire p) (ss_tasks st ! t)"
  shows "session_ok p (run_call p t ac c d st)"
proof -
  let ?es = "tk_effects (ss_tasks st ! t) @ [EToolRan]"
  let ?st = "task_update t (\<lambda>k. k\<lparr>tk_effects := ?es\<rparr>) st"
  have run: "running p PhCleared t st" using assms(1) by (simp add: ready_def)
  have t: "t < length (ss_tasks st)" using run by (simp add: running_def)
  have "accepts (audited (px_firewall p)) PhStart ?es = Some PhRan"
    using run by (simp add: running_def accepted_def accepts_append)
  from running_effects [OF run this] have run': "running p PhRan t ?st" by (simp add: ran_def)
  then have "ready p PhRan t ?st" using assms(1) t by (simp add: ready_def)
  moreover have "purpose_ok p (ss_tasks ?st ! t) (Calling c d)"
    using run' assms(2) t by (simp add: purpose_ok_def running_def)
  moreover have "run_call p t ac c d st = forward p t ac (Calling c d) ?st"
    using t by (simp add: run_call_def task_update_def)
  ultimately show ?thesis using forward_ok by metis
qed

section \<open>The beginning of a handler\<close>

lemma duplicate_ok:
  assumes "map_of m ''id'' = Some i"
  shows "answer_ok m (Some (duplicate_response i))"
  using assms by (simp add: answer_ok_def duplicate_response_def error_response_def dict_get_def)

text \<open>After the claim: the id was in use, and the session is as it should be, or the handler goes on.\<close>

lemma claim_client_id_ok:
  assumes "running p ph t st" "tk_claim (ss_tasks st ! t) = None" "t \<notin> fst ` set (ss_server st)"
    "is_call (px_wire p) (ss_tasks st ! t) \<or> is_pass (px_wire p) (ss_tasks st ! t)"
    "claim_client_id t st = (b, st')" "dict_has (message_of st t) ''id'' \<Longrightarrow> expects_reply (message_of st t)"
  shows "\<not> b \<Longrightarrow> session_ok p st'"
    and "b \<Longrightarrow> ready p ph t st' \<and> message_of st' t = message_of st t \<and>
      is_call W (ss_tasks st' ! t) = is_call W (ss_tasks st ! t) \<and>
      is_pass W (ss_tasks st' ! t) = is_pass W (ss_tasks st ! t)"
proof -
  have t: "t < length (ss_tasks st)" using assms(1) by (simp add: running_def)
  show "session_ok p st'" if "\<not> b"
    using that assms(5) leave_message_ok [OF assms(1,4) duplicate_ok]
    by (auto simp: claim_client_id_def message_of_def split: option.splits if_splits)
  assume b: "b"
  show "ready p ph t st' \<and> message_of st' t = message_of st t \<and>
      is_call W (ss_tasks st' ! t) = is_call W (ss_tasks st ! t) \<and>
      is_pass W (ss_tasks st' ! t) = is_pass W (ss_tasks st ! t)"
  proof (cases "map_of (message_of st t) ''id''")
    case None
    then have "\<not> expects_reply (message_of st t)" by (simp add: expects_reply_def dict_has_def)
    then show ?thesis
      using b assms(1,2,3,5) None
      by (auto simp: claim_client_id_def ready_def claimed_def message_of_def)
  next
    case (Some i)
    then have new: "request_key i \<notin> set (ss_claims st)"
      "st' = task_update t (\<lambda>k. k\<lparr>tk_claim := Some (request_key i)\<rparr>)
         (st\<lparr>ss_claims := ss_claims st @ [request_key i]\<rparr>)"
      using b assms(5) by (auto simp: claim_client_id_def split: if_splits)
    have "expects_reply (message_of st t)" using Some assms(6) by (simp add: dict_has_def)
    then show ?thesis
      using claim_ok [OF assms(1,2) new(1) Some assms(3)] t by (simp add: message_of_def new(2))
  qed
qed

lemma authorize_moves_any:
  "moves (audited f) PhStart (authorize f ac c) (\<lambda>d ph. d_kind d \<noteq> BLOCK \<and> ph = after_decision d) (\<lambda>_ _. True)"
  using authorize_moves [of False f c ac] unfolding moves_def by (fastforce split: sum.splits)

lemma finish_approval_moves_any:
  "moves (audited f) (PhAsked d) (finish_approval f ac c d b) (\<lambda>_ ph. ph = PhCleared) (\<lambda>_ _. True)"
  using finish_approval_moves [of False f c d ac b] unfolding moves_def by (fastforce split: sum.splits)

lemma asking_ok:
  assumes "ready p (PhWaiting d) t st" "is_call (px_wire p) (ss_tasks st ! t)"
  shows "session_ok p (task_update t
    (\<lambda>k. k\<lparr>tk_stage := Asking c d, tk_effects := tk_effects k @ [EApproverAsked]\<rparr>) st)"
proof -
  note st = runningD [OF readyD(1) [OF assms(1)]]
  have "accepted p (PhAsked d) ((ss_tasks st ! t)\<lparr>tk_effects := tk_effects (ss_tasks st ! t) @ [EApproverAsked]\<rparr>)"
    using st(4) by (simp add: accepted_def accepts_append)
  then have "task_ok p ((ss_tasks st ! t)\<lparr>tk_stage := Asking c d,
      tk_effects := tk_effects (ss_tasks st ! t) @ [EApproverAsked]\<rparr>)"
    using task_okD(1) [OF st(1,2)] assms(2) readyD(2) [OF assms(1)]
    by (auto simp: task_ok_def stage_ok_def accepted_def)
  then show ?thesis
    using st(3) ready_unsent [OF assms(1)] by (intro session_ok_update [OF st(1,2)]) auto
qed

lemma begin_call_ok:
  assumes "running p PhStart t st" "tk_claim (ss_tasks st ! t) = None" "t \<notin> fst ` set (ss_server st)"
    "is_call (px_wire p) (ss_tasks st ! t)"
  shows "session_ok p (begin_call p t new_id name arguments cost ac ac_end st)"
proof -
  obtain b st1 where claim: "claim_client_id t st = (b, st1)" by fastforce
  have "dict_has (message_of st t) ''id'' \<Longrightarrow> expects_reply (message_of st t)"
    using call_expects_reply [OF assms(4)] by (simp add: message_of_def)
  note after = claim_client_id_ok [OF assms(1-3) disjI1 [OF assms(4)] claim this]
  show ?thesis
  proof (cases b)
    case False
    then show ?thesis using after(1) claim by (simp add: begin_call_def)
  next
    case True
    then have st1: "ready p PhStart t st1" "is_call (px_wire p) (ss_tasks st1 ! t)"
      using after(2) [of "px_wire p"] assms(4) by simp_all
    show ?thesis
    proof (cases "create_call new_id (PStr name) (Some arguments)
        (PObj (dec_text cost) (''Decimal('' @ str_repr (dec_text cost) @ '')''))")
      case (Inl e)
      then show ?thesis
        using claim True fail_call_ok [OF readyD(1) [OF st1(1)] st1(2)] by (simp add: begin_call_def)
    next
      case (Inr c)
      obtain r st2 where auth: "in_world t (authorize (px_firewall p) ac c) st1 = (r, st2)" by fastforce
      obtain ph es s l where st2: "running p ph t st2"
        "st2 = task_update t (\<lambda>k. k\<lparr>tk_effects := es\<rparr>) (st1\<lparr>ss_store := s, ss_log := l\<rparr>)"
        "\<And>d. r = Inr d \<Longrightarrow> d_kind d \<noteq> BLOCK \<and> ph = after_decision d"
        by (rule running_in_world [OF readyD(1) [OF st1(1)] auth authorize_moves_any])
           (auto simp: ran_def)
      note ready = ready_frame [OF st1(1) st2(2,1)]
      have call: "is_call (px_wire p) (ss_tasks st2 ! t)" using ready(3) st1(2) by simp
      show ?thesis
      proof (cases r)
        case (Inl e)
        then show ?thesis
          using claim True Inr auth fail_call_ok [OF st2(1) call] by (simp add: begin_call_def)
      next
        case d: (Inr d)
        then show ?thesis
          using claim True Inr auth st2(3) [OF d] ready(1) call fail_call_ok [OF st2(1) call]
            run_call_ok [of p t st2] asking_ok [of p d t st2]
          by (cases "d_kind d") (auto simp: begin_call_def after_decision_def)
      qed
    qed
  qed
qed

lemma begin_pass_ok:
  assumes "running p PhStart t st" "tk_claim (ss_tasks st ! t) = None" "t \<notin> fst ` set (ss_server st)"
    "is_pass (px_wire p) (ss_tasks st ! t)"
  shows "session_ok p (begin_pass p t ac st)"
proof (cases "expects_reply (message_of st t)")
  case True
  obtain b st1 where claim: "claim_client_id t st = (b, st1)" by fastforce
  note after = claim_client_id_ok [OF assms(1-3) disjI2 [OF assms(4)] claim True]
  show ?thesis
    using True claim after(1) after(2) [of "px_wire p"] assms(4) forward_ok [of p PhStart t st1 Passing]
    by (cases b) (auto simp: begin_pass_def purpose_ok_def)
next
  case False
  then have "ready p PhStart t st"
    using assms(1-3) by (simp add: ready_def claimed_def message_of_def)
  then show ?thesis
    using False forward_ok [of p PhStart t st Passing] assms(4) by (simp add: begin_pass_def purpose_ok_def)
qed

text \<open>A new task.\<close>

lemma new_task_running:
  assumes "session_ok p st" "tk_message k = verdict_message (classify_line (px_wire p) (tk_line k))"
    "tk_claim k = None" "tk_stage k = Running" "tk_effects k = []"
  shows "running p PhStart (length (ss_tasks st)) (st\<lparr>ss_tasks := ss_tasks st @ [k]\<rparr>)"
    "length (ss_tasks st) \<notin> fst ` set (ss_server st)"
proof -
  let ?n = "length (ss_tasks st)"
  define st' where "st' = st\<lparr>ss_tasks := ss_tasks st @ [k]\<rparr>"
  have fields: "length (ss_tasks st') = Suc ?n" "ss_claims st' = ss_claims st" "ss_pending st' = ss_pending st"
    "ss_sequence st' = ss_sequence st" "ss_server st' = ss_server st" "ss_client st' = ss_client st"
    by (simp_all add: st'_def)
  have nth: "ss_tasks st' ! u = (if u = ?n then k else ss_tasks st ! u)" if "u < Suc ?n" for u
    using that by (auto simp: st'_def nth_append)
  have held: "held st' u key = held st u key" for u key
    using assms(3) by (auto simp: held_def fields nth split: if_splits)
  have keyed: "keyed st' u key = keyed st u key" for u key
    using assms(4) by (auto simp: keyed_def fields nth split: if_splits)
  have answers: "answers st' u = answers st u" for u by (simp add: answers_def fields)
  note ok = session_okD(4) [OF assms(1)]
  have unsent: "?n \<notin> fst ` set (ss_server st)"
    using session_okD(5) [OF assms(1)] by (force simp: server_ok_def)
  have "session_ok p st'"
  proof (rule session_okI)
    show "task_ok p (ss_tasks st' ! u)" if "u < length (ss_tasks st')" for u
      using that session_okD(1) [OF assms(1)] assms(2-5)
      by (auto simp: fields nth task_ok_def stage_ok_def accepted_def)
    show "claims_ok st'" using session_okD(2) [OF assms(1)] by (simp add: claims_ok_def held fields)
    show "pending_ok p st'" using session_okD(3) [OF assms(1)] by (simp add: pending_ok_def keyed fields)
    show "relay_ok p st'" using session_okD(6) [OF assms(1)] by (simp add: relay_ok_def fields)
    show "server_ok p st'"
      using session_okD(5) [OF assms(1)] by (fastforce simp: server_ok_def fields nth)
    show "outputs_ok p st'"
      unfolding outputs_ok_def
    proof (intro conjI allI impI)
      fix u
      show "answers st' u \<le> (if u < length (ss_tasks st') \<and> finished (tk_stage (ss_tasks st' ! u)) then 1 else 0)"
        using answers_bound [OF ok, of u] assms(4) by (auto simp: answers fields nth split: if_splits)
    next
      fix u m
      assume m: "FromTask u m \<in> set (ss_client st')"
      then have "u < ?n" using no_answer(2) [OF ok] unfolding fields by blast
      with m show "map_of m ''id'' = Some (line_id (px_wire p) (tk_line (ss_tasks st' ! u)))"
        using ok by (simp add: outputs_ok_def fields nth)
    next
      fix u
      assume u: "u < length (ss_tasks st')" "tk_stage (ss_tasks st' ! u) = Ended"
        "is_request (px_wire p) (tk_line (ss_tasks st' ! u))"
      then have "u < ?n" using assms(4) by (auto simp: fields nth split: if_splits)
      with u ok show "answers st' u = 1" by (simp add: outputs_ok_def fields nth answers)
    qed
  qed
  then show "running p PhStart ?n (st\<lparr>ss_tasks := ss_tasks st @ [k]\<rparr>)"
    using assms(4,5) by (simp add: running_def accepted_def st'_def)
  show "?n \<notin> fst ` set (ss_server st)" by (rule unsent)
qed

text \<open>Writes to the client that no task makes, and the payload that answers a batch.\<close>

lemma to_client_ok:
  assumes "session_ok p st" "\<And>u. \<not> from_task u out" "\<And>l. out = Relayed l \<Longrightarrow> \<not> internal_response p l"
  shows "session_ok p (to_client out st)"
proof -
  have "FromTask u m \<noteq> out" for u m using assms(2) [of u] by auto
  moreover have "Relayed l = out \<Longrightarrow> \<not> internal_response p l" for l using assms(3) by blast
  ultimately show ?thesis
    using assms(1,2) unfolding session_ok_def inv_defs to_client_def by simp
qed

lemma leave_to_client: "leave t how None (to_client out st) = to_client out (leave t how None st)"
  by (simp add: leave_def to_client_def task_update_def split: option.split)

lemma payload_answer_ok:
  assumes "session_ok p st" "t < length (ss_tasks st)" "tk_stage (ss_tasks st ! t) = Ended"
    "answers st t = 0" "\<not> is_request (px_wire p) (tk_line (ss_tasks st ! t))"
  shows "session_ok p (to_client (BytesFromTask t b) st)"
proof (rule session_okI)
  let ?st = "to_client (BytesFromTask t b) st"
  have answers: "answers ?st u = answers st u + (if u = t then 1 else 0)" for u
    by (simp add: answers_def to_client_def)
  have fields: "ss_tasks ?st = ss_tasks st" by (simp add: to_client_def)
  note ok = session_okD(4) [OF assms(1)]
  show "task_ok p (ss_tasks ?st ! u)" if "u < length (ss_tasks ?st)" for u
    using that session_okD(1) [OF assms(1)] by (simp add: fields)
  show "claims_ok ?st" "pending_ok p ?st" "server_ok p ?st" "relay_ok p ?st"
    using session_okD(2,3,5,6) [OF assms(1)] by (simp_all add: inv_defs to_client_def)
  show "outputs_ok p ?st"
    unfolding outputs_ok_def fields answers
  proof (intro conjI allI impI)
    fix u
    show "answers st u + (if u = t then 1 else 0) \<le>
        (if u < length (ss_tasks st) \<and> finished (tk_stage (ss_tasks st ! u)) then 1 else 0)"
      using answers_bound [OF ok, of u] assms(2-4) by (auto split: if_splits)
  qed (use ok assms(5) in \<open>auto simp: outputs_ok_def to_client_def\<close>)
qed

text \<open>The answers a line gets at once.\<close>

lemma answer_verdict_simps [simp]:
  "answer_verdict a = Answer m \<longleftrightarrow> a = Some m" "answer_verdict a = Nothing \<longleftrightarrow> a = None"
  "answer_verdict a \<noteq> AnswerBytes b" "answer_verdict a \<noteq> Crash e" "answer_verdict a \<noteq> Pass m"
  "answer_verdict a \<noteq> Call m name arguments cost"
  by (auto simp: answer_verdict_def split: option.splits)

lemma undecoded_cases:
  "undecoded_line W l \<in> {Nothing, Answer (parse_error_response ''invalid JSON-RPC message'')} \<union>
     range AnswerBytes \<union> range Crash"
  by (auto simp: undecoded_line_def split: sum.splits option.splits bool.splits)

lemma message_verdicts:
  "classify_message m = Answer a \<Longrightarrow> \<exists>n msg. error_answer m n msg = Some a"
  "classify_message m = Nothing \<Longrightarrow> \<exists>n msg. error_answer m n msg = None"
  "classify_message m \<noteq> AnswerBytes b" "classify_message m \<noteq> Crash e"
  by (auto simp: classify_message_def tool_request_def Let_def split: pyval.splits option.splits sum.splits if_splits)

lemma line_verdicts:
  "classify_line W l = Answer a \<Longrightarrow> map_of a ''id'' = Some (line_id W l)"
  "classify_line W l = Nothing \<Longrightarrow> \<not> is_request W l"
  "classify_line W l = AnswerBytes b \<Longrightarrow> \<not> is_request W l"
proof -
  have error: "map_of a ''id'' = Some (dict_get m ''id'' PNone)" if "error_answer m n msg = Some a" for m n msg a
    using error_answers_ok(1) [of m n msg] that by (simp add: answer_ok_def)
  have none: "\<not> expects_reply m" if "error_answer m n msg = None" for m n msg
    using error_answers_ok(1) [of m n msg] that by (auto simp: answer_ok_def)
  show "classify_line W l = Answer a \<Longrightarrow> map_of a ''id'' = Some (line_id W l)"
    using undecoded_cases [of W l] error message_verdicts(1)
    by (fastforce simp: classify_line_def line_id_def parse_error_response_def error_response_def
        split: sum.splits option.splits)
  show "classify_line W l = Nothing \<Longrightarrow> \<not> is_request W l"
    using none message_verdicts(2) by (fastforce simp: classify_line_def is_request_def split: sum.splits option.splits)
  show "classify_line W l = AnswerBytes b \<Longrightarrow> \<not> is_request W l"
    using message_verdicts(3) by (auto simp: classify_line_def is_request_def split: sum.splits option.splits)
qed

lemma client_line_ok:
  assumes "session_ok p st"
  shows "session_ok p (client_line_step p l new_id ac ac_end st)"
proof -
  let ?W = "px_wire p" and ?t = "length (ss_tasks st)"
  define k where "k = \<lparr>tk_line = l, tk_message = verdict_message (classify_line ?W l), tk_claim = None,
    tk_stage = Running, tk_effects = []\<rparr>"
  define st0 where "st0 = st\<lparr>ss_tasks := ss_tasks st @ [k]\<rparr>"
  have run: "running p PhStart ?t st0" and unsent: "?t \<notin> fst ` set (ss_server st0)"
    using new_task_running [OF assms, of k] by (simp_all add: k_def st0_def)
  have task: "ss_tasks st0 ! ?t = k" by (simp add: st0_def)
  have step: "client_line_step p l new_id ac ac_end st =
      (case classify_line ?W l of
         Nothing \<Rightarrow> leave ?t Ended None st0
       | Answer m \<Rightarrow> leave ?t Ended (Some m) st0
       | AnswerBytes b \<Rightarrow> leave ?t Ended None (to_client (BytesFromTask ?t b) st0)
       | Crash e \<Rightarrow> leave ?t (Escaped e) None st0
       | Pass m \<Rightarrow> begin_pass p ?t ac_end st0
       | Call m name arguments cost \<Rightarrow> begin_call p ?t new_id name arguments cost ac ac_end st0)"
    unfolding client_line_step_def k_def st0_def Let_def by (rule refl)
  have ended: "session_ok p (leave ?t Ended None st0)" if "\<not> is_request ?W l"
    using that by (intro leave_ok [OF run]) (simp_all add: task k_def)
  show ?thesis
  proof (cases "classify_line ?W l")
    case Nothing
    then show ?thesis using ended line_verdicts(2) step by simp
  next
    case (Answer m)
    then show ?thesis
      using line_verdicts(1) [OF Answer] step by (simp, intro leave_ok [OF run]) (simp_all add: task k_def)
  next
    case (AnswerBytes b)
    have t: "?t < length (ss_tasks st0)" by (simp add: st0_def)
    have not: "\<not> is_request ?W l" by (rule line_verdicts(3) [OF AnswerBytes])
    have "answers (leave ?t Ended None st0) ?t = 0"
      using no_answer(1) [OF session_okD(4) [OF runningD(1) [OF run]], of ?t] runningD(3) [OF run]
      by (simp add: answers_leave)
    then have "session_ok p (to_client (BytesFromTask ?t b) (leave ?t Ended None st0))"
      using t not by (intro payload_answer_ok ended) (simp_all add: leave_nth task k_def)
    then show ?thesis using AnswerBytes step by (simp add: leave_to_client)
  next
    case (Crash e)
    then show ?thesis using step by (simp, intro leave_ok [OF run]) simp_all
  next
    case (Pass m)
    then have "is_pass ?W (ss_tasks st0 ! ?t)" by (simp add: task k_def is_pass_def)
    then show ?thesis using Pass step begin_pass_ok [OF run _ unsent] by (simp add: task k_def)
  next
    case (Call m name arguments cost)
    then have "is_call ?W (ss_tasks st0 ! ?t)" by (simp add: task k_def is_call_def)
    then show ?thesis using Call step begin_call_ok [OF run _ unsent] by (simp add: task k_def)
  qed
qed

section \<open>Every event\<close>

text \<open>A task goes on after a wait.\<close>

lemma resume_asking:
  assumes "session_ok p st" "t < length (ss_tasks st)" "tk_stage (ss_tasks st ! t) = Asking c d"
  shows "ready p (PhAsked d) t (resume t st)" "is_call (px_wire p) (ss_tasks (resume t st) ! t)"
proof -
  have k: "is_call (px_wire p) (ss_tasks st ! t)" "accepted p (PhAsked d) (ss_tasks st ! t)"
    "claimed (ss_tasks st ! t)"
    using task_okD(3) [OF assms(1,2)] assms(3) by (simp_all add: stage_ok_def)
  have unsent: "t \<notin> fst ` set (ss_server st)"
    using session_okD(5) [OF assms(1)] assms(3) by (force simp: server_ok_def)
  have "session_ok p (resume t st)"
  proof (rule session_ok_stage [OF assms(1,2), of Running])
    show "pending_ok p (resume t st)"
      by (rule pending_unkeyed [OF session_okD(3) [OF assms(1)] assms(2), of Running])
        (simp_all add: assms(3) resume_def task_update_def)
  qed (use assms(3) in \<open>simp_all add: stage_ok_def resume_def task_update_def\<close>)
  then show "ready p (PhAsked d) t (resume t st)" "is_call (px_wire p) (ss_tasks (resume t st) ! t)"
    using k unsent assms(2) by (simp_all add: ready_def running_def resume_def)
qed

lemma end_exchange_ok:
  assumes "session_ok p st" "t < length (ss_tasks st)" "tk_stage (ss_tasks st ! t) = Exchanging pu l key x"
    "outcome_ok (message_of st t) out"
  shows "session_ok p (end_exchange p t ac pu key out st)"
proof -
  let ?k = "ss_tasks st ! t"
  define st' where "st' = resume t (case key of None \<Rightarrow> st
    | Some k \<Rightarrow> st\<lparr>ss_pending := (ss_pending st)(k := None)\<rparr>)"
  have tasks: "ss_tasks st' = (ss_tasks st)[t := ?k\<lparr>tk_stage := Running\<rparr>]"
    by (simp add: st'_def resume_def task_update_def split: option.split)
  have ok: "session_ok p st'"
  proof (rule session_ok_stage [OF assms(1,2) _ _ tasks])
    show "pending_ok p st'"
    proof (cases key)
      case None
      then show ?thesis
        by (intro pending_unkeyed [OF session_okD(3) [OF assms(1)] assms(2) _ tasks])
          (simp_all add: assms(3) st'_def resume_def)
    next
      case (Some k)
      then show ?thesis
        by (intro pending_drop_key [OF session_okD(3) [OF assms(1)] assms(2) _ tasks, of k])
          (simp_all add: assms(3) st'_def resume_def)
    qed
  qed (simp_all add: assms(3) stage_ok_def st'_def resume_def split: option.split)
  have k: "purpose_ok p ?k pu" using task_okD(3) [OF assms(1,2)] assms(3) by (simp add: stage_ok_def)
  obtain ph where "accepted p ph ?k" using task_okD(2) [OF assms(1,2)] by blast
  then have "running p ph t st'" using ok assms(2) by (simp add: running_def tasks)
  moreover have "purpose_ok p (ss_tasks st' ! t) pu" "message_of st' t = message_of st t"
    using k assms(2) by (simp_all add: tasks message_of_def)
  ultimately show ?thesis
    using finish_exchange_ok assms(4) unfolding end_exchange_def st'_def [symmetric] by metis
qed

lemma set_exchange_stage_ok:
  assumes "session_ok p st" "t < length (ss_tasks st)" "tk_stage (ss_tasks st ! t) = Exchanging pu l key y" "x \<noteq> Queued"
  shows "session_ok p (set_exchange_stage t x st)"
proof -
  have tasks: "ss_tasks (set_exchange_stage t x st) =
      (ss_tasks st)[t := (ss_tasks st ! t)\<lparr>tk_stage := Exchanging pu l key x\<rparr>]"
    using assms(3) by (simp add: set_exchange_stage_def task_update_def)
  show ?thesis
  proof (rule session_ok_stage [OF assms(1,2) _ _ tasks])
    show "pending_ok p (set_exchange_stage t x st)"
      by (rule pending_unkeyed [OF session_okD(3) [OF assms(1)] assms(2) _ tasks])
        (simp_all add: assms(3) set_exchange_stage_def)
    show "stage_ok p ((ss_tasks st ! t)\<lparr>tk_stage := Exchanging pu l key x\<rparr>)"
      using task_okD(3) [OF assms(1,2)] assms(3) by (simp add: stage_ok_def)
  qed (use assms(3,4) in \<open>simp_all add: set_exchange_stage_def\<close>)
qed

text \<open>A line is handed to the server: once per task, of a message passed on or of a call whose operation
  runs.\<close>

lemma write_begins_ok:
  assumes "session_ok p st" "t < length (ss_tasks st)"
  shows "session_ok p (write_begins t st)"
proof (cases "\<exists>pu l key. tk_stage (ss_tasks st ! t) = Exchanging pu l key Queued")
  case False
  then have "write_begins t st = st"
    by (auto simp: write_begins_def split: stage.splits exchange_stage.splits)
  with assms(1) show ?thesis by simp
next
  case True
  then obtain pu l key where x: "tk_stage (ss_tasks st ! t) = Exchanging pu l key Queued" by blast
  have k: "purpose_ok p (ss_tasks st ! t) pu" "payload_ok p (ss_tasks st ! t) l key"
    using task_okD(3) [OF assms] x by (simp_all add: stage_ok_def)
  have sent: "sent_ok p (ss_tasks st ! t) l"
    using k accepts_run_trace [of "audited (px_firewall p)" "tk_effects (ss_tasks st ! t)" PhRan] run_trace_ran
    by (cases pu) (auto simp: sent_ok_def purpose_ok_def accepted_def ran_def)
  have unsent: "t \<notin> fst ` set (ss_server st)"
    using session_okD(5) [OF assms(1)] x by (force simp: server_ok_def)
  have moved: "session_ok p (set_exchange_stage t Draining st)"
    by (rule set_exchange_stage_ok [OF assms x]) simp
  define st' where "st' = set_exchange_stage t Draining (st\<lparr>ss_server := ss_server st @ [(t, l)]\<rparr>)"
  define st1 where "st1 = set_exchange_stage t Draining st"
  have fields: "ss_tasks st' = ss_tasks st1" "ss_claims st' = ss_claims st1" "ss_pending st' = ss_pending st1"
    "ss_sequence st' = ss_sequence st1" "ss_client st' = ss_client st1" "ss_server st' = ss_server st1 @ [(t, l)]"
    "ss_server st1 = ss_server st"
    by (simp_all add: st'_def st1_def set_exchange_stage_def task_update_def)
  have t: "ss_tasks st1 ! t = (ss_tasks st ! t)\<lparr>tk_stage := Exchanging pu l key Draining\<rparr>"
    "t < length (ss_tasks st1)"
    using assms(2) x by (simp_all add: st1_def set_exchange_stage_def)
  have "server_ok p st'"
    using session_okD(5) [OF moved, folded st1_def] unsent sent t by (auto simp: server_ok_def fields)
  moreover have "claims_ok st'" "pending_ok p st'" "outputs_ok p st'" "relay_ok p st'"
    using session_okD(2-4,6) [OF moved, folded st1_def] by (simp_all add: inv_defs fields)
  ultimately have "session_ok p st'"
    using session_okD(1) [OF moved, folded st1_def] by (intro session_okI) (simp_all add: fields)
  then show ?thesis
    using assms(1) moved x by (simp add: write_begins_def st'_def)
qed

lemma server_line_ok:
  assumes "session_ok p st"
  shows "session_ok p (server_line p l st)"
proof -
  have relay: "session_ok p (to_client (Relayed l) st)" if "\<not> internal_response p l"
    using that assms by (intro to_client_ok) simp_all
  have set_result: "session_ok p (st\<lparr>ss_pending := (ss_pending st)(request_key i \<mapsto> Result m)\<rparr>)"
    if "ss_pending st (request_key i) = Some Unset" "map_of m ''id'' = Some i" for i m
  proof -
    let ?st = "st\<lparr>ss_pending := (ss_pending st)(request_key i \<mapsto> Result m)\<rparr>"
    have dom: "ss_pending ?st key \<noteq> None \<longleftrightarrow> ss_pending st key \<noteq> None" for key using that(1) by simp
    have "keyed ?st u key = keyed st u key" for u key by (simp add: keyed_def)
    then have "pending_ok p ?st"
      using session_okD(3) [OF assms] that(2) unfolding pending_ok_def dom by auto
    then show ?thesis
      using session_okD(1,2,4-6) [OF assms] by (simp add: session_ok_def inv_defs)
  qed
  show ?thesis
    using assms relay set_result
    by (auto simp: server_line_def internal_response_def split: sum.split option.split pyval.split bool.split)
qed

lemma server_ends_ok: "session_ok p st \<Longrightarrow> session_ok p (server_ends st)"
proof -
  assume ok: "session_ok p st"
  let ?st = "server_ends st"
  have tasks: "ss_tasks ?st = ss_tasks st" "ss_sequence ?st = ss_sequence st" by (simp_all add: server_ends_def)
  have dom: "ss_pending ?st key \<noteq> None \<longleftrightarrow> ss_pending st key \<noteq> None" for key by (simp add: server_ends_def)
  have result: "ss_pending ?st key = Some (Result r) \<Longrightarrow> ss_pending st key = Some (Result r)" for key r
    by (auto simp: server_ends_def split: if_splits)
  have "pending_ok p ?st"
    using session_okD(3) [OF ok] result unfolding pending_ok_def keyed_def dom tasks by blast
  then show ?thesis
    using session_okD(1,2,4-6) [OF ok] by (simp add: session_ok_def inv_defs server_ends_def)
qed

lemma approver_replies_ok:
  assumes "session_ok p st" "t < length (ss_tasks st)"
  shows "session_ok p (approver_replies p t reply ac ac_end st)"
proof (cases "\<exists>c d. tk_stage (ss_tasks st ! t) = Asking c d")
  case False
  then have "approver_replies p t reply ac ac_end st = st"
    by (auto simp: approver_replies_def split: stage.splits)
  with assms(1) show ?thesis by simp
next
  case True
  then obtain c d where x: "tk_stage (ss_tasks st ! t) = Asking c d" by blast
  note ready = resume_asking [OF assms x]
  show ?thesis
  proof (cases reply)
    case (Inl n)
    then show ?thesis
      using x fail_call_ok [OF readyD(1) [OF ready(1)] ready(2)] by (simp add: approver_replies_def)
  next
    case (Inr approved)
    obtain r st1 where run: "in_world t (finish_approval (px_firewall p) ac c d approved) (resume t st) = (r, st1)"
      by fastforce
    obtain ph es s l where st1: "running p ph t st1"
      "st1 = task_update t (\<lambda>k. k\<lparr>tk_effects := es\<rparr>) ((resume t st)\<lparr>ss_store := s, ss_log := l\<rparr>)"
      "\<And>u. r = Inr u \<Longrightarrow> ph = PhCleared"
      by (rule running_in_world [OF readyD(1) [OF ready(1)] run finish_approval_moves_any])
         (auto simp: ran_def)
    note ready1 = ready_frame [OF ready(1) st1(2,1)]
    show ?thesis
      using x Inr run st1(3) ready1(1,3) ready(2) fail_call_ok [OF st1(1)] run_call_ok [of p t st1]
      by (cases r) (auto simp: approver_replies_def)
  qed
qed

lemma exchange_event_ok:
  assumes "session_ok p st" "t < length (ss_tasks st)"
  shows "session_ok p (write_drained p t ac st)" "session_ok p (write_fails p t n ac st)"
    "session_ok p (write_times_out t st)" "session_ok p (abort_done p t ac st)"
    "session_ok p (deadline_passes p t ac st)" "session_ok p (reply_ready p t ac st)"
proof -
  note over = end_exchange_ok [OF assms]
  note stage = set_exchange_stage_ok [OF assms]
  have plain: "outcome_ok m TimedOut" "outcome_ok m ChildUnavailable" "outcome_ok m (OtherError n)" for m n
    by (simp_all add: outcome_ok_def)
  have raw: "outcome_ok (message_of st t) (Replied None)"
    if "tk_stage (ss_tasks st ! t) = Exchanging pu l None x" for pu l x
    using task_okD(3) [OF assms] that by (simp add: stage_ok_def payload_ok_def outcome_ok_def message_of_def)
  show "session_ok p (write_drained p t ac st)"
    using assms(1) over [OF _ raw] stage
    by (auto simp: write_drained_def split: stage.split exchange_stage.split option.split)
  show "session_ok p (write_fails p t n ac st)"
    using assms(1) over [OF _ plain(3)]
    by (auto simp: write_fails_def split: stage.split exchange_stage.split)
  have "session_ok p (set_exchange_stage t Aborting (st\<lparr>ss_failure := True\<rparr>))"
    if "tk_stage (ss_tasks st ! t) = Exchanging pu l key x" for pu l key x
    using set_exchange_stage_ok [of p "st\<lparr>ss_failure := True\<rparr>" t pu l key x Aborting] that assms by simp
  then show "session_ok p (write_times_out t st)"
    using assms(1) by (auto simp: write_times_out_def split: stage.split)
  show "session_ok p (abort_done p t ac st)" "session_ok p (deadline_passes p t ac st)"
    using assms(1) over [OF _ plain(1)]
    by (auto simp: abort_done_def deadline_passes_def split: stage.split exchange_stage.split)
  show "session_ok p (reply_ready p t ac st)"
    using assms(1) over [OF _ plain(2)] over [OF _ reply_outcome_ok]
    by (auto simp: reply_ready_def split: stage.split exchange_stage.split option.split future.split)
qed

lemma proxy_step_ok:
  assumes "session_ok p st"
  shows "session_ok p (proxy_step p ev st)"
proof (cases "event_task ev")
  case None
  have "session_ok p (to_client (FromLoop m) st)" for m by (rule to_client_ok [OF assms]) simp_all
  then show ?thesis
    using None assms client_line_ok server_line_ok server_ends_ok
    by (cases ev) (auto simp: proxy_step_def other_processes_def)
next
  case (Some t)
  then show ?thesis
    using assms approver_replies_ok exchange_event_ok write_begins_ok
    by (cases ev) (auto simp: proxy_step_def)
qed

lemma reachable_ok: "reachable p st \<Longrightarrow> session_ok p st"
proof (induction rule: reachable.induct)
  case (new s)
  show ?case by (simp add: session_ok_def inv_defs new_session_def)
next
  case (step st ev)
  then show ?case by (intro proxy_step_ok)
qed

end
