(* ===== verification/ProxyProperties.thy ===== *)
theory ProxyProperties
  imports ProxyInvariants
begin

text \<open>
  What the proxy promises, for every order and timing of the events: nothing reaches the server that
  the firewall did not clear, ids in flight differ, every request is answered once and under its id,
  the server's replies reach the request they belong to, and a session can always come to rest.
\<close>

section \<open>A session\<close>

text \<open>A client asks to deploy, which needs approval; the approver consents, and the call is sent.\<close>

definition demo_wire :: wire where
  "demo_wire = \<lparr>wr_room = 9, wr_float = (\<lambda>r. r), wr_other = (\<lambda>_ _. Inl JsMalformed)\<rparr>"

definition demo_message :: pydict where
  "demo_message =
     [(''id'', PInt 1), (''method'', PStr ''tools/call''), (''params'', PDict [(''name'', PStr ''deploy'')])]"

definition demo_line :: string where
  "demo_line = (case encode_message demo_wire demo_message of Inr l \<Rightarrow> l | Inl e \<Rightarrow> [])"

definition demo_proxy :: "(unit, usage) proxy" where
  "demo_proxy =
     \<lparr>px_firewall = memory_firewall sample_policy None, px_wire = demo_wire, px_approver = True,
      px_hint = None, px_prefix = ''fw:''\<rparr>"

definition demo_session :: "usage session" where
  "demo_session = run_session demo_proxy
     [ClientLine demo_line ''c2'' (calm ()) (calm ()), ApproverReplies 0 (Inr True) (calm ()) (calm ()),
      WriteBegins 0] (new_session empty_usage)"

lemma demo_decoded: "decode_message demo_wire demo_line = Inr (Some demo_message)"
proof -
  have "readable (rpc_reader demo_wire) (PDict demo_message)"
    by (simp add: demo_message_def demo_wire_def rpc_reader_def rpc_reject_duplicates_Inr dict_wf_def nat_text_numeral)
  from message_reads_back [OF this] show ?thesis
    by (auto simp: demo_message_def demo_wire_def demo_line_def)
qed

lemma demo_classified: "classify_line demo_wire demo_line = Call demo_message ''deploy'' [] (DFin False 0 0)"
  by (simp add: classify_line_def demo_decoded)
     (simp add: demo_message_def evals)

text \<open>The line that is sent, and the session by then.\<close>

definition demo_payload :: string where
  "demo_payload =
     (case encode_message demo_wire (dict_set demo_message ''id'' (PStr ''fw:1'')) of Inr l \<Rightarrow> l | Inl e \<Rightarrow> [])"

lemma demo_encoded:
  "encode_message demo_wire
     [(''id'', PStr ''fw:1''), (''method'', PStr ''tools/call''), (''params'', PDict [(''name'', PStr ''deploy'')])] =
   Inr demo_payload"
  by (simp add: demo_payload_def demo_message_def encode_message_def demo_wire_def)

definition demo_decision :: decision where
  "demo_decision = \<lparr>d_kind = REQUIRE_APPROVAL, d_reason = ''a human signs off'', d_code = ''rule_match'',
     d_rule_index = Some 1\<rparr>"

definition demo_task :: "exchange_stage \<Rightarrow> task" where
  "demo_task x =
     \<lparr>tk_line = demo_line, tk_message = demo_message, tk_claim = Some (request_key (PInt 1)),
      tk_stage = Exchanging (Calling deploy_call demo_decision) demo_payload
        (Some (internal_key demo_proxy 1)) x,
      tk_effects = [EReserved False demo_decision, EApproverAsked, EReserved True demo_decision, EToolRan]\<rparr>"

definition demo_end :: "usage session" where
  "demo_end = run_session demo_proxy [WriteDrained 0 (calm ()), DeadlinePasses 0 (calm ())] demo_session"

lemma demo_reachable: "reachable demo_proxy demo_session" "reachable demo_proxy demo_end"
  unfolding demo_end_def demo_session_def by (intro reachable_run reachable.new)+

lemma demo_session_state:
  "ss_tasks demo_session = [demo_task Draining] \<and> ss_claims demo_session = [request_key (PInt 1)] \<and>
   ss_pending demo_session = [internal_key demo_proxy 1 \<mapsto> Unset] \<and> ss_server demo_session = [(0, demo_payload)] \<and>
   ss_client demo_session = []"
  apply (simp add: demo_session_def run_session_def proxy_step_def client_line_step_def demo_proxy_def
      demo_classified new_session_def demo_task_def demo_decision_def)
  apply (simp add: evals run_simps demo_message_def demo_encoded del: encode_message_def)
  done

lemma demo_end_state:
  "length (ss_tasks demo_end) = 1 \<and> tk_stage (ss_tasks demo_end ! 0) = Ended \<and>
   tk_line (ss_tasks demo_end ! 0) = demo_line"
  by (simp add: demo_end_def run_session_def demo_session_state demo_task_def proxy_step_def
      write_drained_def deadline_passes_def end_exchange_def finish_exchange_def set_exchange_stage_def
      demo_proxy_def evals)

lemma demo_request:
  "is_request demo_wire demo_line" "line_id demo_wire demo_line = PInt 1"
  by (simp_all add: is_request_def line_id_def demo_decoded)
     (simp_all add: demo_message_def expects_reply_def dict_get_def)

lemma demo_proxy_simps [simp]: "px_wire demo_proxy = demo_wire" "audited (px_firewall demo_proxy) = False"
  by (simp_all add: demo_proxy_def memory_firewall_def audited_def)

section \<open>Mediation\<close>

lemma pass_method:
  assumes "classify_line W l = Pass m" "map_of m ''method'' = Some (PStr s)"
  shows "s \<noteq> ''tools/call'' \<and> \<not> call_like_method s"
  using assms undecoded_cases [of W l]
  by (auto simp: classify_line_def classify_message_def tool_request_def dict_get_def dict_has_def Let_def
      split: sum.splits option.splits pyval.splits if_splits)

lemma ran_traced:
  assumes "task_ok p k" "EToolRan \<in> set (tk_effects k)"
  shows "run_trace (audited (px_firewall p)) (tk_effects k)"
proof -
  obtain ph where "accepts (audited (px_firewall p)) PhStart (tk_effects k) = Some ph"
    using assms(1) by (auto simp: task_ok_def accepted_def)
  then show ?thesis using assms(2) accepts_not_ran accepts_run_trace by blast
qed

text \<open>C2: no call reaches the server unmediated. Each handler hands at most one line to the server: the
  client's line as it came, or its message under an id of the proxy. If that message calls a tool, the
  handler's firewall effects are those of a call that was decided, approved where the policy says so,
  and audited, before the operation ran; and if it has another method, it is not a spelling of
  \<open>tools/call\<close> that a lenient server might accept.\<close>

theorem server_lines_mediated:
  assumes "reachable p st" "(t, l) \<in> set (ss_server st)"
  shows "\<exists>m. decode_message (px_wire p) (tk_line (ss_tasks st ! t)) = Inr (Some m) \<and>
    (l = tk_line (ss_tasks st ! t) \<or>
     (\<exists>n. encode_message (px_wire p) (dict_set m ''id'' (PStr (internal_id p n))) = Inr l)) \<and>
    (map_of m ''method'' = Some (PStr ''tools/call'') \<longrightarrow>
       run_trace (audited (px_firewall p)) (tk_effects (ss_tasks st ! t))) \<and>
    (\<forall>s. map_of m ''method'' = Some (PStr s) \<longrightarrow> s \<noteq> ''tools/call'' \<longrightarrow> \<not> call_like_method s) \<and>
    (\<forall>l'. (t, l') \<in> set (ss_server st) \<longrightarrow> l' = l)"
proof -
  let ?k = "ss_tasks st ! t"
  note ok = reachable_ok [OF assms(1)]
  have t: "t < length (ss_tasks st)" and sent: "sent_ok p ?k l" and once: "distinct (map fst (ss_server st))"
    using session_okD(5) [OF ok] assms(2) by (auto simp: server_ok_def)
  have kind: "is_call (px_wire p) ?k \<or> is_pass (px_wire p) ?k" using sent by (auto simp: sent_ok_def)
  have payload: "l = tk_line ?k \<or>
      (\<exists>n. encode_message (px_wire p) (dict_set (tk_message ?k) ''id'' (PStr (internal_id p n))) = Inr l)"
    using sent by (auto simp: sent_ok_def payload_ok_def split: option.splits)
  have pass: "s \<noteq> ''tools/call'' \<and> \<not> call_like_method s"
    if "is_pass (px_wire p) ?k" "map_of (tk_message ?k) ''method'' = Some (PStr s)" for s
    using pass_method that unfolding is_pass_def by blast
  have call: "map_of (tk_message ?k) ''method'' = Some (PStr ''tools/call'')" if "is_call (px_wire p) ?k"
    using call_has_method that unfolding is_call_def by blast
  have traced: "run_trace (audited (px_firewall p)) (tk_effects ?k)" if "\<not> is_pass (px_wire p) ?k"
    using ran_traced [OF session_okD(1) [OF ok t]] sent that by (simp add: sent_ok_def)
  have "\<forall>l'. (t, l') \<in> set (ss_server st) \<longrightarrow> l' = l"
    using eq_key_imp_eq_value [OF once _ assms(2)] by blast
  then show ?thesis
    using message_decoded [OF kind] payload pass call traced kind
    by (intro exI [of _ "tk_message ?k"]) auto
qed

lemma server_lines_mediated_witness:
  "\<exists>l. (0, l) \<in> set (ss_server demo_session) \<and> run_trace False (tk_effects (ss_tasks demo_session ! 0))"
proof -
  obtain l where l: "(0, l) \<in> set (ss_server demo_session)" using demo_session_state by auto
  have "map_of demo_message ''method'' = Some (PStr ''tools/call'')" by (simp add: demo_message_def)
  then show ?thesis
    using server_lines_mediated [OF demo_reachable(1) l] l demo_session_state demo_decoded by (auto simp: demo_task_def)
qed

section \<open>Handlers that wait\<close>

fun waiting :: "stage \<Rightarrow> bool" where
  "waiting (Asking c d) = True"
| "waiting (Exchanging pu l key x) = True"
| "waiting s = False"

lemma waiting_claim:
  assumes "session_ok p st" "t < length (ss_tasks st)" "waiting (tk_stage (ss_tasks st ! t))"
    "is_request (px_wire p) (tk_line (ss_tasks st ! t))"
  shows "tk_claim (ss_tasks st ! t) = Some (request_key (line_id (px_wire p) (tk_line (ss_tasks st ! t))))"
proof -
  let ?k = "ss_tasks st ! t"
  have kind: "is_call (px_wire p) ?k \<or> is_pass (px_wire p) ?k" and claimed: "claimed ?k"
    using task_okD(3) [OF assms(1,2)] assms(3)
    by (auto simp: stage_ok_def purpose_ok_def split: stage.splits purpose.splits)
  have reply: "expects_reply (tk_message ?k)" using message_id(2) [OF kind] assms(4) by simp
  then obtain i where "map_of (tk_message ?k) ''id'' = Some i" by (auto simp: expects_reply_def dict_has_def)
  with reply claimed message_id(1) [OF kind] show ?thesis by (simp add: claimed_def dict_get_def)
qed

section \<open>Answers\<close>

text \<open>C6: every request is answered once. A handler writes at most one answer, and one only after it
  stopped waiting; each message it writes carries the id of the line it handles, or null when the line
  is no message; and when a handler has returned, a line with a method and an id has been answered.\<close>

theorem requests_answered_once:
  assumes "reachable p st" "t < length (ss_tasks st)"
  shows "answers st t \<le> (if waiting (tk_stage (ss_tasks st ! t)) then 0 else 1) \<and>
    (\<forall>m. FromTask t m \<in> set (ss_client st) \<longrightarrow>
       map_of m ''id'' = Some (line_id (px_wire p) (tk_line (ss_tasks st ! t)))) \<and>
    (tk_stage (ss_tasks st ! t) = Ended \<longrightarrow> is_request (px_wire p) (tk_line (ss_tasks st ! t)) \<longrightarrow>
       answers st t = 1)"
proof -
  have ok: "outputs_ok p st" by (rule session_okD(4) [OF reachable_ok [OF assms(1)]])
  have "answers st t \<le> (if waiting (tk_stage (ss_tasks st ! t)) then 0 else 1)"
    using answers_bound [OF ok, of t] by (cases "tk_stage (ss_tasks st ! t)") (auto split: if_splits)
  then show ?thesis using ok assms(2) by (simp add: outputs_ok_def)
qed

lemma requests_answered_once_witness: "answers demo_end 0 = 1"
  using requests_answered_once [OF demo_reachable(2), of 0] demo_end_state demo_request(1) by simp

section \<open>Replies\<close>

text \<open>C7: replies reach the request they belong to. A reply of the server that is kept for a request is
  kept under the id the proxy made for it, one handler waits under that id, and every id under which a
  handler waits is one the proxy has made; a response to an id of the proxy that nothing waits for is
  never passed to the client.\<close>

theorem replies_routed:
  assumes "reachable p st"
  shows "(\<forall>key r. ss_pending st key = Some (Result r) \<longrightarrow>
      (\<exists>n \<le> ss_sequence st. key = internal_key p n) \<and> (\<exists>i. map_of r ''id'' = Some i \<and> request_key i = key)) \<and>
    (\<forall>key. ss_pending st key \<noteq> None \<longleftrightarrow>
      (\<exists>!t. t < length (ss_tasks st) \<and> exchange_key (tk_stage (ss_tasks st ! t)) = Some key)) \<and>
    (\<forall>t < length (ss_tasks st). \<forall>key. exchange_key (tk_stage (ss_tasks st ! t)) = Some key \<longrightarrow>
      (\<exists>n \<le> ss_sequence st. key = internal_key p n)) \<and>
    (\<forall>l. Relayed l \<in> set (ss_client st) \<longrightarrow> \<not> internal_response p l)"
proof -
  note ok = reachable_ok [OF assms]
  have one: "ss_pending st key \<noteq> None \<longleftrightarrow> (\<exists>!t. keyed st t key)" for key
    using session_okD(3) [OF ok] unfolding pending_ok_def by metis
  have kept: "(\<exists>n \<le> ss_sequence st. key = internal_key p n) \<and> (\<exists>i. map_of r ''id'' = Some i \<and> request_key i = key)"
    if "ss_pending st key = Some (Result r)" for key r
    using session_okD(3) [OF ok] that unfolding pending_ok_def by (metis option.distinct(1))
  have made: "\<exists>n \<le> ss_sequence st. key = internal_key p n" if "keyed st t key" for t key
    using session_okD(3) [OF ok] that unfolding pending_ok_def by blast
  show ?thesis
    using one kept made session_okD(6) [OF ok] unfolding keyed_def relay_ok_def by blast
qed

lemma replies_routed_witness:
  "\<exists>!t. t < 1 \<and> exchange_key (tk_stage (ss_tasks demo_session ! t)) = Some (internal_key demo_proxy 1)"
proof -
  have "length (ss_tasks demo_session) = 1" "ss_pending demo_session (internal_key demo_proxy 1) \<noteq> None"
    using demo_session_state by auto
  then show ?thesis using replies_routed [OF demo_reachable(1)] by metis
qed

section \<open>Between events\<close>

text \<open>Between events no handler is executing.\<close>

definition idle_but :: "nat \<Rightarrow> 's session \<Rightarrow> bool" where
  "idle_but t st = (\<forall>u < length (ss_tasks st). u \<noteq> t \<longrightarrow> tk_stage (ss_tasks st ! u) \<noteq> Running)"

definition idle :: "'s session \<Rightarrow> bool" where
  "idle st = (\<forall>u < length (ss_tasks st). tk_stage (ss_tasks st ! u) \<noteq> Running)"

named_theorems idle_intros \<open>steps that leave no handler executing\<close>

lemma idle_but_frame [simp]:
  "idle_but t (st\<lparr>ss_store := s\<rparr>) = idle_but t st" "idle_but t (st\<lparr>ss_log := l\<rparr>) = idle_but t st"
  "idle_but t (st\<lparr>ss_failure := b\<rparr>) = idle_but t st" "idle_but t (st\<lparr>ss_hint_shown := b\<rparr>) = idle_but t st"
  "idle_but t (st\<lparr>ss_pending := q\<rparr>) = idle_but t st" "idle_but t (st\<lparr>ss_sequence := n\<rparr>) = idle_but t st"
  "idle_but t (st\<lparr>ss_claims := cs\<rparr>) = idle_but t st" "idle_but t (st\<lparr>ss_server := ls\<rparr>) = idle_but t st"
  "idle_but t (task_update t f st) = idle_but t st" "idle_but t (to_client out st) = idle_but t st"
  by (auto simp: idle_but_def to_client_def)

lemma idle_update:
  "idle_but t st \<Longrightarrow> t < length (ss_tasks st) \<Longrightarrow> tk_stage (f (ss_tasks st ! t)) \<noteq> Running \<Longrightarrow> idle (task_update t f st)"
  by (auto simp: idle_def idle_but_def)

lemma idle_leave [idle_intros]: "idle_but t st \<Longrightarrow> finished how \<Longrightarrow> idle (leave t how ans st)"
  by (cases how) (auto simp: idle_def idle_but_def leave_nth)

lemma idle_is_idle_but: "idle st \<Longrightarrow> idle_but t st"
  by (simp add: idle_def idle_but_def)

lemma idle_in_world [simp]:
  "in_world t m st = (r, st') \<Longrightarrow> idle_but t st' = idle_but t st \<and> length (ss_tasks st') = length (ss_tasks st)"
  by (auto simp: in_world_def split: prod.splits)

lemma idle_fail_call [idle_intros]: "idle_but t st \<Longrightarrow> idle (fail_call p t e st)"
  by (simp add: fail_call_def idle_leave)

lemma idle_finish_exchange [idle_intros]: "idle_but t st \<Longrightarrow> idle (finish_exchange p t ac pu out st)"
  by (auto simp: finish_exchange_def intro: idle_intros split: purpose.split prod.split sum.split exchange_outcome.split)

lemma idle_forward [idle_intros]:
  "idle_but t st \<Longrightarrow> t < length (ss_tasks st) \<Longrightarrow> idle (forward p t ac pu st)"
  by (auto simp: forward_def forward_request_def forward_line_def Let_def intro!: idle_intros idle_update split: sum.split)

lemma idle_run_call [idle_intros]:
  "idle_but t st \<Longrightarrow> t < length (ss_tasks st) \<Longrightarrow> idle (run_call p t ac c d st)"
  by (simp add: run_call_def idle_forward)

lemma idle_claim:
  assumes "claim_client_id t st = (b, st')" "idle_but t st" "t < length (ss_tasks st)"
  shows "\<not> b \<Longrightarrow> idle st'" "b \<Longrightarrow> idle_but t st' \<and> t < length (ss_tasks st')"
  using assms by (auto simp: claim_client_id_def intro: idle_leave split: option.splits if_splits)

lemma idle_begin_call [idle_intros]:
  assumes "idle_but t st" "t < length (ss_tasks st)"
  shows "idle (begin_call p t new_id name arguments cost ac ac_end st)"
proof -
  obtain b st1 where claim: "claim_client_id t st = (b, st1)" by fastforce
  show ?thesis
    using claim idle_claim [OF claim assms]
    by (cases b) (auto simp: begin_call_def intro!: idle_intros idle_update split: prod.split sum.split)
qed

lemma idle_begin_pass [idle_intros]:
  assumes "idle_but t st" "t < length (ss_tasks st)"
  shows "idle (begin_pass p t ac st)"
proof -
  obtain b st1 where claim: "claim_client_id t st = (b, st1)" by fastforce
  show ?thesis
    using claim idle_claim [OF claim assms] assms
    by (cases b) (auto simp: begin_pass_def intro!: idle_intros)
qed

lemma idle_client_line: "idle st \<Longrightarrow> idle (client_line_step p l new_id ac ac_end st)"
proof -
  assume "idle st"
  then have "idle_but (length (ss_tasks st)) (st\<lparr>ss_tasks := ss_tasks st @ [k]\<rparr>)" for k
    by (auto simp: idle_but_def idle_def nth_append)
  then show ?thesis
    by (auto simp: client_line_step_def Let_def intro!: idle_intros split: verdict.split)
qed

lemma idle_end_exchange [idle_intros]: "idle st \<Longrightarrow> idle (end_exchange p t ac pu key out st)"
  unfolding end_exchange_def
  by (rule idle_finish_exchange) (simp add: resume_def idle_is_idle_but split: option.split)

lemma idle_set_stage [idle_intros]:
  "idle st \<Longrightarrow> t < length (ss_tasks st) \<Longrightarrow> idle (set_exchange_stage t x st)"
  unfolding set_exchange_stage_def
  by (rule idle_update) (auto simp: idle_is_idle_but idle_def split: stage.split)

lemma idle_frame [simp]:
  "idle (st\<lparr>ss_failure := b\<rparr>) = idle st" "idle (st\<lparr>ss_server := ls\<rparr>) = idle st"
  "idle (st\<lparr>ss_pending := q\<rparr>) = idle st" "idle (to_client out st) = idle st"
  "idle (st\<lparr>ss_store := s\<rparr>) = idle st" "idle (st\<lparr>ss_log := l\<rparr>) = idle st"
  "idle (st\<lparr>ss_reading := b\<rparr>) = idle st"
  by (simp_all add: idle_def to_client_def)

lemma idle_task_event:
  assumes "idle st" "t < length (ss_tasks st)"
  shows "idle (approver_replies p t reply ac ac_end st)" "idle (write_begins t st)"
    "idle (write_drained p t ac st)" "idle (write_fails p t n ac st)" "idle (write_times_out t st)"
    "idle (abort_done p t ac st)" "idle (deadline_passes p t ac st)" "idle (reply_ready p t ac st)"
proof -
  have but: "idle_but t (resume t st)" "length (ss_tasks (resume t st)) = length (ss_tasks st)"
    using assms(1) by (simp_all add: resume_def idle_is_idle_but)
  show "idle (approver_replies p t reply ac ac_end st)"
    using assms but by (auto simp: approver_replies_def intro!: idle_intros split: stage.split sum.split prod.split)
qed (use assms in \<open>auto simp: write_begins_def write_drained_def write_fails_def write_times_out_def
    abort_done_def deadline_passes_def reply_ready_def intro!: idle_intros
    split: stage.split exchange_stage.split option.split future.split\<close>)

lemma idle_step: "idle st \<Longrightarrow> idle (proxy_step p ev st)"
  by (cases ev) (auto simp: proxy_step_def other_processes_def server_ends_def server_line_def
      intro: idle_client_line idle_task_event split: sum.split option.split pyval.split bool.split)

lemma reachable_idle: "reachable p st \<Longrightarrow> idle st"
  by (induction rule: reachable.induct) (simp add: idle_def new_session_def, rule idle_step)

section \<open>The ids the proxy refuses\<close>

lemma held_waiting:
  assumes "session_ok p st" "idle st"
  shows "held st t key \<longleftrightarrow> t < length (ss_tasks st) \<and> waiting (tk_stage (ss_tasks st ! t)) \<and>
    is_request (px_wire p) (tk_line (ss_tasks st ! t)) \<and>
    request_key (line_id (px_wire p) (tk_line (ss_tasks st ! t))) = key"
proof (cases "t < length (ss_tasks st)")
  case True
  let ?k = "ss_tasks st ! t"
  note stage = task_okD(3) [OF assms(1) True]
  have unheld: "tk_claim ?k = None" if "\<not> waiting (tk_stage ?k)"
    using that stage assms(2) True by (cases "tk_stage ?k") (auto simp: stage_ok_def idle_def)
  have other: "tk_claim ?k = None" if w: "waiting (tk_stage ?k)" and "\<not> is_request (px_wire p) (tk_line ?k)"
  proof -
    have kind: "is_call (px_wire p) ?k \<or> is_pass (px_wire p) ?k" and claimed: "claimed ?k"
      using stage w by (auto simp: stage_ok_def purpose_ok_def split: stage.splits purpose.splits)
    then show ?thesis using message_id(2) [OF kind] that(2) by (simp add: claimed_def)
  qed
  show ?thesis
  proof (cases "waiting (tk_stage ?k) \<and> is_request (px_wire p) (tk_line ?k)")
    case yes: True
    then show ?thesis using True waiting_claim [OF assms(1) True] by (auto simp: held_def)
  next
    case False
    then have "tk_claim ?k = None" using unheld other by blast
    with False show ?thesis by (auto simp: held_def)
  qed
qed (simp add: held_def)

text \<open>C17: ids in flight differ. In every session, two requests of the client that wait at the same time,
  for the approver or for the server, have ids with different keys, hence different ids; and the keys
  that the proxy refuses as in use are exactly those of the requests whose handlers still wait: an id
  is taken from its request's first wait until its handler ends, and no longer.\<close>

theorem in_flight_ids_differ:
  assumes "reachable p st"
  shows "(\<forall>t u. t < length (ss_tasks st) \<and> u < length (ss_tasks st) \<and>
      waiting (tk_stage (ss_tasks st ! t)) \<and> waiting (tk_stage (ss_tasks st ! u)) \<and>
      is_request (px_wire p) (tk_line (ss_tasks st ! t)) \<and> is_request (px_wire p) (tk_line (ss_tasks st ! u)) \<and>
      request_key (line_id (px_wire p) (tk_line (ss_tasks st ! t))) =
      request_key (line_id (px_wire p) (tk_line (ss_tasks st ! u))) \<longrightarrow> t = u) \<and>
    (\<forall>key. key \<in> set (ss_claims st) \<longleftrightarrow>
      (\<exists>t < length (ss_tasks st). waiting (tk_stage (ss_tasks st ! t)) \<and>
         is_request (px_wire p) (tk_line (ss_tasks st ! t)) \<and>
         request_key (line_id (px_wire p) (tk_line (ss_tasks st ! t))) = key))"
proof -
  note claims = session_okD(2) [OF reachable_ok [OF assms], unfolded claims_ok_def]
  note held = held_waiting [OF reachable_ok [OF assms] reachable_idle [OF assms]]
  show ?thesis
  proof (intro conjI allI impI)
    fix t u
    assume "t < length (ss_tasks st) \<and> u < length (ss_tasks st) \<and>
      waiting (tk_stage (ss_tasks st ! t)) \<and> waiting (tk_stage (ss_tasks st ! u)) \<and>
      is_request (px_wire p) (tk_line (ss_tasks st ! t)) \<and> is_request (px_wire p) (tk_line (ss_tasks st ! u)) \<and>
      request_key (line_id (px_wire p) (tk_line (ss_tasks st ! t))) =
      request_key (line_id (px_wire p) (tk_line (ss_tasks st ! u)))"
    then have "held st t (request_key (line_id (px_wire p) (tk_line (ss_tasks st ! t))))"
      "held st u (request_key (line_id (px_wire p) (tk_line (ss_tasks st ! t))))"
      unfolding held by simp_all
    with claims show "t = u" by blast
  next
    fix key
    show "key \<in> set (ss_claims st) \<longleftrightarrow>
      (\<exists>t < length (ss_tasks st). waiting (tk_stage (ss_tasks st ! t)) \<and>
         is_request (px_wire p) (tk_line (ss_tasks st ! t)) \<and>
         request_key (line_id (px_wire p) (tk_line (ss_tasks st ! t))) = key)"
      using claims unfolding held by blast
  qed
qed

text \<open>While the demonstration's call waits its id is taken; when the handler has ended it is free.\<close>

lemma in_flight_ids_differ_witness:
  "request_key (PInt 1) \<in> set (ss_claims demo_session) \<and> ss_claims demo_end = []"
proof -
  have "request_key (PInt 1) \<in> set (ss_claims demo_session)"
    using in_flight_ids_differ [OF demo_reachable(1)] demo_request
    by (auto simp: demo_session_state demo_task_def)
  moreover have "set (ss_claims demo_end) = {}"
    using in_flight_ids_differ [OF demo_reachable(2)] demo_end_state by auto
  ultimately show ?thesis by simp
qed

section \<open>Coming to rest\<close>

text \<open>An event of a task touches no other task.\<close>

definition only_task :: "nat \<Rightarrow> 's session \<Rightarrow> 's session \<Rightarrow> bool" where
  "only_task t st st' =
     (length (ss_tasks st') = length (ss_tasks st) \<and>
      (\<forall>u < length (ss_tasks st). u \<noteq> t \<longrightarrow> ss_tasks st' ! u = ss_tasks st ! u))"

lemma only_leave:
  assumes "t < length (ss_tasks st)" "finished how"
  shows "only_task t st (leave t how ans st) \<and> finished (tk_stage (ss_tasks (leave t how ans st) ! t))"
  using assms by (simp add: only_task_def leave_nth)

lemma only_trans: "only_task t a b \<Longrightarrow> only_task t b c \<Longrightarrow> only_task t a c"
  by (simp add: only_task_def)

lemma only_in_world: "in_world t m st = (r, st') \<Longrightarrow> only_task t st st'"
  by (auto simp: in_world_def only_task_def split: prod.splits)

lemma only_length: "only_task t st st' \<Longrightarrow> length (ss_tasks st') = length (ss_tasks st)"
  by (simp add: only_task_def)

lemma fail_call_ends:
  assumes "t < length (ss_tasks st)"
  shows "only_task t st (fail_call p t e st) \<and> finished (tk_stage (ss_tasks (fail_call p t e st) ! t))"
  using only_leave [of t "st\<lparr>ss_hint_shown := b\<rparr>" for b] assms
  by (auto simp: fail_call_def only_task_def leave_nth)

lemma finish_exchange_ends:
  assumes "t < length (ss_tasks st)"
  shows "only_task t st (finish_exchange p t ac pu out st) \<and>
    finished (tk_stage (ss_tasks (finish_exchange p t ac pu out st) ! t))"
proof (cases pu)
  case Passing
  then show ?thesis using only_leave [OF assms] by (cases out) (simp_all add: finish_exchange_def)
next
  case (Calling c d)
  obtain r st' where r: "in_world t (conclude (px_firewall p) ac c d out) st = (r, st')" by fastforce
  note only = only_in_world [OF r]
  have t: "t < length (ss_tasks st')" using only_length [OF only] assms by simp
  show ?thesis
    using Calling r only_trans [OF only] fail_call_ends [OF t] only_leave [OF t]
    by (cases r) (auto simp: finish_exchange_def)
qed

lemma end_exchange_ends:
  assumes "t < length (ss_tasks st)"
  shows "only_task t st (end_exchange p t ac pu key out st) \<and>
    finished (tk_stage (ss_tasks (end_exchange p t ac pu key out st) ! t))"
proof -
  define st' where "st' = resume t (case key of None \<Rightarrow> st
    | Some k \<Rightarrow> st\<lparr>ss_pending := (ss_pending st)(k := None)\<rparr>)"
  have only: "only_task t st st'"
    by (simp add: st'_def resume_def only_task_def task_update_def split: option.split)
  have "t < length (ss_tasks st')" using only_length [OF only] assms by simp
  from finish_exchange_ends [OF this] only_trans [OF only] show ?thesis
    unfolding end_exchange_def st'_def [symmetric] by blast
qed

text \<open>What ends a handler without help from the client or the server: the approver denies, and the
  deadlines pass.\<close>

fun ending :: "'e access \<Rightarrow> nat \<Rightarrow> stage \<Rightarrow> 'e event list" where
  "ending ac t (Asking c d) = [ApproverReplies t (Inr False) ac ac]"
| "ending ac t (Exchanging pu l key x) =
     (case x of
        Awaiting \<Rightarrow> [DeadlinePasses t ac]
      | Aborting \<Rightarrow> [AbortDone t ac]
      | _ \<Rightarrow> [WriteTimesOut t, AbortDone t ac])"
| "ending ac t s = []"

lemma denied_raises: "\<exists>e. fst (finish_approval f ac c d False w) = Inl e"
  by (auto simp: finish_approval_def Let_def bindS_def raiseS_def split: prod.split sum.split)

lemma run_session_append: "run_session p (a @ b) st = run_session p b (run_session p a st)"
  by (simp add: run_session_def)

lemma run_session_single: "run_session p [ev] st = proxy_step p ev st"
  by (simp add: run_session_def)

lemma ending_ends:
  assumes "idle st" "t < length (ss_tasks st)"
  shows "only_task t st (run_session p (ending ac t (tk_stage (ss_tasks st ! t))) st) \<and>
    finished (tk_stage (ss_tasks (run_session p (ending ac t (tk_stage (ss_tasks st ! t))) st) ! t))"
proof (cases "tk_stage (ss_tasks st ! t)")
  case Running
  then show ?thesis using assms by (simp add: idle_def)
next
  case (Asking c d)
  have only: "only_task t st (resume t st)" by (simp add: resume_def only_task_def)
  obtain r st' where r: "in_world t (finish_approval (px_firewall p) ac c d False) (resume t st) = (r, st')"
    by fastforce
  then obtain e where e: "r = Inl e"
    using denied_raises unfolding in_world_def by (metis (no_types, lifting) case_prod_beta fst_conv)
  have only': "only_task t st st'" using only_trans [OF only only_in_world [OF r]] .
  have t: "t < length (ss_tasks st')" using only_length [OF only'] assms(2) by simp
  have "run_session p (ending ac t (Asking c d)) st = fail_call p t e st'"
    using assms(2) Asking r e by (simp add: run_session_def proxy_step_def approver_replies_def)
  then show ?thesis
    using Asking fail_call_ends [OF t, of p e] only_trans [OF only', of "fail_call p t e st'"] by simp
next
  case (Exchanging pu l key x)
  have abort: "only_task t st (abort_done p t ac st') \<and> finished (tk_stage (ss_tasks (abort_done p t ac st') ! t))"
    if "st' = set_exchange_stage t Aborting (st\<lparr>ss_failure := True\<rparr>)" for st'
  proof -
    have only: "only_task t st st'" by (simp add: that set_exchange_stage_def only_task_def task_update_def)
    have t: "t < length (ss_tasks st')" using only_length [OF only] assms(2) by simp
    have "tk_stage (ss_tasks st' ! t) = Exchanging pu l key Aborting"
      using assms(2) Exchanging by (simp add: that set_exchange_stage_def)
    then have "abort_done p t ac st' = end_exchange p t ac pu key TimedOut st'" by (simp add: abort_done_def)
    with end_exchange_ends [OF t] only_trans [OF only] show ?thesis by metis
  qed
  show ?thesis
    using assms(2) Exchanging end_exchange_ends [OF assms(2)] abort [OF refl]
    by (cases x) (simp_all add: run_session_def proxy_step_def write_times_out_def abort_done_def
        deadline_passes_def set_exchange_stage_def)
qed (use assms in \<open>simp_all add: run_session_def only_task_def\<close>)

lemma idle_run: "idle st \<Longrightarrow> idle (run_session p evs st)"
  unfolding run_session_def by (induction evs arbitrary: st) (auto intro: idle_step)

lemma endings:
  assumes "idle st"
  shows "n \<le> length (ss_tasks st) \<Longrightarrow>
    (let st' = run_session p (concat (map (\<lambda>t. ending (ac t) t (tk_stage (ss_tasks st ! t))) [0..<n])) st
     in length (ss_tasks st') = length (ss_tasks st) \<and> idle st' \<and>
        (\<forall>u < length (ss_tasks st).
           if u < n then finished (tk_stage (ss_tasks st' ! u)) else ss_tasks st' ! u = ss_tasks st ! u))"
proof (induction n)
  case 0
  then show ?case using assms by (simp add: run_session_def)
next
  case (Suc n)
  define st1 where "st1 = run_session p (concat (map (\<lambda>t. ending (ac t) t (tk_stage (ss_tasks st ! t))) [0..<n])) st"
  have ih: "length (ss_tasks st1) = length (ss_tasks st)" "idle st1"
    "\<forall>u < length (ss_tasks st).
       if u < n then finished (tk_stage (ss_tasks st1 ! u)) else ss_tasks st1 ! u = ss_tasks st ! u"
    using Suc by (simp_all add: st1_def Let_def)
  define st2 where "st2 = run_session p (ending (ac n) n (tk_stage (ss_tasks st ! n))) st1"
  have n: "n < length (ss_tasks st1)" "ss_tasks st1 ! n = ss_tasks st ! n" using ih Suc.prems by auto
  have ends: "only_task n st1 st2 \<and> finished (tk_stage (ss_tasks st2 ! n))"
    using ending_ends [OF ih(2) n(1), of p "ac n"] unfolding n(2) st2_def .
  have idle: "idle st2" using idle_run [OF ih(2)] by (simp add: st2_def)
  have "run_session p (concat (map (\<lambda>t. ending (ac t) t (tk_stage (ss_tasks st ! t))) [0..<Suc n])) st = st2"
    by (simp add: st2_def st1_def run_session_append)
  then show ?case
    using ends idle ih(1,3) by (auto simp: Let_def only_task_def less_Suc_eq split: if_splits)
qed

lemma ending_length: "length (ending ac t s) \<le> 2"
  by (cases "(ac, t, s)" rule: ending.cases) (auto split: exchange_stage.split)

text \<open>What needs neither the client nor the server nor a yes: the approver refuses, a deadline of a write or
  of a reply passes, or a server that is being killed is gone. What the database and the disk then do for
  the handler \<open>t\<close> is \<open>ac t\<close>.\<close>

fun closing :: "(nat \<Rightarrow> 'e access) \<Rightarrow> 'e event \<Rightarrow> bool" where
  "closing ac (ApproverReplies t reply a b) = (reply = Inr False \<and> a = ac t \<and> b = ac t)"
| "closing ac (WriteTimesOut t) = True"
| "closing ac (AbortDone t a) = (a = ac t)"
| "closing ac (DeadlinePasses t a) = (a = ac t)"
| "closing ac ev = False"

lemma ending_closing: "list_all (closing ac) (ending (ac t) t s)"
  by (cases "(ac t, t, s)" rule: ending.cases) (auto split: exchange_stage.split)

text \<open>C18: a session can always come to rest without the client, the server or a yes. From every session that
  events can lead to, whatever the database and the disk then do for each handler, refusals of the approver,
  deadlines of the writes and replies, and the ends of the servers that a stalled write has killed, at
  most two such events for each handler, end every handler; then no id is in use and no future is pending.\<close>

theorem session_comes_to_rest:
  fixes p :: "('e, 's) proxy" and ac :: "nat \<Rightarrow> 'e access"
  assumes "reachable p st"
  shows "\<exists>evs. list_all (closing ac) evs \<and> length evs \<le> 2 * length (ss_tasks st) \<and>
    (\<forall>u < length (ss_tasks st). finished (tk_stage (ss_tasks (run_session p evs st) ! u))) \<and>
    ss_claims (run_session p evs st) = [] \<and> ss_pending (run_session p evs st) = Map.empty"
proof -
  define evs where "evs = concat (map (\<lambda>t. ending (ac t) t (tk_stage (ss_tasks st ! t))) [0..<length (ss_tasks st)])"
  define st' where "st' = run_session p evs st"
  have rest: "length (ss_tasks st') = length (ss_tasks st)"
    "\<forall>u < length (ss_tasks st). finished (tk_stage (ss_tasks st' ! u))"
    using endings [OF reachable_idle [OF assms] order.refl, of p ac] by (simp_all add: Let_def st'_def evs_def)
  have ok: "session_ok p st'" unfolding st'_def by (rule reachable_ok [OF reachable_run [OF assms]])
  have "\<not> held st' u key" for u key
  proof
    assume h: "held st' u key"
    then have u: "u < length (ss_tasks st')" by (simp add: held_def)
    then have "tk_claim (ss_tasks st' ! u) = None"
      using task_okD(3) [OF ok u] rest by (cases "tk_stage (ss_tasks st' ! u)") (auto simp: stage_ok_def)
    with h show False by (simp add: held_def)
  qed
  then have "set (ss_claims st') = {}" using session_okD(2) [OF ok] unfolding claims_ok_def by auto
  moreover have "\<not> keyed st' u key" for u key
    using rest by (cases "tk_stage (ss_tasks st' ! u)") (auto simp: keyed_def)
  then have "ss_pending st' key = None" for key
    using session_okD(3) [OF ok] unfolding pending_ok_def by blast
  moreover have "length evs \<le> 2 * length (ss_tasks st)"
  proof -
    have "length (concat (map (\<lambda>t. ending (ac t) t (tk_stage (ss_tasks st ! t))) [0..<n])) \<le> 2 * n" for n
    proof (induction n)
      case (Suc n)
      then show ?case using ending_length [of "ac n" n "tk_stage (ss_tasks st ! n)"] by simp
    qed simp
    then show ?thesis by (simp add: evs_def)
  qed
  moreover have "list_all (closing ac) evs"
    using ending_closing [of ac] by (simp add: evs_def list_all_iff)
  ultimately show ?thesis using rest(2) unfolding st'_def by (intro exI [of _ evs]) auto
qed

lemma session_comes_to_rest_witness:
  "\<exists>evs. list_all (closing (\<lambda>_. calm ())) evs \<and> length evs \<le> 2 \<and>
     finished (tk_stage (ss_tasks (run_session demo_proxy evs demo_session) ! 0)) \<and>
     ss_claims (run_session demo_proxy evs demo_session) = []"
  using session_comes_to_rest [OF demo_reachable(1), of "\<lambda>_. calm ()"] by (auto simp: demo_session_state)

section \<open>Two answers that say too little\<close>

text \<open>When the pipe to the server breaks after a tool call was handed over, the client reads that the call
  was not executed, although the server has the line.\<close>

lemma broken_pipe_denies_call:
  "let st = run_session demo_proxy [WriteFails 0 ''ConnectionResetError'' (calm ())] demo_session
   in ss_server st = [(0, demo_payload)] \<and>
      ss_client st = [FromTask 0 (error_response (PInt 1)
        (plain_error INTERNAL_ERROR ''internal firewall error; call not executed''))]"
  by (simp add: run_session_def demo_session_state demo_task_def proxy_step_def demo_message_def
      demo_proxy_def evals)

end
