(* ===== verification/WebApproval.thy ===== *)
theory WebApproval
  imports ApprovalQueue Dashboard FirewallCore
begin

text \<open>
  Approval over the web, as it is deployed: the proxy of a held call waits on the queue
  (\<open>SQLiteApprovalQueue.__call__\<close>), dashboards of any number of processes serve browsers that post decisions
  to the same table, and other proxies submit their calls and give up on them. Result: a held call runs only
  if some browser posted its approval past every guard of a dashboard; no other process, no time-out and no
  request for another call can bring it about.
\<close>

section \<open>The clients of the table\<close>

text \<open>What a POST does to the table: at most one decision.\<close>

definition post_ops :: "'b dashboard_env \<Rightarrow> request \<Rightarrow> queue_op list" where
  "post_ops de rq =
     (case post_guards de rq of
        Inr (Inr quoted_id) \<Rightarrow>
          (case bindR (de_body de (rq_read rq (nat (post_length de rq)))) body_decision of
             Inr status \<Rightarrow> [OpDecide (de_db de) (de_now de) (de_unquote de quoted_id) status]
           | Inl e \<Rightarrow> [])
      | _ \<Rightarrow> [])"

lemma do_POST_ops: "snd (do_POST de rq db) = run_ops (post_ops de rq) db"
  by (auto simp: do_POST_def post_ops_def run_ops_def split: sum.splits prod.splits)

datatype 'b queue_client =
    ProxySubmits db_outcome string tool_call decision
  | ProxyGivesUp db_outcome string string
  | BrowserPosts "'b dashboard_env" request

fun client_ops :: "'b queue_client \<Rightarrow> queue_op list" where
  "client_ops (ProxySubmits outcome now c d) = [OpRequest outcome now c d]"
| "client_ops (ProxyGivesUp outcome now call_id) = [OpDecide outcome now call_id ''denied'']"
| "client_ops (BrowserPosts de rq) = post_ops de rq"

text \<open>A round of the waiting loop among these clients.\<close>

record 'b web_round =
  wb_clock :: rat
  wb_clients :: "'b queue_client list"
  wb_late :: "'b queue_client list"
  wb_db :: db_outcome
  wb_now :: string

definition round_of :: "'b web_round \<Rightarrow> round_env" where
  "round_of wb =
     \<lparr>rn_clock = wb_clock wb, rn_others = concat (map client_ops (wb_clients wb)),
      rn_others_late = concat (map client_ops (wb_late wb)), rn_db = wb_db wb, rn_now = wb_now wb\<rparr>"

text \<open>The approver of the firewall: the wait, whose exceptions reach the firewall by their type's name.\<close>

definition queue_reply :: "(exc \<Rightarrow> string) \<Rightarrow> (exc, bool) result \<Rightarrow> approver_reply" where
  "queue_reply type_name out =
     ReplyAwaitable (case out of Inl e \<Rightarrow> Inl (type_name e) | Inr b \<Rightarrow> Inr b)"

declare post_ops_def [evals] round_of_def [evals] queue_reply_def [evals]

section \<open>Who approves\<close>

text \<open>A POST that passes every guard, names the call and says approved.\<close>

definition post_approves :: "'b dashboard_env \<Rightarrow> request \<Rightarrow> string \<Rightarrow> bool" where
  "post_approves de rq call_id \<longleftrightarrow>
     host_allowed (rq_host rq) \<and> origin_allowed (rq_origin rq) = Inr True \<and>
     header_or [] (rq_token rq) = de_token de \<and>
     starts_with ''application/json'' (header_or [] (rq_content_type rq)) \<and>
     1 \<le> post_length de rq \<and> post_length de rq \<le> 1024 \<and>
     (\<exists>quoted_id. target_path (rq_target rq) = Inr (approvals_prefix @ quoted_id) \<and>
        de_unquote de quoted_id = call_id) \<and>
     bindR (de_body de (rq_read rq (nat (post_length de rq)))) body_decision = Inr ''approved''"

definition approves :: "string \<Rightarrow> queue_op \<Rightarrow> bool" where
  "approves call_id q = (\<exists>outcome now. q = OpDecide outcome now call_id ''approved'')"

lemma post_ops_accepted:
  assumes "q \<in> set (post_ops de rq)"
  shows "\<exists>quoted_id status. post_guards de rq = Inr (Inr quoted_id) \<and>
    bindR (de_body de (rq_read rq (nat (post_length de rq)))) body_decision = Inr status \<and>
    q = OpDecide (de_db de) (de_now de) (de_unquote de quoted_id) status"
proof (cases "post_guards de rq")
  case (Inr a)
  with assms show ?thesis
    by (cases a; cases "bindR (de_body de (rq_read rq (nat (post_length de rq)))) body_decision")
       (simp_all add: post_ops_def)
qed (use assms in \<open>simp add: post_ops_def\<close>)

lemma client_approves:
  assumes "q \<in> set (client_ops cl)" "approves call_id q"
  shows "\<exists>de rq. cl = BrowserPosts de rq \<and> post_approves de rq call_id"
proof (cases cl)
  case (BrowserPosts de rq)
  with assms(1) post_ops_accepted [of q de rq] obtain quoted_id status where accepted:
    "post_guards de rq = Inr (Inr quoted_id)"
    "bindR (de_body de (rq_read rq (nat (post_length de rq)))) body_decision = Inr status"
    "q = OpDecide (de_db de) (de_now de) (de_unquote de quoted_id) status"
    by auto
  then have "de_unquote de quoted_id = call_id" "status = ''approved''"
    using assms(2) by (simp_all add: approves_def)
  then have "post_approves de rq call_id"
    using post_guards_accept [OF accepted(1)] accepted(2) by (auto simp: post_approves_def)
  with BrowserPosts show ?thesis by blast
qed (use assms in \<open>auto simp: approves_def\<close>)

lemma run_op_approved:
  assumes "status_of (run_op q db) j = Some Approved" "status_of db j \<noteq> Some Approved"
  shows "approves j q"
proof (cases q)
  case (OpRequest outcome now c d)
  with assms show ?thesis
    by (cases outcome) (auto simp: approval_request_def Let_def status_of_def insert_request_lookup split: if_splits)
next
  case (OpDecide outcome now i status)
  with assms show ?thesis
    by (cases outcome; cases "map_of db i")
       (auto simp: approval_decide_def Let_def status_of_def approves_def split: if_splits)
qed

lemma run_ops_approved:
  "status_of (run_ops ops db) j = Some Approved \<Longrightarrow> status_of db j \<noteq> Some Approved \<Longrightarrow>
     \<exists>q \<in> set ops. approves j q"
  unfolding run_ops_def
proof (induction ops arbitrary: db)
  case (Cons q ops)
  then show ?case using run_op_approved [of q db j] by (cases "status_of (run_op q db) j = Some Approved") auto
qed simp

lemma finish_timeout_approved:
  assumes "finish_timeout j rn db = (Inr True, db')" "status_of db j \<noteq> Some Approved"
  shows "\<exists>q \<in> set (rn_others_late rn). approves j q"
proof -
  obtain r db1 where dec: "approval_decide (rn_db rn) (rn_now rn) j ''denied'' db = (r, db1)" by fastforce
  then have "db1 = run_ops [OpDecide (rn_db rn) (rn_now rn) j ''denied''] db" by (simp add: run_ops_def)
  then have before: "status_of db1 j \<noteq> Some Approved"
    using run_ops_approved [of "[OpDecide (rn_db rn) (rn_now rn) j ''denied'']" db j] assms(2)
    by (auto simp: approves_def)
  have db': "db' = run_ops (rn_others_late rn) db1"
    using assms(1) dec by (auto simp: finish_timeout_def Let_def split: sum.splits exc.splits)
  from finish_timeout_decided [OF assms(1)] have "status_of db' j = Some Approved"
    by (auto simp: status_of_def)
  with run_ops_approved [OF _ before] show ?thesis unfolding db' by blast
qed

lemma wait_loop_approved:
  "wait_loop dl j rns db = Some (Inr True, db') \<Longrightarrow> status_of db j \<noteq> Some Approved \<Longrightarrow>
     \<exists>rn \<in> set rns. \<exists>q \<in> set (rn_others rn) \<union> set (rn_others_late rn). approves j q"
proof (induction dl j rns db rule: wait_loop.induct)
  case (2 dl j rn rns db)
  let ?db = "run_ops (rn_others rn) db"
  show ?case
  proof (cases "status_of ?db j = Some Approved")
    case True
    then show ?thesis using run_ops_approved [of "rn_others rn" db j] "2.prems"(2) by auto
  next
    case False
    show ?thesis
    proof (cases "rn_clock rn < dl")
      case True
      from "2.prems"(1) True obtain rec where rec: "approval_get (rn_db rn) j ?db = Inr rec"
        by (auto simp: Let_def split: sum.splits)
      then have "status_of ?db j = Some (ar_status rec)"
        by (auto simp: approval_get_def status_of_def split: db_outcome.splits option.splits)
      with False have "ar_status rec \<noteq> Approved" by simp
      with "2.prems"(1) True rec have pend: "ar_status rec = Pending" and rest: "wait_loop dl j rns ?db = Some (Inr True, db')"
        by (auto simp: Let_def split: if_splits)
      from "2.IH" [OF refl True rec _ rest False] pend show ?thesis by auto
    next
      case timeout: False
      with "2.prems"(1) have "finish_timeout j rn ?db = (Inr True, db')" by (simp add: Let_def)
      from finish_timeout_approved [OF this False] show ?thesis by auto
    qed
  qed
qed simp

lemma wait_approved:
  assumes "approval_wait outcome now clock timeout c d rns db = Some (Inr True, db')"
    and "status_of db (tc_id c) \<noteq> Some Approved"
  shows "\<exists>rn \<in> set rns. \<exists>q \<in> set (rn_others rn) \<union> set (rn_others_late rn). approves (tc_id c) q"
proof -
  let ?db = "snd (approval_request outcome now c d db)"
  from assms(1) have loop: "wait_loop (clock + timeout) (tc_id c) rns ?db = Some (Inr True, db')"
    by (auto simp: approval_wait_def split: prod.splits sum.splits)
  have "status_of ?db (tc_id c) \<noteq> Some Approved"
    using run_op_approved [of "OpRequest outcome now c d" db "tc_id c"] assms(2) by (auto simp: approves_def)
  from wait_loop_approved [OF loop this] show ?thesis .
qed

lemma web_wait_approved:
  assumes "approval_wait outcome now clock timeout c d (map round_of plan) db = Some (Inr True, db')"
    and "status_of db (tc_id c) \<noteq> Some Approved"
  shows "\<exists>wb \<in> set plan. \<exists>de rq. BrowserPosts de rq \<in> set (wb_clients wb @ wb_late wb) \<and>
    post_approves de rq (tc_id c)"
proof -
  from wait_approved [OF assms] obtain wb q where wb: "wb \<in> set plan" "approves (tc_id c) q"
    "q \<in> set (concat (map client_ops (wb_clients wb @ wb_late wb)))"
    by (auto simp: round_of_def)
  then obtain cl where "cl \<in> set (wb_clients wb @ wb_late wb)" "q \<in> set (client_ops cl)" by auto
  with client_approves [OF this(2) wb(2)] wb(1) show ?thesis by blast
qed

section \<open>Properties\<close>

text \<open>The consent behind a call that is approved over the web is a human's. When the policy refers a
  call to a human, the approver is the queue and the tool runs, then in some round of the wait a browser
  posted, to a dashboard on the loopback host, with that dashboard's token and from no foreign origin, the
  word approved for exactly this call. Time-outs, other proxies, posts for other calls and posts a guard
  refuses never do it, in whatever order they come.\<close>

theorem web_consent:
  assumes "policy_from_dict raw = Inr p" "call_values_ok c" "cost_ok None (tc_cost c)"
    and "sqlite_inv (w_store w)" "evaluate p c (sqlite_abs (w_store w)) = Inr d" "d_kind d = REQUIRE_APPROVAL"
    and "status_of db (tc_id c) \<noteq> Some Approved"
    and "approval_wait outcome now clock timeout c d (map round_of plan) db = Some (answer, db')"
    and "ce_approver ce = Some (queue_reply type_name answer)"
    and "execute (sqlite_firewall p path audit) ce c w = (r, w')" "EToolRan \<in> set (new_effects w w')"
  shows "\<exists>wb \<in> set plan. \<exists>de rq. BrowserPosts de rq \<in> set (wb_clients wb @ wb_late wb) \<and>
    post_approves de rq (tc_id c)"
proof -
  have "consents ce"
    using sqlite.execute_consent [OF sqlite_on_store sqlite_quiet [OF policy_from_dict_ok [OF assms(1)]
      assms(2)] assms(4,3) _ assms(6,10,11)] assms(5) by simp
  with assms(9) have "answer = Inr True"
    by (cases answer) (auto simp: consents_def queue_reply_def)
  with web_wait_approved assms(7,8) show ?thesis by blast
qed

definition sample_plan :: "unit web_round list" where
  "sample_plan =
     [\<lparr>wb_clock = 1, wb_clients = [ProxySubmits DbOk ''now'' other_call (rule_decision 1 (p_rules sample_policy ! 1))],
       wb_late = [], wb_db = DbOk, wb_now = ''now''\<rparr>,
      \<lparr>wb_clock = 2, wb_clients = [ProxyGivesUp DbOk ''now'' ''c3'', BrowserPosts sample_env sample_post],
       wb_late = [], wb_db = DbOk, wb_now = ''now''\<rparr>]"

lemma sample_post_ops: "post_ops sample_env sample_post = [OpDecide DbOk ''later'' ''c2'' ''approved'']"
proof -
  have "host_allowed (rq_host sample_post)" by (simp add: sample_post_def evals)
  moreover have "origin_allowed (rq_origin sample_post) = Inr True" by (simp add: sample_post_def evals)
  moreover have "target_path (rq_target sample_post) = Inr ''/api/approvals/c2''"
    by (simp add: sample_post_def evals)
  moreover have "post_length sample_env sample_post = 23"
    by (simp add: sample_env_def sample_post_def post_length_def header_or_def)
  moreover have "compare_digest (header_or [] (rq_token sample_post)) (de_token sample_env) = Inr True"
    by (simp add: sample_env_def sample_post_def evals)
  moreover have "starts_with ''application/json'' (header_or [] (rq_content_type sample_post))"
    by (simp add: sample_post_def header_or_def)
  ultimately have guards: "post_guards sample_env sample_post = Inr (Inr ''c2'')"
    by (simp add: post_guards_def refuse_unless_def approvals_prefix_def)
  show ?thesis by (simp add: post_ops_def guards) (simp add: sample_env_def evals)
qed

lemma sample_wait:
  "\<exists>db'. approval_wait DbOk ''now'' 0 300 deploy_call (rule_decision 1 (p_rules sample_policy ! 1))
     (map round_of sample_plan) [] = Some (Inr True, db')"
  by (simp add: sample_plan_def round_of_def sample_post_ops) (simp add: evals deploy_call_def other_call_def)

theorem web_consent_witness:
  "\<exists>wb \<in> set sample_plan. \<exists>de rq. BrowserPosts de rq \<in> set (wb_clients wb @ wb_late wb) \<and>
    post_approves de rq ''c2''"
proof -
  let ?w = "start_world (sqlite_initialize new_db) :: sqlite_db world"
  let ?d = "rule_decision 1 (p_rules sample_policy ! 1)"
  let ?ce = "(calm_env DbOk (Some (queue_reply (\<lambda>_. []) (Inr True)))) \<lparr>ce_async := True\<rparr>"
  let ?run = "execute (sqlite_firewall sample_policy ''s'' None) ?ce deploy_call ?w"
  have w: "sqlite_inv (w_store ?w)" "sqlite_abs (w_store ?w) = empty_usage"
    using sqlite_new_inv by (simp_all add: start_world_def)
  have ev: "evaluate sample_policy deploy_call (sqlite_abs (w_store ?w)) = Inr ?d"
    using sample_decisions(2) w(2) by simp
  have kind: "d_kind ?d = REQUIRE_APPROVAL" by (simp add: sample_policy_def rule_decision_def)
  from sample_wait obtain db' where wait:
    "approval_wait DbOk ''now'' 0 300 deploy_call ?d (map round_of sample_plan) [] = Some (Inr True, db')" by blast
  have ran: "EToolRan \<in> set (new_effects ?w (snd ?run))" by (simp add: evals run_simps)
  have "ce_approver ?ce = Some (queue_reply (\<lambda>_. []) (Inr True))" by (simp add: calm_env_def)
  from web_consent [OF sample_policy_loads sample_calls_ok(2,5) w(1) ev kind _ wait this surjective_pairing ran]
  show ?thesis by (simp add: deploy_call_def status_of_def)
qed

end
