(* ===== verification/SessionConsent.thy ===== *)
theory SessionConsent
  imports ProxyProperties WebApproval
begin

text \<open>
  Consent in a session of the proxy. \<open>ProxyProperties\<close> shows that a call reaches the server only after the
  effects of an approved call; here the approval is traced to an event of the session, the reply of the
  approver to the task that asked, and, when the approver is the queue, to a POST of a browser.
\<close>

section \<open>What an event does to a task\<close>

definition marks :: "effect list \<Rightarrow> effect list" where
  "marks es = filter (\<lambda>e. e = EApproverAsked \<or> e = EToolRan) es"

lemma marks_simps [simp]:
  "marks [] = []" "marks (es @ fs) = marks es @ marks fs"
  "marks (e # es) = (if e = EApproverAsked \<or> e = EToolRan then e # marks es else marks es)"
  by (simp_all add: marks_def)

lemma marks_mem: "EApproverAsked \<in> set es \<longleftrightarrow> EApproverAsked \<in> set (marks es)"
  "EToolRan \<in> set es \<longleftrightarrow> EToolRan \<in> set (marks es)"
  by (auto simp: marks_def)

text \<open>A task neither asks nor runs anything anew, and does not begin to wait for the approver.\<close>

definition calm_task :: "task \<Rightarrow> task \<Rightarrow> bool" where
  "calm_task k k' \<longleftrightarrow>
     tk_line k' = tk_line k \<and> marks (tk_effects k') = marks (tk_effects k) \<and>
     (\<forall>c d. tk_stage k' = Asking c d \<longrightarrow> tk_stage k = Asking c d)"

definition calm_at :: "nat \<Rightarrow> 's session \<Rightarrow> 's session \<Rightarrow> bool" where
  "calm_at t st st' \<longleftrightarrow>
     length (ss_tasks st') = length (ss_tasks st) \<and>
     (\<forall>u < length (ss_tasks st). u \<noteq> t \<longrightarrow> ss_tasks st' ! u = ss_tasks st ! u) \<and>
     (t < length (ss_tasks st) \<longrightarrow> calm_task (ss_tasks st ! t) (ss_tasks st' ! t))"

lemma calm_task_refl [simp]: "calm_task k k"
  by (simp add: calm_task_def)

lemma calm_tasks: "ss_tasks st' = ss_tasks st \<Longrightarrow> calm_at t st st'"
  by (simp add: calm_at_def)

lemma calm_trans: "calm_at t st st1 \<Longrightarrow> calm_at t st1 st2 \<Longrightarrow> calm_at t st st2"
  by (auto simp: calm_at_def calm_task_def)

lemma calm_same: "calm_at t st st1 \<Longrightarrow> ss_tasks st2 = ss_tasks st1 \<Longrightarrow> calm_at t st st2"
  by (simp add: calm_at_def)

lemma calm_update: "(\<And>k. calm_task k (f k)) \<Longrightarrow> calm_at t st (task_update t f st)"
  by (auto simp: calm_at_def)

lemma calm_leave: "(\<And>c d. how \<noteq> Asking c d) \<Longrightarrow> calm_at t st (leave t how answer st)"
  by (simp add: calm_at_def leave_nth calm_task_def)

text \<open>Steps of the firewall that neither ask nor run.\<close>

definition unmarked :: "('s, 'a) step \<Rightarrow> bool" where
  "unmarked m \<longleftrightarrow> (\<forall>w r w'. m w = (r, w') \<longrightarrow> marks (w_effects w') = marks (w_effects w))"

lemma calm_in_world: "unmarked m \<Longrightarrow> in_world t m st = (r, st') \<Longrightarrow> calm_at t st st'"
  by (auto simp: in_world_def unmarked_def calm_at_def calm_task_def split: prod.splits)

lemma unmarked_bind: "unmarked m \<Longrightarrow> (\<And>x. unmarked (g x)) \<Longrightarrow> unmarked (bindS m g)"
  unfolding unmarked_def bindS_def by (auto split: prod.splits sum.splits)

lemma unmarked_pure: "unmarked (raiseS e)" "unmarked (returnS x)"
  by (simp_all add: unmarked_def raiseS_def returnS_def)

lemma unmarked_audit: "unmarked (audit_step f ac ev c d err u)"
  unfolding unmarked_def
proof (intro allI impI)
  fix w r w'
  assume "audit_step f ac ev c d err u w = (r, w')"
  from audit_step_effects(2,3) [OF this] show "marks (w_effects w') = marks (w_effects w)"
    by (cases r) auto
qed

lemma unmarked_reserve: "unmarked (reserve_step f ac c approved)"
  by (auto simp: unmarked_def reserve_step_def log_effect_def split: prod.splits sum.splits)

lemma unmarked_authorize: "unmarked (authorize f ac c)"
  by (auto simp: authorize_def split_beta intro!: unmarked_bind unmarked_reserve unmarked_audit unmarked_pure)

lemma unmarked_approval: "unmarked (finish_approval f ac c d approved)"
  by (auto simp: finish_approval_def split_beta Let_def
      intro!: unmarked_bind unmarked_reserve unmarked_audit unmarked_pure)

lemma unmarked_terminal: "unmarked (audit_terminal f ac ev c d err)"
  using unmarked_audit [of f ac ev c d err]
  by (auto simp: unmarked_def audit_terminal_def split: prod.splits sum.splits if_splits)

lemma unmarked_conclude: "unmarked (conclude f ac c d out)"
  by (auto simp: conclude_def unmarked_terminal split: option.split)

section \<open>Calm steps\<close>

lemma calm_resume: "calm_at t st (resume t st)"
  unfolding resume_def by (rule calm_update) (simp add: calm_task_def)

lemma calm_fail: "calm_at t st (fail_call p t e st)"
proof -
  have "calm_at t (st\<lparr>ss_hint_shown := b\<rparr>) (leave t Ended answer (st\<lparr>ss_hint_shown := b\<rparr>))" for b answer
    by (rule calm_leave) simp
  then show ?thesis unfolding fail_call_def by (simp add: calm_at_def)
qed

lemma calm_finish: "calm_at t st (finish_exchange p t ac pu out st)"
proof (cases pu)
  case Passing
  then show ?thesis by (auto simp: finish_exchange_def intro!: calm_leave split: exchange_outcome.split)
next
  case (Calling c d)
  obtain r st1 where step: "in_world t (conclude (px_firewall p) ac c d out) st = (r, st1)" by fastforce
  have "calm_at t st st1" by (rule calm_in_world [OF unmarked_conclude step])
  moreover have "calm_at t st1 (fail_call p t e st1)" for e by (rule calm_fail)
  moreover have "calm_at t st1 (leave t Ended a st1)" for a by (rule calm_leave) simp
  ultimately show ?thesis
    using Calling step by (cases r) (auto simp: finish_exchange_def intro: calm_trans)
qed

lemma calm_forward: "calm_at t st (forward p t ac pu st)"
proof -
  have stage: "calm_at t st1 (task_update t (\<lambda>k. k\<lparr>tk_stage := Exchanging pu l key Queued\<rparr>) st1)" for st1 l key
    by (rule calm_update) (simp add: calm_task_def)
  have "calm_at t (st\<lparr>ss_sequence := n\<rparr>) (finish_exchange p t ac pu out (st\<lparr>ss_sequence := n\<rparr>))" for n out
    by (rule calm_finish)
  then have "calm_at t st (finish_exchange p t ac pu out (st\<lparr>ss_sequence := n\<rparr>))" for n out
    by (simp add: calm_at_def)
  moreover have "calm_at t st (task_update t (\<lambda>k. k\<lparr>tk_stage := Exchanging pu l key Queued\<rparr>)
      (st\<lparr>ss_sequence := n, ss_pending := q\<rparr>))" for n l key q
    by (rule calm_trans [OF _ stage]) (simp add: calm_tasks)
  ultimately show ?thesis
    using calm_finish stage
    by (auto simp: forward_def forward_request_def forward_line_def Let_def split: sum.split)
qed

lemma calm_end: "calm_at t st (end_exchange p t ac pu key out st)"
proof -
  have "calm_at t st st1 \<Longrightarrow> calm_at t st (finish_exchange p t ac pu out (resume t st1))" for st1
    by (rule calm_trans [OF calm_trans calm_finish]) (auto intro: calm_resume)
  then show ?thesis
    unfolding end_exchange_def by (auto simp: calm_tasks split: option.split)
qed

lemma calm_stage: "calm_at t st (set_exchange_stage t x st)"
  unfolding set_exchange_stage_def by (rule calm_update) (auto simp: calm_task_def split: stage.split)

lemma calm_exchange:
  "calm_at t st (write_begins t st)" "calm_at t st (write_drained p t ac st)" "calm_at t st (write_fails p t n ac st)"
  "calm_at t st (write_times_out t st)" "calm_at t st (abort_done p t ac st)"
  "calm_at t st (deadline_passes p t ac st)" "calm_at t st (reply_ready p t ac st)"
proof -
  have same: "calm_at t st st" by (simp add: calm_tasks)
  have after: "ss_tasks st1 = ss_tasks st \<Longrightarrow> calm_at t st (set_exchange_stage t x st1)" for x st1
    by (rule calm_trans [OF _ calm_stage]) (simp add: calm_tasks)
  show "calm_at t st (write_begins t st)" "calm_at t st (write_drained p t ac st)"
      "calm_at t st (write_fails p t n ac st)" "calm_at t st (write_times_out t st)"
      "calm_at t st (abort_done p t ac st)" "calm_at t st (deadline_passes p t ac st)"
      "calm_at t st (reply_ready p t ac st)"
    unfolding write_begins_def write_drained_def write_fails_def write_times_out_def abort_done_def
      deadline_passes_def reply_ready_def
    by (auto intro: same after calm_end
        split: stage.split exchange_stage.split option.split future.split)
qed

text \<open>The reply of the approver: without a yes to a task that asks, nothing runs; and no task asks anew.\<close>

lemma reply_calm:
  assumes "reply \<noteq> Inr True \<or> (\<forall>c d. tk_stage (ss_tasks st ! t) \<noteq> Asking c d)"
  shows "calm_at t st (approver_replies p t reply ac ac_end st)"
proof (cases "\<exists>c d. tk_stage (ss_tasks st ! t) = Asking c d")
  case False
  then have "approver_replies p t reply ac ac_end st = st"
    by (auto simp: approver_replies_def split: stage.splits)
  then show ?thesis by (simp add: calm_tasks)
next
  case True
  then obtain c d where x: "tk_stage (ss_tasks st ! t) = Asking c d" by blast
  show ?thesis
  proof (cases reply)
    case (Inl n)
    then show ?thesis using x calm_trans [OF calm_resume calm_fail] by (simp add: approver_replies_def)
  next
    case (Inr b)
    with assms x have b: "\<not> b" by auto
    obtain r st1 where step: "in_world t (finish_approval (px_firewall p) ac c d False) (resume t st) = (r, st1)"
      by fastforce
    then obtain e where "r = Inl e"
      using finish_approval_denied by (cases r) (fastforce simp: in_world_def split: prod.splits)+
    with step x Inr b have "approver_replies p t reply ac ac_end st = fail_call p t e st1"
      by (simp add: approver_replies_def)
    then show ?thesis
      using calm_trans [OF calm_trans [OF calm_resume calm_in_world [OF unmarked_approval step]] calm_fail] by simp
  qed
qed

text \<open>The weaker relation that a yes keeps too.\<close>

definition local_at :: "nat \<Rightarrow> 's session \<Rightarrow> 's session \<Rightarrow> bool" where
  "local_at t st st' \<longleftrightarrow>
     length (ss_tasks st') = length (ss_tasks st) \<and>
     (\<forall>u < length (ss_tasks st). u \<noteq> t \<longrightarrow> ss_tasks st' ! u = ss_tasks st ! u) \<and>
     (t < length (ss_tasks st) \<longrightarrow> tk_line (ss_tasks st' ! t) = tk_line (ss_tasks st ! t) \<and>
        (\<forall>c d. tk_stage (ss_tasks st' ! t) = Asking c d \<longrightarrow> tk_stage (ss_tasks st ! t) = Asking c d))"

lemma calm_local: "calm_at t st st' \<Longrightarrow> local_at t st st'"
  by (auto simp: calm_at_def calm_task_def local_at_def)

lemma local_trans: "local_at t st st1 \<Longrightarrow> local_at t st1 st2 \<Longrightarrow> local_at t st st2"
  by (auto simp: local_at_def)

lemma run_call_local: "local_at t st (run_call p t ac c d st)"
proof -
  have "local_at t st (task_update t (\<lambda>k. k\<lparr>tk_effects := tk_effects k @ [EToolRan]\<rparr>) st)"
    by (auto simp: local_at_def)
  then show ?thesis
    unfolding run_call_def by (rule local_trans) (rule calm_local [OF calm_forward])
qed

lemma reply_local: "local_at t st (approver_replies p t reply ac ac_end st)"
proof (cases "reply \<noteq> Inr True \<or> (\<forall>c d. tk_stage (ss_tasks st ! t) \<noteq> Asking c d)")
  case True
  then show ?thesis by (rule calm_local [OF reply_calm])
next
  case False
  then obtain c d where x: "tk_stage (ss_tasks st ! t) = Asking c d" "reply = Inr True" by blast
  obtain r st1 where step: "in_world t (finish_approval (px_firewall p) ac c d True) (resume t st) = (r, st1)"
    by fastforce
  have "local_at t st st1"
    by (rule calm_local [OF calm_trans [OF calm_resume calm_in_world [OF unmarked_approval step]]])
  moreover have "local_at t st1 (fail_call p t e st1)" for e by (rule calm_local [OF calm_fail])
  moreover have "local_at t st1 (run_call p t ac_end c d st1)" by (rule run_call_local)
  ultimately show ?thesis
    using x step by (cases r) (auto simp: approver_replies_def intro: local_trans)
qed

section \<open>New tasks\<close>

text \<open>The lines of the client in the order they come, each with the id that is made for it should it call a
  tool; the handlers of a session are numbered as their lines.\<close>

fun client_lines :: "'e event list \<Rightarrow> (string \<times> string) list" where
  "client_lines [] = []"
| "client_lines (ClientLine bytes new_id ac ac_end # evs) = (bytes, new_id) # client_lines evs"
| "client_lines (ev # evs) = client_lines evs"

lemma client_lines_append: "client_lines (evs @ evs') = client_lines evs @ client_lines evs'"
  by (induction evs rule: client_lines.induct) simp_all

text \<open>The call a task asks for is the one its line spells, under the id that was made for the line.\<close>

definition called_as :: "('e, 's) proxy \<Rightarrow> string \<Rightarrow> task \<Rightarrow> tool_call \<Rightarrow> bool" where
  "called_as p new_id k c \<longleftrightarrow>
     (\<exists>m name arguments cost. classify_line (px_wire p) (tk_line k) = Call m name arguments cost \<and>
        create_call new_id (PStr name) (Some arguments)
          (PObj (dec_text cost) (''Decimal('' @ str_repr (dec_text cost) @ '')'')) = Inr c)"

text \<open>A task has not both asked and run, and if it asks, then for a call with \<open>Q\<close>.\<close>

definition fresh_task :: "(tool_call \<Rightarrow> bool) \<Rightarrow> task \<Rightarrow> bool" where
  "fresh_task Q k \<longleftrightarrow>
     \<not> (EApproverAsked \<in> set (tk_effects k) \<and> EToolRan \<in> set (tk_effects k)) \<and>
     (\<forall>c d. tk_stage k = Asking c d \<longrightarrow> Q c)"

definition starts_at :: "nat \<Rightarrow> (tool_call \<Rightarrow> bool) \<Rightarrow> 's session \<Rightarrow> 's session \<Rightarrow> bool" where
  "starts_at t Q st st' \<longleftrightarrow>
     length (ss_tasks st') = length (ss_tasks st) \<and>
     (\<forall>u < length (ss_tasks st). u \<noteq> t \<longrightarrow> ss_tasks st' ! u = ss_tasks st ! u) \<and>
     (t < length (ss_tasks st) \<longrightarrow>
        tk_line (ss_tasks st' ! t) = tk_line (ss_tasks st ! t) \<and> fresh_task Q (ss_tasks st' ! t))"

definition unstarted :: "nat \<Rightarrow> 's session \<Rightarrow> bool" where
  "unstarted t st \<longleftrightarrow>
     marks (tk_effects (ss_tasks st ! t)) = [] \<and> (\<forall>c d. tk_stage (ss_tasks st ! t) \<noteq> Asking c d)"

lemma calm_starts: "calm_at t st st' \<Longrightarrow> unstarted t st \<Longrightarrow> starts_at t Q st st'"
  by (auto simp: calm_at_def calm_task_def starts_at_def fresh_task_def unstarted_def marks_mem)

lemma calm_unstarted: "calm_at t st st' \<Longrightarrow> unstarted t st \<Longrightarrow> t < length (ss_tasks st) \<Longrightarrow> unstarted t st'"
  by (auto simp: calm_at_def calm_task_def unstarted_def)

lemma starts_trans: "calm_at t st st1 \<Longrightarrow> starts_at t Q st1 st2 \<Longrightarrow> starts_at t Q st st2"
  by (auto simp: calm_at_def calm_task_def starts_at_def)

lemma calm_claim: "claim_client_id t st = (b, st') \<Longrightarrow> calm_at t st st'"
proof -
  have "calm_at t st (task_update t (\<lambda>k. k\<lparr>tk_claim := x\<rparr>) (st\<lparr>ss_claims := y\<rparr>))" for x y
    by (rule calm_trans [OF _ calm_update]) (simp_all add: calm_tasks calm_task_def)
  then show "claim_client_id t st = (b, st') \<Longrightarrow> calm_at t st st'"
    by (auto simp: claim_client_id_def calm_tasks intro!: calm_leave split: option.splits if_splits)
qed

lemma run_call_starts:
  assumes "unstarted t st" "t < length (ss_tasks st)"
  shows "starts_at t Q st (run_call p t ac c d st)"
proof -
  define st1 where "st1 = task_update t (\<lambda>k. k\<lparr>tk_effects := tk_effects k @ [EToolRan]\<rparr>) st"
  have "calm_at t st1 (run_call p t ac c d st)" unfolding st1_def run_call_def by (rule calm_forward)
  moreover have "marks (tk_effects (ss_tasks st1 ! t)) = [EToolRan]" "tk_stage (ss_tasks st1 ! t) = tk_stage (ss_tasks st ! t)"
      "tk_line (ss_tasks st1 ! t) = tk_line (ss_tasks st ! t)" "length (ss_tasks st1) = length (ss_tasks st)"
      "u < length (ss_tasks st) \<Longrightarrow> u \<noteq> t \<Longrightarrow> ss_tasks st1 ! u = ss_tasks st ! u" for u
    using assms by (simp_all add: st1_def unstarted_def)
  ultimately show ?thesis
    using assms by (auto simp: calm_at_def calm_task_def starts_at_def fresh_task_def unstarted_def marks_mem)
qed

lemma begin_call_starts:
  assumes "unstarted t st" "t < length (ss_tasks st)"
  shows "starts_at t (\<lambda>c. create_call new_id (PStr name) (Some arguments)
      (PObj (dec_text cost) (''Decimal('' @ str_repr (dec_text cost) @ '')'')) = Inr c) st
    (begin_call p t new_id name arguments cost ac ac_end st)"
    (is "starts_at t ?Q st ?st'")
proof -
  obtain b st1 where claim: "claim_client_id t st = (b, st1)" by fastforce
  note st1 = calm_claim [OF claim]
  have failed: "starts_at t ?Q st (fail_call p t e st2)" if "calm_at t st st2" for e st2
    by (rule calm_starts [OF calm_trans [OF that calm_fail] assms(1)])
  show ?thesis
  proof (cases b)
    case False
    then show ?thesis using claim calm_starts [OF st1 assms(1)] by (simp add: begin_call_def)
  next
    case True
    show ?thesis
    proof (cases "create_call new_id (PStr name) (Some arguments)
        (PObj (dec_text cost) (''Decimal('' @ str_repr (dec_text cost) @ '')''))")
      case (Inl e)
      then show ?thesis using claim True failed [OF st1] by (simp add: begin_call_def)
    next
      case (Inr c)
      obtain r st2 where auth: "in_world t (authorize (px_firewall p) ac c) st1 = (r, st2)" by fastforce
      note st2 = calm_trans [OF st1 calm_in_world [OF unmarked_authorize auth]]
      have len: "t < length (ss_tasks st2)" using st2 assms(2) by (simp add: calm_at_def)
      note un = calm_unstarted [OF st2 assms]
      show ?thesis
      proof (cases r)
        case (Inl e)
        then show ?thesis using claim True Inr auth failed [OF st2] by (simp add: begin_call_def)
      next
        case d: (Inr d)
        have "starts_at t ?Q st2 (task_update t
            (\<lambda>k. k\<lparr>tk_stage := Asking c d, tk_effects := tk_effects k @ [EApproverAsked]\<rparr>) st2)"
          using un len Inr by (auto simp: starts_at_def fresh_task_def unstarted_def marks_mem)
        moreover have "starts_at t ?Q st2 (run_call p t ac_end c d st2)" by (rule run_call_starts [OF un len])
        ultimately show ?thesis
          using claim True Inr auth d failed [OF st2]
          by (simp add: begin_call_def starts_trans [OF st2])
      qed
    qed
  qed
qed

lemma begin_pass_calm: "calm_at t st (begin_pass p t ac st)"
proof -
  obtain b st1 where claim: "claim_client_id t st = (b, st1)" by fastforce
  have "calm_at t st (forward p t ac Passing st1)" by (rule calm_trans [OF calm_claim [OF claim] calm_forward])
  then show ?thesis
    using claim calm_claim [OF claim] by (cases b) (simp_all add: begin_pass_def calm_forward)
qed

text \<open>A line of the client adds one task and leaves the others as they are.\<close>

lemma client_line_adds:
  fixes st :: "'s session"
  defines "t \<equiv> length (ss_tasks st)"
  shows "length (ss_tasks (client_line_step p bytes new_id ac ac_end st)) = t + 1 \<and>
    (\<forall>u < t. ss_tasks (client_line_step p bytes new_id ac ac_end st) ! u = ss_tasks st ! u) \<and>
    tk_line (ss_tasks (client_line_step p bytes new_id ac ac_end st) ! t) = bytes \<and>
    fresh_task (called_as p new_id (ss_tasks (client_line_step p bytes new_id ac ac_end st) ! t))
      (ss_tasks (client_line_step p bytes new_id ac ac_end st) ! t)"
proof -
  let ?st' = "client_line_step p bytes new_id ac ac_end st"
  define v where "v = classify_line (px_wire p) bytes"
  define st0 where "st0 = st\<lparr>ss_tasks := ss_tasks st @
    [\<lparr>tk_line = bytes, tk_message = verdict_message v, tk_claim = None, tk_stage = Running, tk_effects = []\<rparr>]\<rparr>"
  have st0: "unstarted t st0" "t < length (ss_tasks st0)" "length (ss_tasks st0) = t + 1" "tk_line (ss_tasks st0 ! t) = bytes"
      "\<And>u. u < t \<Longrightarrow> ss_tasks st0 ! u = ss_tasks st ! u"
    by (simp_all add: st0_def t_def unstarted_def nth_append)
  have step: "?st' = (case v of
       Nothing \<Rightarrow> leave t Ended None st0
     | Answer m \<Rightarrow> leave t Ended (Some m) st0
     | AnswerBytes b \<Rightarrow> leave t Ended None (to_client (BytesFromTask t b) st0)
     | Crash e \<Rightarrow> leave t (Escaped e) None st0
     | Pass m \<Rightarrow> begin_pass p t ac_end st0
     | Call m name arguments cost \<Rightarrow> begin_call p t new_id name arguments cost ac ac_end st0)"
    unfolding client_line_step_def v_def st0_def t_def Let_def by (rule refl)
  define Q where "Q = (\<lambda>c. \<exists>m name arguments cost. v = Call m name arguments cost \<and>
    create_call new_id (PStr name) (Some arguments)
      (PObj (dec_text cost) (''Decimal('' @ str_repr (dec_text cost) @ '')'')) = Inr c)"
  have left: "starts_at t Q st0 (leave t how a st0)" if "\<And>c d. how \<noteq> Asking c d" for how a
    using that by (intro calm_starts [OF calm_leave st0(1)])
  have "starts_at t Q st0 ?st'"
  proof (cases v)
    case (AnswerBytes b)
    have "calm_at t st0 (to_client (BytesFromTask t b) st0)" by (simp add: calm_tasks to_client_def)
    then have "calm_at t st0 (leave t Ended None (to_client (BytesFromTask t b) st0))"
      by (rule calm_trans) (rule calm_leave, simp)
    from calm_starts [OF this st0(1)] AnswerBytes step show ?thesis by simp
  next
    case (Pass m)
    then show ?thesis using step calm_starts [OF begin_pass_calm st0(1)] by simp
  next
    case (Call m name arguments cost)
    have "starts_at t (\<lambda>c. create_call new_id (PStr name) (Some arguments)
        (PObj (dec_text cost) (''Decimal('' @ str_repr (dec_text cost) @ '')'')) = Inr c) st0 ?st'"
      using begin_call_starts [OF st0(1,2)] Call step by simp
    then show ?thesis using Call by (auto simp: starts_at_def fresh_task_def Q_def)
  qed (use step left in simp_all)
  moreover have "called_as p new_id (ss_tasks ?st' ! t) = Q" if "tk_line (ss_tasks ?st' ! t) = bytes"
    using that by (auto simp: called_as_def Q_def v_def fun_eq_iff)
  ultimately show ?thesis
    using st0 by (simp add: starts_at_def)
qed

section \<open>Runs\<close>

lemma other_event_calm:
  assumes "\<And>b i a e. ev \<noteq> ClientLine b i a e" "\<And>u r a e. ev \<noteq> ApproverReplies u r a e"
  shows "\<exists>u. calm_at u st (proxy_step p ev st)"
proof (cases "event_task ev")
  case None
  have "ss_tasks (server_line p bytes st) = ss_tasks st" for bytes
    by (auto simp: server_line_def to_client_def split: sum.split option.split pyval.split bool.split)
  with None assms have "ss_tasks (proxy_step p ev st) = ss_tasks st"
    by (cases ev) (auto simp: proxy_step_def server_ends_def to_client_def other_processes_def)
  then show ?thesis by (intro exI [of _ 0] calm_tasks)
next
  case (Some u)
  show ?thesis
  proof (cases "u < length (ss_tasks st)")
    case True
    with Some assms have "calm_at u st (proxy_step p ev st)"
      by (cases ev) (auto simp: proxy_step_def calm_exchange)
    then show ?thesis by blast
  next
    case False
    with Some have "proxy_step p ev st = st" by (simp add: proxy_step_def)
    then show ?thesis by (simp add: calm_tasks)
  qed
qed

text \<open>The reply in a run that let a task go on: a yes, given while the task asked for its own call.\<close>

definition granted ::
  "('e, 's) proxy \<Rightarrow> 's \<Rightarrow> 'e event list \<Rightarrow> nat \<Rightarrow> nat \<Rightarrow> tool_call \<Rightarrow> bool" where
  "granted p s evs i t c \<longleftrightarrow>
     i < length evs \<and> (\<exists>ac ac_end. evs ! i = ApproverReplies t (Inr True) ac ac_end) \<and>
     (let st = run_session p (take i evs) (new_session s)
      in t < length (ss_tasks st) \<and> (\<exists>d. tk_stage (ss_tasks st ! t) = Asking c d))"

definition task_granted :: "('e, 's) proxy \<Rightarrow> 's \<Rightarrow> 'e event list \<Rightarrow> nat \<Rightarrow> task \<Rightarrow> bool" where
  "task_granted p s evs t k \<longleftrightarrow>
     (EApproverAsked \<in> set (tk_effects k) \<and> EToolRan \<in> set (tk_effects k) \<longrightarrow>
        (\<exists>i c. granted p s evs i t c \<and> called_as p (snd (client_lines evs ! t)) k c)) \<and>
     (\<forall>c d. tk_stage k = Asking c d \<longrightarrow> called_as p (snd (client_lines evs ! t)) k c)"

lemma granted_later: "granted p s evs i t c \<Longrightarrow> granted p s (evs @ [ev]) i t c"
  by (auto simp: granted_def nth_append)

text \<open>There is one task for each line, and it holds the line.\<close>

lemma session_lines:
  "length (ss_tasks (run_session p evs (new_session s))) = length (client_lines evs) \<and>
   (\<forall>t < length (client_lines evs).
      tk_line (ss_tasks (run_session p evs (new_session s)) ! t) = fst (client_lines evs ! t))"
proof (induction evs rule: rev_induct)
  case Nil
  then show ?case by (simp add: run_session_def new_session_def)
next
  case (snoc ev evs)
  define st where "st = run_session p evs (new_session s)"
  have st': "run_session p (evs @ [ev]) (new_session s) = proxy_step p ev st"
    by (simp add: run_session_def st_def)
  have IH: "length (ss_tasks st) = length (client_lines evs)"
    "\<And>t. t < length (client_lines evs) \<Longrightarrow> tk_line (ss_tasks st ! t) = fst (client_lines evs ! t)"
    using snoc.IH by (simp_all add: st_def)
  have quiet: "length (ss_tasks st1) = length (client_lines evs) \<and>
      (\<forall>t < length (client_lines evs). tk_line (ss_tasks st1 ! t) = fst (client_lines evs ! t))"
    if "local_at u st st1" for u st1
    using that IH unfolding local_at_def by metis
  consider (ClientLine) bytes new_id ac ac_end where "ev = ClientLine bytes new_id ac ac_end"
    | (ApproverReplies) u reply ac ac_end where "ev = ApproverReplies u reply ac ac_end"
    | (Other) "\<And>b i a e. ev \<noteq> ClientLine b i a e" "\<And>u r a e. ev \<noteq> ApproverReplies u r a e" by blast
  then show ?case
  proof cases
    case (ClientLine bytes new_id ac ac_end)
    then have step: "proxy_step p ev st = client_line_step p bytes new_id ac ac_end st" by (simp add: proxy_step_def)
    note adds = client_line_adds [of p bytes new_id ac ac_end st, folded step]
    have lines: "client_lines (evs @ [ev]) = client_lines evs @ [(bytes, new_id)]"
      by (simp add: client_lines_append ClientLine)
    show ?thesis
      unfolding st' lines using adds IH by (auto simp: nth_append less_Suc_eq)
  next
    case (ApproverReplies u reply ac ac_end)
    then have "local_at u st (proxy_step p ev st)"
      using reply_local [of u st p reply ac ac_end] by (simp add: proxy_step_def local_at_def)
    then show ?thesis unfolding st' using quiet ApproverReplies by (simp add: client_lines_append)
  next
    case Other
    then have "client_lines [ev] = []" by (cases ev) auto
    with Other show ?thesis
      unfolding st' using quiet calm_local other_event_calm by (metis append_Nil2 client_lines_append)
  qed
qed

lemma task_granted_calm:
  assumes "task_granted p s evs t k" "calm_task k k'" "t < length (client_lines evs)"
  shows "task_granted p s (evs @ [ev]) t k'"
proof -
  have "called_as p (snd (client_lines (evs @ [ev]) ! t)) k' c \<longleftrightarrow> called_as p (snd (client_lines evs ! t)) k c" for c
    using assms(2,3) by (simp add: calm_task_def called_as_def client_lines_append nth_append)
  note as = this
  have effects: "EApproverAsked \<in> set (tk_effects k') \<longleftrightarrow> EApproverAsked \<in> set (tk_effects k)"
      "EToolRan \<in> set (tk_effects k') \<longleftrightarrow> EToolRan \<in> set (tk_effects k)"
    using assms(2) marks_mem unfolding calm_task_def by metis+
  have stage: "tk_stage k' = Asking c d \<Longrightarrow> tk_stage k = Asking c d" for c d
    using assms(2) by (simp add: calm_task_def)
  show ?thesis
    using assms(1) stage granted_later [of p s evs _ t _ ev] unfolding task_granted_def effects as by blast
qed

lemma session_granted:
  "t < length (ss_tasks (run_session p evs (new_session s))) \<Longrightarrow>
     task_granted p s evs t (ss_tasks (run_session p evs (new_session s)) ! t)"
proof (induction evs arbitrary: t rule: rev_induct)
  case Nil
  then show ?case by (simp add: run_session_def new_session_def)
next
  case (snoc ev evs)
  define st where "st = run_session p evs (new_session s)"
  have st': "run_session p (evs @ [ev]) (new_session s) = proxy_step p ev st"
    by (simp add: run_session_def st_def)
  have IH: "task_granted p s evs u (ss_tasks st ! u)" if "u < length (ss_tasks st)" for u
    using snoc.IH that unfolding st_def by blast
  have len: "length (ss_tasks st) = length (client_lines evs)" using session_lines [of p evs s] by (simp add: st_def)
  have same: "task_granted p s (evs @ [ev]) u (ss_tasks st ! u)" if "u < length (ss_tasks st)" for u
    by (rule task_granted_calm [OF IH [OF that]]) (use that len in simp_all)
  have calm: "task_granted p s (evs @ [ev]) t (ss_tasks st1 ! t)"
    if "calm_at u st st1" "t < length (ss_tasks st1)" for u st1
  proof (cases "t = u")
    case True
    with that have "u < length (ss_tasks st)" "calm_task (ss_tasks st ! u) (ss_tasks st1 ! u)"
      by (simp_all add: calm_at_def)
    from task_granted_calm [OF IH [OF this(1)] this(2)] this(1) len True show ?thesis by simp
  next
    case False
    then show ?thesis using that same [of t] by (simp add: calm_at_def)
  qed
  have t: "t < length (ss_tasks (proxy_step p ev st))" using snoc.prems st' by simp
  consider (ClientLine) bytes new_id ac ac_end where "ev = ClientLine bytes new_id ac ac_end"
    | (ApproverReplies) u reply ac ac_end where "ev = ApproverReplies u reply ac ac_end"
    | (Other) "\<And>b i a e. ev \<noteq> ClientLine b i a e" "\<And>u r a e. ev \<noteq> ApproverReplies u r a e" by blast
  then have "task_granted p s (evs @ [ev]) t (ss_tasks (proxy_step p ev st) ! t)"
  proof cases
    case (ClientLine bytes new_id ac ac_end)
    then have step: "proxy_step p ev st = client_line_step p bytes new_id ac ac_end st" by (simp add: proxy_step_def)
    note adds = client_line_adds [of p bytes new_id ac ac_end st, folded step]
    show ?thesis
    proof (cases "t < length (ss_tasks st)")
      case True
      then show ?thesis using adds same [OF True] by simp
    next
      case False
      with adds t have new: "t = length (ss_tasks st)" by simp
      then have "snd (client_lines (evs @ [ev]) ! t) = new_id"
        by (simp add: client_lines_append ClientLine len)
      with adds new show ?thesis by (auto simp: task_granted_def fresh_task_def)
    qed
  next
    case (ApproverReplies u reply ac ac_end)
    show ?thesis
    proof (cases "u < length (ss_tasks st)")
      case False
      then show ?thesis using t same [of t] by (simp add: ApproverReplies proxy_step_def)
    next
      case True
      then have step: "proxy_step p ev st = approver_replies p u reply ac ac_end st"
        by (simp add: ApproverReplies proxy_step_def)
      show ?thesis
      proof (cases "t = u \<and> reply = Inr True \<and> (\<exists>c d. tk_stage (ss_tasks st ! u) = Asking c d)")
        case False
        then consider "reply \<noteq> Inr True \<or> (\<forall>c d. tk_stage (ss_tasks st ! u) \<noteq> Asking c d)" | "t \<noteq> u" by blast
        then show ?thesis
        proof cases
          case 1
          then show ?thesis using calm [OF reply_calm] t unfolding step by blast
        next
          case 2
          then show ?thesis
            using reply_local [of u st p reply ac ac_end] t same [of t] unfolding step by (simp add: local_at_def)
        qed
      next
        case yes: True
        then obtain c d where asks: "tk_stage (ss_tasks st ! t) = Asking c d" by blast
        have loc: "tk_line (ss_tasks (proxy_step p ev st) ! t) = tk_line (ss_tasks st ! t)"
            "\<And>c d. tk_stage (ss_tasks (proxy_step p ev st) ! t) = Asking c d \<Longrightarrow> tk_stage (ss_tasks st ! t) = Asking c d"
          using reply_local [of u st p reply ac ac_end] True yes unfolding step by (auto simp: local_at_def)
        have id: "client_lines (evs @ [ev]) ! t = client_lines evs ! t"
          using True yes len by (simp add: client_lines_append nth_append)
        have as: "called_as p (snd (client_lines (evs @ [ev]) ! t)) (ss_tasks (proxy_step p ev st) ! t) c' \<longleftrightarrow>
            called_as p (snd (client_lines evs ! t)) (ss_tasks st ! t) c'" for c'
          by (simp add: called_as_def loc(1) id)
        have "called_as p (snd (client_lines evs ! t)) (ss_tasks st ! t) c" using IH [of t] True yes asks by (auto simp: task_granted_def)
        moreover have "granted p s (evs @ [ev]) (length evs) t c"
          using yes asks True by (simp add: granted_def Let_def ApproverReplies st_def)
        ultimately show ?thesis
          using IH [of t] True yes loc(2) unfolding task_granted_def as by blast
      qed
    qed
  next
    case Other
    then obtain u where "calm_at u st (proxy_step p ev st)" using other_event_calm by blast
    then show ?thesis using calm t by blast
  qed
  then show ?case unfolding st' .
qed

section \<open>Properties\<close>

text \<open>The replies of the queue: every yes that a waiting task gets is what the wait for its call came to, by
  the schedule of clients that is given for the task, for a call not approved before.\<close>

definition queue_answers ::
  "('e, 's) proxy \<Rightarrow> 's \<Rightarrow> 'e event list \<Rightarrow> (nat \<Rightarrow> 'b web_round list) \<Rightarrow> bool" where
  "queue_answers p s evs plan \<longleftrightarrow>
     (\<forall>i t c. granted p s evs i t c \<longrightarrow>
        (\<exists>outcome now clock timeout d db db'. status_of db (tc_id c) \<noteq> Some Approved \<and>
           approval_wait outcome now clock timeout c d (map round_of (plan t)) db = Some (Inr True, db')))"

text \<open>C4: In a session of the proxy whose approver is the queue, with ids that were not approved before they
  were asked for, and for every order of events: when a line of the client calls a tool, the policy first decided to refer the call to a human, and a line of that
  handler reaches the server, then a browser posted, past every guard of a dashboard, the word approved for
  the very id that was made for this line, among the clients of the queue while the handler waited; and
  the call under that id is the one the line spells, with its tool, its arguments and its cost.\<close>

theorem session_web_consent:
  assumes "queue_answers p s evs plan"
    and "(t, l) \<in> set (ss_server (run_session p evs (new_session s)))"
    and "client_lines evs ! t = (bytes, new_id)"
    and "classify_line (px_wire p) bytes = Call m name arguments cost"
    and "tk_effects (ss_tasks (run_session p evs (new_session s)) ! t) = EReserved False d # es"
    and "d_kind d = REQUIRE_APPROVAL"
  shows "t < length (client_lines evs) \<and>
    (\<exists>c. create_call new_id (PStr name) (Some arguments)
        (PObj (dec_text cost) (''Decimal('' @ str_repr (dec_text cost) @ '')'')) = Inr c \<and>
      tc_id c = new_id \<and> tc_name c = name \<and> tc_arguments c = arguments) \<and>
    (\<exists>wb \<in> set (plan t). \<exists>de rq. BrowserPosts de rq \<in> set (wb_clients wb @ wb_late wb) \<and>
       post_approves de rq new_id)"
proof -
  define st where "st = run_session p evs (new_session s)"
  let ?k = "ss_tasks st ! t"
  have ok: "session_ok p st" unfolding st_def by (intro reachable_ok reachable_run reachable.new)
  have t: "t < length (ss_tasks st)" and sent: "sent_ok p ?k l"
    using session_okD(5) [OF ok] assms(2) by (auto simp: server_ok_def st_def)
  have line: "t < length (client_lines evs)" "tk_line ?k = bytes"
    using session_lines [of p evs s] t assms(3) by (simp_all add: st_def)
  have call: "classify_line (px_wire p) (tk_line ?k) = Call m name arguments cost" using assms(4) line(2) by simp
  then have ran: "EToolRan \<in> set (tk_effects ?k)"
    using sent by (simp add: sent_ok_def is_pass_def)
  have "run_trace (audited (px_firewall p)) (EReserved False d # es)"
    using ran_traced [OF session_okD(1) [OF ok t] ran] assms(5) by (simp add: st_def)
  then have "EApproverAsked \<in> set (EReserved False d # es)"
    using assms(6) unfolding run_trace_def by auto
  then have asked: "EApproverAsked \<in> set (tk_effects ?k)" using assms(5) by (simp add: st_def)
  obtain i c where c: "granted p s evs i t c" "called_as p new_id ?k c"
    using session_granted [of t p evs s] t asked ran assms(3) unfolding task_granted_def st_def by auto
  from assms(1) c(1) obtain outcome now clock timeout d' db db' where wait:
    "status_of db (tc_id c) \<noteq> Some Approved"
    "approval_wait outcome now clock timeout c d' (map round_of (plan t)) db = Some (Inr True, db')"
    unfolding queue_answers_def by blast
  have made: "create_call new_id (PStr name) (Some arguments)
      (PObj (dec_text cost) (''Decimal('' @ str_repr (dec_text cost) @ '')'')) = Inr c"
    using c(2) call by (simp add: called_as_def)
  with create_call_fields [OF made] line(1) web_wait_approved [OF wait(2,1)] show ?thesis by auto
qed

text \<open>The demonstration session, with the yes of the queue.\<close>

definition demo_events :: "unit event list" where
  "demo_events =
     [ClientLine demo_line ''c2'' (calm ()) (calm ()), ApproverReplies 0 (Inr True) (calm ()) (calm ()), WriteBegins 0]"

lemma demo_asks:
  "ss_tasks (run_session demo_proxy (take (Suc 0) demo_events) (new_session empty_usage)) =
     [\<lparr>tk_line = demo_line, tk_message = demo_message, tk_claim = Some (request_key (PInt 1)),
       tk_stage = Asking deploy_call ProxyProperties.demo_decision,
       tk_effects = [EReserved False ProxyProperties.demo_decision, EApproverAsked]\<rparr>]"
  apply (simp add: demo_events_def run_session_def proxy_step_def client_line_step_def demo_proxy_def
      demo_classified new_session_def ProxyProperties.demo_decision_def)
  apply (simp add: evals run_simps demo_message_def del: encode_message_def)
  done

lemma demo_queue_answers: "queue_answers demo_proxy empty_usage demo_events (\<lambda>_. sample_plan)"
  unfolding queue_answers_def
proof (intro allI impI)
  fix i t c
  assume g: "granted demo_proxy empty_usage demo_events i t c"
  then obtain ac ac_end where i: "i < 3" "demo_events ! i = ApproverReplies t (Inr True) ac ac_end"
    by (auto simp: granted_def demo_events_def)
  then have "i = 1" "t = 0" by (auto simp: demo_events_def nth_Cons' split: if_splits)
  with g have "c = deploy_call" by (auto simp: granted_def Let_def demo_asks)
  have fresh: "status_of ([] :: approval_table) (tc_id deploy_call) \<noteq> Some Approved" by (simp add: status_of_def)
  show "\<exists>outcome now clock timeout d db db'. status_of db (tc_id c) \<noteq> Some Approved \<and>
      approval_wait outcome now clock timeout c d (map round_of sample_plan) db = Some (Inr True, db')"
    unfolding \<open>c = deploy_call\<close> using sample_wait fresh by blast
qed

theorem session_web_consent_witness:
  "\<exists>wb \<in> set sample_plan. \<exists>de rq. BrowserPosts de rq \<in> set (wb_clients wb @ wb_late wb) \<and>
     post_approves de rq ''c2''"
proof -
  have run: "run_session demo_proxy demo_events (new_session empty_usage) = demo_session"
    by (simp add: demo_session_def demo_events_def)
  have "client_lines demo_events ! 0 = (demo_line, ''c2'')" by (simp add: demo_events_def)
  from session_web_consent [OF demo_queue_answers, unfolded run, of 0 demo_payload, OF _ this,
      of demo_message "''deploy''" "[]" "DFin False 0 0" ProxyProperties.demo_decision
      "[EApproverAsked, EReserved True ProxyProperties.demo_decision, EToolRan]"]
  show ?thesis
    by (simp add: demo_session_state demo_task_def demo_classified ProxyProperties.demo_decision_def)
qed

end
