(* ===== verification/Spec2Isabelle.thy ===== *)
theory Spec2Isabelle
  imports CallBinding CommandLine SessionConsent
begin

text \<open>
  A model of Agent Firewall (\<open>src/src/agent_firewall\<close>), a policy gate between an agent and its tools.

  \<^bold>\<open>The program and its theories.\<close> A call of a tool (\<open>models.py\<close>: \<open>Models\<close>, with \<open>Sha256\<close> for the fingerprint)
  is decided by a policy (\<open>policy.py\<close>: \<open>Policy\<close>), whose rules match the tool's name by a glob
  (\<open>GlobMatch\<close>) and its arguments by values, globs or typed matchers (\<open>matchers.py\<close>:
  \<open>MatcherValidation\<close> for \<open>compile\<close>, \<open>UrlMatcher\<close>, \<open>TextMatchers\<close> and \<open>Matchers\<close> for \<open>match\<close>). The usage
  of a run is kept in memory or in SQLite (\<open>state.py\<close>: \<open>StateStore\<close>, behind the locale
  \<open>state_store\<close>), evidence in a file of JSON lines (\<open>audit.py\<close>: \<open>AuditLog\<close>), and held calls in a
  table that a human answers (\<open>approvals.py\<close>: \<open>ApprovalQueue\<close>). \<open>firewall.py\<close> composes them around
  the run of a tool (\<open>FirewallCore\<close>): authorization, approval, guarded execution, terminal audit; \<open>CallBinding\<close>
  turns the arguments of a Python call into those the policy sees. Two
  tools explain a decision (\<open>explain.py\<close>: \<open>Explain\<close>) and check a policy (\<open>lint.py\<close>: \<open>Lint\<close>). The proxy
  puts the firewall between an MCP client and a server (\<open>jsonrpc.py\<close>: \<open>JsonRpc\<close>; \<open>mcp_proxy.py\<close>:
  \<open>LineReaders\<close>, \<open>ProxyMessages\<close>, \<open>Proxy\<close>, \<open>ProxyInvariants\<close>, \<open>ProxyProperties\<close>, \<open>SessionConsent\<close>, and \<open>ProxySetup\<close>
  for its configuration and the terminal prompt). Around them: the benchmark of a policy on labelled cases
  (\<open>benchmark.py\<close>: \<open>Benchmark\<close>, \<open>BenchmarkReport\<close>, over the doubles of \<open>PyFloat\<close>), the web dashboard
  (\<open>dashboard.py\<close>: \<open>Dashboard\<close>; \<open>WebApproval\<close> puts the waiting proxy, other proxies and dashboards at one
  table), the checks of an installation (\<open>doctor.py\<close>: \<open>Doctor\<close>) and the commands (\<open>cli.py\<close>: \<open>Cli\<close>, and
  \<open>CommandLine\<close> for the parser of their arguments).

  \<^bold>\<open>Conventions.\<close> A Python exception is the \<open>Inl\<close> of a sum (\<open>Prelude\<close>), with the exceptions of the program
  in the datatype \<open>exc\<close>. A dictionary is an association list in insertion order. A string is a list of
  characters below 256 (\<open>PyText\<close>), a decimal is its sign, digits and exponent (\<open>PyDecimal\<close>, with the
  context's 28 digits), a float is its \<open>repr\<close> (\<open>PyValue\<close>). The parts of the standard library that the
  program relies on are defined: \<open>fnmatch\<close>, \<open>inet_aton\<close> and \<open>ipaddress\<close> (\<open>InetAddr\<close>), \<open>urlsplit\<close>
  (\<open>UrlParse\<close>), \<open>shlex\<close> (\<open>ShellLexer\<close>), \<open>posixpath\<close> (\<open>PosixPath\<close>), \<open>hashlib.sha256\<close>, \<open>json.dumps\<close>
  (\<open>PyValue\<close>, \<open>JsonText\<close>), \<open>json.loads\<close> (\<open>JsonParse\<close>), and \<open>argparse\<close> and \<open>pathlib\<close> (\<open>CommandLine\<close>). Fresh ids, the clock, what the disk and the
  database do, the approver, the tool, and the reading of texts outside the characters of the model
  are arguments of the operations.

  \<^bold>\<open>What the lemmas show.\<close> \<open>Matchers\<close> and its imports: each typed matcher accepts exactly the values its
  documentation names, and always returns. \<open>Policy\<close>: the first matching rule decides within the
  budgets, a document either loads to a policy that decides every call or raises a policy error.
  \<open>StateStore\<close>: both stores keep the contract of the locale, and SQLite refines the memory store.
  \<open>AuditLog\<close>: one record is one line, a failed write is never hidden, values do not leak.
  \<open>ApprovalQueue\<close>: a decision is final and \<open>wait\<close> ends with it. \<open>FirewallCore\<close>: a machine over the
  effects of a call, which every execution follows; from it mediation, consent, budgets and the
  exactness of the error flag. \<open>Explain\<close>: the explanation is the decision. \<open>Lint\<close>: a rule reported as
  unreachable is. \<open>JsonRpc\<close>: messages round-trip and have one reading. \<open>LineReaders\<close>: the framing of
  both streams is the reference. \<open>ProxyInvariants\<close>: the tables of the session are the union of what its
  tasks hold, for every order of events; \<open>ProxyProperties\<close>: mediation, unique ids, one answer for every
  request, routing, and that deadlines and refusals bring a session to rest. \<open>ProxySetup\<close>: the prompt shows every argument on a
  line of its own, and consent is an explicit yes. \<open>CallBinding\<close>: the policy sees what the function
  receives. \<open>Benchmark\<close>: the run is that of a firewall with a fresh store, the counts partition the calls,
  the gate compares unrounded quotients, the freeze detects drift; \<open>BenchmarkReport\<close>: the sums of a report
  agree. \<open>Dashboard\<close>: no request changes an approval but past every guard, foreign hosts are refused, and
  the numbers shown are the records written. \<open>Doctor\<close>: a clean report means that the policy fails closed.
  \<open>WebApproval\<close>: behind a call approved over the web stands a POST that passed every guard and named this
  call; \<open>SessionConsent\<close>: so it is for every call of a client that the proxy hands to the server, by the id made for its line.
  \<open>Cli\<close>: the exit code of \<open>check\<close> is what a fresh firewall does with the call, and the commands that evaluate calls agree with each other.
  \<open>CommandLine\<close>: the server's command is handed over as it is and has no part in the configuration, what is
  accepted is not refused later for its form, and the command the proxy prints for the operator is accepted.

  \<^bold>\<open>Bounds and fuel.\<close> \<open>JsonParse\<close> scans with a fuel of the length of the text, which \<open>scan_fuel\<close> proves
  enough; the stack of the interpreter is the argument \<open>wr_room\<close>, for decoding and encoding alike. The
  waiting loop of \<open>ApprovalQueue\<close> runs over a schedule of rounds and \<open>wait_ends\<close> shows that a schedule
  that reaches the deadline suffices. Nothing else needs fuel.

  \<^bold>\<open>Concurrency.\<close> A step of the firewall is atomic up to its accesses to the store and the disk; what other
  processes do between two accesses is the record \<open>meanwhile\<close>. A handler of the proxy runs from one
  \<open>await\<close> to the next in one step (asyncio has one thread), and the events of \<open>Proxy\<close> come in any order.

  \<^bold>\<open>Not modelled.\<close> Characters above 255, except through \<open>wr_other\<close>; exceptions outside \<open>Exception\<close>
  (cancellation, interrupts); the creation of files, processes and pipes, and the shutdown of the proxy;
  the exhaustion of the stack while an id is turned into a key, which the decoder's own bound precedes;
  the texts of usage, help and errors of the command line parser; a database error of the approval queue
  after its commit; what \<open>run_mcp_proxy\<close> has printed when it then refuses its configuration; the rounding of
  the deadline of an approval to a double; the
  page of the dashboard and its sockets; the files the benchmark writes, which are texts here; and what
  \<open>float\<close>, \<open>int\<close>, \<open>repr\<close> of a float, \<open>unquote\<close> and the file system answer, which are arguments.
\<close>

end
